(* ===== verification/GoPrelude.thy ===== *)
theory GoPrelude
  imports Main "HOL-Library.Sublist"
begin

text \<open>
  The vocabulary every component of the development shares: Go strings as byte lists with the
  functions of the packages \<open>strings\<close> and \<open>strconv\<close> that the sources call, Go's 64-bit
  integer, and results that are an error or a value.

  A \<open>char\<close> is a byte, so \<open>length\<close> is Go's \<open>len\<close>. Case mapping and white space are those
  of ASCII; a byte from 128 on (part of a multi-byte UTF-8 sequence) is left alone by
  \<open>to_lower\<close>, \<open>to_upper\<close> and \<open>trim_space\<close>.
\<close>

named_theorems go_str \<open>unfolding rules of the string functions\<close>

section \<open>Errors as values\<close>

definition bindE :: "'e + 'a \<Rightarrow> ('a \<Rightarrow> 'e + 'b) \<Rightarrow> 'e + 'b" where
  "bindE r f = (case r of Inl e \<Rightarrow> Inl e | Inr x \<Rightarrow> f x)"

lemma bindE_simps [simp]: "bindE (Inl e) f = Inl e" "bindE (Inr x) f = f x"
  by (simp_all add: bindE_def)

lemma bindE_InrE:
  assumes "bindE r f = Inr y"
  obtains x where "r = Inr x" and "f x = Inr y"
  using assms by (cases r) auto

lemma bindE_eq_Inr_iff: "bindE r f = Inr y \<longleftrightarrow> (\<exists>x. r = Inr x \<and> f x = Inr y)"
  by (cases r) auto

lemma bindE_cong [fundef_cong]:
  "r = r' \<Longrightarrow> (\<And>x. r' = Inr x \<Longrightarrow> f x = g x) \<Longrightarrow> bindE r f = bindE r' g"
  by (cases r') auto

text \<open>\<open>check c e\<close> is the Go guard \<open>if c { return e }\<close>: it continues only when \<open>c\<close> is false.\<close>

definition check :: "bool \<Rightarrow> 'e \<Rightarrow> 'e + 'a \<Rightarrow> 'e + 'a" where
  "check c e k = (if c then Inl e else k)"

lemma check_simps [simp]: "check True e k = Inl e" "check False e k = k"
  by (simp_all add: check_def)

lemma check_eq_Inr_iff [simp]: "check c e k = Inr x \<longleftrightarrow> \<not> c \<and> k = Inr x"
  by (simp add: check_def)

section \<open>Bytes\<close>

abbreviation byte_val :: "char \<Rightarrow> nat" where
  "byte_val c \<equiv> of_char c"

definition is_upper :: "char \<Rightarrow> bool" where
  "is_upper c \<longleftrightarrow> 65 \<le> byte_val c \<and> byte_val c \<le> 90"

definition is_lower :: "char \<Rightarrow> bool" where
  "is_lower c \<longleftrightarrow> 97 \<le> byte_val c \<and> byte_val c \<le> 122"

definition is_digit :: "char \<Rightarrow> bool" where
  "is_digit c \<longleftrightarrow> 48 \<le> byte_val c \<and> byte_val c \<le> 57"

text \<open>The ASCII cases differ in bit 5 (\<open>0x20\<close>) only.\<close>

definition set_bit5 :: "bool \<Rightarrow> char \<Rightarrow> char" where
  "set_bit5 b c = (case c of Char b0 b1 b2 b3 b4 b5 b6 b7 \<Rightarrow> Char b0 b1 b2 b3 b4 b b6 b7)"

definition lower_char :: "char \<Rightarrow> char" where
  "lower_char c = (if is_upper c then set_bit5 True c else c)"

definition upper_char :: "char \<Rightarrow> char" where
  "upper_char c = (if is_lower c then set_bit5 False c else c)"

text \<open>ASCII white space of \<open>strings.TrimSpace\<close>: tab, line feed, vertical tab, form feed,
  carriage return and space.\<close>

definition is_space :: "char \<Rightarrow> bool" where
  "is_space c \<longleftrightarrow> (9 \<le> byte_val c \<and> byte_val c \<le> 13) \<or> byte_val c = 32"

lemmas char_class_defs = is_upper_def is_lower_def is_digit_def is_space_def
  lower_char_def upper_char_def set_bit5_def

declare char_class_defs [go_str]

lemma byte_val_set_bit5:
  "is_upper c \<Longrightarrow> byte_val (set_bit5 True c) = byte_val c + 32"
  by (cases c) (auto simp: is_upper_def set_bit5_def of_char_Char of_bool_def split: if_splits)

lemma byte_val_lower_char:
  "byte_val (lower_char c) = (if is_upper c then byte_val c + 32 else byte_val c)"
  by (simp add: lower_char_def byte_val_set_bit5)

lemma lower_char_not_upper [simp]: "\<not> is_upper (lower_char c)"
  by (auto simp: is_upper_def byte_val_lower_char)

lemma lower_char_idem [simp]: "lower_char (lower_char c) = lower_char c"
  by (simp add: lower_char_def [of "lower_char c"])

lemma lower_char_id: "\<not> is_upper c \<Longrightarrow> lower_char c = c"
  by (simp add: lower_char_def)

lemma is_digit_lower_char [simp]: "is_digit (lower_char c) = is_digit c"
  by (auto simp: is_digit_def is_upper_def byte_val_lower_char)

section \<open>Package strings\<close>

definition to_lower :: "string \<Rightarrow> string" where
  "to_lower s = map lower_char s"

definition to_upper :: "string \<Rightarrow> string" where
  "to_upper s = map upper_char s"

definition equal_fold :: "string \<Rightarrow> string \<Rightarrow> bool" where
  "equal_fold s t \<longleftrightarrow> to_lower s = to_lower t"

definition has_prefix :: "string \<Rightarrow> string \<Rightarrow> bool" where
  "has_prefix s p \<longleftrightarrow> take (length p) s = p"

definition has_suffix :: "string \<Rightarrow> string \<Rightarrow> bool" where
  "has_suffix s p \<longleftrightarrow> has_prefix (rev s) (rev p)"

definition trim_prefix :: "string \<Rightarrow> string \<Rightarrow> string" where
  "trim_prefix s p = (if has_prefix s p then drop (length p) s else s)"

definition trim_suffix :: "string \<Rightarrow> string \<Rightarrow> string" where
  "trim_suffix s p = (if has_suffix s p then take (length s - length p) s else s)"

fun str_contains :: "string \<Rightarrow> string \<Rightarrow> bool" where
  "str_contains [] sub \<longleftrightarrow> sub = []"
| "str_contains (c # s) sub \<longleftrightarrow> has_prefix (c # s) sub \<or> str_contains s sub"

text \<open>\<open>strings.IndexByte\<close>: \<open>None\<close> is Go's \<open>-1\<close>.\<close>

fun index_byte :: "string \<Rightarrow> char \<Rightarrow> nat option" where
  "index_byte [] b = None"
| "index_byte (c # s) b = (if c = b then Some 0 else map_option Suc (index_byte s b))"

fun split_byte :: "char \<Rightarrow> string \<Rightarrow> string list" where
  "split_byte b [] = [[]]"
| "split_byte b (c # s) =
     (if c = b then [] # split_byte b s
      else case split_byte b s of [] \<Rightarrow> [[c]] | p # ps \<Rightarrow> (c # p) # ps)"

definition trim_left :: "string \<Rightarrow> string" where
  "trim_left s = dropWhile is_space s"

definition trim_space :: "string \<Rightarrow> string" where
  "trim_space s = rev (trim_left (rev (trim_left s)))"

fun join :: "string \<Rightarrow> string list \<Rightarrow> string" where
  "join sep [] = []"
| "join sep [s] = s"
| "join sep (s # t # ts) = s @ sep @ join sep (t # ts)"

declare to_lower_def [go_str] to_upper_def [go_str] has_prefix_def [go_str]
  has_suffix_def [go_str] trim_prefix_def [go_str] trim_suffix_def [go_str]
  trim_left_def [go_str] trim_space_def [go_str] equal_fold_def [go_str]

lemma to_lower_idem [simp]: "to_lower (to_lower s) = to_lower s"
  by (simp add: to_lower_def)

lemma to_lower_append [simp]: "to_lower (s @ t) = to_lower s @ to_lower t"
  by (simp add: to_lower_def)

lemma length_to_lower [simp]: "length (to_lower s) = length s"
  by (simp add: to_lower_def)

lemma has_prefix_iff_prefix: "has_prefix s p \<longleftrightarrow> prefix p s"
  by (metis append_eq_conv_conj append_take_drop_id has_prefix_def prefix_def)

lemma has_prefix_append [simp]: "has_prefix (p @ s) p"
  by (simp add: has_prefix_def)

lemma str_contains_iff_sublist: "str_contains s sub \<longleftrightarrow> sublist sub s"
  by (induction s) (auto simp: has_prefix_iff_prefix sublist_Cons_right)

lemma index_byte_Some:
  "index_byte s b = Some i \<Longrightarrow> i < length s \<and> s ! i = b \<and> b \<notin> set (take i s)"
  by (induction s arbitrary: i) (auto split: if_splits)

lemma index_byte_None [simp]: "index_byte s b = None \<longleftrightarrow> b \<notin> set s"
  by (induction s) auto

lemma index_byte_append: "b \<notin> set s \<Longrightarrow> index_byte (s @ b # t) b = Some (length s)"
  by (induction s) auto

lemma takeWhile_sep: "b \<notin> set s \<Longrightarrow> takeWhile (\<lambda>c. c \<noteq> b) (s @ b # t) = s"
  by (induction s) auto

lemma split_byte_nonempty [simp]: "split_byte b s \<noteq> []"
  by (induction s) (auto split: list.splits)

lemma split_byte_no_sep: "p \<in> set (split_byte b s) \<Longrightarrow> b \<notin> set p"
  by (induction s arbitrary: p) (auto split: list.splits if_splits)

lemma split_byte_id: "b \<notin> set s \<Longrightarrow> split_byte b s = [s]"
  by (induction s) auto

lemma split_byte_append:
  "b \<notin> set s \<Longrightarrow> split_byte b (s @ b # t) = s # split_byte b t"
  by (induction s) auto

lemma join_split_byte: "join [b] (split_byte b s) = s"
proof (induction s)
  case (Cons c s)
  obtain p ps where "split_byte b s = p # ps"
    by (cases "split_byte b s") auto
  with Cons show ?case by (cases ps) auto
qed simp

section \<open>Package strconv and 64-bit integers\<close>

definition max_int64 :: int where "max_int64 = 9223372036854775807"
definition min_int64 :: int where "min_int64 = - 9223372036854775808"

definition in_int64 :: "int \<Rightarrow> bool" where
  "in_int64 x \<longleftrightarrow> min_int64 \<le> x \<and> x \<le> max_int64"

text \<open>Two's complement wrap-around of Go's \<open>int\<close> and \<open>int64\<close> arithmetic.\<close>

definition wrap64 :: "int \<Rightarrow> int" where
  "wrap64 x = (x + 2 ^ 63) mod 2 ^ 64 - 2 ^ 63"

lemmas int64_defs = max_int64_def min_int64_def in_int64_def

lemma wrap64_in_range [simp]: "in_int64 (wrap64 x)"
proof -
  have "0 \<le> (x + 2 ^ 63) mod 2 ^ 64" "(x + 2 ^ 63) mod 2 ^ 64 < 2 ^ 64"
    by simp_all
  then show ?thesis by (simp add: wrap64_def int64_defs)
qed

lemma wrap64_id [simp]: "in_int64 x \<Longrightarrow> wrap64 x = x"
  by (simp add: wrap64_def int64_defs)

definition digit_char :: "nat \<Rightarrow> char" where
  "digit_char d = ''0123456789'' ! d"

fun nat_to_dec :: "nat \<Rightarrow> string" where
  "nat_to_dec n = (if n < 10 then [digit_char n] else nat_to_dec (n div 10) @ [digit_char (n mod 10)])"

declare nat_to_dec.simps [simp del]

text \<open>\<open>fmt.Sprintf("%d", n)\<close>.\<close>

definition itoa :: "int \<Rightarrow> string" where
  "itoa n = (if n < 0 then CHR ''-'' # nat_to_dec (nat (- n)) else nat_to_dec (nat n))"

definition dec_val :: "string \<Rightarrow> nat" where
  "dec_val s = foldl (\<lambda>acc c. acc * 10 + (byte_val c - 48)) 0 s"

text \<open>\<open>strconv.Atoi\<close>: an optional sign, then one or more decimal digits; a value outside int64 is a
  range error. \<open>None\<close> stands for either error.\<close>

definition atoi :: "string \<Rightarrow> int option" where
  "atoi s =
     (let neg = (s \<noteq> [] \<and> hd s = CHR ''-'');
          ds = (if s \<noteq> [] \<and> (hd s = CHR ''-'' \<or> hd s = CHR ''+'') then tl s else s)
      in if ds = [] \<or> \<not> list_all is_digit ds then None
         else let v = (if neg then - int (dec_val ds) else int (dec_val ds))
              in if in_int64 v then Some v else None)"

lemma digit_cases: "d < 10 \<Longrightarrow> d \<in> {0, 1, 2, 3, 4, 5, 6, 7, 8, 9 :: nat}"
  by auto

lemma digit_char_digit [simp]:
  assumes "d < 10"
  shows "is_digit (digit_char d)" and "byte_val (digit_char d) = 48 + d"
  using digit_cases [OF assms] by (auto simp: digit_char_def is_digit_def)

lemma dec_val_snoc: "dec_val (s @ [c]) = dec_val s * 10 + (byte_val c - 48)"
  by (simp add: dec_val_def)

lemma nat_to_dec_digits: "list_all is_digit (nat_to_dec n)"
proof (induction n rule: nat_to_dec.induct)
  case (1 n)
  then show ?case by (cases "n < 10") (simp_all add: nat_to_dec.simps [of n])
qed

lemma nat_to_dec_nonempty [simp]: "nat_to_dec n \<noteq> []"
  by (simp add: nat_to_dec.simps [of n])

lemma dec_val_nat_to_dec [simp]: "dec_val (nat_to_dec n) = n"
proof (induction n rule: nat_to_dec.induct)
  case (1 n)
  show ?case
  proof (cases "n < 10")
    case True
    then show ?thesis by (simp add: nat_to_dec.simps [of n] dec_val_def)
  next
    case False
    with 1 show ?thesis by (simp add: nat_to_dec.simps [of n] dec_val_snoc)
  qed
qed

lemma nat_to_dec_inj: "nat_to_dec m = nat_to_dec n \<Longrightarrow> m = n"
  by (metis dec_val_nat_to_dec)

lemma nat_to_dec_hd: "hd (nat_to_dec n) \<noteq> CHR ''-''" "hd (nat_to_dec n) \<noteq> CHR ''+''"
proof -
  have "is_digit (hd (nat_to_dec n))"
    using nat_to_dec_digits [of n] nat_to_dec_nonempty [of n]
    by (cases "nat_to_dec n") auto
  then show "hd (nat_to_dec n) \<noteq> CHR ''-''" and "hd (nat_to_dec n) \<noteq> CHR ''+''"
    by (auto simp: is_digit_def)
qed

lemma atoi_itoa: "in_int64 n \<Longrightarrow> atoi (itoa n) = Some n"
  by (simp add: atoi_def itoa_def nat_to_dec_hd nat_to_dec_digits)

lemma atoi_in_int64: "atoi s = Some n \<Longrightarrow> in_int64 n"
  by (auto simp: atoi_def Let_def split: if_splits)

lemma nat_to_dec_not_Cons_minus: "nat_to_dec n \<noteq> CHR ''-'' # xs"
  using nat_to_dec_hd(1) [of n] by auto

lemma itoa_inj: "itoa m = itoa n \<Longrightarrow> m = n"
  using nat_to_dec_inj [of "nat (- m)" "nat (- n)"] nat_to_dec_inj [of "nat m" "nat n"]
  by (auto simp: itoa_def nat_to_dec_not_Cons_minus nat_to_dec_not_Cons_minus [symmetric]
      split: if_splits)

lemma not_digit_itoa: "c \<in> set (itoa n) \<Longrightarrow> is_digit c \<or> c = CHR ''-''"
  using nat_to_dec_digits by (auto simp: itoa_def list_all_iff split: if_splits)

end
