(* ===== verification/GoTime.thy ===== *)
theory GoTime
  imports GoPrelude
begin

text \<open>
  The part of Go's package \<open>time\<close> that the sources use. A \<open>time.Time\<close> is an instant (nanoseconds
  since the Unix epoch) with the offset of its location in seconds east of UTC; a location is a
  fixed offset, so no daylight-saving rule changes it. Calendar arithmetic is the proleptic
  Gregorian calendar, over unbounded integers.
\<close>

record gotime =
  t_ns :: int
  t_off :: int

definition ns_per_sec :: int where "ns_per_sec = 1000000000"
definition ns_per_hour :: int where "ns_per_hour = 3600000000000"
definition ns_per_day :: int where "ns_per_day = 86400000000000"

lemmas ns_defs = ns_per_sec_def ns_per_hour_def ns_per_day_def

section \<open>Comparison and durations\<close>

definition Before :: "gotime \<Rightarrow> gotime \<Rightarrow> bool" where "Before a b \<longleftrightarrow> t_ns a < t_ns b"
definition After :: "gotime \<Rightarrow> gotime \<Rightarrow> bool" where "After a b \<longleftrightarrow> t_ns b < t_ns a"
definition Equal :: "gotime \<Rightarrow> gotime \<Rightarrow> bool" where "Equal a b \<longleftrightarrow> t_ns a = t_ns b"

lemmas time_cmp_defs = Before_def After_def Equal_def

definition time_Add :: "gotime \<Rightarrow> int \<Rightarrow> gotime" where
  "time_Add t d = t\<lparr>t_ns := t_ns t + d\<rparr>"

definition UTC :: "gotime \<Rightarrow> gotime" where
  "UTC t = t\<lparr>t_off := 0\<rparr>"

section \<open>The civil calendar\<close>

text \<open>
  Days are counted from 1970-01-01. The year is cut before March, so that the leap day is the last
  day of a computational year: 400 years are 146097 days, a century 36524 (the last one has one day
  more), four years 1461, one year 365 (the last has one day more).
\<close>

definition year_parts :: "int \<Rightarrow> int \<times> int" where
  "year_parts doe =
     (let c = min 3 (doe div 36524); doc = doe - 36524 * c;
          q = doc div 1461; doq = doc - 1461 * q;
          a = min 3 (doq div 365)
      in (100 * c + 4 * q + a, doq - 365 * a))"

definition civil_from_days :: "int \<Rightarrow> int \<times> int \<times> int" where
  "civil_from_days n =
     (let z = n + 719468; era = z div 146097;
          (yoe, doy) = year_parts (z mod 146097);
          mp = (5 * doy + 2) div 153;
          d = doy - (153 * mp + 2) div 5 + 1;
          m = (if mp < 10 then mp + 3 else mp - 9)
      in (era * 400 + yoe + (if m \<le> 2 then 1 else 0), m, d))"

definition days_from_civil :: "int \<Rightarrow> int \<Rightarrow> int \<Rightarrow> int" where
  "days_from_civil y m d =
     (let y' = (if m \<le> 2 then y - 1 else y); era = y' div 400; yoe = y' mod 400;
          mp = (if m > 2 then m - 3 else m + 9);
          doy = (153 * mp + 2) div 5 + d - 1
      in era * 146097 + (yoe * 365 + yoe div 4 - yoe div 100 + doy) - 719468)"

lemma year_parts_bounds:
  assumes "0 \<le> doe" "doe < 146097" "year_parts doe = (yoe, doy)"
  shows "0 \<le> yoe" "yoe < 400" "0 \<le> doy" "doy \<le> 365"
    "yoe * 365 + yoe div 4 - yoe div 100 + doy = doe"
proof -
  define c where "c = min 3 (doe div 36524)"
  define doc where "doc = doe - 36524 * c"
  define q where "q = doc div 1461"
  define doq where "doq = doc - 1461 * q"
  define a where "a = min 3 (doq div 365)"
  have eqs: "yoe = 100 * c + 4 * q + a" "doy = doq - 365 * a"
    using assms(3) by (auto simp: year_parts_def Let_def c_def doc_def q_def doq_def a_def)
  have c: "0 \<le> c" "c \<le> 3" and doc: "0 \<le> doc" "doc \<le> 36524"
    using assms(1,2) by (auto simp: c_def doc_def min_def)
  have q: "0 \<le> q" "q \<le> 24" and doq: "0 \<le> doq" "doq \<le> 1460"
    using doc by (auto simp: q_def doq_def)
  have a: "0 \<le> a" "a \<le> 3" and doy: "0 \<le> doq - 365 * a" "doq - 365 * a \<le> 365"
    using doq by (auto simp: a_def min_def)
  show "0 \<le> yoe" "yoe < 400" "0 \<le> doy" "doy \<le> 365"
    using c q a doy by (auto simp: eqs)
  have "yoe div 4 = 25 * c + q" "yoe div 100 = c"
    using q a by (auto simp: eqs)
  then show "yoe * 365 + yoe div 4 - yoe div 100 + doy = doe"
    by (simp add: eqs doq_def doc_def)
qed

theorem days_civil_roundtrip:
  assumes "civil_from_days n = (y, m, d)"
  shows "days_from_civil y m d = n" and "1 \<le> m" and "m \<le> 12"
proof -
  define z where "z = n + 719468"
  obtain yoe doy where yp: "year_parts (z mod 146097) = (yoe, doy)"
    by (cases "year_parts (z mod 146097)")
  note b = year_parts_bounds [OF _ _ yp, simplified]
  define mp where "mp = (5 * doy + 2) div 153"
  have mp: "0 \<le> mp" "mp \<le> 11" using b by (auto simp: mp_def)
  have ymd: "m = (if mp < 10 then mp + 3 else mp - 9)"
    "y = (z div 146097) * 400 + yoe + (if m \<le> 2 then 1 else 0)"
    "d = doy - (153 * mp + 2) div 5 + 1"
    using assms yp by (auto simp: civil_from_days_def Let_def z_def mp_def)
  show m: "1 \<le> m" "m \<le> 12" using mp ymd(1) by auto
  define y' where "y' = (if m \<le> 2 then y - 1 else y)"
  have "y' = (z div 146097) * 400 + yoe" by (simp add: y'_def ymd(2))
  then have y': "y' div 400 = z div 146097" "y' mod 400 = yoe"
    using b by (auto simp: div_pos_pos_trivial mod_pos_pos_trivial)
  have mp': "(if m > 2 then m - 3 else m + 9) = mp" using mp ymd(1) by auto
  have "days_from_civil y m d = (z div 146097) * 146097
      + (yoe * 365 + yoe div 4 - yoe div 100 + doy) - 719468"
    unfolding days_from_civil_def Let_def y'_def [symmetric] y' mp' ymd(3) by simp
  also have "\<dots> = (z div 146097) * 146097 + z mod 146097 - 719468" using b by simp
  finally show "days_from_civil y m d = n" by (simp add: z_def)
qed

lemma days_from_civil_day: "days_from_civil y m (d + k) = days_from_civil y m d + k"
  by (simp add: days_from_civil_def Let_def)

section \<open>Dates of an instant\<close>

definition local_ns :: "gotime \<Rightarrow> int" where
  "local_ns t = t_ns t + t_off t * ns_per_sec"

text \<open>The number of the civil day an instant falls on, in its own location, and the time of day.\<close>

definition day_num :: "gotime \<Rightarrow> int" where
  "day_num t = local_ns t div ns_per_day"

definition time_of_day :: "gotime \<Rightarrow> int" where
  "time_of_day t = local_ns t mod ns_per_day"

definition civil :: "gotime \<Rightarrow> int \<times> int \<times> int" where
  "civil t = civil_from_days (day_num t)"

text \<open>\<open>time.Date\<close> with its normalisation: a month outside 1..12 moves the year, a day outside the
  month moves the month.\<close>

definition time_Date :: "int \<Rightarrow> int \<Rightarrow> int \<Rightarrow> int \<Rightarrow> int \<Rightarrow> gotime" where
  "time_Date y mo d tod off =
     (let m0 = mo - 1; y' = y + m0 div 12; m' = m0 mod 12 + 1
      in \<lparr>t_ns = (days_from_civil y' m' 1 + (d - 1)) * ns_per_day + tod - off * ns_per_sec,
          t_off = off\<rparr>)"

definition AddDate :: "gotime \<Rightarrow> int \<Rightarrow> int \<Rightarrow> int \<Rightarrow> gotime" where
  "AddDate t ys ms ds =
     (case civil t of (y, m, d) \<Rightarrow> time_Date (y + ys) (m + ms) (d + ds) (time_of_day t) (t_off t))"

definition start_of_day :: "gotime \<Rightarrow> gotime" where
  "start_of_day t = (case civil t of (y, m, d) \<Rightarrow> time_Date y m d 0 (t_off t))"

definition end_of_day :: "gotime \<Rightarrow> gotime" where
  "end_of_day t =
     (case civil t of (y, m, d) \<Rightarrow> time_Date y m d (ns_per_day - 1) (t_off t))"

definition same_day :: "gotime \<Rightarrow> gotime \<Rightarrow> bool" where
  "same_day a b \<longleftrightarrow> civil a = civil b"

lemma civil_inj: "civil_from_days m = civil_from_days n \<Longrightarrow> m = n"
  by (metis days_civil_roundtrip(1) prod_cases3)

lemma same_day_iff: "same_day a b \<longleftrightarrow> day_num a = day_num b"
  by (auto simp: same_day_def civil_def dest: civil_inj)

lemma day_split: "t_ns t = day_num t * ns_per_day + time_of_day t - t_off t * ns_per_sec"
  by (simp add: day_num_def time_of_day_def local_ns_def)

lemma time_of_day_range: "0 \<le> time_of_day t" "time_of_day t < ns_per_day"
  by (simp_all add: time_of_day_def ns_defs)

lemma time_Date_civil:
  assumes "civil_from_days n = (y, m, d)"
  shows "time_Date y m (d + k) tod off =
    \<lparr>t_ns = (n + k) * ns_per_day + tod - off * ns_per_sec, t_off = off\<rparr>"
proof -
  have "days_from_civil y m d = n" "1 \<le> m" "m \<le> 12"
    using days_civil_roundtrip [OF assms] by auto
  moreover have "days_from_civil y m 1 + (d + k - 1) = days_from_civil y m d + k"
    using days_from_civil_day [of y m 1 "d + k - 1"] days_from_civil_day [of y m d k] by simp
  ultimately show ?thesis by (simp add: time_Date_def Let_def)
qed

lemma AddDate_days: "AddDate t 0 0 k = t\<lparr>t_ns := t_ns t + k * ns_per_day\<rparr>"
proof -
  obtain y m d where c: "civil_from_days (day_num t) = (y, m, d)"
    by (rule prod_cases3)
  have "AddDate t 0 0 k =
      \<lparr>t_ns = (day_num t + k) * ns_per_day + time_of_day t - t_off t * ns_per_sec, t_off = t_off t\<rparr>"
    by (simp add: AddDate_def civil_def c time_Date_civil [OF c])
  then show ?thesis
    by (simp add: day_split [of t, symmetric] algebra_simps) (simp add: day_split [of t])
qed

lemma start_of_day_ns:
  "t_ns (start_of_day t) = day_num t * ns_per_day - t_off t * ns_per_sec"
  "t_off (start_of_day t) = t_off t"
proof -
  obtain y m d where c: "civil_from_days (day_num t) = (y, m, d)"
    by (rule prod_cases3)
  show "t_ns (start_of_day t) = day_num t * ns_per_day - t_off t * ns_per_sec"
    "t_off (start_of_day t) = t_off t"
    using time_Date_civil [OF c, of 0] by (simp_all add: start_of_day_def civil_def c)
qed

lemma end_of_day_ns:
  "t_ns (end_of_day t) = day_num t * ns_per_day + (ns_per_day - 1) - t_off t * ns_per_sec"
  "t_off (end_of_day t) = t_off t"
proof -
  obtain y m d where c: "civil_from_days (day_num t) = (y, m, d)"
    by (rule prod_cases3)
  show "t_ns (end_of_day t) = day_num t * ns_per_day + (ns_per_day - 1) - t_off t * ns_per_sec"
    "t_off (end_of_day t) = t_off t"
    using time_Date_civil [OF c, of 0] by (simp_all add: end_of_day_def civil_def c)
qed

text \<open>The day of a time is the half-open interval from its start of day, in its location.\<close>

lemma day_num_interval:
  assumes "t_off s = t_off t"
  shows "day_num s = day_num t \<longleftrightarrow>
    t_ns (start_of_day t) \<le> t_ns s \<and> t_ns s < t_ns (start_of_day t) + ns_per_day"
  (is "?l \<longleftrightarrow> ?r")
proof
  assume ?l
  then show ?r
    using time_of_day_range [of s] assms by (simp add: start_of_day_ns day_split [of s])
next
  assume ?r
  then have "day_num t * ns_per_day \<le> local_ns s" "local_ns s < (day_num t + 1) * ns_per_day"
    using assms by (simp_all add: start_of_day_ns local_ns_def algebra_simps)
  then have "local_ns s div ns_per_day = day_num t"
    by (simp add: ns_defs)
  then show ?l by (simp add: day_num_def)
qed

end
