(* ===== verification/Issue_Ids.thy ===== *)
theory Issue_Ids
  imports GoTime
begin

text \<open>
  Issue identifiers: hash IDs and their base-36 encoding (\<open>internal/idgen/hash.go\<close>), hierarchical
  IDs (\<open>internal/types/id_generator.go\<close>), prefix extraction and natural order
  (\<open>internal/utils/issue_id.go\<close>). SHA-256 is an argument, a function from bytes to bytes.
\<close>

section \<open>Base-36 hash IDs\<close>

definition base36Alphabet :: string where
  "base36Alphabet = ''0123456789abcdefghijklmnopqrstuvwxyz''"

text \<open>\<open>big.Int.SetBytes\<close>: big-endian.\<close>

definition bytes_val :: "string \<Rightarrow> nat" where
  "bytes_val data = foldl (\<lambda>acc b. acc * 256 + byte_val b) 0 data"

text \<open>The division loop: the digits with the least significant first.\<close>

fun base36_loop :: "nat \<Rightarrow> string" where
  "base36_loop num =
     (if num > 0 then base36Alphabet ! (num mod 36) # base36_loop (num div 36) else [])"

declare base36_loop.simps [simp del]

definition EncodeBase36 :: "string \<Rightarrow> nat \<Rightarrow> string" where
  "EncodeBase36 data len =
     (let chars = base36_loop (bytes_val data);
          str = rev chars;
          padded = (if length str < len then replicate (len - length str) (CHR ''0'') @ str else str)
      in if length padded > len then drop (length padded - len) padded else padded)"

definition hash_num_bytes :: "nat \<Rightarrow> nat" where
  "hash_num_bytes len =
     (if len = 3 then 2 else if len = 4 then 3 else if len = 5 then 4 else if len = 6 then 4
      else if len = 7 then 5 else if len = 8 then 5 else 3)"

definition GenerateHashID ::
    "(string \<Rightarrow> string) \<Rightarrow> string \<Rightarrow> string \<Rightarrow> string \<Rightarrow> string \<Rightarrow> gotime \<Rightarrow> nat \<Rightarrow> int \<Rightarrow> string" where
  "GenerateHashID sha256 pre title description creator timestamp len nonce =
     (let content = title @ ''|'' @ description @ ''|'' @ creator @ ''|'' @ itoa (t_ns timestamp) @
            ''|'' @ itoa nonce;
          shortHash = EncodeBase36 (take (hash_num_bytes len) (sha256 content)) len
      in pre @ ''-'' @ shortHash)"

section \<open>Hierarchical IDs\<close>

definition GenerateChildID :: "string \<Rightarrow> int \<Rightarrow> string" where
  "GenerateChildID parentID childNumber = parentID @ ''.'' @ itoa childNumber"

definition count_dots :: "string \<Rightarrow> nat" where
  "count_dots s = length (filter (\<lambda>c. c = CHR ''.'') s)"

fun last_index_byte :: "string \<Rightarrow> char \<Rightarrow> nat option" where
  "last_index_byte [] b = None"
| "last_index_byte (c # s) b =
     (case last_index_byte s b of
        Some i \<Rightarrow> Some (Suc i)
      | None \<Rightarrow> if c = b then Some 0 else None)"

text \<open>The root ID, the parent ID and the depth. The first and last dot exist when there is one.\<close>

definition ParseHierarchicalID :: "string \<Rightarrow> string \<times> string \<times> nat" where
  "ParseHierarchicalID i =
     (let depth = count_dots i in
      if depth = 0 then (i, [], 0)
      else (take (the (index_byte i (CHR ''.''))) i, take (the (last_index_byte i (CHR ''.''))) i,
            depth))"

definition ExtractPrefix :: "string \<Rightarrow> string" where
  "ExtractPrefix i =
     (case index_byte i (CHR ''-'') of None \<Rightarrow> [] | Some idx \<Rightarrow> take (idx + 1) i)"

definition MaxHierarchyDepth :: int where "MaxHierarchyDepth = 3"

text \<open>\<open>Some\<close> of the depth limit is the error.\<close>

definition CheckHierarchyDepth :: "string \<Rightarrow> int \<Rightarrow> int option" where
  "CheckHierarchyDepth parentID maxDepth0 =
     (let maxDepth = (if maxDepth0 < 1 then MaxHierarchyDepth else maxDepth0)
      in if int (count_dots parentID) \<ge> maxDepth then Some maxDepth else None)"

section \<open>Prefixes and natural order\<close>

definition isNumeric :: "string \<Rightarrow> bool" where
  "isNumeric s \<longleftrightarrow> s \<noteq> [] \<and> list_all is_digit s"

definition isLikelyHash :: "string \<Rightarrow> bool" where
  "isLikelyHash s \<longleftrightarrow>
     \<not> (length s < 3 \<or> length s > 8) \<and>
     list_all (\<lambda>c. is_digit c \<or> is_lower c \<or> is_upper c) s \<and>
     (length s = 3 \<or> list_ex is_digit s)"

definition ExtractIssuePrefix :: "string \<Rightarrow> string" where
  "ExtractIssuePrefix issueID =
     (case last_index_byte issueID (CHR ''-'') of
        None \<Rightarrow> []
      | Some 0 \<Rightarrow> []
      | Some lastIdx \<Rightarrow>
          (let suffix = drop (lastIdx + 1) issueID in
           if suffix = [] then take lastIdx issueID
           else
             let basePart =
                 (case index_byte suffix (CHR ''.'') of
                    Some dotIdx \<Rightarrow> if dotIdx > 0 then take dotIdx suffix else suffix
                  | None \<Rightarrow> suffix)
             in if isNumeric basePart \<or> isLikelyHash basePart then take lastIdx issueID
                else case index_byte issueID (CHR ''-'') of
                    None \<Rightarrow> []
                  | Some firstIdx \<Rightarrow> if firstIdx = 0 then [] else take firstIdx issueID))"

definition clean_prefixes :: "string list \<Rightarrow> string list" where
  "clean_prefixes ps =
     filter (\<lambda>p. p \<noteq> []) (map (\<lambda>p. trim_suffix (trim_space p) ''-'') ps)"

text \<open>Longest first. Go's \<open>sort.Slice\<close> may order prefixes of one length differently; two different
  prefixes of one length never both match.\<close>

definition by_length_desc :: "string list \<Rightarrow> string list" where
  "by_length_desc ps = rev (sort_key length (rev ps))"

fun first_prefix :: "string \<Rightarrow> string list \<Rightarrow> string option" where
  "first_prefix i [] = None"
| "first_prefix i (p # ps) = (if has_prefix i (p @ ''-'') then Some p else first_prefix i ps)"

definition ExtractIssuePrefixKnown :: "string \<Rightarrow> string list \<Rightarrow> string" where
  "ExtractIssuePrefixKnown issueID knownPrefixes =
     (case first_prefix issueID (by_length_desc (clean_prefixes knownPrefixes)) of
        Some p \<Rightarrow> p
      | None \<Rightarrow> ExtractIssuePrefix issueID)"

fun split_segments :: "string \<Rightarrow> string \<Rightarrow> string list" where
  "split_segments cur [] = (if cur = [] then [] else [cur])"
| "split_segments cur (c # s) =
     (if c = CHR ''.'' \<or> c = CHR ''-''
      then (if cur = [] then [] else [cur]) @ split_segments [] s
      else split_segments (cur @ [c]) s)"

definition splitIDSegments :: "string \<Rightarrow> string list" where
  "splitIDSegments i = split_segments [] i"

fun bytes_less :: "string \<Rightarrow> string \<Rightarrow> bool" where
  "bytes_less s [] = False"
| "bytes_less [] (d # t) = True"
| "bytes_less (c # s) (d # t) =
     (byte_val c < byte_val d \<or> (c = d \<and> bytes_less s t))"

fun natural_compare :: "string list \<Rightarrow> string list \<Rightarrow> int" where
  "natural_compare (a # sa) (b # sb) =
     (if a = b then natural_compare sa sb
      else case (atoi a, atoi b) of
        (Some na, Some nb) \<Rightarrow> if na \<noteq> nb then wrap64 (na - nb) else natural_compare sa sb
      | _ \<Rightarrow> if bytes_less a b then -1 else 1)"
| "natural_compare sa sb = int (length sa) - int (length sb)"

definition NaturalCompareIDs :: "string \<Rightarrow> string \<Rightarrow> int" where
  "NaturalCompareIDs a b = natural_compare (splitIDSegments a) (splitIDSegments b)"

text \<open>\<open>natural_compare\<close> stops at the end of the shorter list; the difference of the lengths of the
  remainders is that of the whole lists.\<close>

section \<open>Properties of hash IDs\<close>

definition base36_digit :: "char \<Rightarrow> nat" where
  "base36_digit c = (if is_digit c then byte_val c - 48 else byte_val c - 87)"

definition base36_val :: "string \<Rightarrow> nat" where
  "base36_val s = foldl (\<lambda>acc c. acc * 36 + base36_digit c) 0 s"

lemma base36_digit_nth: "d < 36 \<Longrightarrow> base36_digit (base36Alphabet ! d) = d"
proof -
  have "\<forall>d \<in> set [0..<36]. base36_digit (base36Alphabet ! d) = d" by code_simp
  then show "d < 36 \<Longrightarrow> base36_digit (base36Alphabet ! d) = d" by simp
qed

lemma base36_val_snoc: "base36_val (s @ [c]) = base36_val s * 36 + base36_digit c"
  by (simp add: base36_val_def)

lemma base36_val_loop: "base36_val (rev (base36_loop n)) = n"
proof (induction n rule: base36_loop.induct)
  case (1 n)
  show ?case
  proof (cases "n > 0")
    case True
    with 1 show ?thesis
      by (simp add: base36_loop.simps [of n] base36_val_snoc base36_digit_nth)
  qed (simp add: base36_loop.simps base36_val_def)
qed

lemma base36_loop_alphabet: "set (base36_loop n) \<subseteq> set base36Alphabet"
proof (induction n rule: base36_loop.induct)
  case (1 n)
  have "length base36Alphabet = 36" by (simp add: base36Alphabet_def)
  then have "base36Alphabet ! (n mod 36) \<in> set base36Alphabet" by (intro nth_mem) simp
  with 1 show ?case
    by (cases "n > 0") (simp_all add: base36_loop.simps [of n] base36_loop.simps [of 0])
qed

lemma base36_digit_less: "c \<in> set base36Alphabet \<Longrightarrow> base36_digit c < 36"
proof -
  have "\<forall>c \<in> set base36Alphabet. base36_digit c < 36" by code_simp
  then show "c \<in> set base36Alphabet \<Longrightarrow> base36_digit c < 36" by blast
qed

lemma base36_val_acc:
  "foldl (\<lambda>acc c. acc * 36 + base36_digit c) a s = a * 36 ^ length s + base36_val s"
proof (induction s rule: rev_induct)
  case (snoc c s)
  then show ?case by (simp add: base36_val_snoc algebra_simps)
qed (simp add: base36_val_def)

lemma base36_val_append: "base36_val (s @ t) = base36_val s * 36 ^ length t + base36_val t"
proof -
  have "base36_val (s @ t) = foldl (\<lambda>acc c. acc * 36 + base36_digit c) (base36_val s) t"
    by (simp add: base36_val_def)
  then show ?thesis by (simp add: base36_val_acc)
qed

lemma base36_val_zeros: "base36_val (replicate k (CHR ''0'')) = 0"
proof (induction k)
  case (Suc k)
  then show ?case
    using base36_val_snoc [of "replicate k (CHR ''0'')" "CHR ''0''"]
    by (simp add: replicate_append_same base36_digit_def is_digit_def)
qed (simp add: base36_val_def)

lemma base36_val_bound: "set s \<subseteq> set base36Alphabet \<Longrightarrow> base36_val s < 36 ^ length s"
proof (induction s rule: rev_induct)
  case (snoc c s)
  then have "base36_val s < 36 ^ length s" "base36_digit c < 36"
    by (simp_all add: base36_digit_less)
  then have "base36_val s * 36 + base36_digit c < (base36_val s + 1) * 36" by simp
  also have "\<dots> \<le> 36 ^ length s * 36" using snoc by (intro mult_right_mono) simp_all
  finally show ?case by (simp add: base36_val_snoc)
qed (simp add: base36_val_def)

lemma zero_in_alphabet: "CHR ''0'' \<in> set base36Alphabet"
  by (simp add: base36Alphabet_def)

lemma EncodeBase36_length: "length (EncodeBase36 data len) = len"
  by (simp add: EncodeBase36_def Let_def)

lemma EncodeBase36_alphabet: "set (EncodeBase36 data len) \<subseteq> set base36Alphabet"
proof -
  define str where "str = rev (base36_loop (bytes_val data))"
  have "set str \<subseteq> set base36Alphabet" using base36_loop_alphabet by (simp add: str_def)
  moreover have "set (drop k str) \<subseteq> set str" for k by (rule set_drop_subset)
  ultimately show ?thesis
    using zero_in_alphabet
    by (auto simp: EncodeBase36_def Let_def str_def [symmetric])
qed

text \<open>
  C33: \<open>EncodeBase36\<close> returns exactly the requested number of characters, all of the alphabet
  \<open>0-9a-z\<close>, and they are the base-36 digits of the input number modulo \<open>36 ^ length\<close>: short numbers are
  zero-padded and long ones keep their least significant digits.
\<close>

theorem EncodeBase36_correct:
  "length (EncodeBase36 data len) = len \<and> set (EncodeBase36 data len) \<subseteq> set base36Alphabet \<and>
   base36_val (EncodeBase36 data len) = bytes_val data mod 36 ^ len"
proof -
  define str where "str = rev (base36_loop (bytes_val data))"
  have v: "base36_val str = bytes_val data" and a: "set str \<subseteq> set base36Alphabet"
    using base36_loop_alphabet by (simp_all add: str_def base36_val_loop)
  have "base36_val (EncodeBase36 data len) = bytes_val data mod 36 ^ len"
  proof (cases "length str \<le> len")
    case True
    then have "base36_val str < 36 ^ len"
      using base36_val_bound [OF a] by (meson order.strict_trans2 power_increasing one_le_numeral)
    then show ?thesis
      using True v
      by (auto simp: EncodeBase36_def Let_def str_def [symmetric] base36_val_append
          base36_val_zeros)
  next
    case False
    define hi lo where "hi = take (length str - len) str" and "lo = drop (length str - len) str"
    have "base36_val str = base36_val hi * 36 ^ len + base36_val lo"
      using False base36_val_append [of hi lo] by (simp add: hi_def lo_def)
    moreover have "base36_val lo < 36 ^ len"
      using False a base36_val_bound [of lo] by (auto simp: lo_def dest: in_set_dropD)
    ultimately have "base36_val lo = bytes_val data mod 36 ^ len" by (simp add: v [symmetric])
    then show ?thesis
      using False by (simp add: EncodeBase36_def Let_def str_def [symmetric] lo_def)
  qed
  then show ?thesis using EncodeBase36_length EncodeBase36_alphabet by blast
qed

lemma alphabet_plain: "c \<in> set base36Alphabet \<Longrightarrow> c \<noteq> CHR ''-'' \<and> c \<noteq> CHR ''.''"
  by (auto simp: base36Alphabet_def)

lemma last_index_byte_None [simp]: "last_index_byte s b = None \<longleftrightarrow> b \<notin> set s"
  by (induction s) (auto split: option.splits)

lemma last_index_byte_append: "b \<notin> set t \<Longrightarrow> last_index_byte (s @ b # t) b = Some (length s)"
proof (induction s)
  case Nil
  then have "last_index_byte t b = None" by simp
  then show ?case by (simp del: last_index_byte_None)
qed auto

text \<open>
  The prefix of a generated hash ID is recovered. For a prefix without hyphens and a hash of at
  least one character, \<open>ExtractIssuePrefix\<close> of the ID is the prefix, whether or not the hash looks like
  a word.
\<close>

theorem ExtractIssuePrefix_GenerateHashID:
  assumes "pre \<noteq> []" "CHR ''-'' \<notin> set pre" "0 < len"
  shows "ExtractIssuePrefix
    (GenerateHashID sha256 pre title description creator timestamp len nonce) = pre"
proof -
  define h where "h = EncodeBase36 (take (hash_num_bytes len) (sha256
    (title @ ''|'' @ description @ ''|'' @ creator @ ''|'' @ itoa (t_ns timestamp) @ ''|'' @ itoa nonce))) len"
  have g: "GenerateHashID sha256 pre title description creator timestamp len nonce = pre @ CHR ''-'' # h"
    by (simp add: GenerateHashID_def h_def)
  have "length h = len" by (simp add: h_def EncodeBase36_length)
  then have "h \<noteq> []" using assms(3) by auto
  moreover have "CHR ''-'' \<notin> set h"
    using EncodeBase36_alphabet alphabet_plain by (fastforce simp: h_def)
  moreover obtain n where "length pre = Suc n" using assms(1) by (cases pre) auto
  ultimately show ?thesis
    using assms
    by (simp add: g ExtractIssuePrefix_def last_index_byte_append index_byte_append Let_def)
qed

theorem ExtractIssuePrefix_GenerateHashID_witness:
  "ExtractIssuePrefix (GenerateHashID (\<lambda>_. ''abcdefgh'') ''bd'' ''t'' [] ''me''
     \<lparr>t_ns = 5, t_off = 0\<rparr> 6 0) = ''bd''"
  by (rule ExtractIssuePrefix_GenerateHashID) simp_all

section \<open>Properties of hierarchical IDs\<close>

lemma itoa_no_dot: "CHR ''.'' \<notin> set (itoa n)"
  using not_digit_itoa by (force simp: is_digit_def)

lemma count_dots_append [simp]: "count_dots (s @ t) = count_dots s + count_dots t"
  by (simp add: count_dots_def)

lemma count_dots_zero_iff: "count_dots s = 0 \<longleftrightarrow> CHR ''.'' \<notin> set s"
  by (auto simp: count_dots_def filter_empty_conv)

lemma count_dots_child: "count_dots (GenerateChildID p n) = Suc (count_dots p)"
proof -
  have "count_dots (itoa n) = 0" by (simp add: count_dots_zero_iff itoa_no_dot)
  then show ?thesis by (simp add: GenerateChildID_def) (simp add: count_dots_def)
qed

lemma index_byte_append_in: "b \<in> set s \<Longrightarrow> index_byte (s @ t) b = index_byte s b"
  by (induction s) auto

text \<open>
  Parsing a generated child ID gives back its parent, one level deeper and with the parent's root.
\<close>

theorem ParseHierarchicalID_child:
  "ParseHierarchicalID (GenerateChildID p n) =
     (fst (ParseHierarchicalID p), p, Suc (snd (snd (ParseHierarchicalID p))))"
proof -
  let ?c = "GenerateChildID p n"
  have l: "last_index_byte ?c (CHR ''.'') = Some (length p)"
    using itoa_no_dot by (simp add: GenerateChildID_def last_index_byte_append)
  show ?thesis
  proof (cases "CHR ''.'' \<in> set p")
    case True
    obtain k where k: "index_byte p (CHR ''.'') = Some k"
      using True by (cases "index_byte p (CHR ''.'')") auto
    have "count_dots p \<noteq> 0" using True by (simp add: count_dots_zero_iff)
    moreover have "index_byte ?c (CHR ''.'') = Some k" "take k ?c = take k p" "take (length p) ?c = p"
      using k index_byte_Some [OF k] index_byte_append_in [OF True]
      by (simp_all add: GenerateChildID_def)
    ultimately show ?thesis
      using k l by (simp add: ParseHierarchicalID_def Let_def count_dots_child)
  next
    case False
    then have "count_dots p = 0" by (simp add: count_dots_zero_iff)
    moreover have "index_byte ?c (CHR ''.'') = Some (length p)" "take (length p) ?c = p"
      using False by (simp_all add: GenerateChildID_def index_byte_append)
    ultimately show ?thesis
      using l by (simp add: ParseHierarchicalID_def Let_def count_dots_child)
  qed
qed

section \<open>Properties of prefix extraction and order\<close>

lemma first_prefix_longest:
  assumes "sorted_wrt (\<lambda>p q. length q \<le> length p) ps"
  shows "case first_prefix i ps of
      Some p \<Rightarrow> p \<in> set ps \<and> has_prefix i (p @ ''-'') \<and>
        (\<forall>q \<in> set ps. has_prefix i (q @ ''-'') \<longrightarrow> length q \<le> length p)
    | None \<Rightarrow> \<forall>q \<in> set ps. \<not> has_prefix i (q @ ''-'')"
  using assms by (induction ps) (auto split: option.splits)

lemma by_length_desc_sorted: "sorted_wrt (\<lambda>p q. length q \<le> length p) (by_length_desc ps)"
proof -
  have "sorted (map length (sort_key length (rev ps)))" by simp
  then show ?thesis
    unfolding by_length_desc_def sorted_wrt_rev by (simp add: sorted_wrt_map)
qed

lemma set_by_length_desc [simp]: "set (by_length_desc ps) = set ps"
  by (simp add: by_length_desc_def)

text \<open>
  Known prefixes are matched longest first. When some configured prefix followed by a hyphen
  starts the ID, the result is such a prefix and no longer one matches; otherwise the heuristic decides.
\<close>

theorem ExtractIssuePrefixKnown_longest:
  "(if \<exists>p \<in> set (clean_prefixes known). has_prefix i (p @ ''-'')
    then ExtractIssuePrefixKnown i known \<in> set (clean_prefixes known) \<and>
         has_prefix i (ExtractIssuePrefixKnown i known @ ''-'') \<and>
         length (ExtractIssuePrefixKnown i known) =
           Max {length q | q. q \<in> set (clean_prefixes known) \<and> has_prefix i (q @ ''-'')}
    else ExtractIssuePrefixKnown i known = ExtractIssuePrefix i)"
proof -
  let ?ps = "by_length_desc (clean_prefixes known)"
  note f = first_prefix_longest [OF by_length_desc_sorted [of "clean_prefixes known"], of i]
  show ?thesis
  proof (cases "first_prefix i ?ps")
    case None
    with f show ?thesis by (auto simp: ExtractIssuePrefixKnown_def)
  next
    case (Some p)
    let ?L = "{length q | q. q \<in> set (clean_prefixes known) \<and> has_prefix i (q @ ''-'')}"
    have "?L = length ` {q \<in> set (clean_prefixes known). has_prefix i (q @ ''-'')}" by auto
    then have "finite ?L" by simp
    then have "Max ?L = length p" using f Some by (intro Max_eqI) auto
    with f Some show ?thesis by (auto simp: ExtractIssuePrefixKnown_def)
  qed
qed

text \<open>
  The natural order of IDs is not an order. Numeric segments are compared as numbers and mixed
  ones as text, so three IDs can each come strictly before the next one around a cycle, and a sort
  that uses the comparison has no consistent result for them.
\<close>

theorem NaturalCompareIDs_cycle:
  "\<exists>a b c. NaturalCompareIDs a b < 0 \<and> NaturalCompareIDs b c < 0 \<and> NaturalCompareIDs c a < 0"
proof (intro exI conjI)
  show "NaturalCompareIDs ''bd-9'' ''bd-10'' < 0" by code_simp
  show "NaturalCompareIDs ''bd-10'' ''bd-1a'' < 0" by code_simp
  show "NaturalCompareIDs ''bd-1a'' ''bd-9'' < 0" by code_simp
qed

end
