(* ===== verification/Status_Types.thy ===== *)
theory Status_Types
  imports GoPrelude
begin

text \<open>
  The string enumerations of \<open>internal/types/types.go\<close>: statuses and their categories, custom
  statuses and their configuration language, issue types, molecule, wisp and work types, storage
  classes and persistence modes, sort policies. Each is a Go \<open>string\<close> type with constants, so here
  a \<open>string\<close> with abbreviations: values outside the constants are ordinary inputs.
\<close>

type_synonym status = string
type_synonym issue_type = string
type_synonym mol_type = string
type_synonym wisp_type = string
type_synonym work_type = string
type_synonym storage_class = string
type_synonym persistence_mode = string
type_synonym sort_policy = string

section \<open>Statuses\<close>

abbreviation StatusOpen :: status where "StatusOpen \<equiv> ''open''"
abbreviation StatusInProgress :: status where "StatusInProgress \<equiv> ''in_progress''"
abbreviation StatusBlocked :: status where "StatusBlocked \<equiv> ''blocked''"
abbreviation StatusDeferred :: status where "StatusDeferred \<equiv> ''deferred''"
abbreviation StatusClosed :: status where "StatusClosed \<equiv> ''closed''"
abbreviation StatusPinned :: status where "StatusPinned \<equiv> ''pinned''"
abbreviation StatusHooked :: status where "StatusHooked \<equiv> ''hooked''"

definition AllStatuses :: "status list" where
  "AllStatuses = [StatusOpen, StatusInProgress, StatusBlocked, StatusDeferred, StatusClosed,
     StatusPinned, StatusHooked]"

definition Status_IsValid :: "status \<Rightarrow> bool" where
  "Status_IsValid s \<longleftrightarrow> s \<in> set AllStatuses"

definition Status_IsValidWithCustom :: "status \<Rightarrow> string list \<Rightarrow> bool" where
  "Status_IsValidWithCustom s customStatuses \<longleftrightarrow>
     Status_IsValid s \<or> list_ex (\<lambda>custom. s = custom) customStatuses"

datatype StatusCategory =
    CategoryActive
  | CategoryWIP
  | CategoryDone
  | CategoryFrozen
  | CategoryUnspecified

record CustomStatus =
  cs_Name :: string
  cs_Category :: StatusCategory

definition Status_IsValidWithCustomStatuses :: "status \<Rightarrow> CustomStatus list \<Rightarrow> bool" where
  "Status_IsValidWithCustomStatuses s customStatuses \<longleftrightarrow>
     Status_IsValid s \<or> list_ex (\<lambda>cs. s = cs_Name cs) customStatuses"

text \<open>\<open>validCategories\<close>: the categories a configuration may name, by their text.\<close>

definition validCategories :: "string \<Rightarrow> StatusCategory option" where
  "validCategories = map_of
     [(''active'', CategoryActive), (''wip'', CategoryWIP), (''done'', CategoryDone),
      (''frozen'', CategoryFrozen)]"

text \<open>\<open>statusNameRegexp\<close>: \<open>^[a-z][a-z0-9_-]*$\<close>.\<close>

definition status_name_char :: "char \<Rightarrow> bool" where
  "status_name_char c \<longleftrightarrow> is_lower c \<or> is_digit c \<or> c = CHR ''_'' \<or> c = CHR ''-''"

definition statusNameRegexp :: "string \<Rightarrow> bool" where
  "statusNameRegexp s \<longleftrightarrow> s \<noteq> [] \<and> is_lower (hd s) \<and> list_all status_name_char (tl s)"

definition maxCustomStatuses :: nat where "maxCustomStatuses = 50"

definition builtInStatusNames :: "string list" where
  "builtInStatusNames = [''open'', ''in_progress'', ''blocked'', ''deferred'', ''closed'',
     ''pinned'', ''hooked'']"

datatype custom_status_error =
    TrailingColon string
  | InvalidCategory string string
  | InvalidStatusName string
  | CollidesWithBuiltIn string
  | DuplicateStatusName string
  | TooManyStatuses nat

text \<open>One comma-separated part, already trimmed and not empty: its name and category.\<close>

definition parse_status_part :: "string \<Rightarrow> custom_status_error + CustomStatus" where
  "parse_status_part part =
     (case index_byte part (CHR '':'') of
        Some idx \<Rightarrow>
          (let name = take idx part; catStr = drop (Suc idx) part in
           check (catStr = []) (TrailingColon part)
             (case validCategories catStr of
                None \<Rightarrow> Inl (InvalidCategory catStr name)
              | Some category \<Rightarrow> Inr \<lparr>cs_Name = name, cs_Category = category\<rparr>))
      | None \<Rightarrow> Inr \<lparr>cs_Name = part, cs_Category = CategoryUnspecified\<rparr>)"

text \<open>The loop over the parts; \<open>result\<close> holds the statuses so far, whose names are \<open>seen\<close>.\<close>

fun parse_status_parts ::
    "CustomStatus list \<Rightarrow> string list \<Rightarrow> custom_status_error + CustomStatus list" where
  "parse_status_parts result [] = Inr result"
| "parse_status_parts result (part0 # parts) =
     (let part = trim_space part0 in
      if part = [] then parse_status_parts result parts
      else bindE (parse_status_part part) (\<lambda>cs.
        check (\<not> statusNameRegexp (cs_Name cs)) (InvalidStatusName (cs_Name cs))
        (check (to_lower (cs_Name cs) \<in> set builtInStatusNames) (CollidesWithBuiltIn (cs_Name cs))
        (check (cs_Name cs \<in> set (map cs_Name result)) (DuplicateStatusName (cs_Name cs))
           (parse_status_parts (result @ [cs]) parts)))))"

definition ParseCustomStatusConfig :: "string \<Rightarrow> custom_status_error + CustomStatus list" where
  "ParseCustomStatusConfig value0 =
     (let value1 = trim_space value0 in
      if value1 = [] then Inr []
      else bindE (parse_status_parts [] (split_byte (CHR '','') value1)) (\<lambda>result.
        check (length result > maxCustomStatuses) (TooManyStatuses (length result)) (Inr result)))"

definition CustomStatusNames :: "CustomStatus list \<Rightarrow> string list" where
  "CustomStatusNames statuses = map cs_Name statuses"

definition CustomStatusesByCategory ::
    "CustomStatus list \<Rightarrow> StatusCategory \<Rightarrow> CustomStatus list" where
  "CustomStatusesByCategory statuses category = filter (\<lambda>s. cs_Category s = category) statuses"

definition BuiltInStatusCategory :: "status \<Rightarrow> StatusCategory" where
  "BuiltInStatusCategory s =
     (if s = StatusOpen then CategoryActive
      else if s \<in> {StatusInProgress, StatusBlocked, StatusHooked} then CategoryWIP
      else if s = StatusClosed then CategoryDone
      else if s \<in> {StatusDeferred, StatusPinned} then CategoryFrozen
      else CategoryUnspecified)"

section \<open>Issue types\<close>

abbreviation TypeBug :: issue_type where "TypeBug \<equiv> ''bug''"
abbreviation TypeFeature :: issue_type where "TypeFeature \<equiv> ''feature''"
abbreviation TypeTask :: issue_type where "TypeTask \<equiv> ''task''"
abbreviation TypeEpic :: issue_type where "TypeEpic \<equiv> ''epic''"
abbreviation TypeChore :: issue_type where "TypeChore \<equiv> ''chore''"
abbreviation TypeDecision :: issue_type where "TypeDecision \<equiv> ''decision''"
abbreviation TypeMessage :: issue_type where "TypeMessage \<equiv> ''message''"
abbreviation TypeMolecule :: issue_type where "TypeMolecule \<equiv> ''molecule''"
abbreviation TypeGate :: issue_type where "TypeGate \<equiv> ''gate''"
abbreviation TypeSpike :: issue_type where "TypeSpike \<equiv> ''spike''"
abbreviation TypeStory :: issue_type where "TypeStory \<equiv> ''story''"
abbreviation TypeMilestone :: issue_type where "TypeMilestone \<equiv> ''milestone''"
abbreviation TypeEvent :: issue_type where "TypeEvent \<equiv> ''event''"

definition AllIssueTypes :: "issue_type list" where
  "AllIssueTypes = [TypeBug, TypeFeature, TypeTask, TypeEpic, TypeChore, TypeDecision,
     TypeMessage, TypeMolecule, TypeGate, TypeSpike, TypeStory, TypeMilestone]"

definition IssueType_IsValid :: "issue_type \<Rightarrow> bool" where
  "IssueType_IsValid t \<longleftrightarrow> t \<in> set AllIssueTypes"

definition IssueType_IsBuiltIn :: "issue_type \<Rightarrow> bool" where
  "IssueType_IsBuiltIn t \<longleftrightarrow> IssueType_IsValid t \<or> t = TypeEvent"

definition IssueType_IsValidWithCustom :: "issue_type \<Rightarrow> string list \<Rightarrow> bool" where
  "IssueType_IsValidWithCustom t customTypes \<longleftrightarrow>
     IssueType_IsBuiltIn t \<or> list_ex (\<lambda>custom. t = custom) customTypes"

definition IssueType_Normalize :: "issue_type \<Rightarrow> issue_type" where
  "IssueType_Normalize t =
     (let l = to_lower t in
      if l \<in> {''enhancement'', ''feat''} then TypeFeature
      else if l \<in> {''dec'', ''adr''} then TypeDecision
      else if l \<in> {''investigation'', ''timebox''} then TypeSpike
      else if l \<in> {''user-story'', ''user_story''} then TypeStory
      else if l = ''ms'' then TypeMilestone
      else t)"

record RequiredSection =
  rs_Heading :: string
  rs_Hint :: string

definition RequiredSections :: "issue_type \<Rightarrow> RequiredSection list" where
  "RequiredSections t =
     (if t = TypeBug then
        [\<lparr>rs_Heading = ''## Steps to Reproduce'', rs_Hint = ''Describe how to reproduce the bug''\<rparr>,
         \<lparr>rs_Heading = ''## Acceptance Criteria'', rs_Hint = ''Define criteria to verify the fix''\<rparr>]
      else if t \<in> {TypeTask, TypeFeature, TypeStory} then
        [\<lparr>rs_Heading = ''## Acceptance Criteria'', rs_Hint = ''Define criteria to verify completion''\<rparr>]
      else if t = TypeEpic then
        [\<lparr>rs_Heading = ''## Success Criteria'', rs_Hint = ''Define high-level success criteria''\<rparr>]
      else if t = TypeDecision then
        [\<lparr>rs_Heading = ''## Decision'', rs_Hint = ''Summarize what was decided''\<rparr>,
         \<lparr>rs_Heading = ''## Rationale'', rs_Hint = ''Explain why this option was chosen''\<rparr>,
         \<lparr>rs_Heading = ''## Alternatives Considered'',
          rs_Hint = ''List alternatives and why they were rejected''\<rparr>]
      else if t = TypeSpike then
        [\<lparr>rs_Heading = ''## Goal'', rs_Hint = ''What question does this spike answer?''\<rparr>,
         \<lparr>rs_Heading = ''## Findings'', rs_Hint = ''What was learned? (fill in when complete)''\<rparr>]
      else [])"

section \<open>Molecule, wisp and work types, storage classes, persistence modes, sort policies\<close>

definition validMolTypes :: "mol_type list" where
  "validMolTypes = [''swarm'', ''patrol'', ''work'']"

definition MolType_IsValid :: "mol_type \<Rightarrow> bool" where
  "MolType_IsValid m \<longleftrightarrow> m = [] \<or> m \<in> set validMolTypes"

definition validWispTypes :: "wisp_type list" where
  "validWispTypes = [''heartbeat'', ''ping'', ''patrol'', ''gc_report'', ''recovery'', ''error'',
     ''escalation'']"

definition WispType_IsValid :: "wisp_type \<Rightarrow> bool" where
  "WispType_IsValid w \<longleftrightarrow> w = [] \<or> w \<in> set validWispTypes"

definition WorkType_IsValid :: "work_type \<Rightarrow> bool" where
  "WorkType_IsValid w \<longleftrightarrow> w \<in> {''mutex'', ''open_competition'', []}"

abbreviation StorageClassVersioned :: storage_class where "StorageClassVersioned \<equiv> ''versioned''"
abbreviation StorageClassUnversioned :: storage_class where
  "StorageClassUnversioned \<equiv> ''unversioned''"
abbreviation StorageClassEphemeral :: storage_class where "StorageClassEphemeral \<equiv> ''ephemeral''"

definition validStorageClasses :: "storage_class list" where
  "validStorageClasses = [StorageClassVersioned, StorageClassUnversioned, StorageClassEphemeral]"

definition StorageClass_IsValid :: "storage_class \<Rightarrow> bool" where
  "StorageClass_IsValid s \<longleftrightarrow> s = [] \<or> s \<in> set validStorageClasses"

definition StorageClass_Normalize :: "storage_class \<Rightarrow> storage_class" where
  "StorageClass_Normalize s = (if s = StorageClassVersioned then [] else s)"

definition ParseStorageClass :: "string \<Rightarrow> string + storage_class" where
  "ParseStorageClass v = (if v = [] \<or> \<not> StorageClass_IsValid v then Inl v else Inr v)"

abbreviation PersistenceModePersistent :: persistence_mode where
  "PersistenceModePersistent \<equiv> ''persistent''"
abbreviation PersistenceModeEphemeral :: persistence_mode where
  "PersistenceModeEphemeral \<equiv> ''ephemeral''"
abbreviation PersistenceModeNoHistory :: persistence_mode where
  "PersistenceModeNoHistory \<equiv> ''no_history''"

definition validPersistenceModes :: "persistence_mode list" where
  "validPersistenceModes =
     [PersistenceModePersistent, PersistenceModeEphemeral, PersistenceModeNoHistory]"

definition PersistenceMode_IsValid :: "persistence_mode \<Rightarrow> bool" where
  "PersistenceMode_IsValid m \<longleftrightarrow> m \<in> set validPersistenceModes"

definition joinNamesWithOr :: "string list \<Rightarrow> string" where
  "joinNamesWithOr names =
     (if length names = 1 then hd names
      else join '', '' (butlast names) @ '', or '' @ last names)"

definition ValidMolTypeNames :: string where
  "ValidMolTypeNames = joinNamesWithOr validMolTypes"

definition ValidWispTypeNames :: string where
  "ValidWispTypeNames = joinNamesWithOr validWispTypes"

definition ValidStorageClassNames :: string where
  "ValidStorageClassNames = joinNamesWithOr validStorageClasses"

definition SortPolicy_IsValid :: "sort_policy \<Rightarrow> bool" where
  "SortPolicy_IsValid s \<longleftrightarrow> s \<in> {''hybrid'', ''priority'', ''oldest'', []}"

lemmas status_defs = AllStatuses_def Status_IsValid_def Status_IsValidWithCustom_def
lemmas issue_type_defs = AllIssueTypes_def IssueType_IsValid_def IssueType_IsBuiltIn_def
  IssueType_IsValidWithCustom_def
lemmas storage_class_defs = validStorageClasses_def StorageClass_IsValid_def
lemmas persistence_mode_defs = validPersistenceModes_def PersistenceMode_IsValid_def

section \<open>The custom-status configuration language\<close>

text \<open>What every accepted configuration satisfies.\<close>

definition custom_status_ok :: "CustomStatus \<Rightarrow> bool" where
  "custom_status_ok cs \<longleftrightarrow>
     statusNameRegexp (cs_Name cs) \<and> cs_Name cs \<notin> set builtInStatusNames"

definition custom_statuses_ok :: "CustomStatus list \<Rightarrow> bool" where
  "custom_statuses_ok css \<longleftrightarrow>
     list_all custom_status_ok css \<and> distinct (map cs_Name css) \<and> length css \<le> maxCustomStatuses"

lemma status_name_char_not_upper: "status_name_char c \<Longrightarrow> \<not> is_upper c"
  by (auto simp: status_name_char_def is_lower_def is_upper_def is_digit_def)

lemma statusNameRegexp_chars: "statusNameRegexp s \<Longrightarrow> list_all status_name_char s"
  by (cases s) (auto simp: statusNameRegexp_def status_name_char_def)

lemma statusNameRegexp_to_lower: "statusNameRegexp s \<Longrightarrow> to_lower s = s"
  using statusNameRegexp_chars [of s]
  by (auto simp: to_lower_def list_all_iff lower_char_id status_name_char_not_upper
      intro: map_idI)

lemma parse_status_parts_ok:
  assumes "parse_status_parts acc parts = Inr css"
    and "list_all custom_status_ok acc" and "distinct (map cs_Name acc)"
  shows "list_all custom_status_ok css \<and> distinct (map cs_Name css)"
  using assms
proof (induction acc parts rule: parse_status_parts.induct)
  case (2 result part0 parts)
  show ?case
  proof (cases "trim_space part0 = []")
    case True
    with 2 show ?thesis by simp
  next
    case False
    with "2.prems"(1) obtain cs where p: "parse_status_part (trim_space part0) = Inr cs"
      and g: "statusNameRegexp (cs_Name cs)" "to_lower (cs_Name cs) \<notin> set builtInStatusNames"
        "cs_Name cs \<notin> set (map cs_Name result)"
      and rest: "parse_status_parts (result @ [cs]) parts = Inr css"
      by (auto simp: bindE_eq_Inr_iff)
    have "custom_status_ok cs"
      using g statusNameRegexp_to_lower by (simp add: custom_status_ok_def)
    with "2.IH"(2) [OF refl False p rest] "2.prems" g show ?thesis
      by (auto simp: p)
  qed
qed simp

text \<open>A configuration is printed as \<open>name\<close> or \<open>name:category\<close>, separated by commas.\<close>

fun category_text :: "StatusCategory \<Rightarrow> string" where
  "category_text CategoryActive = ''active''"
| "category_text CategoryWIP = ''wip''"
| "category_text CategoryDone = ''done''"
| "category_text CategoryFrozen = ''frozen''"
| "category_text CategoryUnspecified = ''unspecified''"

definition print_status :: "CustomStatus \<Rightarrow> string" where
  "print_status cs =
     (if cs_Category cs = CategoryUnspecified then cs_Name cs
      else cs_Name cs @ '':'' @ category_text (cs_Category cs))"

definition print_statuses :: "CustomStatus list \<Rightarrow> string" where
  "print_statuses css = join '','' (map print_status css)"

lemma parse_status_part_print:
  assumes "statusNameRegexp (cs_Name cs)"
  shows "parse_status_part (print_status cs) = Inr cs"
proof -
  have "CHR '':'' \<notin> set (cs_Name cs)"
    using statusNameRegexp_chars [OF assms]
    by (auto simp: list_all_iff status_name_char_def is_lower_def is_digit_def)
  then have i: "index_byte (cs_Name cs) (CHR '':'') = None"
    "index_byte (cs_Name cs @ CHR '':'' # t) (CHR '':'') = Some (length (cs_Name cs))" for t
    by (simp_all add: index_byte_append)
  show ?thesis
    by (cases cs; cases "cs_Category cs")
      (use i in \<open>auto simp: parse_status_part_def print_status_def validCategories_def Let_def
        simp del: index_byte_None\<close>)
qed

definition plain_char :: "char \<Rightarrow> bool" where
  "plain_char c \<longleftrightarrow> \<not> is_space c \<and> c \<noteq> CHR '',''"

lemma print_status_plain: "custom_status_ok cs \<Longrightarrow> list_all plain_char (print_status cs)"
proof -
  have "status_name_char c \<Longrightarrow> plain_char c" for c
    by (auto simp: plain_char_def status_name_char_def char_class_defs)
  moreover assume "custom_status_ok cs"
  ultimately have "list_all plain_char (cs_Name cs)"
    using statusNameRegexp_chars [of "cs_Name cs"]
    by (auto simp: custom_status_ok_def list_all_iff)
  then show ?thesis
    by (cases "cs_Category cs") (simp_all add: print_status_def plain_char_def is_space_def)
qed

lemma trim_space_no_space: "set s \<subseteq> {c. \<not> is_space c} \<Longrightarrow> trim_space s = s"
proof -
  have "dropWhile is_space s = s" if "set s \<subseteq> {c. \<not> is_space c}" for s
    using that by (cases s) auto
  moreover assume "set s \<subseteq> {c. \<not> is_space c}"
  ultimately show ?thesis by (simp add: trim_space_def trim_left_def)
qed

lemma trim_space_plain: "list_all plain_char s \<Longrightarrow> trim_space s = s"
  by (rule trim_space_no_space) (auto simp: list_all_iff plain_char_def)

lemma print_status_nonempty: "custom_status_ok cs \<Longrightarrow> print_status cs \<noteq> []"
  by (auto simp: print_status_def custom_status_ok_def statusNameRegexp_def)

lemma split_join_plain:
  "ps \<noteq> [] \<Longrightarrow> list_all (list_all plain_char) ps \<Longrightarrow> split_byte (CHR '','') (join '','' ps) = ps"
proof (induction "'',''" ps rule: join.induct)
  case (2 s)
  then show ?case by (auto simp: list_all_iff plain_char_def intro: split_byte_id)
next
  case (3 s t ts)
  then have "CHR '','' \<notin> set s" by (auto simp: list_all_iff plain_char_def)
  with 3 show ?case by (simp add: split_byte_append)
qed simp

lemma parse_status_parts_print:
  assumes "list_all custom_status_ok (acc @ css)" "distinct (map cs_Name (acc @ css))"
  shows "parse_status_parts acc (map print_status css) = Inr (acc @ css)"
  using assms
proof (induction css arbitrary: acc)
  case (Cons cs css)
  then have ok: "custom_status_ok cs" by simp
  have "trim_space (print_status cs) = print_status cs"
    using print_status_plain [OF ok] by (rule trim_space_plain)
  moreover have "parse_status_part (print_status cs) = Inr cs"
    using ok by (simp add: custom_status_ok_def parse_status_part_print)
  moreover have "to_lower (cs_Name cs) \<notin> set builtInStatusNames"
    using ok by (simp add: custom_status_ok_def statusNameRegexp_to_lower)
  ultimately show ?case
    using Cons.IH [of "acc @ [cs]"] Cons.prems ok print_status_nonempty [OF ok]
    by (auto simp: custom_status_ok_def)
qed simp

lemma set_join_subset: "set sep \<subseteq> A \<Longrightarrow> \<forall>x \<in> set xs. set x \<subseteq> A \<Longrightarrow> set (join sep xs) \<subseteq> A"
  by (induction sep xs rule: join.induct) auto

text \<open>
  C35: every custom-status configuration the parser accepts is well formed: the names match the
  pattern, are distinct, differ from the built-in statuses and are at most fifty.
\<close>

theorem ParseCustomStatusConfig_wf:
  assumes "ParseCustomStatusConfig v = Inr css"
  shows "custom_statuses_ok css"
proof (cases "trim_space v = []")
  case True
  with assms show ?thesis by (simp add: ParseCustomStatusConfig_def custom_statuses_ok_def)
next
  case False
  then have "parse_status_parts [] (split_byte (CHR '','') (trim_space v)) = Inr css \<and>
      length css \<le> maxCustomStatuses"
    using assms by (auto simp: ParseCustomStatusConfig_def Let_def bindE_eq_Inr_iff)
  with parse_status_parts_ok [of "[]" _ css] show ?thesis by (auto simp: custom_statuses_ok_def)
qed

theorem ParseCustomStatusConfig_wf_witness:
  "custom_statuses_ok [\<lparr>cs_Name = ''review'', cs_Category = CategoryWIP\<rparr>]"
proof -
  have "ParseCustomStatusConfig '' review:wip ,'' = Inr [\<lparr>cs_Name = ''review'', cs_Category = CategoryWIP\<rparr>]"
    by code_simp
  then show ?thesis by (rule ParseCustomStatusConfig_wf)
qed

text \<open>
  C34: writing a well-formed list of custom statuses as a configuration and parsing it gives the list
  back, categories included.
\<close>

theorem ParseCustomStatusConfig_print:
  assumes "custom_statuses_ok css"
  shows "ParseCustomStatusConfig (print_statuses css) = Inr css"
proof (cases css)
  case Nil
  then show ?thesis
    by (simp add: print_statuses_def ParseCustomStatusConfig_def trim_space_def trim_left_def)
next
  case (Cons cs css')
  have ok: "list_all custom_status_ok css" "distinct (map cs_Name css)" "length css \<le> maxCustomStatuses"
    using assms by (auto simp: custom_statuses_ok_def)
  have "split_byte (CHR '','') (print_statuses css) = map print_status css"
    unfolding print_statuses_def
    by (rule split_join_plain) (use ok(1) Cons print_status_plain in \<open>auto simp: list_all_iff\<close>)
  moreover have "print_statuses css \<noteq> []"
    using ok(1) Cons print_status_nonempty [of cs] by (cases css') (auto simp: print_statuses_def)
  moreover have "trim_space (print_statuses css) = print_statuses css"
    unfolding print_statuses_def
    by (rule trim_space_no_space, rule set_join_subset) (use ok(1) print_status_plain in \<open>auto simp: list_all_iff plain_char_def is_space_def\<close>)
  ultimately show ?thesis
    using parse_status_parts_print [of "[]" css] ok by (simp add: ParseCustomStatusConfig_def Let_def)
qed

theorem ParseCustomStatusConfig_print_witness:
  "ParseCustomStatusConfig ''review:wip,parked'' =
     Inr [\<lparr>cs_Name = ''review'', cs_Category = CategoryWIP\<rparr>,
          \<lparr>cs_Name = ''parked'', cs_Category = CategoryUnspecified\<rparr>]"
proof -
  let ?css = "[\<lparr>cs_Name = ''review'', cs_Category = CategoryWIP\<rparr>,
          \<lparr>cs_Name = ''parked'', cs_Category = CategoryUnspecified\<rparr>]"
  have "custom_statuses_ok ?css" by code_simp
  moreover have "print_statuses ?css = ''review:wip,parked''" by code_simp
  ultimately show ?thesis using ParseCustomStatusConfig_print [of ?css] by simp
qed

end
