(* ===== verification/GoJSON.thy ===== *)
theory GoJSON
  imports GoPrelude
begin

text \<open>
  The part of Go's package \<open>encoding/json\<close> that the sources use: the validity check
  (\<open>json.Valid\<close>), decoding into \<open>map[string]json.RawMessage\<close>, \<open>string\<close> and \<open>bool\<close>, and
  encoding of a string with Go's default HTML escaping. Bytes from 128 on are copied (the texts are
  taken to be valid UTF-8). The scanner is fuelled; fuel \<open>2 n + 2\<close> is enough for a text of length \<open>n\<close>
  (lemma \<open>scan_fuel_enough\<close>).
\<close>

abbreviation (input) quote_ch :: char where "quote_ch \<equiv> CHR 0x22"
abbreviation (input) bslash :: char where "bslash \<equiv> CHR 0x5C"

section \<open>Scanning\<close>

definition json_ws :: "char \<Rightarrow> bool" where
  "json_ws c \<longleftrightarrow> c = CHR '' '' \<or> c = CHR 0x09 \<or> c = CHR 0x0A \<or> c = CHR 0x0D"

definition skip_ws :: "string \<Rightarrow> string" where
  "skip_ws s = dropWhile json_ws s"

definition hex_val :: "char \<Rightarrow> nat option" where
  "hex_val c =
     (if is_digit c then Some (byte_val c - 48)
      else if 97 \<le> byte_val c \<and> byte_val c \<le> 102 then Some (byte_val c - 87)
      else if 65 \<le> byte_val c \<and> byte_val c \<le> 70 then Some (byte_val c - 55)
      else None)"

fun hex4 :: "string \<Rightarrow> (nat \<times> string) option" where
  "hex4 (a # b # c # d # r) =
     (case (hex_val a, hex_val b, hex_val c, hex_val d) of
        (Some w, Some x, Some y, Some z) \<Rightarrow> Some (4096 * w + 256 * x + 16 * y + z, r)
      | _ \<Rightarrow> None)"
| "hex4 _ = None"

definition utf8_encode :: "nat \<Rightarrow> string" where
  "utf8_encode n =
     (if n < 128 then [char_of n]
      else if n < 2048 then [char_of (192 + n div 64), char_of (128 + n mod 64)]
      else if n < 65536 then
        [char_of (224 + n div 4096), char_of (128 + n div 64 mod 64), char_of (128 + n mod 64)]
      else [char_of (240 + n div 262144), char_of (128 + n div 4096 mod 64),
            char_of (128 + n div 64 mod 64), char_of (128 + n mod 64)])"

text \<open>A \<open>\\u\<close> escape: surrogate pairs are combined, a lone surrogate is U+FFFD.\<close>

definition unicode_escape :: "nat \<Rightarrow> string \<Rightarrow> string \<times> string" where
  "unicode_escape n r =
     (if 55296 \<le> n \<and> n < 57344 then
        (case r of
           b # u # r' \<Rightarrow>
             (if b = bslash \<and> u = CHR ''u'' then
                (case hex4 r' of
                   Some (m, r'') \<Rightarrow>
                     (if n < 56320 \<and> 56320 \<le> m \<and> m < 57344
                      then (utf8_encode (65536 + (n - 55296) * 1024 + (m - 56320)), r'')
                      else (utf8_encode 65533, r))
                 | None \<Rightarrow> (utf8_encode 65533, r))
              else (utf8_encode 65533, r))
         | _ \<Rightarrow> (utf8_encode 65533, r))
      else (utf8_encode n, r))"

definition simple_escape :: "char \<Rightarrow> char option" where
  "simple_escape c =
     (if c = quote_ch \<or> c = bslash \<or> c = CHR ''/'' then Some c
      else if c = CHR ''b'' then Some (CHR 0x08)
      else if c = CHR ''f'' then Some (CHR 0x0C)
      else if c = CHR ''n'' then Some (CHR 0x0A)
      else if c = CHR ''r'' then Some (CHR 0x0D)
      else if c = CHR ''t'' then Some (CHR 0x09)
      else None)"

lemma hex4_length: "hex4 s = Some (n, r) \<Longrightarrow> length r < length s"
  by (induction s rule: hex4.induct) (auto split: option.splits)

lemma unicode_escape_length: "unicode_escape n r = (t, r') \<Longrightarrow> length r' \<le> length r"
  by (auto simp: unicode_escape_def dest!: hex4_length
      split: list.splits option.splits if_splits prod.splits)

text \<open>The rest of a string literal, after its opening quote: the decoded text and what follows.\<close>

function scan_string :: "string \<Rightarrow> (string \<times> string) option" where
  "scan_string [] = None"
| "scan_string (c # s) =
     (if c = quote_ch then Some ([], s)
      else if byte_val c < 32 then None
      else if c = bslash then
        (case s of
           [] \<Rightarrow> None
         | e # s' \<Rightarrow>
             (if e = CHR ''u'' then
                (case hex4 s' of
                   None \<Rightarrow> None
                 | Some (n, r) \<Rightarrow>
                     map_option (\<lambda>(t, q). (fst (unicode_escape n r) @ t, q))
                       (scan_string (snd (unicode_escape n r))))
              else
                (case simple_escape e of
                   None \<Rightarrow> None
                 | Some d \<Rightarrow> map_option (\<lambda>(t, q). (d # t, q)) (scan_string s'))))
      else map_option (\<lambda>(t, q). (c # t, q)) (scan_string s))"
  by pat_completeness auto
termination
proof (relation "measure length", goal_cases)
  case (2 c s e s' a n r)
  then have "length r < length s'" by (auto dest: hex4_length)
  moreover have "length (snd (unicode_escape n r)) \<le> length r"
    by (metis prod.collapse unicode_escape_length)
  ultimately show ?case using 2 by simp
qed auto

declare scan_string.simps(2) [simp del]

text \<open>The number grammar: sign, integer part without leading zeros, fraction, exponent.\<close>

definition digits1 :: "string \<Rightarrow> string option" where
  "digits1 s = (if s \<noteq> [] \<and> is_digit (hd s) then Some (dropWhile is_digit s) else None)"

definition scan_int :: "string \<Rightarrow> string option" where
  "scan_int s =
     (case s of [] \<Rightarrow> None
      | c # r \<Rightarrow> if c = CHR ''0'' then Some r else digits1 s)"

definition scan_frac :: "string \<Rightarrow> string option" where
  "scan_frac s =
     (case s of [] \<Rightarrow> Some [] | c # r \<Rightarrow> if c = CHR ''.'' then digits1 r else Some s)"

definition scan_exp :: "string \<Rightarrow> string option" where
  "scan_exp s =
     (case s of [] \<Rightarrow> Some []
      | c # r \<Rightarrow>
          if c = CHR ''e'' \<or> c = CHR ''E''
          then digits1 (if r \<noteq> [] \<and> (hd r = CHR ''+'' \<or> hd r = CHR ''-'') then tl r else r)
          else Some s)"

definition scan_number :: "string \<Rightarrow> string option" where
  "scan_number s =
     Option.bind (scan_int (if s \<noteq> [] \<and> hd s = CHR ''-'' then tl s else s))
       (\<lambda>r. Option.bind (scan_frac r) scan_exp)"

text \<open>One value: the text that follows it. Members carry their decoded key and raw value text.\<close>

definition raw_before :: "string \<Rightarrow> string \<Rightarrow> string" where
  "raw_before s r = take (length s - length r) s"

fun scan_value :: "nat \<Rightarrow> string \<Rightarrow> string option"
  and scan_members :: "nat \<Rightarrow> string \<Rightarrow> ((string \<times> string) list \<times> string) option"
  and scan_elems :: "nat \<Rightarrow> string \<Rightarrow> string option" where
  "scan_value 0 s = None"
| "scan_value (Suc k) s =
     (case s of
        [] \<Rightarrow> None
      | c # r \<Rightarrow>
          if c = CHR ''{'' then
            (case skip_ws r of
               [] \<Rightarrow> None
             | d # r' \<Rightarrow> if d = CHR ''}'' then Some r'
                         else map_option snd (scan_members k (d # r')))
          else if c = CHR ''['' then
            (case skip_ws r of
               [] \<Rightarrow> None
             | d # r' \<Rightarrow> if d = CHR '']'' then Some r' else scan_elems k (d # r'))
          else if c = quote_ch then map_option snd (scan_string r)
          else if has_prefix s ''true'' then Some (drop 4 s)
          else if has_prefix s ''false'' then Some (drop 5 s)
          else if has_prefix s ''null'' then Some (drop 4 s)
          else scan_number s)"
| "scan_members 0 s = None"
| "scan_members (Suc k) s =
     (case s of
        [] \<Rightarrow> None
      | c # r \<Rightarrow>
          if c \<noteq> quote_ch then None
          else case scan_string r of
            None \<Rightarrow> None
          | Some (key, r1) \<Rightarrow>
              (case skip_ws r1 of
                 [] \<Rightarrow> None
               | d # r2 \<Rightarrow>
                   if d \<noteq> CHR '':'' then None
                   else let v = skip_ws r2 in
                     case scan_value k v of
                       None \<Rightarrow> None
                     | Some r3 \<Rightarrow>
                         (case skip_ws r3 of
                            [] \<Rightarrow> None
                          | e # r4 \<Rightarrow>
                              if e = CHR ''}'' then Some ([(key, raw_before v r3)], r4)
                              else if e = CHR '','' then
                                map_option (\<lambda>(ms, q). ((key, raw_before v r3) # ms, q))
                                  (scan_members k (skip_ws r4))
                              else None)))"
| "scan_elems 0 s = None"
| "scan_elems (Suc k) s =
     (case scan_value k s of
        None \<Rightarrow> None
      | Some r \<Rightarrow>
          (case skip_ws r of
             [] \<Rightarrow> None
           | e # r' \<Rightarrow>
               if e = CHR '']'' then Some r'
               else if e = CHR '','' then scan_elems k (skip_ws r')
               else None))"

text \<open>Every scanner consumes text, so a call never needs more fuel than the text is long.\<close>

lemma length_skip_ws [simp]: "length (skip_ws s) \<le> length s"
  by (simp add: skip_ws_def length_dropWhile_le)

lemma skip_ws_Cons_length: "skip_ws s = c # r \<Longrightarrow> length r < length s"
  by (metis length_Cons length_skip_ws less_eq_Suc_le)

lemma scan_string_length: "scan_string s = Some (t, r) \<Longrightarrow> length r < length s"
proof (induction s arbitrary: t r rule: scan_string.induct)
  case (2 c s)
  note esc = unicode_escape_length [OF prod.collapse [symmetric]]
  from "2.prems" show ?case
  proof (cases "c = quote_ch \<or> c \<noteq> bslash")
    case True
    with "2.prems" "2.IH"(3) show ?thesis
      by (fastforce simp: scan_string.simps(2) split: if_splits)
  next
    case False
    with "2.prems" obtain e s' where s: "s = e # s'"
      by (cases s) (auto simp: scan_string.simps(2))
    show ?thesis
    proof (cases "e = CHR ''u''")
      case True
      with "2.prems" False s obtain n q where h: "hex4 s' = Some (n, q)"
        by (cases "hex4 s'") (auto simp: scan_string.simps(2) split: if_splits)
      with "2.prems" False s True obtain t' where
        "scan_string (snd (unicode_escape n q)) = Some (t', r)"
        by (auto simp: scan_string.simps(2) split: if_splits)
      with "2.IH"(1) False s True h "2.prems" have "length r < length (snd (unicode_escape n q))"
        by (auto simp: scan_string.simps(2) split: if_splits)
      with hex4_length [OF h] esc [of n q] s show ?thesis by simp
    next
      case ne: False
      with "2.prems" "2.IH"(2) False s show ?thesis
        by (fastforce simp: scan_string.simps(2) split: if_splits option.splits)
    qed
  qed
qed simp

lemma digits1_length: "digits1 s = Some r \<Longrightarrow> length r < length s"
proof -
  assume "digits1 s = Some r"
  then obtain c t where "s = c # t" "is_digit c" "r = dropWhile is_digit s"
    by (cases s) (auto simp: digits1_def split: if_splits)
  then show ?thesis using length_dropWhile_le [of is_digit t] by simp
qed

lemma scan_number_length: "scan_number s = Some r \<Longrightarrow> length r < length s"
proof -
  assume "scan_number s = Some r"
  then obtain a b where a: "scan_int (if s \<noteq> [] \<and> hd s = CHR ''-'' then tl s else s) = Some a"
    and b: "scan_frac a = Some b" and r: "scan_exp b = Some r"
    by (auto simp: scan_number_def Option.bind_eq_Some_conv)
  have "length a < length s"
    using a
    by (cases s) (auto simp: scan_int_def dest!: digits1_length split: list.splits if_splits)
  moreover have "length b \<le> length a"
    using b by (auto simp: scan_frac_def dest!: digits1_length split: list.splits if_splits)
  moreover have "length r \<le> length b"
    using r by (auto simp: scan_exp_def dest!: digits1_length split: list.splits if_splits)
  ultimately show ?thesis by simp
qed

lemma scan_shorter:
  "scan_value k s = Some r \<Longrightarrow> length r < length s"
  "scan_members k s = Some (ms, r) \<Longrightarrow> length r < length s"
  "scan_elems k s = Some r \<Longrightarrow> length r < length s"
proof (induction k s and k s and k s arbitrary: r and ms r and r
    rule: scan_value_scan_members_scan_elems.induct)
  case (2 k s)
  then show ?case
    by (fastforce dest: skip_ws_Cons_length scan_string_length scan_number_length
        split: list.splits if_splits)
next
  case (4 k s)
  from "4.prems" obtain c r0 key r1 d r2 r3 e r4 where
    s: "s = c # r0" "scan_string r0 = Some (key, r1)" "skip_ws r1 = d # r2"
    and v: "scan_value k (skip_ws r2) = Some r3" "skip_ws r3 = e # r4"
    and end_or_more: "r = r4 \<or> (\<exists>ms'. scan_members k (skip_ws r4) = Some (ms', r))"
    and cond: "c = quote_ch" "d = CHR '':''"
    by (auto simp: Let_def split: list.splits if_splits option.splits)
  have "length r1 < length r0" "length r2 < length r1" "length r4 < length r3"
    using scan_string_length [OF s(2)] skip_ws_Cons_length [OF s(3)]
      skip_ws_Cons_length [OF v(2)] by auto
  moreover have "length r3 < length (skip_ws r2)"
    using "4.IH"(1) [OF s(1) _ s(2) refl s(3) _ refl v(1)] cond by simp
  moreover have "length r \<le> length r4"
  proof (cases "r = r4")
    case False
    with end_or_more obtain ms' where m: "scan_members k (skip_ws r4) = Some (ms', r)" by auto
    have "e = CHR '',''" "e \<noteq> CHR ''}''"
      using "4.prems" s v cond False by (auto simp: Let_def split: if_splits)
    from "4.IH"(2) [OF s(1) _ s(2) refl s(3) _ refl v(1) v(2) _ _ m] cond this
    have "length r < length (skip_ws r4)" by simp
    then show ?thesis using length_skip_ws [of r4] by linarith
  qed simp
  ultimately show ?case using length_skip_ws [of r2] s(1) by (simp del: length_skip_ws)
next
  case (6 k s)
  then show ?case
    by (auto split: list.splits if_splits option.splits)
      (metis (no_types, lifting) length_skip_ws order.strict_trans order_less_le_trans
        skip_ws_Cons_length)+
qed auto

declare scan_value.simps [simp del] scan_members.simps [simp del] scan_elems.simps [simp del]

lemma scan_fuel_enough:
  "2 * length s < k \<Longrightarrow> 2 * length s < j \<Longrightarrow>
     scan_value k s = scan_value j s \<and> scan_members k s = scan_members j s"
  "2 * length s + 1 < k \<Longrightarrow> 2 * length s + 1 < j \<Longrightarrow> scan_elems k s = scan_elems j s"
proof (induction "length s" arbitrary: s k j rule: less_induct)
  case less
  have val_eq: "scan_value (Suc k) s = scan_value (Suc j) s \<and>
      scan_members (Suc k) s = scan_members (Suc j) s"
    if le: "2 * length s \<le> k" "2 * length s \<le> j" for k j
  proof
    have IH: "scan_value k t = scan_value j t" "scan_members k t = scan_members j t"
      "scan_elems k t = scan_elems j t" if "length t < length s" for t
      using less(1) [OF that, of k j] less(2) [OF that, of k j] that le by auto
    show "scan_value (Suc k) s = scan_value (Suc j) s"
      unfolding scan_value.simps(2)
      by (auto intro!: arg_cong [where f = "map_option snd"] IH dest: skip_ws_Cons_length
          split: list.splits)
    show "scan_members (Suc k) s = scan_members (Suc j) s"
    proof (cases "\<exists>c r key r1 d r2.
        s = c # r \<and> scan_string r = Some (key, r1) \<and> skip_ws r1 = d # r2")
      case True
      then obtain c r key r1 d r2 where s: "s = c # r" "scan_string r = Some (key, r1)"
        "skip_ws r1 = d # r2" by auto
      have l: "length (skip_ws r2) < length s"
        using scan_string_length [OF s(2)] skip_ws_Cons_length [OF s(3)]
          length_skip_ws [of r2] s(1) by (simp del: length_skip_ws)
      have m: "scan_members k (skip_ws r4) = scan_members j (skip_ws r4)"
        if "scan_value j (skip_ws r2) = Some r3" "skip_ws r3 = e # r4" for r3 e r4
        using scan_shorter(1) [OF that(1)] skip_ws_Cons_length [OF that(2)]
          length_skip_ws [of r4] l by (intro IH) linarith
      show ?thesis
      proof (cases "\<exists>r3 e r4. scan_value j (skip_ws r2) = Some r3 \<and> skip_ws r3 = e # r4")
        case True
        then obtain r3 e r4 where v: "scan_value j (skip_ws r2) = Some r3" "skip_ws r3 = e # r4"
          by auto
        then show ?thesis
          unfolding scan_members.simps(2) s(1) by (simp add: s Let_def IH(1) [OF l] m [OF v])
      next
        case False
        then show ?thesis
          unfolding scan_members.simps(2) s(1)
          by (simp add: s Let_def IH(1) [OF l] split: option.split list.split) blast
      qed
    next
      case False
      then consider "s = []" | c r where "s = c # r" "scan_string r = None"
        | c r key r1 where "s = c # r" "scan_string r = Some (key, r1)" "skip_ws r1 = []"
        by (metis neq_Nil_conv option.exhaust surj_pair)
      then show ?thesis
        by cases (simp_all add: scan_members.simps(2))
    qed
  qed
  have elems: "scan_elems (Suc (Suc k)) s = scan_elems (Suc (Suc j)) s"
    if le: "2 * length s \<le> k" "2 * length s \<le> j" for k j
  proof -
    have "scan_elems (Suc k) (skip_ws r') = scan_elems (Suc j) (skip_ws r')"
      if "scan_value (Suc j) s = Some r" "skip_ws r = e # r'" for r e r'
      using scan_shorter(1) [OF that(1)] skip_ws_Cons_length [OF that(2)]
        length_skip_ws [of r'] le by (intro less(2)) linarith+
    then show ?thesis
      unfolding scan_elems.simps(2) using val_eq [OF le]
      by (auto split: option.splits list.splits)
  qed
  {
    case 1
    then show ?case
      using val_eq [of "k - 1" "j - 1"] by simp
  next
    case 2
    then show ?case
      using elems [of "k - 2" "j - 2"] by (simp add: eval_nat_numeral Suc_diff_Suc)
  }
qed

section \<open>Decoding\<close>

definition json_fuel :: "string \<Rightarrow> nat" where
  "json_fuel s = 2 * length s + 2"

definition json_valid :: "string \<Rightarrow> bool" where
  "json_valid s \<longleftrightarrow>
     (case scan_value (json_fuel s) (skip_ws s) of None \<Rightarrow> False | Some r \<Rightarrow> skip_ws r = [])"

text \<open>
  \<open>json.Unmarshal\<close> into a map of raw messages, as the list of members in order (a later duplicate
  wins in \<open>json_lookup\<close>). \<open>null\<close> decodes to the nil map; another kind of value is an error.
\<close>

definition json_members :: "string \<Rightarrow> (string \<times> string) list option" where
  "json_members s =
     (if \<not> json_valid s then None
      else case skip_ws s of
        [] \<Rightarrow> None
      | c # r \<Rightarrow>
          if c = CHR ''{'' then
            (case skip_ws r of
               [] \<Rightarrow> None
             | d # r' \<Rightarrow> if d = CHR ''}'' then Some []
                         else map_option fst (scan_members (json_fuel s) (d # r')))
          else if has_prefix (c # r) ''null'' then Some []
          else None)"

definition json_lookup :: "(string \<times> string) list \<Rightarrow> string \<Rightarrow> string option" where
  "json_lookup ms k = map_of (rev ms) k"

text \<open>\<open>json.Unmarshal\<close> of one value into a \<open>string\<close> or a \<open>bool\<close> that holds \<open>old\<close>: \<open>null\<close> leaves it.\<close>

definition json_string :: "string \<Rightarrow> string \<Rightarrow> string option" where
  "json_string old s =
     (if \<not> json_valid s then None
      else case skip_ws s of
        [] \<Rightarrow> None
      | c # r \<Rightarrow>
          if c = quote_ch then map_option fst (scan_string r)
          else if has_prefix (c # r) ''null'' then Some old
          else None)"

definition json_bool :: "bool \<Rightarrow> string \<Rightarrow> bool option" where
  "json_bool old s =
     (if \<not> json_valid s then None
      else let v = skip_ws s in
        if has_prefix v ''true'' then Some True
        else if has_prefix v ''false'' then Some False
        else if has_prefix v ''null'' then Some old
        else None)"

section \<open>Encoding a raw message\<close>

text \<open>
  How \<open>json.Marshal\<close> copies a \<open>json.RawMessage\<close>: white space outside strings is dropped, and
  \<open><\<close>, \<open>>\<close>, \<open>&\<close> and the line separators U+2028 and U+2029 are escaped. The flag says whether the
  position is inside a string.
\<close>

fun compact :: "bool \<Rightarrow> string \<Rightarrow> string" where
  "compact q [] = []"
| "compact q (c # s) =
     (if \<not> q \<and> json_ws c then compact q s
      else if c = quote_ch then c # compact (\<not> q) s
      else if q \<and> c = bslash then
        (case s of [] \<Rightarrow> [c] | e # s' \<Rightarrow> c # e # compact q s')
      else if c = CHR ''<'' then bslash # ''u003c'' @ compact q s
      else if c = CHR ''>'' then bslash # ''u003e'' @ compact q s
      else if c = CHR ''&'' then bslash # ''u0026'' @ compact q s
      else if has_prefix (c # s) [CHR 0xE2, CHR 0x80, CHR 0xA8] then bslash # ''u2028'' @ compact q (drop 2 s)
      else if has_prefix (c # s) [CHR 0xE2, CHR 0x80, CHR 0xA9] then bslash # ''u2029'' @ compact q (drop 2 s)
      else c # compact q s)"

section \<open>Encoding a string\<close>

definition hex_char :: "nat \<Rightarrow> char" where
  "hex_char d = ''0123456789abcdef'' ! d"

definition html_unsafe :: "char \<Rightarrow> bool" where
  "html_unsafe c \<longleftrightarrow> c = CHR ''<'' \<or> c = CHR ''>'' \<or> c = CHR ''&''"

fun encode_body :: "string \<Rightarrow> string" where
  "encode_body [] = []"
| "encode_body (c # s) =
     (if c = quote_ch \<or> c = bslash then [bslash, c]
      else if c = CHR 0x08 then [bslash, CHR ''b'']
      else if c = CHR 0x0C then [bslash, CHR ''f'']
      else if c = CHR 0x0A then [bslash, CHR ''n'']
      else if c = CHR 0x0D then [bslash, CHR ''r'']
      else if c = CHR 0x09 then [bslash, CHR ''t'']
      else if byte_val c < 32 \<or> html_unsafe c
      then [bslash, CHR ''u'', CHR ''0'', CHR ''0'', hex_char (byte_val c div 16),
            hex_char (byte_val c mod 16)]
      else [c]) @ encode_body s"

definition encode_string :: "string \<Rightarrow> string" where
  "encode_string s = [quote_ch] @ encode_body s @ [quote_ch]"

lemma hex_val_hex_char: "d < 16 \<Longrightarrow> hex_val (hex_char d) = Some d"
proof -
  have "\<forall>d \<in> set [0..<16]. hex_val (hex_char d) = Some d" by code_simp
  then show "d < 16 \<Longrightarrow> hex_val (hex_char d) = Some d" by simp
qed

lemma hex4_low_byte:
  assumes "n < 256"
  shows "hex4 (CHR ''0'' # CHR ''0'' # hex_char (n div 16) # hex_char (n mod 16) # r) = Some (n, r)"
proof -
  have "n div 16 < 16" using assms by simp
  moreover have "hex_val (CHR ''0'') = Some 0" by (simp add: hex_val_def is_digit_def)
  ultimately show ?thesis by (simp add: hex_val_hex_char)
qed

declare hex4.simps(1) [simp del]

lemma unicode_escape_ascii: "n < 128 \<Longrightarrow> unicode_escape n r = ([char_of n], r)"
  by (simp add: unicode_escape_def utf8_encode_def)

text \<open>Decoding an encoded string gives it back: the scanner is a left inverse of the encoder.\<close>

lemma scan_encode_body: "scan_string (encode_body s @ quote_ch # r) = Some (s, r)"
proof (induction s)
  case Nil
  show ?case by (simp add: scan_string.simps(2))
next
  case (Cons c s)
  let ?u = "byte_val c < 32 \<or> html_unsafe c"
  have "byte_val c < 128" if ?u using that by (auto simp: html_unsafe_def)
  then show ?case
    using Cons by (auto simp: scan_string.simps(2) simple_escape_def hex4_low_byte
        unicode_escape_ascii split: if_splits)
qed

section \<open>Encoding an object\<close>

text \<open>The text \<open>json.Marshal\<close> gives for a struct: its members in order, without white space.\<close>

definition encode_member :: "string \<times> string \<Rightarrow> string" where
  "encode_member m = encode_string (fst m) @ '':'' @ snd m"

definition encode_object :: "(string \<times> string) list \<Rightarrow> string" where
  "encode_object ms = ''{'' @ join '','' (map encode_member ms) @ ''}''"

text \<open>A raw value the scanner reads up to the comma or brace that follows it.\<close>

definition raw_value :: "string \<Rightarrow> bool" where
  "raw_value v \<longleftrightarrow> v \<noteq> [] \<and> \<not> json_ws (hd v) \<and>
     (\<forall>k c r. c = CHR '','' \<or> c = CHR ''}'' \<longrightarrow> scan_value (Suc k) (v @ c # r) = Some (c # r))"

lemma raw_valueD:
  assumes "raw_value v"
  shows "skip_ws (v @ s) = v @ s"
    and "c = CHR '','' \<or> c = CHR ''}'' \<Longrightarrow> scan_value (Suc k) (v @ c # r) = Some (c # r)"
proof -
  show "skip_ws (v @ s) = v @ s"
    using assms by (cases v) (simp_all add: raw_value_def skip_ws_def)
  show "c = CHR '','' \<or> c = CHR ''}'' \<Longrightarrow> scan_value (Suc k) (v @ c # r) = Some (c # r)"
    using assms unfolding raw_value_def by blast
qed

lemma raw_value_string [simp]: "raw_value (encode_string s)"
  by (auto simp: raw_value_def encode_string_def json_ws_def scan_encode_body scan_value.simps)

lemma raw_value_true [simp]: "raw_value ''true''"
  by (auto simp: raw_value_def json_ws_def has_prefix_def scan_value.simps)

lemma scan_member_step:
  assumes "raw_value v" and "e = CHR '','' \<or> e = CHR ''}''"
  shows "scan_members (Suc (Suc k)) (encode_member (key, v) @ e # r) =
    (if e = CHR ''}'' then Some ([(key, v)], r)
     else map_option (\<lambda>(ms, q). ((key, v) # ms, q)) (scan_members (Suc k) (skip_ws r)))"
proof -
  have "encode_member (key, v) @ e # r =
      quote_ch # encode_body key @ quote_ch # CHR '':'' # v @ e # r"
    by (simp add: encode_member_def encode_string_def)
  moreover have "skip_ws (CHR '':'' # t) = CHR '':'' # t" for t
    by (simp add: skip_ws_def json_ws_def)
  moreover have "skip_ws (e # r) = e # r"
    using assms(2) by (auto simp: skip_ws_def json_ws_def)
  ultimately show ?thesis
    using assms raw_valueD [OF assms(1)]
    by (auto simp: scan_encode_body raw_before_def scan_members.simps)
qed

lemma scan_members_encode:
  assumes "ms \<noteq> []" and "\<forall>m \<in> set ms. raw_value (snd m)" and "length ms < k"
  shows "scan_members k (join '','' (map encode_member ms) @ CHR ''}'' # r) = Some (ms, r)"
  using assms
proof (induction ms arbitrary: k rule: list_nonempty_induct)
  case (single m)
  then obtain j where "k = Suc (Suc j)" by (cases k; cases "k - 1") auto
  with single show ?case by (cases m) (auto simp: scan_member_step simp del: scan_members.simps)
next
  case (cons m ms)
  then obtain j where k: "k = Suc (Suc j)" by (cases k; cases "k - 1") auto
  obtain n ms' where ms: "ms = n # ms'" using cons by (cases ms) auto
  have "skip_ws (join '','' (map encode_member ms) @ CHR ''}'' # r) =
      join '','' (map encode_member ms) @ CHR ''}'' # r"
    by (cases ms') (simp_all add: ms encode_member_def encode_string_def skip_ws_def json_ws_def)
  moreover have "join '','' (map encode_member (m # ms)) =
      encode_member m @ CHR '','' # join '','' (map encode_member ms)"
    by (simp add: ms)
  moreover have "scan_members (Suc j) (join '','' (map encode_member ms) @ CHR ''}'' # r) = Some (ms, r)"
    using cons k by simp
  ultimately show ?case
    using cons k by (cases m) (auto simp: scan_member_step simp del: scan_members.simps)
qed

lemma length_join_ge: "\<forall>x \<in> set xs. x \<noteq> [] \<Longrightarrow> length xs \<le> length (join sep xs)"
proof (induction sep xs rule: join.induct)
  case (2 sep s)
  then show ?case by (cases s) auto
next
  case (3 sep s t ts)
  then show ?case by (cases s) auto
qed simp

text \<open>Decoding an encoded object gives its members back.\<close>

lemma json_members_encode:
  assumes "\<forall>m \<in> set ms. raw_value (snd m)"
  shows "json_members (encode_object ms) = Some ms"
proof (cases ms)
  case Nil
  moreover have "json_members ''{}'' = Some []" by code_simp
  ultimately show ?thesis by (simp add: encode_object_def)
next
  case (Cons m ms')
  let ?body = "join '','' (map encode_member ms)"
  have q: "?body = quote_ch # tl ?body"
    by (cases ms') (simp_all add: Cons encode_member_def encode_string_def)
  have len: "length ms \<le> length ?body"
    using length_join_ge [of "map encode_member ms" "'',''"]
    by (simp add: encode_member_def encode_string_def)
  have scan: "length ms < k \<Longrightarrow> scan_members k (quote_ch # tl ?body @ ''}'') = Some (ms, [])" for k
    using scan_members_encode [OF _ assms, of k "[]"] q Cons by (metis append_Cons list.distinct(1))
  have e: "encode_object ms = CHR ''{'' # quote_ch # tl ?body @ ''}''"
    unfolding encode_object_def by (subst q) simp
  have sk: "skip_ws (encode_object ms) = encode_object ms"
    "skip_ws (quote_ch # tl ?body @ ''}'') = quote_ch # tl ?body @ ''}''"
    by (simp_all add: e skip_ws_def json_ws_def)
  have "length ?body = Suc (length (tl ?body))" using q by (metis length_Cons)
  then have f: "length ms < json_fuel (encode_object ms) - 1"
    using len by (simp add: e json_fuel_def)
  obtain j where j: "json_fuel (encode_object ms) = Suc j" "length ms < j"
    using f by (cases "json_fuel (encode_object ms)") auto
  have "scan_value (Suc j) (encode_object ms) = Some []"
    using scan [OF j(2)] sk by (simp add: e scan_value.simps)
  then have v: "json_valid (encode_object ms)"
    using sk j by (simp add: json_valid_def skip_ws_def del: scan_value.simps)
  show ?thesis
    using v scan [of "json_fuel (encode_object ms)"] f sk
    unfolding json_members_def by (simp add: e)
qed

end
