(* ===== verification/Issue_Model.thy ===== *)
theory Issue_Model
  imports Status_Types GoTime GoJSON
begin

text \<open>
  The central record of \<open>internal/types/types.go\<close>, its validators, its persistence planes and its
  content hash. A nil pointer is \<open>None\<close>, a nil slice the empty list.
\<close>

section \<open>The Issue record\<close>

type_synonym dep_type = string

record Dependency =
  d_ID :: string
  d_IssueID :: string
  d_DependsOnID :: string
  d_Type :: dep_type
  d_CreatedAt :: gotime
  d_CreatedBy :: string
  d_Metadata :: string
  d_ThreadID :: string

record Comment =
  c_ID :: string
  c_IssueID :: string
  c_Author :: string
  c_Text :: string
  c_CreatedAt :: gotime

record BondRef =
  br_SourceID :: string
  br_BondType :: string
  br_BondPoint :: string

record Issue =
  i_ID :: string
  i_ContentHash :: string
  i_Title :: string
  i_Description :: string
  i_Design :: string
  i_AcceptanceCriteria :: string
  i_Notes :: string
  i_SpecID :: string
  i_Status :: status
  i_Priority :: int
  i_IssueType :: issue_type
  i_IsBlocked :: bool
  i_Assignee :: string
  i_Owner :: string
  i_EstimatedMinutes :: "int option"
  i_CreatedAt :: gotime
  i_CreatedBy :: string
  i_UpdatedAt :: gotime
  i_StartedAt :: "gotime option"
  i_ClosedAt :: "gotime option"
  i_CloseReason :: string
  i_ClosedBySession :: string
  i_LeaseExpiresAt :: "gotime option"
  i_HeartbeatAt :: "gotime option"
  i_LeaseGrantedNode :: string
  i_RowVersion :: int
  i_DueAt :: "gotime option"
  i_DeferUntil :: "gotime option"
  i_ExternalRef :: "string option"
  i_SourceSystem :: string
  i_Metadata :: string
  i_CompactionLevel :: int
  i_CompactedAt :: "gotime option"
  i_CompactedAtCommit :: "string option"
  i_OriginalSize :: int
  i_SourceRepo :: string
  i_IDPrefix :: string
  i_PrefixOverride :: string
  i_WispPlaneOverride :: "bool option"
  i_Labels :: "string list"
  i_Dependencies :: "Dependency list"
  i_Comments :: "Comment list"
  i_Sender :: string
  i_Ephemeral :: bool
  i_NoHistory :: bool
  i_WispType :: wisp_type
  i_StorageClass :: storage_class
  i_Pinned :: bool
  i_IsTemplate :: bool
  i_BondedFrom :: "BondRef list"
  i_AwaitType :: string
  i_AwaitID :: string
  i_Timeout :: int
  i_Waiters :: "string list"
  i_SourceFormula :: string
  i_SourceLocation :: string
  i_MolType :: mol_type
  i_WorkType :: work_type
  i_EventKind :: string
  i_Actor :: string
  i_Target :: string
  i_Payload :: string
  i_IsLitePartial :: bool

text \<open>Go's zero values.\<close>

definition zero_time :: gotime where
  "zero_time = \<lparr>t_ns = days_from_civil 1 1 1 * ns_per_day, t_off = 0\<rparr>"

definition zero_issue :: Issue where
  "zero_issue = \<lparr>i_ID = [], i_ContentHash = [], i_Title = [], i_Description = [], i_Design = [],
     i_AcceptanceCriteria = [], i_Notes = [], i_SpecID = [], i_Status = [], i_Priority = 0,
     i_IssueType = [], i_IsBlocked = False, i_Assignee = [], i_Owner = [],
     i_EstimatedMinutes = None, i_CreatedAt = zero_time, i_CreatedBy = [],
     i_UpdatedAt = zero_time, i_StartedAt = None, i_ClosedAt = None, i_CloseReason = [],
     i_ClosedBySession = [], i_LeaseExpiresAt = None, i_HeartbeatAt = None,
     i_LeaseGrantedNode = [], i_RowVersion = 0, i_DueAt = None, i_DeferUntil = None,
     i_ExternalRef = None, i_SourceSystem = [], i_Metadata = [], i_CompactionLevel = 0,
     i_CompactedAt = None, i_CompactedAtCommit = None, i_OriginalSize = 0, i_SourceRepo = [],
     i_IDPrefix = [], i_PrefixOverride = [], i_WispPlaneOverride = None, i_Labels = [],
     i_Dependencies = [], i_Comments = [], i_Sender = [], i_Ephemeral = False,
     i_NoHistory = False, i_WispType = [], i_StorageClass = [], i_Pinned = False,
     i_IsTemplate = False, i_BondedFrom = [], i_AwaitType = [], i_AwaitID = [], i_Timeout = 0,
     i_Waiters = [], i_SourceFormula = [], i_SourceLocation = [], i_MolType = [],
     i_WorkType = [], i_EventKind = [], i_Actor = [], i_Target = [], i_Payload = [],
     i_IsLitePartial = False\<rparr>"

definition zero_dependency :: Dependency where
  "zero_dependency = \<lparr>d_ID = [], d_IssueID = [], d_DependsOnID = [], d_Type = [],
     d_CreatedAt = zero_time, d_CreatedBy = [], d_Metadata = [], d_ThreadID = []\<rparr>"

section \<open>Validation\<close>

text \<open>\<open>utf8.RuneCountInString\<close>: the width of the first rune (an invalid byte is a rune of its own),
  then the rest.\<close>

definition byte_in :: "string \<Rightarrow> nat \<Rightarrow> nat \<Rightarrow> nat \<Rightarrow> bool" where
  "byte_in s k lo hi \<longleftrightarrow> k < length s \<and> lo \<le> byte_val (s ! k) \<and> byte_val (s ! k) \<le> hi"

definition rune_width :: "string \<Rightarrow> nat" where
  "rune_width s =
     (let b = byte_val (hd s);
          lo = (if b = 224 then 160 else if b = 240 then 144 else 128);
          hi = (if b = 237 then 159 else if b = 244 then 143 else 191)
      in if b < 128 then 1
         else if 194 \<le> b \<and> b \<le> 223 \<and> byte_in s 1 128 191 then 2
         else if 224 \<le> b \<and> b \<le> 239 \<and> byte_in s 1 lo hi \<and> byte_in s 2 128 191 then 3
         else if 240 \<le> b \<and> b \<le> 244 \<and> byte_in s 1 lo hi \<and> byte_in s 2 128 191 \<and> byte_in s 3 128 191
         then 4 else 1)"

lemma rune_width_pos [simp]: "0 < rune_width s"
  by (simp add: rune_width_def Let_def)

function rune_count :: "string \<Rightarrow> nat" where
  "rune_count s = (if s = [] then 0 else 1 + rune_count (drop (rune_width s) s))"
  by pat_completeness auto
termination
  by (relation "measure length") (auto simp: diff_less)

declare rune_count.simps [simp del]

lemma rune_count_le_length: "rune_count s \<le> length s"
proof (induction s rule: rune_count.induct)
  case (1 s)
  show ?case
  proof (cases "s = []")
    case False
    with 1 have "rune_count (drop (rune_width s) s) \<le> length s - rune_width s" by simp
    moreover have "0 < length s" using False by simp
    moreover have "rune_count s = Suc (rune_count (drop (rune_width s) s))"
      by (simp add: rune_count.simps [of s] False)
    ultimately show ?thesis using rune_width_pos [of s] by linarith
  qed (simp add: rune_count.simps)
qed

datatype validation_error =
    TitleRequired
  | TitleTooLong nat
  | PriorityRange int
  | InvalidStatus status
  | InvalidIssueType issue_type
  | NegativeEstimate
  | ClosedWithoutClosedAt
  | ClosedAtOnNonClosed
  | MetadataNotJSON
  | EphemeralAndNoHistory
  | InvalidStorageClass storage_class
  | StorageClassConflict storage_class
  | EphemeralClassNeedsFlag
  | FieldTooLong string nat

definition MaxFieldLen :: nat where "MaxFieldLen = 255"
definition MaxTextBytes :: nat where "MaxTextBytes = 65535"

definition CheckFieldLen :: "string \<Rightarrow> string \<Rightarrow> validation_error option" where
  "CheckFieldLen name v =
     (let n = rune_count v in if n > MaxFieldLen then Some (FieldTooLong name n) else None)"

definition CheckTextLen :: "string \<Rightarrow> string \<Rightarrow> validation_error option" where
  "CheckTextLen name v =
     (let n = length v in if n > MaxTextBytes then Some (FieldTooLong name n) else None)"

definition ValidateIssueTitle :: "string \<Rightarrow> validation_error option" where
  "ValidateIssueTitle title =
     (if length title = 0 then Some TitleRequired
      else if length title > 500 then Some (TitleTooLong (length title)) else None)"

definition ValidateIssuePriority :: "int \<Rightarrow> validation_error option" where
  "ValidateIssuePriority priority =
     (if priority < 0 \<or> priority > 4 then Some (PriorityRange priority) else None)"

definition ValidateIssueEstimatedMinutes :: "int option \<Rightarrow> validation_error option" where
  "ValidateIssueEstimatedMinutes est =
     (case est of Some n \<Rightarrow> if n < 0 then Some NegativeEstimate else None | None \<Rightarrow> None)"

text \<open>The Go statement \<open>if err := f(); err != nil { return err }\<close>: the first error wins.\<close>

fun first_error :: "'e option list \<Rightarrow> 'e option" where
  "first_error [] = None"
| "first_error (Some e # es) = Some e"
| "first_error (None # es) = first_error es"

definition err_if :: "bool \<Rightarrow> 'e \<Rightarrow> 'e option" where
  "err_if c e = (if c then Some e else None)"

lemma first_error_None_iff: "first_error es = None \<longleftrightarrow> list_all (\<lambda>e. e = None) es"
  by (induction es rule: first_error.induct) auto

lemma err_if_None_iff [simp]: "err_if c e = None \<longleftrightarrow> \<not> c"
  by (simp add: err_if_def)

definition ValidateWithCustom ::
    "Issue \<Rightarrow> string list \<Rightarrow> string list \<Rightarrow> validation_error option" where
  "ValidateWithCustom i customStatuses customTypes =
     (let wispPlane = i_Ephemeral i \<or> i_NoHistory i; sc = i_StorageClass i in
      first_error
       [ValidateIssueTitle (i_Title i),
        ValidateIssuePriority (i_Priority i),
        err_if (\<not> Status_IsValidWithCustom (i_Status i) customStatuses) (InvalidStatus (i_Status i)),
        err_if (\<not> IssueType_IsValidWithCustom (i_IssueType i) customTypes)
          (InvalidIssueType (i_IssueType i)),
        ValidateIssueEstimatedMinutes (i_EstimatedMinutes i),
        err_if (i_Status i = StatusClosed \<and> i_ClosedAt i = None) ClosedWithoutClosedAt,
        err_if (i_Status i \<noteq> StatusClosed \<and> i_ClosedAt i \<noteq> None) ClosedAtOnNonClosed,
        err_if (length (i_Metadata i) > 0 \<and> \<not> json_valid (i_Metadata i)) MetadataNotJSON,
        err_if (i_Ephemeral i \<and> i_NoHistory i) EphemeralAndNoHistory,
        err_if (\<not> StorageClass_IsValid sc) (InvalidStorageClass sc),
        err_if (sc \<noteq> [] \<and> wispPlane \<and> sc \<noteq> StorageClassEphemeral) (StorageClassConflict sc),
        err_if (sc \<noteq> [] \<and> \<not> wispPlane \<and> sc = StorageClassEphemeral) EphemeralClassNeedsFlag,
        CheckFieldLen ''assignee'' (i_Assignee i),
        CheckFieldLen ''owner'' (i_Owner i)])"

definition ValidateWithCustomStatuses :: "Issue \<Rightarrow> string list \<Rightarrow> validation_error option" where
  "ValidateWithCustomStatuses i customStatuses = ValidateWithCustom i customStatuses []"

definition Validate :: "Issue \<Rightarrow> validation_error option" where
  "Validate i = ValidateWithCustomStatuses i []"

definition ValidateForImport :: "Issue \<Rightarrow> string list \<Rightarrow> validation_error option" where
  "ValidateForImport i customStatuses =
     first_error
       [ValidateIssueTitle (i_Title i),
        ValidateIssuePriority (i_Priority i),
        err_if (\<not> Status_IsValidWithCustom (i_Status i) customStatuses) (InvalidStatus (i_Status i)),
        ValidateIssueEstimatedMinutes (i_EstimatedMinutes i),
        err_if (i_Status i = StatusClosed \<and> i_ClosedAt i = None) ClosedWithoutClosedAt,
        err_if (i_Status i \<noteq> StatusClosed \<and> i_ClosedAt i \<noteq> None) ClosedAtOnNonClosed,
        err_if (length (i_Metadata i) > 0 \<and> \<not> json_valid (i_Metadata i)) MetadataNotJSON,
        CheckFieldLen ''assignee'' (i_Assignee i),
        CheckFieldLen ''owner'' (i_Owner i)]"

definition SetDefaults :: "Issue \<Rightarrow> Issue" where
  "SetDefaults i =
     (let i1 = (if i_Status i = [] then i\<lparr>i_Status := StatusOpen\<rparr> else i)
      in if i_IssueType i1 = [] then i1\<lparr>i_IssueType := TypeTask\<rparr> else i1)"

definition IsCompound :: "Issue \<Rightarrow> bool" where
  "IsCompound i \<longleftrightarrow> length (i_BondedFrom i) > 0"

definition GetConstituents :: "Issue \<Rightarrow> BondRef list" where
  "GetConstituents i = i_BondedFrom i"

section \<open>Persistence planes\<close>

datatype persistence_error =
    InvalidPersistenceMode persistence_mode
  | PersistEphemeralAndNoHistory
  | PersistInvalidStorageClass storage_class
  | PersistClassConflict storage_class
  | PersistEphemeralNeedsWisp
  | CannotMoveUnversioned persistence_mode

definition persistenceMode :: "Issue \<Rightarrow> persistence_mode" where
  "persistenceMode i =
     (if i_NoHistory i then PersistenceModeNoHistory
      else if i_Ephemeral i then PersistenceModeEphemeral
      else PersistenceModePersistent)"

definition EffectiveStorageClass :: "Issue \<Rightarrow> storage_class" where
  "EffectiveStorageClass i =
     (if i_StorageClass i \<noteq> [] then i_StorageClass i
      else if i_Ephemeral i \<or> i_NoHistory i then StorageClassEphemeral
      else StorageClassVersioned)"

definition NormalizePersistenceMode ::
    "Issue \<Rightarrow> persistence_mode \<Rightarrow> persistence_error + (bool \<times> bool \<times> storage_class)" where
  "NormalizePersistenceMode current mode =
     (let sc = i_StorageClass current; wispPlane = i_Ephemeral current \<or> i_NoHistory current in
      check (\<not> PersistenceMode_IsValid mode) (InvalidPersistenceMode mode)
     (check (i_Ephemeral current \<and> i_NoHistory current) PersistEphemeralAndNoHistory
     (check (\<not> StorageClass_IsValid sc) (PersistInvalidStorageClass sc)
     (check (wispPlane \<and> sc \<noteq> [] \<and> sc \<noteq> StorageClassEphemeral) (PersistClassConflict sc)
     (check (\<not> wispPlane \<and> sc = StorageClassEphemeral) PersistEphemeralNeedsWisp
     (check (sc = StorageClassUnversioned \<and> mode \<noteq> PersistenceModePersistent)
        (CannotMoveUnversioned mode)
     (if persistenceMode current = mode
      then Inr (i_Ephemeral current, i_NoHistory current, sc)
      else if mode = PersistenceModePersistent
      then Inr (False, False, if sc = StorageClassEphemeral then [] else sc)
      else if mode = PersistenceModeEphemeral
      then Inr (True, False, if sc = StorageClassVersioned then [] else sc)
      else if mode = PersistenceModeNoHistory
      then Inr (False, True, if sc = StorageClassVersioned then [] else sc)
      else Inl (InvalidPersistenceMode mode))))))))"

text \<open>The record with the returned fields stored, as every caller does.\<close>

definition with_persistence :: "Issue \<Rightarrow> bool \<times> bool \<times> storage_class \<Rightarrow> Issue" where
  "with_persistence i r =
     (case r of (e, n, sc) \<Rightarrow> i\<lparr>i_Ephemeral := e, i_NoHistory := n, i_StorageClass := sc\<rparr>)"

text \<open>The coherence of the plane flags and the class marker, the last four checks of
  \<open>ValidateWithCustom\<close> before the field lengths.\<close>

definition plane_ok :: "Issue \<Rightarrow> bool" where
  "plane_ok i \<longleftrightarrow>
     \<not> (i_Ephemeral i \<and> i_NoHistory i) \<and> StorageClass_IsValid (i_StorageClass i) \<and>
     (i_StorageClass i \<noteq> [] \<longrightarrow>
       ((i_Ephemeral i \<or> i_NoHistory i) \<longleftrightarrow> i_StorageClass i = StorageClassEphemeral))"

section \<open>Content hash\<close>

text \<open>
  \<open>hashFieldWriter\<close>: each method writes its value and a zero byte. The writers return the bytes
  written; the hash function (SHA-256, as a lower-case hex string) is an argument.
\<close>

definition hw_str :: "string \<Rightarrow> string" where "hw_str s = s @ [CHR 0x00]"
definition hw_int :: "int \<Rightarrow> string" where "hw_int n = itoa n @ [CHR 0x00]"
definition hw_strPtr :: "string option \<Rightarrow> string" where
  "hw_strPtr p = (case p of Some s \<Rightarrow> s | None \<Rightarrow> []) @ [CHR 0x00]"
definition hw_duration :: "int \<Rightarrow> string" where "hw_duration d = itoa d @ [CHR 0x00]"
definition hw_flag :: "bool \<Rightarrow> string \<Rightarrow> string" where
  "hw_flag b label = (if b then label else []) @ [CHR 0x00]"

definition content_bytes :: "Issue \<Rightarrow> string" where
  "content_bytes i =
     hw_str (i_Title i) @ hw_str (i_Description i) @ hw_str (i_Design i) @
     hw_str (i_AcceptanceCriteria i) @ hw_str (i_Notes i) @ hw_str (i_SpecID i) @
     hw_str (i_Status i) @ hw_int (i_Priority i) @ hw_str (i_IssueType i) @
     hw_str (i_Assignee i) @ hw_str (i_Owner i) @ hw_str (i_CreatedBy i) @
     hw_strPtr (i_ExternalRef i) @ hw_str (i_SourceSystem i) @ hw_flag (i_Pinned i) ''pinned'' @
     hw_str (i_Metadata i) @ hw_flag (i_IsTemplate i) ''template'' @
     concat (map (\<lambda>br. hw_str (br_SourceID br) @ hw_str (br_BondType br) @ hw_str (br_BondPoint br))
       (i_BondedFrom i)) @
     hw_str (i_AwaitType i) @ hw_str (i_AwaitID i) @ hw_duration (i_Timeout i) @
     concat (map hw_str (i_Waiters i)) @
     hw_str (i_MolType i) @ hw_str (i_WorkType i) @ hw_str (i_EventKind i) @
     hw_str (i_Actor i) @ hw_str (i_Target i) @ hw_str (i_Payload i)"

definition ComputeContentHash :: "(string \<Rightarrow> string) \<Rightarrow> Issue \<Rightarrow> string" where
  "ComputeContentHash sha256_hex i = sha256_hex (content_bytes i)"

section \<open>Properties of validation\<close>

text \<open>
  The federation import accepts every issue the creating repository validated, whatever custom
  types that repository had configured: the issue type is trusted, nothing else is stricter.
\<close>

theorem ValidateForImport_trusts:
  assumes "ValidateWithCustom i cs ct = None"
  shows "ValidateForImport (i\<lparr>i_IssueType := t\<rparr>) cs = None"
  using assms
  unfolding ValidateWithCustom_def ValidateForImport_def Let_def first_error_None_iff
  by simp

definition sample_issue :: Issue where
  "sample_issue = zero_issue\<lparr>i_ID := ''bd-a1b2'', i_Title := ''Fix login'', i_Status := StatusOpen,
     i_Priority := 1, i_IssueType := TypeBug, i_Assignee := ''alice'', i_Labels := [''auth'']\<rparr>"

lemma rune_count_alice: "rune_count ''alice'' = 5" "rune_count [] = 0"
  by (simp_all add: rune_count.simps rune_width_def Let_def)

lemma sample_issue_valid: "ValidateWithCustom sample_issue [] [] = None"
  by (simp add: ValidateWithCustom_def sample_issue_def zero_issue_def ValidateIssueTitle_def
      ValidateIssuePriority_def ValidateIssueEstimatedMinutes_def CheckFieldLen_def err_if_def
      status_defs issue_type_defs storage_class_defs rune_count_alice MaxFieldLen_def)

theorem ValidateForImport_trusts_witness:
  "ValidateForImport (sample_issue\<lparr>i_IssueType := ''convoy''\<rparr>) [] = None"
  using ValidateForImport_trusts [OF sample_issue_valid] by simp

text \<open>
  \<open>SetDefaults\<close> fills the status and the type of a sparse record and nothing else: it is
  idempotent, keeps a status or type that is set, and never touches the priority (priority 0 stays
  P0), although its comment says that the priority defaults to 2.
\<close>

theorem SetDefaults_spec:
  "SetDefaults i = i\<lparr>i_Status := (if i_Status i = [] then StatusOpen else i_Status i),
                     i_IssueType := (if i_IssueType i = [] then TypeTask else i_IssueType i)\<rparr> \<and>
   SetDefaults (SetDefaults i) = SetDefaults i \<and>
   i_Priority (SetDefaults i) = i_Priority i"
  by (simp add: SetDefaults_def Let_def)

section \<open>Properties of the persistence planes\<close>

text \<open>The fields a mode change yields once its guards have passed.\<close>

definition target_fields :: "Issue \<Rightarrow> persistence_mode \<Rightarrow> bool \<times> bool \<times> storage_class" where
  "target_fields i mode =
     (let sc = i_StorageClass i in
      if persistenceMode i = mode then (i_Ephemeral i, i_NoHistory i, sc)
      else if mode = PersistenceModePersistent
      then (False, False, if sc = StorageClassEphemeral then [] else sc)
      else (mode = PersistenceModeEphemeral, mode = PersistenceModeNoHistory,
            if sc = StorageClassVersioned then [] else sc))"

definition mode_change_ok :: "Issue \<Rightarrow> persistence_mode \<Rightarrow> bool" where
  "mode_change_ok i mode \<longleftrightarrow> PersistenceMode_IsValid mode \<and> plane_ok i \<and>
     \<not> (i_StorageClass i = StorageClassUnversioned \<and> mode \<noteq> PersistenceModePersistent)"

lemma mode_cases:
  assumes "PersistenceMode_IsValid mode"
  obtains "mode = PersistenceModePersistent" | "mode = PersistenceModeEphemeral"
    | "mode = PersistenceModeNoHistory"
  using assms by (auto simp: persistence_mode_defs)

lemma NormalizePersistenceMode_Inr_iff:
  "NormalizePersistenceMode i mode = Inr r \<longleftrightarrow> mode_change_ok i mode \<and> r = target_fields i mode"
proof (cases "PersistenceMode_IsValid mode")
  case True
  have guards: "StorageClass_IsValid sc \<Longrightarrow> \<not> (e \<and> n) \<Longrightarrow>
    (sc \<noteq> [] \<longrightarrow> ((e \<or> n) \<longleftrightarrow> sc = StorageClassEphemeral)) \<longleftrightarrow>
    \<not> ((e \<or> n) \<and> sc \<noteq> [] \<and> sc \<noteq> StorageClassEphemeral) \<and>
    \<not> (\<not> (e \<or> n) \<and> sc = StorageClassEphemeral)" for e n sc
    by auto
  from True show ?thesis
    unfolding NormalizePersistenceMode_def Let_def check_eq_Inr_iff mode_change_ok_def
      plane_ok_def target_fields_def
    by (cases rule: mode_cases) (use guards in \<open>auto split: if_splits\<close>)
next
  case False
  then show ?thesis by (simp add: NormalizePersistenceMode_def mode_change_ok_def)
qed

lemma with_persistence_fields [simp]:
  "i_Ephemeral (with_persistence i (e, n, sc)) = e"
  "i_NoHistory (with_persistence i (e, n, sc)) = n"
  "i_StorageClass (with_persistence i (e, n, sc)) = sc"
  by (simp_all add: with_persistence_def)

text \<open>
  Changing the persistence mode succeeds exactly for a known mode on a coherent record that is
  not an unversioned record leaving persistent storage.
\<close>

theorem NormalizePersistenceMode_correct:
  "(\<exists>r. NormalizePersistenceMode i mode = Inr r) \<longleftrightarrow>
     PersistenceMode_IsValid mode \<and> plane_ok i \<and>
     \<not> (i_StorageClass i = StorageClassUnversioned \<and> mode \<noteq> PersistenceModePersistent)"
  by (simp add: NormalizePersistenceMode_Inr_iff mode_change_ok_def)

lemma target_fields_ok:
  assumes "mode_change_ok i mode" and "target_fields i mode = (e, n, sc)"
  shows "\<not> (e \<and> n)" and "StorageClass_IsValid sc"
    and "sc \<noteq> [] \<Longrightarrow> (e \<or> n) = (sc = StorageClassEphemeral)"
    and "mode = (if n then PersistenceModeNoHistory else if e then PersistenceModeEphemeral
      else PersistenceModePersistent)"
    and "sc = StorageClassUnversioned \<Longrightarrow> mode = PersistenceModePersistent"
proof -
  have v: "PersistenceMode_IsValid mode" and p: "plane_ok i"
    and u: "i_StorageClass i = StorageClassUnversioned \<Longrightarrow> mode = PersistenceModePersistent"
    using assms(1) by (auto simp: mode_change_ok_def)
  have t: "target_fields i mode = (e, n, sc)" by (rule assms(2))
  have c: "i_StorageClass i \<in> {[], StorageClassVersioned, StorageClassUnversioned, StorageClassEphemeral}"
    using p by (auto simp: plane_ok_def storage_class_defs)
  have "\<not> (e \<and> n) \<and> StorageClass_IsValid sc \<and>
    (sc \<noteq> [] \<longrightarrow> (e \<or> n) = (sc = StorageClassEphemeral)) \<and>
    mode = (if n then PersistenceModeNoHistory else if e then PersistenceModeEphemeral
      else PersistenceModePersistent) \<and>
    (sc = StorageClassUnversioned \<longrightarrow> mode = PersistenceModePersistent)"
    using v
  proof (cases rule: mode_cases)
    case 1
    with t p c show ?thesis
      by (cases "i_Ephemeral i"; cases "i_NoHistory i")
        (auto simp: target_fields_def persistenceMode_def plane_ok_def storage_class_defs)
  next
    case 2
    with t p c u show ?thesis
      by (cases "i_Ephemeral i"; cases "i_NoHistory i")
        (auto simp: target_fields_def persistenceMode_def plane_ok_def storage_class_defs)
  next
    case 3
    with t p c u show ?thesis
      by (cases "i_Ephemeral i"; cases "i_NoHistory i")
        (auto simp: target_fields_def persistenceMode_def plane_ok_def storage_class_defs)
  qed
  then show "\<not> (e \<and> n)" "StorageClass_IsValid sc"
    "sc \<noteq> [] \<Longrightarrow> (e \<or> n) = (sc = StorageClassEphemeral)"
    "mode = (if n then PersistenceModeNoHistory else if e then PersistenceModeEphemeral
      else PersistenceModePersistent)"
    "sc = StorageClassUnversioned \<Longrightarrow> mode = PersistenceModePersistent"
    by blast+
qed

text \<open>
  C31: the plane after a mode change: the stored record is coherent, its mode is the requested one,
  and repeating the request returns the same fields.
\<close>

theorem NormalizePersistenceMode_result:
  assumes "NormalizePersistenceMode i mode = Inr r"
  shows "plane_ok (with_persistence i r) \<and> persistenceMode (with_persistence i r) = mode \<and>
    NormalizePersistenceMode (with_persistence i r) mode = Inr r"
proof -
  obtain e n sc where r: "r = (e, n, sc)" by (rule prod_cases3)
  have ok: "mode_change_ok i mode" and t: "target_fields i mode = (e, n, sc)"
    using assms by (auto simp: NormalizePersistenceMode_Inr_iff r)
  note f = target_fields_ok [OF ok t]
  have p: "plane_ok (with_persistence i r)" using f by (simp add: plane_ok_def r)
  have m: "persistenceMode (with_persistence i r) = mode"
    by (subst f(4)) (simp add: persistenceMode_def r)
  have "mode_change_ok (with_persistence i r) mode"
    using ok p f(5) by (auto simp: mode_change_ok_def r)
  with p m show ?thesis by (simp add: NormalizePersistenceMode_Inr_iff target_fields_def r)
qed

theorem NormalizePersistenceMode_result_witness:
  "persistenceMode (with_persistence sample_issue (False, True, [])) = PersistenceModeNoHistory"
  using NormalizePersistenceMode_result
    [of sample_issue PersistenceModeNoHistory "(False, True, [])"]
  by (simp add: NormalizePersistenceMode_def Let_def sample_issue_def zero_issue_def
      persistence_mode_defs storage_class_defs persistenceMode_def)

section \<open>Properties of the content hash\<close>

definition content_fields :: "Issue \<Rightarrow> string list" where
  "content_fields i =
     [i_Title i, i_Description i, i_Design i, i_AcceptanceCriteria i, i_Notes i, i_SpecID i,
      i_Status i, itoa (i_Priority i), i_IssueType i, i_Assignee i, i_Owner i, i_CreatedBy i,
      case_option [] id (i_ExternalRef i), i_SourceSystem i,
      if i_Pinned i then ''pinned'' else [], i_Metadata i,
      if i_IsTemplate i then ''template'' else []] @
     concat (map (\<lambda>br. [br_SourceID br, br_BondType br, br_BondPoint br]) (i_BondedFrom i)) @
     [i_AwaitType i, i_AwaitID i, itoa (i_Timeout i)] @ i_Waiters i @
     [i_MolType i, i_WorkType i, i_EventKind i, i_Actor i, i_Target i, i_Payload i]"

lemma hw_eqs:
  "hw_int n = hw_str (itoa n)" "hw_duration n = hw_str (itoa n)"
  "hw_strPtr p = hw_str (case_option [] id p)"
  "hw_flag b l = hw_str (if b then l else [])"
  by (simp_all add: hw_str_def hw_int_def hw_duration_def hw_strPtr_def hw_flag_def
      split: option.split)

lemma content_bytes_fields: "content_bytes i = concat (map hw_str (content_fields i))"
proof -
  have "concat (map (\<lambda>br. hw_str (br_SourceID br) @ hw_str (br_BondType br) @ hw_str (br_BondPoint br)) bs)
    = concat (map hw_str (concat (map (\<lambda>br. [br_SourceID br, br_BondType br, br_BondPoint br]) bs)))"
    for bs :: "BondRef list" by (induction bs) simp_all
  then show ?thesis
    by (simp add: content_bytes_def content_fields_def hw_eqs)
qed

lemma zero_terminated_inj:
  assumes "concat (map hw_str xs) = concat (map hw_str ys)"
    and "list_all (\<lambda>s. CHR 0x00 \<notin> set s) xs" and "list_all (\<lambda>s. CHR 0x00 \<notin> set s) ys"
  shows "xs = ys"
  using assms
proof (induction xs arbitrary: ys)
  case Nil
  then show ?case by (cases ys) (auto simp: hw_str_def)
next
  case (Cons x xs)
  then obtain y ys' where ys: "ys = y # ys'" by (cases ys) (auto simp: hw_str_def)
  with Cons.prems have e: "x @ CHR 0x00 # concat (map hw_str xs) =
      y @ CHR 0x00 # concat (map hw_str ys')" by (simp add: hw_str_def [of x] hw_str_def [of y])
  have n: "CHR 0x00 \<notin> set x" "CHR 0x00 \<notin> set y" using Cons.prems ys by auto
  have "x = takeWhile (\<lambda>c. c \<noteq> CHR 0x00) (x @ CHR 0x00 # concat (map hw_str xs))"
    using n(1) by (rule takeWhile_sep [symmetric])
  also have "\<dots> = takeWhile (\<lambda>c. c \<noteq> CHR 0x00) (y @ CHR 0x00 # concat (map hw_str ys'))"
    by (simp only: e)
  also have "\<dots> = y" using n(2) by (rule takeWhile_sep)
  finally have "x = y" .
  with e Cons ys show ?case by simp
qed

text \<open>The content of an issue: what the hash may depend on. A nil external reference and an empty one
  are not told apart.\<close>

definition content_view :: "Issue \<Rightarrow> Issue" where
  "content_view i = zero_issue\<lparr>i_Title := i_Title i, i_Description := i_Description i,
     i_Design := i_Design i, i_AcceptanceCriteria := i_AcceptanceCriteria i,
     i_Notes := i_Notes i, i_SpecID := i_SpecID i, i_Status := i_Status i,
     i_Priority := i_Priority i, i_IssueType := i_IssueType i, i_Assignee := i_Assignee i,
     i_Owner := i_Owner i, i_CreatedBy := i_CreatedBy i,
     i_ExternalRef := Some (case_option [] id (i_ExternalRef i)),
     i_SourceSystem := i_SourceSystem i, i_Pinned := i_Pinned i, i_Metadata := i_Metadata i,
     i_IsTemplate := i_IsTemplate i, i_BondedFrom := i_BondedFrom i,
     i_AwaitType := i_AwaitType i, i_AwaitID := i_AwaitID i, i_Timeout := i_Timeout i,
     i_Waiters := i_Waiters i, i_MolType := i_MolType i, i_WorkType := i_WorkType i,
     i_EventKind := i_EventKind i, i_Actor := i_Actor i, i_Target := i_Target i,
     i_Payload := i_Payload i\<rparr>"

lemma content_fields_view: "content_fields (content_view i) = content_fields i"
  by (simp add: content_view_def content_fields_def)

lemma bond_fields_inj:
  fixes as bs :: "BondRef list"
  assumes "concat (map (\<lambda>br. [br_SourceID br, br_BondType br, br_BondPoint br]) as) @ xs =
      concat (map (\<lambda>br. [br_SourceID br, br_BondType br, br_BondPoint br]) bs) @ ys"
    and "length as = length bs"
  shows "as = bs \<and> xs = ys"
  using assms(2,1) by (induction as bs rule: list_induct2) (auto intro: BondRef.equality)

lemma content_fields_inj:
  assumes "content_fields i = content_fields j"
    and "length (i_BondedFrom i) = length (i_BondedFrom j)"
  shows "content_view i = content_view j"
proof -
  let ?t = "\<lambda>i. [i_AwaitType i, i_AwaitID i, itoa (i_Timeout i)] @ i_Waiters i @
     [i_MolType i, i_WorkType i, i_EventKind i, i_Actor i, i_Target i, i_Payload i]"
  have "i_BondedFrom i = i_BondedFrom j \<and> ?t i = ?t j"
    by (rule bond_fields_inj [OF _ assms(2)]) (use assms(1) in \<open>simp add: content_fields_def\<close>)
  then show ?thesis
    using assms(1)
    by (auto simp: content_fields_def content_view_def dest!: itoa_inj split: if_splits)
qed

text \<open>
  C32: the bytes that are hashed identify the content. For two issues whose content fields hold no
  zero byte and that have the same number of bond references, the hash input is the same exactly
  when the contents are the same; in particular it ignores the ID, the timestamps, the lease and the
  compaction fields.
\<close>

theorem content_bytes_eq_iff:
  assumes "list_all (\<lambda>s. CHR 0x00 \<notin> set s) (content_fields i)"
    and "list_all (\<lambda>s. CHR 0x00 \<notin> set s) (content_fields j)"
    and "length (i_BondedFrom i) = length (i_BondedFrom j)"
  shows "content_bytes i = content_bytes j \<longleftrightarrow> content_view i = content_view j"
proof
  assume "content_bytes i = content_bytes j"
  then have "content_fields i = content_fields j"
    using zero_terminated_inj assms(1,2) by (simp add: content_bytes_fields)
  then show "content_view i = content_view j" by (rule content_fields_inj [OF _ assms(3)])
next
  assume "content_view i = content_view j"
  then show "content_bytes i = content_bytes j"
    by (metis content_bytes_fields content_fields_view)
qed

theorem content_bytes_eq_iff_witness:
  "content_bytes sample_issue = content_bytes (sample_issue\<lparr>i_ID := ''bd-zzzz'', i_RowVersion := 7\<rparr>)"
  using content_bytes_eq_iff [of sample_issue "sample_issue\<lparr>i_ID := ''bd-zzzz'', i_RowVersion := 7\<rparr>"]
  by (simp add: content_fields_def content_view_def sample_issue_def zero_issue_def itoa_def
      nat_to_dec.simps digit_char_def)

text \<open>
  Without that side condition the hash input is ambiguous, whatever the hash function: the lists
  of bond references and of waiters are written without their lengths, so an issue bonded from one
  source and an issue with three waiters can have the same content hash.
\<close>

theorem content_hash_collision:
  "\<exists>i j. content_view i \<noteq> content_view j \<and>
     (\<forall>sha256_hex. ComputeContentHash sha256_hex i = ComputeContentHash sha256_hex j)"
proof -
  define i where "i = zero_issue\<lparr>i_BondedFrom :=
    [\<lparr>br_SourceID = ''a'', br_BondType = ''b'', br_BondPoint = ''0''\<rparr>],
    i_AwaitType := ''c'', i_AwaitID := ''d''\<rparr>"
  define j where "j = zero_issue\<lparr>i_AwaitType := ''a'', i_AwaitID := ''b'',
    i_Waiters := [''c'', ''d'', ''0'']\<rparr>"
  have "itoa 0 = ''0''" by (simp add: itoa_def nat_to_dec.simps digit_char_def)
  then have "content_bytes i = content_bytes j"
    by (simp add: i_def j_def content_bytes_fields content_fields_def zero_issue_def)
  moreover have "content_view i \<noteq> content_view j"
    by (simp add: i_def j_def content_view_def zero_issue_def)
  ultimately show ?thesis by (metis ComputeContentHash_def)
qed

end
