(* ===== verification/Dependency_Types.thy ===== *)
theory Dependency_Types
  imports Issue_Model "HOL-Library.Char_ord" "HOL-Library.List_Lexorder" "HOL-Library.Multiset"
begin

text \<open>
  Dependency edges of \<open>internal/types/types.go\<close>: the edge types and the sets the scheduler reads, the
  fanout-gate metadata of waits-for edges and the constructors that write it, failure close reasons,
  and the explanation of ready and blocked work. A Go map is a partial function; a nil map the
  empty one.
\<close>

section \<open>Edge types\<close>

definition DepBlocks :: dep_type where "DepBlocks = ''blocks''"
definition DepParentChild :: dep_type where "DepParentChild = ''parent-child''"
definition DepConditionalBlocks :: dep_type where "DepConditionalBlocks = ''conditional-blocks''"
definition DepWaitsFor :: dep_type where "DepWaitsFor = ''waits-for''"

definition AllDependencyTypes :: "dep_type list" where
  "AllDependencyTypes =
     [DepBlocks, DepParentChild, DepConditionalBlocks, DepWaitsFor,
      ''related'', ''discovered-from'',
      ''replies-to'', ''relates-to'', ''duplicates'', ''supersedes'',
      ''authored-by'', ''assigned-to'', ''approved-by'', ''attests'',
      ''tracks'',
      ''until'', ''caused-by'', ''validates'',
      ''delegated-from'']"

definition MaxDependencyTypeLen :: nat where "MaxDependencyTypeLen = 32"

definition DependencyType_IsValid :: "dep_type \<Rightarrow> bool" where
  "DependencyType_IsValid d \<longleftrightarrow> length d > 0 \<and> length d \<le> MaxDependencyTypeLen"

definition WellKnownDependencyTypes :: "dep_type list" where
  "WellKnownDependencyTypes =
     [DepBlocks, DepParentChild, DepConditionalBlocks, DepWaitsFor, ''related'', ''discovered-from'',
      ''replies-to'', ''relates-to'', ''duplicates'', ''supersedes'',
      ''authored-by'', ''assigned-to'', ''approved-by'', ''attests'', ''tracks'',
      ''until'', ''caused-by'', ''validates'', ''delegated-from'']"

definition IsWellKnown :: "dep_type \<Rightarrow> bool" where
  "IsWellKnown d \<longleftrightarrow> list_ex (\<lambda>w. d = w) WellKnownDependencyTypes"

definition AffectsReadyWork :: "dep_type \<Rightarrow> bool" where
  "AffectsReadyWork d \<longleftrightarrow>
     d = DepBlocks \<or> d = DepParentChild \<or> d = DepConditionalBlocks \<or> d = DepWaitsFor"

definition IsBlockingEdge :: "dep_type \<Rightarrow> bool" where
  "IsBlockingEdge d \<longleftrightarrow> d = DepBlocks \<or> d = DepConditionalBlocks \<or> d = DepWaitsFor"

definition IsSchedulingEdge :: "dep_type \<Rightarrow> bool" where
  "IsSchedulingEdge t \<longleftrightarrow> t = DepBlocks \<or> t = DepConditionalBlocks \<or> t = DepParentChild"

lemmas dep_type_defs = DepBlocks_def DepParentChild_def DepConditionalBlocks_def DepWaitsFor_def

section \<open>Fanout gates\<close>

record WaitsForMeta =
  w_Gate :: string
  w_SpawnerID :: string
  w_AlsoBlocks :: bool

definition WaitsForAllChildren :: string where "WaitsForAllChildren = ''all-children''"
definition WaitsForAnyChildren :: string where "WaitsForAnyChildren = ''any-children''"

definition IsValidWaitsForGate :: "string \<Rightarrow> bool" where
  "IsValidWaitsForGate gate \<longleftrightarrow> gate = WaitsForAllChildren \<or> gate = WaitsForAnyChildren"

text \<open>\<open>json.Marshal\<close> of the struct by its tags: \<open>gate\<close> always, the other two unless empty.\<close>

definition marshal_waits_for :: "WaitsForMeta \<Rightarrow> string" where
  "marshal_waits_for m = encode_object
     ([(''gate'', encode_string (w_Gate m))] @
      (if w_SpawnerID m = [] then [] else [(''spawner_id'', encode_string (w_SpawnerID m))]) @
      (if w_AlsoBlocks m then [(''also_blocks'', ''true'')] else []))"

text \<open>
  \<open>json.Unmarshal\<close> into the struct: the members in order, each matched to a tag ignoring case, an
  unknown member skipped; a member of the wrong kind makes the call return an error.
\<close>

definition set_waits_for :: "string \<times> string \<Rightarrow> WaitsForMeta \<Rightarrow> WaitsForMeta option" where
  "set_waits_for kv m =
     (let k = fst kv; v = snd kv in
      if equal_fold k ''gate'' then
        map_option (\<lambda>s. m\<lparr>w_Gate := s\<rparr>) (json_string (w_Gate m) v)
      else if equal_fold k ''spawner_id'' then
        map_option (\<lambda>s. m\<lparr>w_SpawnerID := s\<rparr>) (json_string (w_SpawnerID m) v)
      else if equal_fold k ''also_blocks'' then
        map_option (\<lambda>b. m\<lparr>w_AlsoBlocks := b\<rparr>) (json_bool (w_AlsoBlocks m) v)
      else Some m)"

fun set_all_waits_for :: "(string \<times> string) list \<Rightarrow> WaitsForMeta \<Rightarrow> WaitsForMeta option" where
  "set_all_waits_for [] m = Some m"
| "set_all_waits_for (kv # kvs) m =
     (case set_waits_for kv m of None \<Rightarrow> None | Some m' \<Rightarrow> set_all_waits_for kvs m')"

definition zero_waits_for :: WaitsForMeta where
  "zero_waits_for = \<lparr>w_Gate = [], w_SpawnerID = [], w_AlsoBlocks = False\<rparr>"

definition unmarshal_waits_for :: "string \<Rightarrow> WaitsForMeta option" where
  "unmarshal_waits_for s =
     (case json_members s of None \<Rightarrow> None | Some ms \<Rightarrow> set_all_waits_for ms zero_waits_for)"

datatype dep_error =
    UnresolvedSpawner string
  | BadWaitsForMetadata
  | TargetNotFound string
  | UnknownMetadataRef string string
  | BadMetadata
  | NilMapAssignment

definition NewGraphEdgeDependency ::
  "string \<Rightarrow> string \<Rightarrow> dep_type \<Rightarrow> string \<Rightarrow> string \<Rightarrow> string \<Rightarrow> string \<Rightarrow>
    (string \<rightharpoonup> string) \<Rightarrow> dep_error + Dependency" where
  "NewGraphEdgeDependency fromID toID depType gate spawnerKey spawnerID threadID keyToID =
     (let dep = zero_dependency\<lparr>d_IssueID := fromID, d_DependsOnID := toID, d_Type := depType,
                  d_ThreadID := threadID\<rparr> in
      if depType = DepWaitsFor then
        bindE (if spawnerKey \<noteq> [] then
                 (case keyToID spawnerKey of
                    None \<Rightarrow> Inl (UnresolvedSpawner spawnerKey)
                  | Some resolved \<Rightarrow> Inr resolved)
               else Inr spawnerID)
          (\<lambda>spawner.
             let gate' = (if gate = [] then WaitsForAllChildren else gate) in
             Inr (dep\<lparr>d_Metadata := marshal_waits_for
                    \<lparr>w_Gate = gate', w_SpawnerID = spawner, w_AlsoBlocks = False\<rparr>\<rparr>))
      else Inr dep)"

definition NewWaitsForDependency :: "string \<Rightarrow> string \<Rightarrow> string \<Rightarrow> dep_error + Dependency" where
  "NewWaitsForDependency issueID spawnerID gate =
     NewGraphEdgeDependency issueID spawnerID DepWaitsFor gate [] [] [] Map.empty"

definition NewWaitsForBlockingDependency ::
  "string \<Rightarrow> string \<Rightarrow> string \<Rightarrow> dep_error + Dependency" where
  "NewWaitsForBlockingDependency issueID spawnerID gate =
     bindE (NewWaitsForDependency issueID spawnerID gate)
       (\<lambda>dep. case unmarshal_waits_for (d_Metadata dep) of
          None \<Rightarrow> Inl BadWaitsForMetadata
        | Some meta \<Rightarrow> Inr (dep\<lparr>d_Metadata := marshal_waits_for (meta\<lparr>w_AlsoBlocks := True\<rparr>)\<rparr>))"

text \<open>A missing key of a Go map reads as the empty string.\<close>

definition NewGraphNodeDependency ::
  "string \<Rightarrow> dep_type \<Rightarrow> string \<Rightarrow> (string \<rightharpoonup> string) \<Rightarrow> dep_error + Dependency" where
  "NewGraphNodeDependency issueID depType target keyToID =
     (let depType' = (if depType = [] then DepBlocks else depType);
          mapped = case_option [] id (keyToID target);
          targetID = (if mapped = [] then target else mapped) in
      check (targetID = []) (TargetNotFound target)
        (NewGraphEdgeDependency issueID targetID depType' [] [] [] [] Map.empty))"

text \<open>
  \<open>MergeMetadataRefs\<close>. The merged map is a list of assignments, the last one of a key wins; \<open>None\<close> is
  the nil map that decoding \<open>null\<close> leaves, and an assignment to it panics (\<open>NilMapAssignment\<close>). The
  refs are listed in the order the range loop visits them, which Go leaves open. \<open>json.Marshal\<close>
  writes a map by ascending key and each raw message compacted.
\<close>

definition json_is_null :: "string \<Rightarrow> bool" where
  "json_is_null s \<longleftrightarrow> json_valid s \<and> has_prefix (skip_ws s) ''null''"

definition merge_start :: "string \<Rightarrow> dep_error + (string \<times> string) list option" where
  "merge_start existing =
     (if length existing > 0 then
        (case json_members existing of
           None \<Rightarrow> Inl BadMetadata
         | Some ms \<Rightarrow> Inr (if json_is_null existing then None else Some ms))
      else Inr (Some []))"

fun merge_refs ::
  "(string \<times> string) list \<Rightarrow> (string \<rightharpoonup> string) \<Rightarrow> (string \<times> string) list option \<Rightarrow>
    dep_error + (string \<times> string) list option" where
  "merge_refs [] keyToID merged = Inr merged"
| "merge_refs ((metaKey, refKey) # refs) keyToID merged =
     (case keyToID refKey of
        None \<Rightarrow> Inl (UnknownMetadataRef metaKey refKey)
      | Some resolvedID \<Rightarrow>
          (case merged of
             None \<Rightarrow> Inl NilMapAssignment
           | Some ms \<Rightarrow> merge_refs refs keyToID (Some (ms @ [(metaKey, encode_string resolvedID)]))))"

definition marshal_raw_map :: "(string \<times> string) list option \<Rightarrow> string" where
  "marshal_raw_map merged =
     (case merged of
        None \<Rightarrow> ''null''
      | Some ms \<Rightarrow> encode_object
          (map (\<lambda>k. (k, case_option [] (compact False) (json_lookup ms k))) (sort (remdups (map fst ms)))))"

definition MergeMetadataRefs ::
  "string \<Rightarrow> (string \<times> string) list \<Rightarrow> (string \<rightharpoonup> string) \<Rightarrow> dep_error + string" where
  "MergeMetadataRefs existing refs keyToID =
     bindE (merge_start existing) (\<lambda>m0.
       bindE (merge_refs refs keyToID m0) (\<lambda>m. Inr (marshal_raw_map m)))"

definition ParseWaitsForGateMetadata :: "string \<Rightarrow> string" where
  "ParseWaitsForGateMetadata metadata =
     (if trim_space metadata = [] then WaitsForAllChildren
      else case unmarshal_waits_for metadata of
        None \<Rightarrow> WaitsForAllChildren
      | Some meta \<Rightarrow>
          if w_Gate meta = WaitsForAnyChildren then WaitsForAnyChildren else WaitsForAllChildren)"

section \<open>Failure close reasons\<close>

definition FailureCloseKeywords :: "string list" where
  "FailureCloseKeywords =
     [''failed'', ''rejected'', ''wontfix'', ''won'' @ [CHR 0x27] @ ''t fix'', ''canceled'',
      ''cancelled'', ''abandoned'', ''blocked'', ''error'', ''timeout'', ''aborted'']"

definition IsFailureClose :: "string \<Rightarrow> bool" where
  "IsFailureClose closeReason \<longleftrightarrow>
     closeReason \<noteq> [] \<and>
     (let lower = to_lower closeReason in
      list_ex (\<lambda>keyword. str_contains lower keyword) FailureCloseKeywords)"

section \<open>Explaining ready and blocked work\<close>

record DependencyCounts =
  DependencyCount :: int
  DependentCount :: int

record BlockedIssue =
  bi_Issue :: Issue
  bi_BlockedByCount :: int
  bi_BlockedBy :: "string list"

record ReadyItem =
  ri_Issue :: Issue
  ri_Reason :: string
  ri_ResolvedBlockers :: "string list"
  ri_DependencyCount :: int
  ri_DependentCount :: int
  ri_Parent :: "string option"

record BlockerInfo =
  bl_ID :: string
  bl_Title :: string
  bl_Status :: status
  bl_Priority :: int

record BlockedItem =
  bk_Issue :: Issue
  bk_BlockedBy :: "BlockerInfo list"
  bk_BlockedByCount :: int

record ExplainSummary =
  TotalReady :: nat
  TotalBlocked :: nat
  CycleCount :: nat

record ReadyExplanation =
  re_Ready :: "ReadyItem list"
  re_Blocked :: "BlockedItem list"
  re_Cycles :: "string list list"
  re_Summary :: ExplainSummary

fun resolved_blockers :: "Dependency list \<Rightarrow> string list \<Rightarrow> string list" where
  "resolved_blockers [] acc = acc"
| "resolved_blockers (dep # deps) acc =
     (if d_Type dep = DepBlocks \<or> d_Type dep = DepConditionalBlocks \<or> d_Type dep = DepWaitsFor
      then resolved_blockers deps (acc @ [d_DependsOnID dep])
      else resolved_blockers deps acc)"

fun first_parent :: "Dependency list \<Rightarrow> string option" where
  "first_parent [] = None"
| "first_parent (dep # deps) =
     (if d_Type dep = DepParentChild then Some (d_DependsOnID dep) else first_parent deps)"

definition ready_item ::
  "(string \<rightharpoonup> DependencyCounts) \<Rightarrow> (string \<rightharpoonup> Dependency list) \<Rightarrow> Issue \<Rightarrow> ReadyItem" where
  "ready_item depCounts allDeps issue =
     (let counts = case_option \<lparr>DependencyCount = 0, DependentCount = 0\<rparr> id (depCounts (i_ID issue));
          deps = case_option [] id (allDeps (i_ID issue));
          resolved = resolved_blockers deps [];
          reason = (if length resolved > 0
                    then nat_to_dec (length resolved) @ '' blocker(s) resolved''
                    else ''no blocking dependencies'')
      in \<lparr>ri_Issue = issue, ri_Reason = reason, ri_ResolvedBlockers = resolved,
          ri_DependencyCount = DependencyCount counts, ri_DependentCount = DependentCount counts,
          ri_Parent = first_parent deps\<rparr>)"

definition blocker_info :: "(string \<rightharpoonup> Issue) \<Rightarrow> string \<Rightarrow> BlockerInfo" where
  "blocker_info blockerMap blockerID =
     (case blockerMap blockerID of
        None \<Rightarrow> \<lparr>bl_ID = blockerID, bl_Title = [], bl_Status = [], bl_Priority = 0\<rparr>
      | Some blocker \<Rightarrow>
          \<lparr>bl_ID = blockerID, bl_Title = i_Title blocker, bl_Status = i_Status blocker,
           bl_Priority = i_Priority blocker\<rparr>)"

definition blocked_item :: "(string \<rightharpoonup> Issue) \<Rightarrow> BlockedIssue \<Rightarrow> BlockedItem" where
  "blocked_item blockerMap bi =
     \<lparr>bk_Issue = bi_Issue bi, bk_BlockedBy = map (blocker_info blockerMap) (bi_BlockedBy bi),
      bk_BlockedByCount = bi_BlockedByCount bi\<rparr>"

definition BuildReadyExplanation ::
  "Issue list \<Rightarrow> BlockedIssue list \<Rightarrow> (string \<rightharpoonup> DependencyCounts) \<Rightarrow>
    (string \<rightharpoonup> Dependency list) \<Rightarrow> (string \<rightharpoonup> Issue) \<Rightarrow> Issue list list \<Rightarrow> ReadyExplanation" where
  "BuildReadyExplanation readyIssues blockedIssues depCounts allDeps blockerMap cycles =
     (let readyItems = map (ready_item depCounts allDeps) readyIssues;
          blockedItems = map (blocked_item blockerMap) blockedIssues;
          cycleIDs = map (map i_ID) cycles
      in \<lparr>re_Ready = readyItems, re_Blocked = blockedItems, re_Cycles = cycleIDs,
          re_Summary = \<lparr>TotalReady = length readyItems, TotalBlocked = length blockedItems,
            CycleCount = length cycleIDs\<rparr>\<rparr>)"

section \<open>Properties\<close>

lemma equal_fold_gate [simp]:
  "equal_fold ''gate'' ''gate''" "\<not> equal_fold ''spawner_id'' ''gate''"
  "equal_fold ''spawner_id'' ''spawner_id''" "\<not> equal_fold ''also_blocks'' ''gate''"
  "\<not> equal_fold ''also_blocks'' ''spawner_id''" "equal_fold ''also_blocks'' ''also_blocks''"
  by code_simp+

lemma json_string_encode [simp]: "json_string old (encode_string s) = Some s"
proof -
  have "scan_value (json_fuel (encode_string s)) (encode_string s) = Some []"
    by (simp add: encode_string_def json_fuel_def scan_value.simps scan_encode_body)
  moreover have "skip_ws (encode_string s) = encode_string s"
    by (simp add: skip_ws_def encode_string_def json_ws_def)
  ultimately show ?thesis
    by (simp add: json_string_def json_valid_def)
      (simp add: encode_string_def scan_encode_body skip_ws_def)
qed

lemma json_bool_true [simp]: "json_bool old ''true'' = Some True"
  by code_simp

lemma unmarshal_marshal_waits_for: "unmarshal_waits_for (marshal_waits_for m) = Some m"
  unfolding unmarshal_waits_for_def marshal_waits_for_def
  by (subst json_members_encode)
    (auto simp: set_waits_for_def zero_waits_for_def)

text \<open>
  The edge sets fit together. The hard blockers and the cycle set are each the readiness set
  less one type, every built-in type fits the column, and the two lists of built-in types agree.
\<close>

theorem dependency_type_sets:
  "(IsBlockingEdge d \<longleftrightarrow> AffectsReadyWork d \<and> d \<noteq> DepParentChild) \<and>
   (IsSchedulingEdge d \<longleftrightarrow> AffectsReadyWork d \<and> d \<noteq> DepWaitsFor) \<and>
   (IsWellKnown d \<longleftrightarrow> d \<in> set AllDependencyTypes) \<and>
   set AllDependencyTypes \<subseteq> {d. DependencyType_IsValid d} \<and> distinct AllDependencyTypes"
proof (intro conjI)
  show "IsBlockingEdge d \<longleftrightarrow> AffectsReadyWork d \<and> d \<noteq> DepParentChild"
    by (auto simp: IsBlockingEdge_def AffectsReadyWork_def dep_type_defs)
  show "IsSchedulingEdge d \<longleftrightarrow> AffectsReadyWork d \<and> d \<noteq> DepWaitsFor"
    by (auto simp: IsSchedulingEdge_def AffectsReadyWork_def dep_type_defs)
  show "IsWellKnown d \<longleftrightarrow> d \<in> set AllDependencyTypes"
    by (simp add: IsWellKnown_def WellKnownDependencyTypes_def AllDependencyTypes_def)
  have "list_all DependencyType_IsValid AllDependencyTypes" by code_simp
  then show "set AllDependencyTypes \<subseteq> {d. DependencyType_IsValid d}" by (auto simp: list_all_iff)
  show "distinct AllDependencyTypes" by code_simp
qed

lemma marshal_waits_for_nonblank: "trim_space (marshal_waits_for m) \<noteq> []"
proof -
  have "hd (marshal_waits_for m) = CHR ''{''" "marshal_waits_for m \<noteq> []"
    by (simp_all add: marshal_waits_for_def encode_object_def)
  moreover have "\<not> is_space (CHR ''{'')" by (simp add: is_space_def)
  ultimately have "CHR ''{'' \<in> set (trim_left (marshal_waits_for m))"
    by (cases "marshal_waits_for m") (auto simp: trim_left_def)
  with \<open>\<not> is_space (CHR ''{'')\<close> show ?thesis
    by (auto simp: trim_space_def trim_left_def dropWhile_eq_Nil_conv)
qed

lemma parse_marshal_gate:
  "ParseWaitsForGateMetadata (marshal_waits_for m) =
     (if w_Gate m = WaitsForAnyChildren then WaitsForAnyChildren else WaitsForAllChildren)"
  by (simp add: ParseWaitsForGateMetadata_def unmarshal_marshal_waits_for marshal_waits_for_nonblank)

text \<open>
  Building a graph edge fails only for a waits-for edge whose spawner key is not in the plan. The
  edge it builds carries metadata exactly when it waits, and reading that metadata back gives the
  gate asked for (all-children when none was given) and the spawner, never the blocking flag.
\<close>

theorem NewGraphEdgeDependency_spec:
  "case NewGraphEdgeDependency fromID toID ty gate key spawner thread keyToID of
     Inl e \<Rightarrow> ty = DepWaitsFor \<and> key \<noteq> [] \<and> keyToID key = None \<and> e = UnresolvedSpawner key
   | Inr d \<Rightarrow> d_IssueID d = fromID \<and> d_DependsOnID d = toID \<and> d_Type d = ty \<and> d_ThreadID d = thread \<and>
       (if ty = DepWaitsFor
        then unmarshal_waits_for (d_Metadata d) = Some
               \<lparr>w_Gate = (if gate = [] then WaitsForAllChildren else gate),
                w_SpawnerID = (if key = [] then spawner else the (keyToID key)), w_AlsoBlocks = False\<rparr>
        else d_Metadata d = [])"
  by (auto simp: NewGraphEdgeDependency_def Let_def unmarshal_marshal_waits_for zero_dependency_def
      split: option.split)

text \<open>
  A waits-for edge that also blocks can always be built. It differs from the plain edge only in
  the metadata, where the flag is set and gate and spawner are kept, so that a reader of the gate
  sees the same one.
\<close>

theorem NewWaitsForBlockingDependency_spec:
  "\<exists>d d'. NewWaitsForDependency issueID spawner gate = Inr d \<and>
     NewWaitsForBlockingDependency issueID spawner gate = Inr d' \<and>
     d' = d\<lparr>d_Metadata := d_Metadata d'\<rparr> \<and>
     map_option w_AlsoBlocks (unmarshal_waits_for (d_Metadata d)) = Some False \<and>
     unmarshal_waits_for (d_Metadata d') =
       map_option (w_AlsoBlocks_update (\<lambda>_. True)) (unmarshal_waits_for (d_Metadata d)) \<and>
     ParseWaitsForGateMetadata (d_Metadata d') = ParseWaitsForGateMetadata (d_Metadata d) \<and>
     ParseWaitsForGateMetadata (d_Metadata d) =
       (if gate = WaitsForAnyChildren then WaitsForAnyChildren else WaitsForAllChildren)"
  by (auto simp: NewWaitsForBlockingDependency_def NewWaitsForDependency_def
      NewGraphEdgeDependency_def Let_def unmarshal_marshal_waits_for parse_marshal_gate
      WaitsForAllChildren_def WaitsForAnyChildren_def)

lemma resolved_blockers_filter:
  "resolved_blockers deps acc =
     acc @ map d_DependsOnID (filter (\<lambda>d. IsBlockingEdge (d_Type d)) deps)"
  by (induction deps arbitrary: acc) (auto simp: IsBlockingEdge_def)

lemma first_parent_find:
  "first_parent deps = map_option d_DependsOnID (find (\<lambda>d. d_Type d = DepParentChild) deps)"
  by (induction deps) auto

text \<open>
  The explanation of ready work lists every issue given, in order; a ready issue's resolved
  blockers are the targets of its hard blocking edges, its parent the target of the first
  parent-child edge, and the reason says none exactly when there is none. The summary counts the lists.
\<close>

theorem BuildReadyExplanation_correct:
  "let e = BuildReadyExplanation ready blocked depCounts allDeps blockerMap cycles;
       deps = \<lambda>i. case_option [] id (allDeps (i_ID i)) in
    map ri_Issue (re_Ready e) = ready \<and>
    map ri_ResolvedBlockers (re_Ready e) =
      map (\<lambda>i. map d_DependsOnID (filter (\<lambda>d. IsBlockingEdge (d_Type d)) (deps i))) ready \<and>
    map ri_Parent (re_Ready e) =
      map (\<lambda>i. map_option d_DependsOnID (find (\<lambda>d. d_Type d = DepParentChild) (deps i))) ready \<and>
    map (\<lambda>r. ri_Reason r = ''no blocking dependencies'') (re_Ready e) =
      map (\<lambda>r. ri_ResolvedBlockers r = []) (re_Ready e) \<and>
    map bk_Issue (re_Blocked e) = map bi_Issue blocked \<and>
    map (map bl_ID \<circ> bk_BlockedBy) (re_Blocked e) = map bi_BlockedBy blocked \<and>
    TotalReady (re_Summary e) = length ready \<and> TotalBlocked (re_Summary e) = length blocked \<and>
    CycleCount (re_Summary e) = length cycles"
proof -
  have bl: "bl_ID (blocker_info m x) = x" for m x
    by (simp add: blocker_info_def split: option.split)
  have "nat_to_dec n @ '' blocker(s) resolved'' \<noteq> ''no blocking dependencies''" for n
  proof
    assume "nat_to_dec n @ '' blocker(s) resolved'' = ''no blocking dependencies''"
    then have "hd (nat_to_dec n) = CHR ''n''" by (cases "nat_to_dec n") auto
    moreover have "is_digit (hd (nat_to_dec n))"
      using nat_to_dec_digits [of n] by (cases "nat_to_dec n") auto
    ultimately show False by (simp add: is_digit_def)
  qed
  then show ?thesis
    by (auto simp: BuildReadyExplanation_def Let_def ready_item_def blocked_item_def
        resolved_blockers_filter first_parent_find bl comp_def)
qed

section \<open>Merging metadata references\<close>

lemma merge_refs_nil: "merge_refs refs keyToID None = Inr m \<longleftrightarrow> refs = [] \<and> m = None"
  by (cases refs) (auto split: option.splits)

lemma merge_refs_Inr_iff:
  "merge_refs refs keyToID (Some ms) = Inr m \<longleftrightarrow>
     (\<forall>r \<in> set refs. keyToID (snd r) \<noteq> None) \<and>
     m = Some (ms @ map (\<lambda>r. (fst r, encode_string (the (keyToID (snd r))))) refs)"
  by (induction refs keyToID "Some ms" arbitrary: ms rule: merge_refs.induct)
    (auto split: option.splits)

text \<open>
  Merging metadata references succeeds exactly when the existing metadata is absent or an object
  (or \<open>null\<close> with nothing to merge) and every reference names a minted key.
\<close>

theorem MergeMetadataRefs_succeeds_iff:
  "(\<exists>r. MergeMetadataRefs existing refs keyToID = Inr r) \<longleftrightarrow>
     (existing = [] \<or> existing \<in> dom json_members) \<and>
     \<not> (existing \<noteq> [] \<and> json_is_null existing \<and> refs \<noteq> []) \<and>
     snd ` set refs \<subseteq> dom keyToID"
  by (auto simp: MergeMetadataRefs_def bindE_eq_Inr_iff merge_start_def merge_refs_nil
      merge_refs_Inr_iff split: option.split)

lemma marshal_raw_map_cong:
  assumes "fst ` set ms = fst ` set ms'" and "json_lookup ms = json_lookup ms'"
  shows "marshal_raw_map (Some ms) = marshal_raw_map (Some ms')"
proof -
  have "sort (remdups (map fst ms)) = sort (remdups (map fst ms'))"
    using assms(1) by (metis list.set_map sorted_list_of_set_sort_remdups)
  with assms(2) show ?thesis by (simp add: marshal_raw_map_def)
qed

lemma json_lookup_merge:
  "json_lookup (ms @ map (\<lambda>r. (fst r, f (snd r))) refs) k =
     (case map_of (rev refs) k of None \<Rightarrow> json_lookup ms k | Some r \<Rightarrow> Some (f r))"
proof -
  have "map_of (map (\<lambda>r. (fst r, f (snd r))) xs) k = map_option f (map_of xs k)" for xs
    by (induction xs) auto
  from this [of "rev refs"] show ?thesis
    by (simp add: json_lookup_def map_add_def rev_map split: option.split)
qed

lemma map_of_reorder:
  assumes "mset refs' = mset refs" and "distinct (map fst refs)"
  shows "map_of (rev refs') = map_of (rev refs)"
proof -
  have "mset (map fst refs') = mset (map fst refs)" using assms(1) by simp
  then have "distinct (map fst refs')" using assms(2) by (metis mset_eq_imp_distinct_iff)
  then have d: "distinct (map fst (rev refs'))" "distinct (map fst (rev refs))"
    using assms(2) by (simp_all add: rev_map [symmetric])
  have "set refs' = set refs" using assms(1) by (metis set_mset_mset)
  then show ?thesis using map_of_inject_set [OF d] by simp
qed

text \<open>
  The merged metadata does not depend on the order in which Go visits the references, whatever
  the order in which two successful runs visit them.
\<close>

theorem MergeMetadataRefs_order:
  assumes "MergeMetadataRefs existing refs keyToID = Inr out"
    and "mset refs' = mset refs" and "distinct (map fst refs)"
  shows "MergeMetadataRefs existing refs' keyToID = Inr out"
proof -
  obtain m0 m where m0: "merge_start existing = Inr m0" and m: "merge_refs refs keyToID m0 = Inr m"
    and out: "out = marshal_raw_map m"
    using assms(1) by (auto simp: MergeMetadataRefs_def bindE_eq_Inr_iff)
  have set: "set refs' = set refs" using assms(2) by (metis set_mset_mset)
  show ?thesis
  proof (cases m0)
    case None
    with m assms(2) m0 out show ?thesis by (auto simp: merge_refs_nil MergeMetadataRefs_def)
  next
    case (Some ms)
    let ?f = "\<lambda>k. encode_string (the (keyToID k))"
    let ?new = "\<lambda>rs. ms @ map (\<lambda>r. (fst r, ?f (snd r))) rs"
    have "json_lookup (?new refs') = json_lookup (?new refs)"
      using json_lookup_merge [of ms ?f] map_of_reorder [OF assms(2,3)] by (simp add: fun_eq_iff)
    moreover have "fst ` set (?new refs') = fst ` set (?new refs)" by (simp add: set)
    ultimately have "marshal_raw_map (Some (?new refs')) = marshal_raw_map (Some (?new refs))"
      by (intro marshal_raw_map_cong)
    moreover have "merge_refs refs' keyToID m0 = Inr (Some (?new refs'))"
      using m set by (auto simp: Some merge_refs_Inr_iff)
    moreover have "m = Some (?new refs)" using m by (auto simp: Some merge_refs_Inr_iff)
    ultimately show ?thesis using m0 out by (simp add: MergeMetadataRefs_def)
  qed
qed

theorem MergeMetadataRefs_order_witness:
  "MergeMetadataRefs [] [(''b'', ''k2''), (''a'', ''k1'')] (map_of [(''k1'', ''bd-1''), (''k2'', ''bd-2'')]) =
   MergeMetadataRefs [] [(''a'', ''k1''), (''b'', ''k2'')] (map_of [(''k1'', ''bd-1''), (''k2'', ''bd-2'')])"
proof -
  let ?m = "map_of [(''k1'', ''bd-1''), (''k2'', ''bd-2'')]"
  obtain out where "MergeMetadataRefs [] [(''a'', ''k1''), (''b'', ''k2'')] ?m = Inr out"
    by (simp add: MergeMetadataRefs_def merge_start_def)
  with MergeMetadataRefs_order [OF this, of "[(''b'', ''k2''), (''a'', ''k1'')]"]
  show ?thesis by simp
qed

text \<open>
  Metadata that is the JSON value \<open>null\<close> makes the merge panic: decoding \<open>null\<close> replaces the
  map that was made for the result by the nil map, and the first reference is then assigned to it.
\<close>

theorem MergeMetadataRefs_null_panics:
  "MergeMetadataRefs ''null'' [(''parent'', ''k'')] [''k'' \<mapsto> ''bd-1''] = Inl NilMapAssignment"
proof -
  have "merge_start ''null'' = Inr None" by code_simp
  then show ?thesis by (simp add: MergeMetadataRefs_def)
qed

end
