(* ===== verification/Issue_Filter.thy ===== *)
theory Issue_Filter
  imports Dependency_Types
begin

text \<open>
  The search filter of \<open>internal/types/types.go\<close> and what its fields promise. A nil pointer is
  \<open>None\<close>, an absent list or string the empty one; the metadata map is the list of its bindings with
  distinct keys.
\<close>

record IssueFilter =
  f_Status :: "status option"
  f_Statuses :: "status list"
  f_Priority :: "int option"
  f_IssueType :: "issue_type option"
  f_Assignee :: "string option"
  f_Labels :: "string list"
  f_LabelsAny :: "string list"
  f_ExcludeLabels :: "string list"
  f_LabelPattern :: string
  f_LabelRegex :: string
  f_TitleSearch :: string
  f_IDs :: "string list"
  f_IDPrefix :: string
  f_SpecIDPrefix :: string
  f_Limit :: int
  f_TitleContains :: string
  f_DescriptionContains :: string
  f_NotesContains :: string
  f_ExternalRefContains :: string
  f_ExternalRef :: "string option"
  f_CreatedAfter :: "gotime option"
  f_CreatedBefore :: "gotime option"
  f_UpdatedAfter :: "gotime option"
  f_UpdatedBefore :: "gotime option"
  f_ClosedAfter :: "gotime option"
  f_ClosedBefore :: "gotime option"
  f_StartedAfter :: "gotime option"
  f_StartedBefore :: "gotime option"
  f_AfterCreatedAt :: "gotime option"
  f_AfterID :: string
  f_EmptyDescription :: bool
  f_NoAssignee :: bool
  f_NoLabels :: bool
  f_PriorityMin :: "int option"
  f_PriorityMax :: "int option"
  f_SourceRepo :: "string option"
  f_Ephemeral :: "bool option"
  f_Pinned :: "bool option"
  f_IsBlocked :: "bool option"
  f_IsTemplate :: "bool option"
  f_ParentID :: "string option"
  f_NoParent :: bool
  f_MolType :: "mol_type option"
  f_WispType :: "wisp_type option"
  f_ExcludeStatus :: "status list"
  f_ExcludeTypes :: "issue_type list"
  f_Deferred :: bool
  f_DeferAfter :: "gotime option"
  f_DeferBefore :: "gotime option"
  f_DueAfter :: "gotime option"
  f_DueBefore :: "gotime option"
  f_Overdue :: bool
  f_MetadataFields :: "(string \<times> string) list"
  f_HasMetadataKey :: string
  f_IncludeDependencies :: bool
  f_SkipLabels :: bool
  f_SkipCounts :: bool
  f_SkipWisps :: bool
  f_NoIDShrink :: bool
  f_Offset :: int
  f_SortBy :: string
  f_SortDesc :: bool
  f_MaxRows :: int
  f_MaxRowsSource :: string
  f_Lite :: bool

definition zero_filter :: IssueFilter where
  "zero_filter = \<lparr>f_Status = None, f_Statuses = [], f_Priority = None, f_IssueType = None,
     f_Assignee = None, f_Labels = [], f_LabelsAny = [], f_ExcludeLabels = [],
     f_LabelPattern = [], f_LabelRegex = [], f_TitleSearch = [], f_IDs = [],
     f_IDPrefix = [], f_SpecIDPrefix = [], f_Limit = 0, f_TitleContains = [],
     f_DescriptionContains = [], f_NotesContains = [], f_ExternalRefContains = [],
     f_ExternalRef = None, f_CreatedAfter = None, f_CreatedBefore = None,
     f_UpdatedAfter = None, f_UpdatedBefore = None, f_ClosedAfter = None,
     f_ClosedBefore = None, f_StartedAfter = None, f_StartedBefore = None,
     f_AfterCreatedAt = None, f_AfterID = [], f_EmptyDescription = False,
     f_NoAssignee = False, f_NoLabels = False, f_PriorityMin = None,
     f_PriorityMax = None, f_SourceRepo = None, f_Ephemeral = None, f_Pinned = None,
     f_IsBlocked = None, f_IsTemplate = None, f_ParentID = None, f_NoParent = False,
     f_MolType = None, f_WispType = None, f_ExcludeStatus = [], f_ExcludeTypes = [],
     f_Deferred = False, f_DeferAfter = None, f_DeferBefore = None, f_DueAfter = None,
     f_DueBefore = None, f_Overdue = False, f_MetadataFields = [],
     f_HasMetadataKey = [], f_IncludeDependencies = False, f_SkipLabels = False,
     f_SkipCounts = False, f_SkipWisps = False, f_NoIDShrink = False, f_Offset = 0,
     f_SortBy = [], f_SortDesc = False, f_MaxRows = 0, f_MaxRowsSource = [],
     f_Lite = False\<rparr>"

section \<open>What the filter promises\<close>

text \<open>
  The issues a filter selects, by the comments of its fields, for the fields a query can set. A text
  search ignores case and an empty text asks for nothing; a time bound on a time the issue does not
  have fails; metadata is compared by top-level key.
\<close>

definition opt_holds :: "('a \<Rightarrow> bool) \<Rightarrow> 'a option \<Rightarrow> bool" where
  "opt_holds P x = (case x of None \<Rightarrow> True | Some v \<Rightarrow> P v)"

lemma opt_holds_simps [simp]: "opt_holds P None" "opt_holds P (Some v) = P v"
  by (simp_all add: opt_holds_def)

definition text_contains :: "string \<Rightarrow> string \<Rightarrow> bool" where
  "text_contains text pat \<longleftrightarrow> str_contains (to_lower text) (to_lower pat)"

definition time_after :: "gotime option \<Rightarrow> gotime option \<Rightarrow> bool" where
  "time_after bound actual \<longleftrightarrow>
     opt_holds (\<lambda>t. case actual of None \<Rightarrow> False | Some a \<Rightarrow> After a t) bound"

definition time_before :: "gotime option \<Rightarrow> gotime option \<Rightarrow> bool" where
  "time_before bound actual \<longleftrightarrow>
     opt_holds (\<lambda>t. case actual of None \<Rightarrow> False | Some a \<Rightarrow> Before a t) bound"

definition metadata_value :: "string \<Rightarrow> string \<Rightarrow> string option" where
  "metadata_value md key =
     (if md = [] then None
      else case json_members md of None \<Rightarrow> None | Some ms \<Rightarrow> json_lookup ms key)"

text \<open>\<open>strings.Trim(s, "\"")\<close>.\<close>

definition trim_quotes :: "string \<Rightarrow> string" where
  "trim_quotes s =
     rev (dropWhile (\<lambda>c. c = quote_ch) (rev (dropWhile (\<lambda>c. c = quote_ch) s)))"

definition metadata_equals :: "string \<Rightarrow> string \<Rightarrow> string \<Rightarrow> bool" where
  "metadata_equals md key v \<longleftrightarrow>
     (case metadata_value md key of
        None \<Rightarrow> False
      | Some raw \<Rightarrow>
          (case json_string [] raw of Some s \<Rightarrow> s = v | None \<Rightarrow> trim_quotes raw = v))"

definition metadata_has_key :: "string \<Rightarrow> string \<Rightarrow> bool" where
  "metadata_has_key md key \<longleftrightarrow>
     (case metadata_value md key of None \<Rightarrow> False | Some raw \<Rightarrow> \<not> json_is_null raw)"

text \<open>A child by a parent-child edge or, for an issue without such an edge, by its dotted ID.\<close>

definition has_parent :: "Issue \<Rightarrow> bool" where
  "has_parent i \<longleftrightarrow> list_ex (\<lambda>d. d_Type d = DepParentChild) (i_Dependencies i)"

definition child_of :: "Issue \<Rightarrow> string \<Rightarrow> bool" where
  "child_of i p \<longleftrightarrow>
     list_ex (\<lambda>d. d_Type d = DepParentChild \<and> d_DependsOnID d = p) (i_Dependencies i) \<or>
     has_prefix (i_ID i) (p @ ''.'') \<and> \<not> has_parent i"

definition match_core :: "IssueFilter \<Rightarrow> Issue \<Rightarrow> bool" where
  "match_core f i \<longleftrightarrow>
     opt_holds (\<lambda>s. i_Status i = s) (f_Status f) \<and>
     i_Status i \<notin> set (f_ExcludeStatus f) \<and>
     opt_holds (\<lambda>p. i_Priority i = p) (f_Priority f) \<and>
     opt_holds (\<lambda>p. p \<le> i_Priority i) (f_PriorityMin f) \<and>
     opt_holds (\<lambda>p. i_Priority i \<le> p) (f_PriorityMax f) \<and>
     opt_holds (\<lambda>t. i_IssueType i = t) (f_IssueType f) \<and>
     i_IssueType i \<notin> set (f_ExcludeTypes f) \<and>
     opt_holds (\<lambda>a. i_Assignee i = a) (f_Assignee f) \<and>
     (f_NoAssignee f \<longrightarrow> i_Assignee i = []) \<and>
     opt_holds (\<lambda>m. i_MolType i = m) (f_MolType f)"

definition match_text :: "IssueFilter \<Rightarrow> Issue \<Rightarrow> bool" where
  "match_text f i \<longleftrightarrow>
     text_contains (i_Title i) (f_TitleContains f) \<and>
     text_contains (i_Description i) (f_DescriptionContains f) \<and>
     text_contains (i_Notes i) (f_NotesContains f) \<and>
     (f_EmptyDescription f \<longrightarrow> i_Description i = []) \<and>
     (f_IDs f \<noteq> [] \<longrightarrow> i_ID i \<in> set (f_IDs f)) \<and>
     has_prefix (i_ID i) (f_IDPrefix f) \<and> has_prefix (i_SpecID i) (f_SpecIDPrefix f)"

definition match_labels :: "IssueFilter \<Rightarrow> Issue \<Rightarrow> bool" where
  "match_labels f i \<longleftrightarrow>
     set (f_Labels f) \<subseteq> set (i_Labels i) \<and>
     (f_LabelsAny f \<noteq> [] \<longrightarrow> set (f_LabelsAny f) \<inter> set (i_Labels i) \<noteq> {}) \<and>
     (f_NoLabels f \<longrightarrow> i_Labels i = []) \<and>
     opt_holds (\<lambda>b. i_Pinned i = b) (f_Pinned f) \<and>
     opt_holds (\<lambda>b. i_Ephemeral i = b) (f_Ephemeral f) \<and>
     opt_holds (\<lambda>b. i_IsTemplate i = b) (f_IsTemplate f) \<and>
     opt_holds (child_of i) (f_ParentID f)"

definition match_times :: "IssueFilter \<Rightarrow> Issue \<Rightarrow> bool" where
  "match_times f i \<longleftrightarrow>
     time_after (f_CreatedAfter f) (Some (i_CreatedAt i)) \<and>
     time_before (f_CreatedBefore f) (Some (i_CreatedAt i)) \<and>
     time_after (f_UpdatedAfter f) (Some (i_UpdatedAt i)) \<and>
     time_before (f_UpdatedBefore f) (Some (i_UpdatedAt i)) \<and>
     time_after (f_ClosedAfter f) (i_ClosedAt i) \<and> time_before (f_ClosedBefore f) (i_ClosedAt i) \<and>
     time_after (f_StartedAfter f) (i_StartedAt i) \<and> time_before (f_StartedBefore f) (i_StartedAt i)"

definition match_metadata :: "IssueFilter \<Rightarrow> Issue \<Rightarrow> bool" where
  "match_metadata f i \<longleftrightarrow>
     list_all (\<lambda>(k, v). metadata_equals (i_Metadata i) k v) (f_MetadataFields f) \<and>
     (f_HasMetadataKey f \<noteq> [] \<longrightarrow> metadata_has_key (i_Metadata i) (f_HasMetadataKey f))"

definition filter_matches :: "IssueFilter \<Rightarrow> Issue \<Rightarrow> bool" where
  "filter_matches f i \<longleftrightarrow>
     match_core f i \<and> match_text f i \<and> match_labels f i \<and> match_times f i \<and> match_metadata f i"

lemmas filter_matches_defs = filter_matches_def match_core_def match_text_def match_labels_def
  match_times_def match_metadata_def

lemma has_prefix_Nil [simp]: "has_prefix s []"
  by (simp add: has_prefix_def)

lemma text_contains_Nil [simp]: "text_contains s []"
  by (cases "to_lower s") (simp_all add: text_contains_def to_lower_def)

lemma zero_filter_matches: "filter_matches zero_filter i"
  by (simp add: filter_matches_defs zero_filter_def time_after_def time_before_def)

end
