(* ===== verification/Query_Lexer.thy ===== *)
theory Query_Lexer
  imports GoJSON
begin

text \<open>
  The lexer of the query language, \<open>internal/query/lexer.go\<close>: the lexer state with its position and
  the width of the last rune, one definition per method. The lexer reads bytes and treats each as a
  rune, so the classes of package \<open>unicode\<close> are those of Latin-1; \<open>WriteRune\<close> encodes a rune as
  UTF-8 again. Loops recurse on the bytes left.
\<close>

section \<open>Tokens\<close>

datatype TokenType =
    TokenEOF | TokenIdent | TokenString | TokenNumber | TokenDuration
  | TokenEquals | TokenNotEquals | TokenLess | TokenLessEq | TokenGreater | TokenGreaterEq
  | TokenAnd | TokenOr | TokenNot | TokenLParen | TokenRParen | TokenComma

fun TokenType_String :: "TokenType \<Rightarrow> string" where
  "TokenType_String TokenEOF = ''EOF''"
| "TokenType_String TokenIdent = ''IDENT''"
| "TokenType_String TokenString = ''STRING''"
| "TokenType_String TokenNumber = ''NUMBER''"
| "TokenType_String TokenDuration = ''DURATION''"
| "TokenType_String TokenEquals = ''=''"
| "TokenType_String TokenNotEquals = ''!=''"
| "TokenType_String TokenLess = ''<''"
| "TokenType_String TokenLessEq = ''<=''"
| "TokenType_String TokenGreater = ''>''"
| "TokenType_String TokenGreaterEq = ''>=''"
| "TokenType_String TokenAnd = ''AND''"
| "TokenType_String TokenOr = ''OR''"
| "TokenType_String TokenNot = ''NOT''"
| "TokenType_String TokenLParen = ''(''"
| "TokenType_String TokenRParen = '')''"
| "TokenType_String TokenComma = '',''"

record Token =
  tok_Type :: TokenType
  tok_Value :: string
  tok_Pos :: nat

abbreviation mk_token :: "TokenType \<Rightarrow> string \<Rightarrow> nat \<Rightarrow> Token" where
  "mk_token t v p \<equiv> \<lparr>tok_Type = t, tok_Value = v, tok_Pos = p\<rparr>"

text \<open>Every error of the lexer and of the parser, with the positions and names the messages carry.\<close>

datatype query_error =
    BangWithoutEquals nat
  | UnexpectedChar nat nat
  | UnterminatedString nat
  | UnterminatedEscape nat
  | ExpectedDigit nat
  | EmptyQuery
  | UnexpectedToken string nat
  | ExpectedRParen nat TokenType
  | ExpectedField nat TokenType
  | ExpectedOp nat TokenType
  | ExpectedValue nat TokenType
  | OutOfFuel

section \<open>Runes\<close>

type_synonym rune = nat

abbreviation (input) rune_of :: "char \<Rightarrow> rune" where
  "rune_of c \<equiv> byte_val c"

definition rune_IsDigit :: "rune \<Rightarrow> bool" where
  "rune_IsDigit r \<longleftrightarrow> 48 \<le> r \<and> r \<le> 57"

definition rune_IsSpace :: "rune \<Rightarrow> bool" where
  "rune_IsSpace r \<longleftrightarrow> (9 \<le> r \<and> r \<le> 13) \<or> r = 32 \<or> r = 0x85 \<or> r = 0xA0"

definition rune_IsLetter :: "rune \<Rightarrow> bool" where
  "rune_IsLetter r \<longleftrightarrow> (65 \<le> r \<and> r \<le> 90) \<or> (97 \<le> r \<and> r \<le> 122) \<or> r = 0xAA \<or> r = 0xB5 \<or>
     r = 0xBA \<or> (0xC0 \<le> r \<and> r \<noteq> 0xD7 \<and> r \<noteq> 0xF7)"

definition isIdentStart :: "rune \<Rightarrow> bool" where
  "isIdentStart r \<longleftrightarrow> rune_IsLetter r \<or> r = rune_of (CHR ''_'')"

definition isIdentChar :: "rune \<Rightarrow> bool" where
  "isIdentChar r \<longleftrightarrow> rune_IsLetter r \<or> rune_IsDigit r \<or> r = rune_of (CHR ''_'') \<or>
     r = rune_of (CHR ''-'') \<or> r = rune_of (CHR ''.'') \<or> r = rune_of (CHR '':'') \<or> r = rune_of (CHR ''/'')"

definition isDurationSuffix :: "rune \<Rightarrow> bool" where
  "isDurationSuffix r \<longleftrightarrow> r \<in> set (map rune_of ''hdwmyHDWMY'')"

lemmas rune_defs = rune_IsDigit_def rune_IsSpace_def rune_IsLetter_def isIdentStart_def isIdentChar_def

section \<open>The lexer\<close>

record Lexer =
  l_input :: string
  l_pos :: nat
  l_width :: nat

definition NewLexer :: "string \<Rightarrow> Lexer" where
  "NewLexer input = \<lparr>l_input = input, l_pos = 0, l_width = 0\<rparr>"

definition lex_next :: "Lexer \<Rightarrow> rune \<times> Lexer" where
  "lex_next l =
     (if l_pos l \<ge> length (l_input l) then (0, l\<lparr>l_width := 0\<rparr>)
      else (rune_of (l_input l ! l_pos l), l\<lparr>l_width := 1, l_pos := l_pos l + 1\<rparr>))"

definition lex_peek :: "Lexer \<Rightarrow> rune" where
  "lex_peek l = (if l_pos l \<ge> length (l_input l) then 0 else rune_of (l_input l ! l_pos l))"

definition lex_backup :: "Lexer \<Rightarrow> Lexer" where
  "lex_backup l = l\<lparr>l_pos := l_pos l - l_width l\<rparr>"

text \<open>The bytes left to read: what every loop of the lexer decreases.\<close>

definition lex_left :: "Lexer \<Rightarrow> nat" where
  "lex_left l = length (l_input l) - l_pos l"

lemma lex_next_left: "lex_next l = (r, l') \<Longrightarrow> r \<noteq> 0 \<Longrightarrow> lex_left l' < lex_left l"
  by (auto simp: lex_next_def lex_left_def split: if_splits)

lemma lex_next_left_le: "lex_next l = (r, l') \<Longrightarrow> lex_left l' \<le> lex_left l"
  by (auto simp: lex_next_def lex_left_def split: if_splits)

lemma lex_next_left_both:
  "lex_next l = (r, l') \<Longrightarrow> lex_left l' \<le> lex_left l \<and> (r = 0 \<or> lex_left l' < lex_left l)"
  using lex_next_left lex_next_left_le by blast

function skipWhitespace :: "Lexer \<Rightarrow> Lexer" where
  "skipWhitespace l =
     (case lex_next l of (r, l') \<Rightarrow>
        if r = 0 \<or> \<not> rune_IsSpace r then lex_backup l' else skipWhitespace l')"
  by pat_completeness auto
termination
  by (relation "measure lex_left") (auto dest: lex_next_left [OF sym])

text \<open>\<open>readString\<close>: \<open>sb\<close> is the text written so far.\<close>

function readString_loop :: "rune \<Rightarrow> nat \<Rightarrow> string \<Rightarrow> Lexer \<Rightarrow> query_error + Token \<times> Lexer" where
  "readString_loop quote startPos sb l =
     (case lex_next l of (r, l') \<Rightarrow>
        if r = 0 then Inl (UnterminatedString startPos)
        else if r = quote then Inr (mk_token TokenString sb startPos, l')
        else if r = rune_of bslash then
          (case lex_next l' of (escaped, l'') \<Rightarrow>
             if escaped = rune_of (CHR ''n'') then readString_loop quote startPos (sb @ [CHR 0x0A]) l''
             else if escaped = rune_of (CHR ''t'') then readString_loop quote startPos (sb @ [CHR 0x09]) l''
             else if escaped = 0 then Inl (UnterminatedEscape (l_pos l'' - 1))
             else readString_loop quote startPos (sb @ utf8_encode escaped) l'')
        else readString_loop quote startPos (sb @ utf8_encode r) l')"
  by pat_completeness auto
termination
  by (relation "measure (\<lambda>(_, _, _, l). lex_left l)")
    (auto dest!: lex_next_left_both [OF sym])

definition readString :: "rune \<Rightarrow> nat \<Rightarrow> Lexer \<Rightarrow> query_error + Token \<times> Lexer" where
  "readString quote startPos l = readString_loop quote startPos [] l"

function readIdent_loop :: "string \<Rightarrow> Lexer \<Rightarrow> string \<times> Lexer" where
  "readIdent_loop sb l =
     (case lex_next l of (r, l') \<Rightarrow>
        if r = 0 \<or> \<not> isIdentChar r then (sb, lex_backup l')
        else readIdent_loop (sb @ utf8_encode r) l')"
  by pat_completeness auto
termination
  by (relation "measure (\<lambda>(_, l). lex_left l)") (auto dest: lex_next_left [OF sym])

definition readIdent :: "nat \<Rightarrow> Lexer \<Rightarrow> Token \<times> Lexer" where
  "readIdent startPos l =
     (case readIdent_loop [] l of (v, l') \<Rightarrow>
        let upper = to_upper v in
        if upper = ''AND'' then (mk_token TokenAnd v startPos, l')
        else if upper = ''OR'' then (mk_token TokenOr v startPos, l')
        else if upper = ''NOT'' then (mk_token TokenNot v startPos, l')
        else (mk_token TokenIdent v startPos, l'))"

text \<open>The digit loop returns the first rune that is no digit, already read.\<close>

function readDigits :: "string \<Rightarrow> Lexer \<Rightarrow> string \<times> rune \<times> Lexer" where
  "readDigits sb l =
     (case lex_next l of (r, l') \<Rightarrow>
        if \<not> rune_IsDigit r then (sb, r, l') else readDigits (sb @ utf8_encode r) l')"
  by pat_completeness auto
termination
  by (relation "measure (\<lambda>(_, l). lex_left l)")
    (auto simp: rune_IsDigit_def dest: lex_next_left [OF sym])

definition readNumberOrDuration :: "nat \<Rightarrow> Lexer \<Rightarrow> query_error + Token \<times> Lexer" where
  "readNumberOrDuration startPos l =
     (let (r0, l0) = lex_next l;
          hadSign = (r0 = rune_of (CHR ''-'') \<or> r0 = rune_of (CHR ''+''));
          (sb, r1, l1) = (if hadSign then let (r, l') = lex_next l0 in (utf8_encode r0, r, l')
                          else ([], r0, l0))
      in if \<not> rune_IsDigit r1 then Inl (ExpectedDigit (l_pos (lex_backup l1)))
         else
           let (sb', r2, l2) = readDigits (sb @ utf8_encode r1) l1 in
           if r2 \<noteq> 0 \<and> isDurationSuffix r2 \<and> \<not> isIdentChar (lex_peek l2)
           then Inr (mk_token TokenDuration (sb' @ utf8_encode r2) startPos, l2)
           else if \<not> hadSign \<and> r2 \<noteq> 0 \<and> isIdentChar r2
           then Inr (readIdent startPos (l2\<lparr>l_pos := startPos\<rparr>))
           else Inr (mk_token TokenNumber sb' startPos, if r2 \<noteq> 0 then lex_backup l2 else l2))"

text \<open>The switch of \<open>NextToken\<close> on the rune \<open>r\<close> just read at \<open>startPos\<close>.\<close>

definition lex_switch :: "rune \<Rightarrow> nat \<Rightarrow> Lexer \<Rightarrow> query_error + Token \<times> Lexer" where
  "lex_switch r startPos l =
        (if r = rune_of (CHR ''('') then Inr (mk_token TokenLParen ''('' startPos, l)
         else if r = rune_of (CHR '')'') then Inr (mk_token TokenRParen '')'' startPos, l)
         else if r = rune_of (CHR '','') then Inr (mk_token TokenComma '','' startPos, l)
         else if r = rune_of (CHR ''='') then Inr (mk_token TokenEquals ''='' startPos, l)
         else if r = rune_of (CHR ''!'') then
           (if lex_peek l = rune_of (CHR ''='')
            then Inr (mk_token TokenNotEquals ''!='' startPos, snd (lex_next l))
            else Inl (BangWithoutEquals startPos))
         else if r = rune_of (CHR ''<'') then
           (if lex_peek l = rune_of (CHR ''='')
            then Inr (mk_token TokenLessEq ''<='' startPos, snd (lex_next l))
            else Inr (mk_token TokenLess ''<'' startPos, l))
         else if r = rune_of (CHR ''>'') then
           (if lex_peek l = rune_of (CHR ''='')
            then Inr (mk_token TokenGreaterEq ''>='' startPos, snd (lex_next l))
            else Inr (mk_token TokenGreater ''>'' startPos, l))
         else if r = rune_of quote_ch \<or> r = rune_of (CHR 0x27) then readString r startPos l
         else if rune_IsDigit r \<or> r = rune_of (CHR ''-'') \<or> r = rune_of (CHR ''+'')
         then readNumberOrDuration startPos (lex_backup l)
         else if isIdentStart r then Inr (readIdent startPos (lex_backup l))
         else Inl (UnexpectedChar r startPos))"

definition NextToken :: "Lexer \<Rightarrow> query_error + Token \<times> Lexer" where
  "NextToken l0 =
     (let l1 = skipWhitespace l0;
          startPos = l_pos l1;
          (r, l) = lex_next l1
      in if r = 0 then Inr (mk_token TokenEOF [] startPos, l)
         else lex_switch r startPos l)"

declare skipWhitespace.simps [simp del] readString_loop.simps [simp del]
  readIdent_loop.simps [simp del] readDigits.simps [simp del]


section \<open>Reading the rest of the input\<close>

text \<open>What the lexer still sees. The lemmas below describe each method by the bytes it consumes.\<close>

definition lex_rest :: "Lexer \<Rightarrow> string" where
  "lex_rest l = drop (l_pos l) (l_input l)"

lemma lex_left_rest: "lex_left l = length (lex_rest l)"
  by (simp add: lex_left_def lex_rest_def)

lemma lex_rest_New [simp]: "lex_rest (NewLexer s) = s"
  by (simp add: lex_rest_def NewLexer_def)

lemma lex_rest_width [simp]: "lex_rest (l\<lparr>l_width := w\<rparr>) = lex_rest l"
  by (simp add: lex_rest_def)

lemma lex_next_Nil: "lex_rest l = [] \<Longrightarrow> lex_next l = (0, l\<lparr>l_width := 0\<rparr>)"
  by (simp add: lex_rest_def lex_next_def)

lemma lex_next_Cons:
  assumes "lex_rest l = c # s"
  obtains l' where "lex_next l = (rune_of c, l')" "lex_rest l' = s"
    "l_input l' = l_input l" "l_pos (lex_backup l') = l_pos l" "l_input (lex_backup l') = l_input l"
    "lex_rest (lex_backup l') = c # s" "l_pos l' = Suc (l_pos l)"
proof -
  have p: "l_pos l < length (l_input l)"
  proof (rule ccontr)
    assume "\<not> l_pos l < length (l_input l)"
    with assms show False by (simp add: lex_rest_def)
  qed
  let ?l' = "l\<lparr>l_width := 1, l_pos := l_pos l + 1\<rparr>"
  have h: "l_input l ! l_pos l = c" and t: "drop (Suc (l_pos l)) (l_input l) = s"
    using assms Cons_nth_drop_Suc [OF p] by (simp_all add: lex_rest_def)
  have "lex_next l = (rune_of c, ?l')" using p h by (simp add: lex_next_def)
  moreover have "lex_rest ?l' = s" using t by (simp add: lex_rest_def)
  moreover have "l_pos (lex_backup ?l') = l_pos l" by (simp add: lex_backup_def)
  moreover have "lex_rest (lex_backup ?l') = c # s"
    using assms by (simp add: lex_backup_def lex_rest_def)
  ultimately show ?thesis using that [of ?l'] by (simp add: lex_backup_def)
qed

lemma lex_peek_rest: "lex_peek l = (case lex_rest l of [] \<Rightarrow> 0 | c # _ \<Rightarrow> rune_of c)"
proof (cases "lex_rest l")
  case Nil
  then show ?thesis by (simp add: lex_peek_def lex_rest_def)
next
  case (Cons c s)
  then obtain l' where "lex_next l = (rune_of c, l')" by (rule lex_next_Cons)
  with Cons show ?thesis
    by (auto simp: lex_peek_def lex_next_def split: if_splits)
qed

lemma rune_IsSpace_0 [simp]: "\<not> rune_IsSpace 0" by (simp add: rune_defs)
lemma isIdentChar_0 [simp]: "\<not> isIdentChar 0" by (simp add: rune_defs)
lemma rune_IsDigit_0 [simp]: "\<not> rune_IsDigit 0" by (simp add: rune_defs)

lemma lex_rest_backup_Nil [simp]: "lex_rest (lex_backup (l\<lparr>l_width := 0\<rparr>)) = lex_rest l"
  by (simp add: lex_backup_def lex_rest_def)

lemma skipWhitespace_rest:
  "lex_rest (skipWhitespace l) = dropWhile (\<lambda>c. rune_IsSpace (rune_of c)) (lex_rest l)"
proof (induction "lex_rest l" arbitrary: l)
  case Nil
  then show ?case by (simp add: skipWhitespace.simps [of l] lex_next_Nil)
next
  case (Cons c s)
  from Cons(2) [symmetric] obtain l' where l': "lex_next l = (rune_of c, l')" "lex_rest l' = s"
    "lex_rest (lex_backup l') = c # s" by (rule lex_next_Cons)
  have e: "lex_rest l = c # s" using Cons(2) by simp
  show ?case
  proof (cases "rune_IsSpace (rune_of c)")
    case True
    then have "rune_of c \<noteq> 0" by (metis rune_IsSpace_0)
    with True l' e Cons(1) [of l'] show ?thesis by (simp add: skipWhitespace.simps [of l])
  next
    case False
    with l' e show ?thesis by (simp add: skipWhitespace.simps [of l])
  qed
qed

definition utf8_of_bytes :: "string \<Rightarrow> string" where
  "utf8_of_bytes s = concat (map (\<lambda>c. utf8_encode (rune_of c)) s)"

lemma utf8_of_bytes_simps [simp]:
  "utf8_of_bytes [] = []" "utf8_of_bytes (c # s) = utf8_encode (rune_of c) @ utf8_of_bytes s"
  by (simp_all add: utf8_of_bytes_def)

lemma utf8_encode_ascii [simp]: "rune_of c < 128 \<Longrightarrow> utf8_encode (rune_of c) = [c]"
  by (simp add: utf8_encode_def)

lemma utf8_of_bytes_ascii: "list_all (\<lambda>c. rune_of c < 128) s \<Longrightarrow> utf8_of_bytes s = s"
  by (induction s) auto

lemma length_utf8_of_bytes: "length s \<le> length (utf8_of_bytes s)"
proof (induction s)
  case (Cons c s)
  then show ?case by (simp add: utf8_encode_def)
qed simp

lemma utf8_of_bytes_id_iff: "utf8_of_bytes s = s \<longleftrightarrow> list_all (\<lambda>c. rune_of c < 128) s"
proof (induction s)
  case (Cons c s)
  show ?case
  proof (cases "rune_of c < 128")
    case False
    then have "length (utf8_encode (rune_of c)) \<ge> 2" by (simp add: utf8_encode_def)
    then have "length (utf8_of_bytes (c # s)) > length (c # s)"
      using length_utf8_of_bytes [of s] by simp
    then have "utf8_of_bytes (c # s) \<noteq> c # s" by (metis less_irrefl)
    with False show ?thesis by simp
  qed (use Cons in simp)
qed simp

lemma readIdent_loop_rest:
  "\<exists>l'. readIdent_loop sb l =
      (sb @ utf8_of_bytes (takeWhile (\<lambda>c. isIdentChar (rune_of c)) (lex_rest l)), l') \<and>
    lex_rest l' = dropWhile (\<lambda>c. isIdentChar (rune_of c)) (lex_rest l)"
proof (induction "lex_rest l" arbitrary: l sb)
  case Nil
  then show ?case by (simp add: readIdent_loop.simps [of sb l] lex_next_Nil)
next
  case (Cons c s)
  from Cons(2) [symmetric] obtain l' where l': "lex_next l = (rune_of c, l')" "lex_rest l' = s"
    "lex_rest (lex_backup l') = c # s" by (rule lex_next_Cons)
  have e: "lex_rest l = c # s" using Cons(2) by simp
  show ?case
  proof (cases "isIdentChar (rune_of c)")
    case True
    then have "rune_of c \<noteq> 0" by (metis isIdentChar_0)
    with True l' e Cons(1) [of l' "sb @ utf8_encode (rune_of c)"] show ?thesis
      by (simp add: readIdent_loop.simps [of sb l])
  next
    case False
    with l' e show ?thesis by (simp add: readIdent_loop.simps [of sb l])
  qed
qed

lemma readDigits_rest:
  assumes "lex_rest l = ds @ r" and "list_all is_digit ds" and "r = [] \<or> \<not> is_digit (hd r)"
  obtains l' where
    "readDigits sb l = (sb @ ds, (case r of [] \<Rightarrow> 0 | c # _ \<Rightarrow> rune_of c), l')"
    "lex_rest l' = tl r" "lex_rest (lex_backup l') = r"
  using assms
proof (induction ds arbitrary: l sb thesis)
  case Nil
  show ?case
  proof (cases r)
    case Nil
    then show ?thesis
      using Nil.prems(2) Nil.prems(1) [of "l\<lparr>l_width := 0\<rparr>"]
      by (simp add: readDigits.simps [of sb l] lex_next_Nil)
  next
    case (Cons c s)
    then have "lex_rest l = c # s" using Nil.prems(2) by simp
    then obtain l' where l': "lex_next l = (rune_of c, l')" "lex_rest l' = s"
      "lex_rest (lex_backup l') = c # s" by (rule lex_next_Cons)
    show ?thesis
      by (rule Nil.prems(1) [of l'])
        (use Nil.prems(4) l' Cons in \<open>simp_all add: readDigits.simps [of sb l] rune_IsDigit_def is_digit_def\<close>)
  qed
next
  case (Cons d ds)
  then have "lex_rest l = d # (ds @ r)" by simp
  then obtain l' where l': "lex_next l = (rune_of d, l')" "lex_rest l' = ds @ r" by (rule lex_next_Cons)
  have d: "is_digit d" "rune_of d < 128" using Cons.prems(3) by (auto simp: is_digit_def)
  obtain l'' where l'': "readDigits (sb @ [d]) l' = ((sb @ [d]) @ ds, (case r of [] \<Rightarrow> 0 | c # _ \<Rightarrow> rune_of c), l'')"
    "lex_rest l'' = tl r" "lex_rest (lex_backup l'') = r"
    using Cons.IH [where l = l' and sb = "sb @ [d]"] Cons.prems l'(2) by auto
  show ?case
    by (rule Cons.prems(1) [of l''])
      (use l' l'' d in \<open>simp_all add: readDigits.simps [of sb l] rune_IsDigit_def is_digit_def\<close>)
qed


section \<open>Progress\<close>

lemma lex_next_backup:
  assumes "lex_next l = (r, l')"
  shows "lex_rest (lex_backup l') = lex_rest l" and "l_input l' = l_input l"
    and "l_pos (lex_backup l') = l_pos l"
  using assms by (auto simp: lex_next_def lex_backup_def lex_rest_def split: if_splits)

lemma lex_next_hd: "lex_next l = (r, l') \<Longrightarrow> r \<noteq> 0 \<Longrightarrow> \<exists>c s. lex_rest l = c # s \<and> r = rune_of c"
  by (cases "lex_rest l") (auto simp: lex_next_Nil elim: lex_next_Cons)

lemma skipWhitespace_left: "lex_left (skipWhitespace l) \<le> lex_left l"
  by (simp add: lex_left_rest skipWhitespace_rest length_dropWhile_le)

lemma readString_loop_left:
  "readString_loop q p sb l = Inr (t, l') \<Longrightarrow> lex_left l' < lex_left l \<and> tok_Type t = TokenString"
proof (induction q p sb l rule: readString_loop.induct)
  case (1 q p sb l)
  obtain r l1 where r: "lex_next l = (r, l1)" by fastforce
  note left = lex_next_left_both [OF r]
  consider "r = 0" | "r \<noteq> 0" "r = q" | "r \<noteq> 0" "r \<noteq> q" "r \<noteq> rune_of bslash"
    | "r \<noteq> 0" "r \<noteq> q" "r = rune_of bslash" by blast
  then show ?case
  proof cases
    case 4
    obtain e l2 where e: "lex_next l1 = (e, l2)" by fastforce
    note left' = lex_next_left_both [OF e]
    have "lex_left l2 < lex_left l" using left left' 4(1) by simp
    note esc = r [symmetric] 4 e [symmetric]
    define sb' where "sb' = (if e = rune_of (CHR ''n'') then sb @ [CHR 0x0A]
      else if e = rune_of (CHR ''t'') then sb @ [CHR 0x09] else sb @ utf8_encode e)"
    have run: "e \<noteq> 0" "readString_loop q p sb' l2 = Inr (t, l')"
      using 1(5) 4 by (auto simp: readString_loop.simps [of q p sb l] r e sb'_def split: if_splits)
    have "lex_left l' < lex_left l2 \<and> tok_Type t = TokenString"
      using 1(1) [OF esc] 1(2) [OF esc] 1(3) [OF esc] run by (auto simp: sb'_def split: if_splits)
    with \<open>lex_left l2 < lex_left l\<close> show ?thesis by simp
  next
    case 3
    with 1(4) [OF r [symmetric] 3] 1(5) left show ?thesis
      by (auto simp: readString_loop.simps [of q p sb l] r)
  qed (use 1(5) left in \<open>auto simp: readString_loop.simps [of q p sb l] r\<close>)
qed

lemma readDigits_left:
  "readDigits sb l = (sb', r, l') \<Longrightarrow>
     lex_left l' \<le> lex_left l \<and> lex_left (lex_backup l') \<le> lex_left l \<and> l_input l' = l_input l"
proof (induction sb l rule: readDigits.induct)
  case (1 sb l)
  obtain r1 l1 where r: "lex_next l = (r1, l1)" by fastforce
  note left = lex_next_left_both [OF r] and b = lex_next_backup [OF r]
  show ?case
  proof (cases "rune_IsDigit r1")
    case True
    with 1(1) [OF r [symmetric]] 1(2) left b show ?thesis
      by (auto simp: readDigits.simps [of sb l] r)
  next
    case False
    with 1(2) left b show ?thesis
      by (auto simp: readDigits.simps [of sb l] r lex_left_rest)
  qed
qed

lemma readIdent_left:
  assumes "lex_rest l = c # s" and "isIdentChar (rune_of c)" and "readIdent p l = (t, l')"
  shows "lex_left l' < lex_left l" and "tok_Type t \<noteq> TokenEOF"
proof -
  obtain l1 v where l1: "readIdent_loop [] l = (v, l1)"
    "lex_rest l1 = dropWhile (\<lambda>c. isIdentChar (rune_of c)) (lex_rest l)"
    using readIdent_loop_rest [of "[]" l] by auto
  have "l' = l1" "tok_Type t \<noteq> TokenEOF"
    using assms(3) by (auto simp: readIdent_def l1(1) Let_def split: if_splits)
  moreover have "length (dropWhile (\<lambda>c. isIdentChar (rune_of c)) s) < length (c # s)"
    by (simp add: le_imp_less_Suc length_dropWhile_le)
  ultimately show "lex_left l' < lex_left l" "tok_Type t \<noteq> TokenEOF"
    using assms(1,2) l1(2) by (simp_all add: lex_left_rest)
qed

lemma rune_IsDigit_ident: "rune_IsDigit r \<Longrightarrow> isIdentChar r"
  by (simp add: isIdentChar_def)

lemma isIdentStart_ident: "isIdentStart r \<Longrightarrow> isIdentChar r"
  by (auto simp: isIdentChar_def isIdentStart_def)

lemma readNumberOrDuration_left:
  assumes "readNumberOrDuration (l_pos l) l = Inr (t, l')"
  shows "lex_left l' < lex_left l \<and> tok_Type t \<noteq> TokenEOF"
proof -
  obtain r0 l0 where r0: "lex_next l = (r0, l0)" by fastforce
  let ?sign = "r0 = rune_of (CHR ''-'') \<or> r0 = rune_of (CHR ''+'')"
  obtain sb r1 l1 where r1: "(if ?sign then let (r, l') = lex_next l0 in (utf8_encode r0, r, l')
      else ([], r0, l0)) = (sb, r1, l1)" by (rule prod_cases3)
  obtain sb' r2 l2 where r2: "readDigits (sb @ utf8_encode r1) l1 = (sb', r2, l2)"
    by (rule prod_cases3)
  have e: "readNumberOrDuration (l_pos l) l =
    (if \<not> rune_IsDigit r1 then Inl (ExpectedDigit (l_pos (lex_backup l1)))
     else if r2 \<noteq> 0 \<and> isDurationSuffix r2 \<and> \<not> isIdentChar (lex_peek l2)
     then Inr (mk_token TokenDuration (sb' @ utf8_encode r2) (l_pos l), l2)
     else if \<not> ?sign \<and> r2 \<noteq> 0 \<and> isIdentChar r2
     then Inr (readIdent (l_pos l) (l2\<lparr>l_pos := l_pos l\<rparr>))
     else Inr (mk_token TokenNumber sb' (l_pos l), if r2 \<noteq> 0 then lex_backup l2 else l2))"
    unfolding readNumberOrDuration_def Let_def r0 prod.case r1 [unfolded Let_def] r2 ..
  have dig: "rune_IsDigit r1" using assms by (auto simp: e split: if_splits)
  have in1: "lex_left l1 < lex_left l \<and> l_input l1 = l_input l \<and> (?sign \<or> r1 = r0)"
  proof (cases ?sign)
    case True
    obtain r l'' where l0: "lex_next l0 = (r, l'')" by fastforce
    have "l1 = l''" using r1 True by (auto simp: l0)
    with True lex_next_left_both [OF r0] lex_next_left_both [OF l0] lex_next_backup(2) [OF r0]
      lex_next_backup(2) [OF l0]
    show ?thesis by auto
  next
    case False
    with r1 have "r1 = r0" "l1 = l0" by auto
    moreover have "r0 \<noteq> 0" using dig calculation by (metis rune_IsDigit_0)
    ultimately show ?thesis
      using lex_next_left_both [OF r0] lex_next_backup(2) [OF r0] by simp
  qed
  note d = readDigits_left [OF r2]
  show ?thesis
  proof (cases "\<not> ?sign \<and> r2 \<noteq> 0 \<and> isIdentChar r2 \<and> \<not> (isDurationSuffix r2 \<and> \<not> isIdentChar (lex_peek l2))")
    case True
    then have "r1 = r0" using in1 by auto
    with dig have "r0 \<noteq> 0" by (metis rune_IsDigit_0)
    then obtain c s where c: "lex_rest l = c # s" "r0 = rune_of c" using lex_next_hd [OF r0] by auto
    have rest: "lex_rest (l2\<lparr>l_pos := l_pos l\<rparr>) = lex_rest l"
      using d in1 by (simp add: lex_rest_def)
    have "readIdent (l_pos l) (l2\<lparr>l_pos := l_pos l\<rparr>) = (t, l')"
      using assms dig True by (auto simp: e)
    from readIdent_left [OF _ _ this, of c s] c dig rest \<open>r1 = r0\<close> show ?thesis
      by (auto simp: lex_left_rest rune_IsDigit_ident)
  next
    case False
    with assms dig d in1 show ?thesis by (auto simp: e split: if_splits)
  qed
qed


lemma NextToken_progress:
  assumes "NextToken l0 = Inr (t, l')"
  shows "lex_left l' \<le> lex_left l0" and "tok_Type t \<noteq> TokenEOF \<Longrightarrow> lex_left l' < lex_left l0"
proof -
  let ?l1 = "skipWhitespace l0"
  obtain r l where r: "lex_next ?l1 = (r, l)" by fastforce
  have sk: "lex_left ?l1 \<le> lex_left l0" by (rule skipWhitespace_left)
  note left = lex_next_left_both [OF r] and b = lex_next_backup [OF r]
  have next': "lex_left (snd (lex_next l)) \<le> lex_left l"
    by (cases "lex_next l") (auto dest: lex_next_left_le)
  have num: "readNumberOrDuration (l_pos ?l1) (lex_backup l) = Inr (t, l') \<Longrightarrow>
      lex_left l' < lex_left ?l1"
    using readNumberOrDuration_left [of "lex_backup l" t l'] b by (simp add: lex_left_rest)
  have id: "lex_left l' < lex_left ?l1"
    if i: "readIdent (l_pos ?l1) (lex_backup l) = (t, l')" "isIdentStart r" "r \<noteq> 0"
  proof -
    obtain c s where "lex_rest ?l1 = c # s" "r = rune_of c" using lex_next_hd [OF r i(3)] by auto
    then show ?thesis
      using readIdent_left(1) [OF _ _ i(1), of c s] i(2) b by (simp add: lex_left_rest isIdentStart_ident)
  qed
  have str: "readString r (l_pos ?l1) l = Inr (t, l') \<Longrightarrow> lex_left l' < lex_left l"
    by (simp add: readString_def readString_loop_left)
  have "lex_left l' \<le> lex_left ?l1 \<and> (tok_Type t = TokenEOF \<or> lex_left l' < lex_left ?l1)"
  proof (cases "r = 0")
    case True
    with assms left show ?thesis by (auto simp: NextToken_def r Let_def)
  next
    case False
    then have "lex_left l < lex_left ?l1" using left by simp
    then have "lex_left l' < lex_left ?l1"
      using assms False next' num id str unfolding NextToken_def lex_switch_def Let_def r prod.case
      by (auto split: if_splits)
    then show ?thesis by simp
  qed
  with sk show "lex_left l' \<le> lex_left l0"
    and "tok_Type t \<noteq> TokenEOF \<Longrightarrow> lex_left l' < lex_left l0" by auto
qed

function Tokenize_loop :: "Token list \<Rightarrow> Lexer \<Rightarrow> query_error + Token list" where
  "Tokenize_loop tokens l =
     (case NextToken l of
        Inl e \<Rightarrow> Inl e
      | Inr (tok, l') \<Rightarrow>
          if tok_Type tok = TokenEOF then Inr (tokens @ [tok])
          else Tokenize_loop (tokens @ [tok]) l')"
  by pat_completeness auto
termination
  by (relation "measure (\<lambda>(_, l). lex_left l)") (auto dest: NextToken_progress(2))

declare Tokenize_loop.simps [simp del]

definition Tokenize :: "Lexer \<Rightarrow> query_error + Token list" where
  "Tokenize l = Tokenize_loop [] l"

section \<open>Single tokens\<close>

text \<open>\<open>lexes s t v r\<close>: before input \<open>s\<close> the lexer returns a token of type \<open>t\<close> with text \<open>v\<close> and is left
  before \<open>r\<close>.\<close>

definition lexes :: "string \<Rightarrow> TokenType \<Rightarrow> string \<Rightarrow> string \<Rightarrow> bool" where
  "lexes s t v r \<longleftrightarrow>
     (\<forall>l. lex_rest l = s \<longrightarrow> (\<exists>p l'. NextToken l = Inr (mk_token t v p, l') \<and> lex_rest l' = r))"

lemma lexesE:
  assumes "lexes s t v r" and "lex_rest l = s"
  obtains p l' where "NextToken l = Inr (mk_token t v p, l')" and "lex_rest l' = r"
  using assms unfolding lexes_def by blast

lemma NextToken_at:
  assumes "lex_rest l = c # s" and "\<not> rune_IsSpace (rune_of c)" and "rune_of c \<noteq> 0"
  obtains p l2 where "NextToken l = lex_switch (rune_of c) p l2" "lex_rest l2 = s"
    "lex_rest (lex_backup l2) = c # s" "l_pos (lex_backup l2) = p"
proof -
  have r: "lex_rest (skipWhitespace l) = c # s" using assms by (simp add: skipWhitespace_rest)
  then obtain l2 where "lex_next (skipWhitespace l) = (rune_of c, l2)" "lex_rest l2 = s"
    "lex_rest (lex_backup l2) = c # s" "l_pos (lex_backup l2) = l_pos (skipWhitespace l)"
    by (rule lex_next_Cons)
  with assms(3) that show ?thesis by (auto simp: NextToken_def)
qed

lemma lexesI:
  assumes "\<not> rune_IsSpace (rune_of c)" and "rune_of c \<noteq> 0"
    and "\<And>p l. lex_rest l = s \<Longrightarrow> lex_rest (lex_backup l) = c # s \<Longrightarrow> l_pos (lex_backup l) = p \<Longrightarrow>
      \<exists>p' l'. lex_switch (rune_of c) p l = Inr (mk_token t v p', l') \<and> lex_rest l' = r"
  shows "lexes (c # s) t v r"
  unfolding lexes_def
proof (intro allI impI)
  fix l assume "lex_rest l = c # s"
  then obtain p l2 where "NextToken l = lex_switch (rune_of c) p l2" "lex_rest l2 = s"
    "lex_rest (lex_backup l2) = c # s" "l_pos (lex_backup l2) = p"
    using assms(1,2) by (rule NextToken_at)
  with assms(3) show "\<exists>p l'. NextToken l = Inr (mk_token t v p, l') \<and> lex_rest l' = r" by simp
qed

lemma lexes_space: "lexes s t v r \<Longrightarrow> lexes (CHR '' '' # s) t v r"
proof -
  assume a: "lexes s t v r"
  have sp: "rune_IsSpace (rune_of (CHR '' ''))" by (simp add: rune_IsSpace_def)
  show ?thesis
    unfolding lexes_def
  proof (intro allI impI)
    fix l assume l: "lex_rest l = CHR '' '' # s"
    then obtain l1 where l1: "lex_next l = (rune_of (CHR '' ''), l1)" "lex_rest l1 = s" by (rule lex_next_Cons)
    with sp have "skipWhitespace l = skipWhitespace l1" by (simp add: skipWhitespace.simps [of l])
    then have "NextToken l = NextToken l1" by (simp add: NextToken_def)
    with a l1 show "\<exists>p l'. NextToken l = Inr (mk_token t v p, l') \<and> lex_rest l' = r"
      by (simp add: lexes_def)
  qed
qed

lemma lexes_eof: "lexes [] TokenEOF [] []"
  by (simp add: lexes_def NextToken_def lex_next_Nil skipWhitespace_rest Let_def)

lemma lexes_lparen: "lexes (CHR ''('' # r) TokenLParen ''('' r"
  by (rule lexesI) (simp_all add: lex_switch_def rune_IsSpace_def)

lemma lexes_rparen: "lexes (CHR '')'' # r) TokenRParen '')'' r"
  by (rule lexesI) (simp_all add: lex_switch_def rune_IsSpace_def)

lemma lex_next_rest_Cons: "lex_rest l = c # s \<Longrightarrow> lex_rest (snd (lex_next l)) = s"
  by (auto elim: lex_next_Cons)

lemma byte_val_equals [simp]: "byte_val c = 61 \<longleftrightarrow> c = CHR ''=''"
proof -
  have "61 = byte_val (CHR ''='')" by simp
  then show ?thesis by (metis of_char_eq_iff)
qed

text \<open>The six comparison operators. A one-byte operator must not be followed by an equals sign.\<close>

lemma lexes_ops:
  "lexes (CHR ''='' # r) TokenEquals ''='' r"
  "lexes (CHR ''!'' # CHR ''='' # r) TokenNotEquals ''!='' r"
  "lexes (CHR ''<'' # CHR ''='' # r) TokenLessEq ''<='' r"
  "lexes (CHR ''>'' # CHR ''='' # r) TokenGreaterEq ''>='' r"
  "r \<noteq> [] \<Longrightarrow> hd r \<noteq> CHR ''='' \<Longrightarrow> lexes (CHR ''<'' # r) TokenLess ''<'' r"
  "r \<noteq> [] \<Longrightarrow> hd r \<noteq> CHR ''='' \<Longrightarrow> lexes (CHR ''>'' # r) TokenGreater ''>'' r"
  by (rule lexesI; auto simp: lex_switch_def rune_IsSpace_def lex_peek_rest lex_next_rest_Cons
      split: list.split)+

text \<open>Identifier texts of ASCII bytes, and what ends a value.\<close>

definition ident_text :: "string \<Rightarrow> bool" where
  "ident_text v \<longleftrightarrow> v \<noteq> [] \<and> isIdentStart (rune_of (hd v)) \<and>
     list_all (\<lambda>c. isIdentChar (rune_of c) \<and> rune_of c < 128) v"

definition ident_type :: "string \<Rightarrow> TokenType" where
  "ident_type v =
     (if to_upper v = ''AND'' then TokenAnd else if to_upper v = ''OR'' then TokenOr
      else if to_upper v = ''NOT'' then TokenNot else TokenIdent)"

definition ends_value :: "string \<Rightarrow> bool" where
  "ends_value r \<longleftrightarrow> r = [] \<or> hd r = CHR '' '' \<or> hd r = CHR '')''"

lemma ends_value_not_ident:
  "ends_value r \<Longrightarrow> r = [] \<or> \<not> isIdentChar (rune_of (hd r))"
  "ends_value r \<Longrightarrow> r = [] \<or> \<not> is_digit (hd r)"
  by (auto simp: ends_value_def rune_defs is_digit_def)

lemma takeWhile_ident:
  assumes "list_all (\<lambda>c. isIdentChar (rune_of c) \<and> rune_of c < 128) v"
    and "r = [] \<or> \<not> isIdentChar (rune_of (hd r))"
  shows "takeWhile (\<lambda>c. isIdentChar (rune_of c)) (v @ r) = v"
    and "dropWhile (\<lambda>c. isIdentChar (rune_of c)) (v @ r) = r"
  using assms by (cases r; induction v; auto)+

lemma lexes_ident:
  assumes "ident_text v" and "r = [] \<or> \<not> isIdentChar (rune_of (hd r))"
  shows "lexes (v @ r) (ident_type v) v r"
proof -
  obtain c s where v: "v = c # s" using assms(1) by (cases v) (auto simp: ident_text_def)
  have c: "isIdentStart (rune_of c)" and all: "list_all (\<lambda>c. isIdentChar (rune_of c) \<and> rune_of c < 128) v"
    using assms(1) by (auto simp: ident_text_def v)
  have cs: "rune_IsLetter (rune_of c) \<or> rune_of c = 95" using c by (simp add: isIdentStart_def)
  have "lexes (c # (s @ r)) (ident_type v) v r"
  proof (rule lexesI)
    show "\<not> rune_IsSpace (rune_of c)" "rune_of c \<noteq> 0" using cs by (auto simp: rune_defs)
    fix p l assume l: "lex_rest (lex_backup l) = c # (s @ r)" "l_pos (lex_backup l) = p"
    obtain l' where "readIdent_loop [] (lex_backup l) = (v, l')" "lex_rest l' = r"
      using readIdent_loop_rest [of "[]" "lex_backup l"] takeWhile_ident [OF all assms(2)] l
        utf8_of_bytes_ascii [of v] all by (auto simp: v list_all_iff)
    then have "readIdent p (lex_backup l) = (mk_token (ident_type v) v p, l')"
      by (simp add: readIdent_def ident_type_def Let_def)
    moreover have "lex_switch (rune_of c) p l = Inr (readIdent p (lex_backup l))"
      using cs c by (auto simp: lex_switch_def rune_defs)
    ultimately show "\<exists>p' l'. lex_switch (rune_of c) p l = Inr (mk_token (ident_type v) v p', l') \<and> lex_rest l' = r"
      using \<open>lex_rest l' = r\<close> by auto
  qed
  then show ?thesis by (simp add: v)
qed

lemma readNumberOrDuration_unsigned:
  assumes "lex_rest l = d # ds @ r" and "list_all is_digit (d # ds)" and "r = [] \<or> \<not> is_digit (hd r)"
  obtains l2 where "lex_rest l2 = tl r" "lex_rest (lex_backup l2) = r"
    "readNumberOrDuration p l =
      (let r2 = (case r of [] \<Rightarrow> 0 | c # _ \<Rightarrow> rune_of c) in
       if r2 \<noteq> 0 \<and> isDurationSuffix r2 \<and> \<not> isIdentChar (lex_peek l2)
       then Inr (mk_token TokenDuration ((d # ds) @ utf8_encode r2) p, l2)
       else if r2 \<noteq> 0 \<and> isIdentChar r2 then Inr (readIdent p (l2\<lparr>l_pos := p\<rparr>))
       else Inr (mk_token TokenNumber (d # ds) p, if r2 \<noteq> 0 then lex_backup l2 else l2))"
proof -
  obtain l1 where l1: "lex_next l = (rune_of d, l1)" "lex_rest l1 = ds @ r"
    using assms(1) by (rule lex_next_Cons)
  have d: "rune_IsDigit (rune_of d)" "rune_of d < 128" "rune_of d \<noteq> 45" "rune_of d \<noteq> 43"
    using assms(2) by (auto simp: rune_IsDigit_def is_digit_def)
  obtain l2 where l2: "readDigits [d] l1 = ([d] @ ds, (case r of [] \<Rightarrow> 0 | c # _ \<Rightarrow> rune_of c), l2)"
    "lex_rest l2 = tl r" "lex_rest (lex_backup l2) = r"
    using l1(2) _ assms(3) by (rule readDigits_rest) (use assms(2) in simp)
  show ?thesis
    by (rule that [of l2]) (use l1 l2 d in \<open>simp_all add: readNumberOrDuration_def Let_def\<close>)
qed

lemma digit_switch:
  "is_digit d \<Longrightarrow> lex_switch (rune_of d) p l = readNumberOrDuration p (lex_backup l)"
  by (auto simp: lex_switch_def rune_IsDigit_def is_digit_def)

lemma digit_not_space: "is_digit d \<Longrightarrow> \<not> rune_IsSpace (rune_of d)" "is_digit d \<Longrightarrow> rune_of d \<noteq> 0"
  by (auto simp: rune_IsSpace_def is_digit_def)

lemma lexes_number:
  assumes "ds \<noteq> []" and "list_all is_digit ds" and "ends_value r"
  shows "lexes (ds @ r) TokenNumber ds r"
proof -
  obtain d ds' where ds: "ds = d # ds'" using assms(1) by (cases ds) auto
  have "lexes (d # (ds' @ r)) TokenNumber ds r"
  proof (rule lexesI)
    show "\<not> rune_IsSpace (rune_of d)" "rune_of d \<noteq> 0" using assms(2) digit_not_space by (auto simp: ds)
    fix p l assume l: "lex_rest (lex_backup l) = d # (ds' @ r)"
    obtain l2 where "lex_rest l2 = tl r" "lex_rest (lex_backup l2) = r"
      "readNumberOrDuration p (lex_backup l) =
        (let r2 = (case r of [] \<Rightarrow> 0 | c # _ \<Rightarrow> rune_of c) in
         if r2 \<noteq> 0 \<and> isDurationSuffix r2 \<and> \<not> isIdentChar (lex_peek l2)
         then Inr (mk_token TokenDuration ((d # ds') @ utf8_encode r2) p, l2)
         else if r2 \<noteq> 0 \<and> isIdentChar r2 then Inr (readIdent p (l2\<lparr>l_pos := p\<rparr>))
         else Inr (mk_token TokenNumber (d # ds') p, if r2 \<noteq> 0 then lex_backup l2 else l2))"
      using l _ ends_value_not_ident(2) [OF assms(3)]
      by (rule readNumberOrDuration_unsigned) (use assms(2) in \<open>simp add: ds\<close>)
    then show "\<exists>p' l'. lex_switch (rune_of d) p l = Inr (mk_token TokenNumber ds p', l') \<and> lex_rest l' = r"
      using assms(2,3) by (auto simp: ds digit_switch ends_value_def isDurationSuffix_def rune_defs
          split: list.splits)
  qed
  then show ?thesis by (simp add: ds)
qed

lemma isDurationSuffix_char:
  assumes "isDurationSuffix (rune_of u)"
  shows "u \<in> set ''hdwmyHDWMY''"
proof -
  obtain c where "c \<in> set ''hdwmyHDWMY''" "rune_of u = rune_of c"
    using assms unfolding isDurationSuffix_def set_map by blast
  then show ?thesis by (metis of_char_eq_iff)
qed

lemma lexes_duration:
  assumes "ds \<noteq> []" and "list_all is_digit ds" and "isDurationSuffix (rune_of u)" and "ends_value r"
  shows "lexes (ds @ u # r) TokenDuration (ds @ [u]) r"
proof -
  obtain d ds' where ds: "ds = d # ds'" using assms(1) by (cases ds) auto
  have u: "rune_of u \<noteq> 0" "rune_of u < 128" "\<not> is_digit u"
    using isDurationSuffix_char [OF assms(3)] by (auto simp: is_digit_def)
  have "lexes (d # (ds' @ u # r)) TokenDuration (ds @ [u]) r"
  proof (rule lexesI)
    show "\<not> rune_IsSpace (rune_of d)" "rune_of d \<noteq> 0" using assms(2) digit_not_space by (auto simp: ds)
    fix p l assume l: "lex_rest (lex_backup l) = d # (ds' @ u # r)"
    obtain l2 where l2: "lex_rest l2 = tl (u # r)"
      "readNumberOrDuration p (lex_backup l) =
        (let r2 = (case u # r of [] \<Rightarrow> 0 | c # _ \<Rightarrow> rune_of c) in
         if r2 \<noteq> 0 \<and> isDurationSuffix r2 \<and> \<not> isIdentChar (lex_peek l2)
         then Inr (mk_token TokenDuration ((d # ds') @ utf8_encode r2) p, l2)
         else if r2 \<noteq> 0 \<and> isIdentChar r2 then Inr (readIdent p (l2\<lparr>l_pos := p\<rparr>))
         else Inr (mk_token TokenNumber (d # ds') p, if r2 \<noteq> 0 then lex_backup l2 else l2))"
      using l by (rule readNumberOrDuration_unsigned) (use assms(2) u in \<open>simp_all add: ds\<close>)
    moreover have "\<not> isIdentChar (lex_peek l2)"
      using l2(1) ends_value_not_ident(1) [OF assms(4)]
      by (cases r) (auto simp: lex_peek_rest)
    ultimately show "\<exists>p' l'. lex_switch (rune_of d) p l = Inr (mk_token TokenDuration (ds @ [u]) p', l') \<and> lex_rest l' = r"
      using assms(2,3) u by (simp add: ds digit_switch)
  qed
  then show ?thesis by (simp add: ds)
qed

section \<open>Quoted strings\<close>

text \<open>How a user writes a text between double quotes.\<close>

fun escape_query :: "string \<Rightarrow> string" where
  "escape_query [] = []"
| "escape_query (c # s) =
     (if c = quote_ch \<or> c = bslash then bslash # c # escape_query s else c # escape_query s)"

lemma readString_escape:
  assumes "lex_rest l = escape_query s @ quote_ch # r" and "CHR 0x00 \<notin> set s"
  shows "\<exists>l'. readString_loop (rune_of quote_ch) p sb l =
      Inr (mk_token TokenString (sb @ utf8_of_bytes s) p, l') \<and> lex_rest l' = r"
  using assms
proof (induction s arbitrary: l sb)
  case Nil
  then obtain l' where "lex_next l = (rune_of quote_ch, l')" "lex_rest l' = r"
    by (auto elim: lex_next_Cons)
  then show ?case by (simp add: readString_loop.simps [of _ p sb l])
next
  case (Cons c s)
  have "rune_of c \<noteq> rune_of (CHR 0x00)"
    using Cons.prems(2) by (simp only: of_char_eq_iff) auto
  then have nz: "rune_of c \<noteq> 0" by simp
  show ?case
  proof (cases "c = quote_ch \<or> c = bslash")
    case True
    with Cons.prems(1) obtain l1 where l1: "lex_next l = (rune_of bslash, l1)"
      "lex_rest l1 = c # escape_query s @ quote_ch # r" by (auto elim: lex_next_Cons)
    obtain l2 where l2: "lex_next l1 = (rune_of c, l2)" "lex_rest l2 = escape_query s @ quote_ch # r"
      using l1(2) by (rule lex_next_Cons)
    have "readString_loop (rune_of quote_ch) p sb l =
        readString_loop (rune_of quote_ch) p (sb @ utf8_encode (rune_of c)) l2"
      using True by (auto simp: readString_loop.simps [of _ p sb l] l1 l2)
    with Cons.IH [OF l2(2), of "sb @ utf8_encode (rune_of c)"] Cons.prems(2) show ?thesis by simp
  next
    case False
    with Cons.prems(1) obtain l1 where l1: "lex_next l = (rune_of c, l1)"
      "lex_rest l1 = escape_query s @ quote_ch # r" by (auto elim: lex_next_Cons)
    have "rune_of c \<noteq> rune_of quote_ch" "rune_of c \<noteq> rune_of bslash"
      using False by (simp_all only: of_char_eq_iff) auto
    then have "readString_loop (rune_of quote_ch) p sb l =
        readString_loop (rune_of quote_ch) p (sb @ utf8_encode (rune_of c)) l1"
      using nz by (simp add: readString_loop.simps [of _ p sb l] l1)
    with Cons.IH [OF l1(2), of "sb @ utf8_encode (rune_of c)"] Cons.prems(2) show ?thesis by simp
  qed
qed

lemma lexes_string:
  assumes "CHR 0x00 \<notin> set s"
  shows "lexes (quote_ch # escape_query s @ quote_ch # r) TokenString (utf8_of_bytes s) r"
proof (rule lexesI)
  fix p l assume "lex_rest l = escape_query s @ quote_ch # r"
  from readString_escape [OF this assms, of p "[]"]
  show "\<exists>p' l'. lex_switch (rune_of quote_ch) p l = Inr (mk_token TokenString (utf8_of_bytes s) p', l') \<and>
      lex_rest l' = r"
    by (auto simp: lex_switch_def readString_def)
qed (simp_all add: rune_IsSpace_def)

section \<open>Properties\<close>

lemma Tokenize_loop_shape:
  assumes "Tokenize_loop ts l = Inr out" and "list_all (\<lambda>t. tok_Type t \<noteq> TokenEOF) ts"
  shows "\<exists>us e. out = ts @ us @ [e] \<and> tok_Type e = TokenEOF \<and>
    list_all (\<lambda>t. tok_Type t \<noteq> TokenEOF) us \<and> length us \<le> lex_left l"
  using assms
proof (induction ts l rule: Tokenize_loop.induct)
  case (1 ts l)
  show ?case
  proof (cases "NextToken l")
    case (Inl e)
    with 1(2) show ?thesis by (simp add: Tokenize_loop.simps [of ts l])
  next
    case (Inr tl)
    obtain t l' where tl: "tl = (t, l')" by fastforce
    show ?thesis
    proof (cases "tok_Type t = TokenEOF")
      case True
      with Inr tl 1(2) show ?thesis by (auto simp: Tokenize_loop.simps [of ts l])
    next
      case False
      have "Tokenize_loop (ts @ [t]) l' = Inr out"
        using 1(2) Inr tl False by (simp add: Tokenize_loop.simps [of ts l])
      with 1(1) [OF Inr [unfolded tl] refl False] 1(3) False obtain us e where
        u: "out = (ts @ [t]) @ us @ [e]" "tok_Type e = TokenEOF"
          "list_all (\<lambda>t. tok_Type t \<noteq> TokenEOF) us" "length us \<le> lex_left l'" by auto
      have "lex_left l' < lex_left l" using NextToken_progress(2) [OF Inr [unfolded tl] False] .
      with u False show ?thesis by (intro exI [of _ "t # us"] exI [of _ e]) auto
    qed
  qed
qed

text \<open>
  Tokenizing always ends, since every token but the last consumes input; the last token is the
  only end-of-input token, and there is at most one token per byte before it.
\<close>

theorem Tokenize_shape:
  assumes "Tokenize (NewLexer input) = Inr toks"
  shows "toks \<noteq> [] \<and> tok_Type (last toks) = TokenEOF \<and>
    list_all (\<lambda>t. tok_Type t \<noteq> TokenEOF) (butlast toks) \<and> length toks \<le> length input + 1"
  using Tokenize_loop_shape [of "[]" "NewLexer input" toks] assms
  by (auto simp: Tokenize_def lex_left_rest butlast_append)

theorem Tokenize_shape_witness:
  "\<exists>toks. Tokenize (NewLexer ''(a=1)'') = Inr toks \<and> length toks = 6 \<and>
     tok_Type (last toks) = TokenEOF"
proof -
  let ?toks = "projr (Tokenize (NewLexer ''(a=1)''))"
  have t: "Tokenize (NewLexer ''(a=1)'') = Inr ?toks" and "length ?toks = 6" by code_simp+
  with Tokenize_shape [OF t] show ?thesis by auto
qed

text \<open>
  C37: a quoted string is read back as it was written exactly when it is ASCII. The lexer takes each
  byte of the input for a rune and writes it out in UTF-8 again, so every byte of a multi-byte
  character is encoded a second time.
\<close>

theorem quoted_string_value:
  assumes "CHR 0x00 \<notin> set s"
  shows "\<exists>v l p. NextToken (NewLexer ([quote_ch] @ escape_query s @ [quote_ch])) =
      Inr (mk_token TokenString v p, l) \<and> (v = s \<longleftrightarrow> list_all (\<lambda>c. byte_val c < 128) s)"
proof -
  have "lex_rest (NewLexer ([quote_ch] @ escape_query s @ [quote_ch])) =
      quote_ch # escape_query s @ quote_ch # []" by simp
  from lexesE [OF lexes_string [OF assms] this] show ?thesis
    by (metis utf8_of_bytes_id_iff)
qed

theorem quoted_string_value_witness:
  "\<exists>v l p. NextToken (NewLexer [quote_ch, CHR 0xC3, CHR 0xA9, quote_ch]) =
      Inr (mk_token TokenString v p, l) \<and> v \<noteq> [CHR 0xC3, CHR 0xA9]"
  using quoted_string_value [of "[CHR 0xC3, CHR 0xA9]"] by auto

end
