(* ===== verification/Query_Parser.thy ===== *)
theory Query_Parser
  imports Query_Lexer
begin

text \<open>
  The recursive-descent parser of the query language, \<open>internal/query/parser.go\<close>. The parser state is
  the lexer, the current token and the token peeked at. The parse methods call each other and loop,
  so they carry fuel; \<open>Parse\<close> gives six units per input byte and a constant, which
  \<open>parse_fuel_enough\<close> shows to be enough: \<open>OutOfFuel\<close> is never returned.
\<close>

section \<open>Syntax trees\<close>

datatype ComparisonOp = OpEquals | OpNotEquals | OpLess | OpLessEq | OpGreater | OpGreaterEq

fun ComparisonOp_String :: "ComparisonOp \<Rightarrow> string" where
  "ComparisonOp_String OpEquals = ''=''"
| "ComparisonOp_String OpNotEquals = ''!=''"
| "ComparisonOp_String OpLess = ''<''"
| "ComparisonOp_String OpLessEq = ''<=''"
| "ComparisonOp_String OpGreater = ''>''"
| "ComparisonOp_String OpGreaterEq = ''>=''"

record ComparisonNode =
  c_Field :: string
  c_Op :: ComparisonOp
  c_Value :: string
  c_ValueType :: TokenType

datatype Node =
    Comparison ComparisonNode
  | AndNode Node Node
  | OrNode Node Node
  | NotNode Node

definition Comparison_String :: "ComparisonNode \<Rightarrow> string" where
  "Comparison_String n = c_Field n @ ComparisonOp_String (c_Op n) @ c_Value n"

fun Node_String :: "Node \<Rightarrow> string" where
  "Node_String (Comparison n) = Comparison_String n"
| "Node_String (AndNode l r) = ''('' @ Node_String l @ '' AND '' @ Node_String r @ '')''"
| "Node_String (OrNode l r) = ''('' @ Node_String l @ '' OR '' @ Node_String r @ '')''"
| "Node_String (NotNode n) = ''NOT '' @ Node_String n"

section \<open>The parser\<close>

record Parser =
  p_lexer :: Lexer
  p_current :: Token
  p_peeked :: "Token option"

definition NewParser :: "string \<Rightarrow> Parser" where
  "NewParser input =
     \<lparr>p_lexer = NewLexer input, p_current = mk_token TokenEOF [] 0, p_peeked = None\<rparr>"

definition parser_advance :: "Parser \<Rightarrow> query_error + Parser" where
  "parser_advance p =
     (case p_peeked p of
        Some tok \<Rightarrow> Inr (p\<lparr>p_current := tok, p_peeked := None\<rparr>)
      | None \<Rightarrow>
          bindE (NextToken (p_lexer p)) (\<lambda>(tok, l). Inr (p\<lparr>p_lexer := l, p_current := tok\<rparr>)))"

definition parser_peek :: "Parser \<Rightarrow> query_error + Token \<times> Parser" where
  "parser_peek p =
     (case p_peeked p of
        Some tok \<Rightarrow> Inr (tok, p)
      | None \<Rightarrow>
          bindE (NextToken (p_lexer p)) (\<lambda>(tok, l). Inr (tok, p\<lparr>p_lexer := l, p_peeked := Some tok\<rparr>)))"

abbreviation cur_type :: "Parser \<Rightarrow> TokenType" where
  "cur_type p \<equiv> tok_Type (p_current p)"

abbreviation cur_pos :: "Parser \<Rightarrow> nat" where
  "cur_pos p \<equiv> tok_Pos (p_current p)"

abbreviation cur_value :: "Parser \<Rightarrow> string" where
  "cur_value p \<equiv> tok_Value (p_current p)"

definition metadata_prefix :: string where
  "metadata_prefix = ''metadata.''"

definition field_name :: "string \<Rightarrow> string" where
  "field_name v =
     (let field = to_lower v in
      if has_prefix field metadata_prefix \<and> length field > length metadata_prefix
      then metadata_prefix @ drop (length metadata_prefix) v
      else field)"

fun op_of_token :: "TokenType \<Rightarrow> ComparisonOp option" where
  "op_of_token TokenEquals = Some OpEquals"
| "op_of_token TokenNotEquals = Some OpNotEquals"
| "op_of_token TokenLess = Some OpLess"
| "op_of_token TokenLessEq = Some OpLessEq"
| "op_of_token TokenGreater = Some OpGreater"
| "op_of_token TokenGreaterEq = Some OpGreaterEq"
| "op_of_token _ = None"

definition value_token :: "TokenType \<Rightarrow> bool" where
  "value_token t \<longleftrightarrow> t = TokenIdent \<or> t = TokenString \<or> t = TokenNumber \<or> t = TokenDuration"

definition parseComparison :: "Parser \<Rightarrow> query_error + Node \<times> Parser" where
  "parseComparison p =
     (if cur_type p \<noteq> TokenIdent then Inl (ExpectedField (cur_pos p) (cur_type p))
      else
        let field = field_name (cur_value p) in
        bindE (parser_advance p) (\<lambda>p1.
          case op_of_token (cur_type p1) of
            None \<Rightarrow> Inl (ExpectedOp (cur_pos p1) (cur_type p1))
          | Some op \<Rightarrow>
              bindE (parser_advance p1) (\<lambda>p2.
                if \<not> value_token (cur_type p2) then Inl (ExpectedValue (cur_pos p2) (cur_type p2))
                else
                  bindE (parser_advance p2) (\<lambda>p3.
                    Inr (Comparison \<lparr>c_Field = field, c_Op = op, c_Value = cur_value p2,
                           c_ValueType = cur_type p2\<rparr>, p3)))))"

fun parseOr :: "nat \<Rightarrow> Parser \<Rightarrow> query_error + Node \<times> Parser"
  and parseOr_loop :: "nat \<Rightarrow> Node \<Rightarrow> Parser \<Rightarrow> query_error + Node \<times> Parser"
  and parseAnd :: "nat \<Rightarrow> Parser \<Rightarrow> query_error + Node \<times> Parser"
  and parseAnd_loop :: "nat \<Rightarrow> Node \<Rightarrow> Parser \<Rightarrow> query_error + Node \<times> Parser"
  and parseNot :: "nat \<Rightarrow> Parser \<Rightarrow> query_error + Node \<times> Parser"
  and parsePrimary :: "nat \<Rightarrow> Parser \<Rightarrow> query_error + Node \<times> Parser" where
  "parseOr 0 p = Inl OutOfFuel"
| "parseOr (Suc k) p = bindE (parseAnd k p) (\<lambda>(left, p1). parseOr_loop k left p1)"
| "parseOr_loop 0 left p = Inl OutOfFuel"
| "parseOr_loop (Suc k) left p =
     (if cur_type p = TokenOr then
        bindE (parser_advance p) (\<lambda>p1.
          bindE (parseAnd k p1) (\<lambda>(right, p2). parseOr_loop k (OrNode left right) p2))
      else Inr (left, p))"
| "parseAnd 0 p = Inl OutOfFuel"
| "parseAnd (Suc k) p = bindE (parseNot k p) (\<lambda>(left, p1). parseAnd_loop k left p1)"
| "parseAnd_loop 0 left p = Inl OutOfFuel"
| "parseAnd_loop (Suc k) left p =
     (if cur_type p = TokenAnd then
        bindE (parser_advance p) (\<lambda>p1.
          bindE (parseNot k p1) (\<lambda>(right, p2). parseAnd_loop k (AndNode left right) p2))
      else Inr (left, p))"
| "parseNot 0 p = Inl OutOfFuel"
| "parseNot (Suc k) p =
     (if cur_type p = TokenNot then
        bindE (parser_advance p) (\<lambda>p1.
          bindE (parseNot k p1) (\<lambda>(operand, p2). Inr (NotNode operand, p2)))
      else parsePrimary k p)"
| "parsePrimary 0 p = Inl OutOfFuel"
| "parsePrimary (Suc k) p =
     (if cur_type p = TokenLParen then
        bindE (parser_advance p) (\<lambda>p1.
          bindE (parseOr k p1) (\<lambda>(node, p2).
            if cur_type p2 \<noteq> TokenRParen then Inl (ExpectedRParen (cur_pos p2) (cur_type p2))
            else bindE (parser_advance p2) (\<lambda>p3. Inr (node, p3))))
      else parseComparison p)"

definition parse_fuel :: "string \<Rightarrow> nat" where
  "parse_fuel input = 6 * length input + 12"

definition Parser_Parse :: "nat \<Rightarrow> Parser \<Rightarrow> query_error + Node" where
  "Parser_Parse k p0 =
     bindE (parser_advance p0) (\<lambda>p.
       if cur_type p = TokenEOF then Inl EmptyQuery
       else bindE (parseOr k p) (\<lambda>(node, p').
         if cur_type p' \<noteq> TokenEOF then Inl (UnexpectedToken (cur_value p') (cur_pos p'))
         else Inr node))"

definition Parse :: "string \<Rightarrow> query_error + Node" where
  "Parse input = Parser_Parse (parse_fuel input) (NewParser input)"

definition KnownFields :: "string list" where
  "KnownFields =
     [''id'', ''title'', ''description'', ''desc'', ''status'', ''priority'', ''type'', ''assignee'',
      ''owner'', ''created'', ''updated'', ''closed'', ''created_at'', ''updated_at'', ''closed_at'',
      ''label'', ''labels'', ''pinned'', ''ephemeral'', ''template'', ''spec'', ''spec_id'', ''parent'',
      ''mol_type'', ''notes'', ''has_metadata_key'']"

section \<open>Fuel\<close>

text \<open>The tokens still to come: what every advance past a token other than the end decreases. The
  parse methods never fill the peek slot.\<close>

definition parser_left :: "Parser \<Rightarrow> nat" where
  "parser_left p = lex_left (p_lexer p) + (if cur_type p = TokenEOF then 0 else 1)"

definition parser_ok :: "Parser \<Rightarrow> bool" where
  "parser_ok p \<longleftrightarrow> p_peeked p = None"

lemma readString_loop_no_fuel: "readString_loop q p sb l \<noteq> Inl OutOfFuel"
proof (induction q p sb l rule: readString_loop.induct)
  case (1 q p sb l)
  then show ?case
    by (subst readString_loop.simps) (auto split: prod.split)
qed

lemma NextToken_no_fuel: "NextToken l \<noteq> Inl OutOfFuel"
proof -
  have "readNumberOrDuration p l \<noteq> Inl OutOfFuel" for p l
    unfolding readNumberOrDuration_def Let_def by (auto split: prod.split)
  then show ?thesis
    by (auto simp: NextToken_def lex_switch_def Let_def readString_def readString_loop_no_fuel
        split: prod.split)
qed

lemma parser_advance_no_fuel: "parser_advance p \<noteq> Inl OutOfFuel"
  using NextToken_no_fuel [of "p_lexer p"]
  by (cases "NextToken (p_lexer p)") (auto simp: parser_advance_def split: option.split)

lemma parser_advance_left:
  assumes "parser_ok p" and "parser_advance p = Inr p'"
  shows "parser_ok p'" and "parser_left p' \<le> Suc (lex_left (p_lexer p))"
    and "cur_type p \<noteq> TokenEOF \<Longrightarrow> parser_left p' < parser_left p"
proof -
  obtain t l where t: "NextToken (p_lexer p) = Inr (t, l)"
    and p': "p' = p\<lparr>p_lexer := l, p_current := t\<rparr>"
    using assms by (auto simp: parser_advance_def parser_ok_def elim!: bindE_InrE)
  note prog = NextToken_progress [OF t]
  show "parser_ok p'" using assms(1) by (simp add: p' parser_ok_def)
  show "parser_left p' \<le> Suc (lex_left (p_lexer p))" using prog by (simp add: p' parser_left_def)
  show "cur_type p \<noteq> TokenEOF \<Longrightarrow> parser_left p' < parser_left p"
    using prog by (simp add: p' parser_left_def)
qed

definition consumes :: "nat \<Rightarrow> Parser \<Rightarrow> query_error + Node \<times> Parser \<Rightarrow> bool" where
  "consumes d p r \<longleftrightarrow>
     (case r of Inl e \<Rightarrow> True | Inr (n, p') \<Rightarrow> parser_ok p' \<and> parser_left p' + d \<le> parser_left p)"

lemma consumes_simps [simp]:
  "consumes d p (Inl e)"
  "consumes d p (Inr (n, p')) \<longleftrightarrow> parser_ok p' \<and> parser_left p' + d \<le> parser_left p"
  by (simp_all add: consumes_def)

lemma consumes_advance:
  assumes "parser_ok p" and "cur_type p \<noteq> TokenEOF"
    and "\<And>p1. parser_ok p1 \<Longrightarrow> parser_left p1 < parser_left p \<Longrightarrow> consumes d p (f p1)"
  shows "consumes d p (bindE (parser_advance p) f)"
  using assms parser_advance_left [OF assms(1)] by (cases "parser_advance p") auto

lemma consumes_bind:
  assumes "consumes d1 p1 r" and "\<And>n p2. parser_ok p2 \<Longrightarrow> parser_left p2 + d1 \<le> parser_left p1 \<Longrightarrow> consumes d p (f (n, p2))"
  shows "consumes d p (bindE r f)"
  using assms by (cases r) (auto split: prod.splits)

lemma consumes_mono: "consumes d p1 r \<Longrightarrow> parser_left p1 + d' \<le> parser_left p + d \<Longrightarrow> consumes d' p r"
  by (auto simp: consumes_def split: sum.splits prod.splits)

lemma op_of_token_EOF: "op_of_token t \<noteq> None \<Longrightarrow> t \<noteq> TokenEOF"
  by (cases t) auto

lemma value_token_EOF: "value_token t \<Longrightarrow> t \<noteq> TokenEOF"
  by (auto simp: value_token_def)

lemma parseComparison_InrE:
  assumes "parseComparison p = Inr (n, p3)"
  obtains p1 p2 op where "cur_type p = TokenIdent" "parser_advance p = Inr p1"
    "op_of_token (cur_type p1) = Some op" "parser_advance p1 = Inr p2"
    "value_token (cur_type p2)" "parser_advance p2 = Inr p3"
    "n = Comparison \<lparr>c_Field = field_name (cur_value p), c_Op = op, c_Value = cur_value p2,
           c_ValueType = cur_type p2\<rparr>"
  using assms unfolding parseComparison_def Let_def
  by (auto elim!: bindE_InrE split: if_splits option.splits)

lemma parseComparison_consumes:
  assumes "parser_ok p"
  shows "consumes 1 p (parseComparison p)"
proof (cases "parseComparison p")
  case (Inr np)
  obtain n p3 where np: "np = (n, p3)" by fastforce
  from Inr [unfolded np] obtain p1 p2 op where *: "cur_type p = TokenIdent"
    "parser_advance p = Inr p1" "op_of_token (cur_type p1) = Some op" "parser_advance p1 = Inr p2"
    "value_token (cur_type p2)" "parser_advance p2 = Inr p3"
    by (rule parseComparison_InrE)
  note p1 = parser_advance_left [OF assms *(2)]
  note p2 = parser_advance_left [OF p1(1) *(4)]
  note p3 = parser_advance_left [OF p2(1) *(6)]
  have "parser_left p1 < parser_left p" using p1(3) *(1) by simp
  moreover have "parser_left p2 < parser_left p1" using p2(3) *(3) op_of_token_EOF by simp
  moreover have "parser_left p3 < parser_left p2" using p3(3) *(5) value_token_EOF by simp
  ultimately show ?thesis using p3(1) by (simp add: Inr np)
qed simp

lemma parse_consumes:
  "parser_ok p \<Longrightarrow> consumes 1 p (parseOr k p)"
  "parser_ok p \<Longrightarrow> consumes 0 p (parseOr_loop k n p)"
  "parser_ok p \<Longrightarrow> consumes 1 p (parseAnd k p)"
  "parser_ok p \<Longrightarrow> consumes 0 p (parseAnd_loop k n p)"
  "parser_ok p \<Longrightarrow> consumes 1 p (parseNot k p)"
  "parser_ok p \<Longrightarrow> consumes 1 p (parsePrimary k p)"
proof (induction k arbitrary: p n)
  case (Suc k)
  have loop: "consumes 0 p1 r \<Longrightarrow> parser_left p1 + d \<le> parser_left p \<Longrightarrow> consumes d p r" for d p1 p r
    using consumes_mono [of 0 p1 r d p] by simp
  {
    case 1
    show ?case
      using Suc.IH(3) [OF 1] by (auto intro!: consumes_bind loop [OF Suc.IH(2)])
  next
    case 2
    show ?case
    proof (cases "cur_type p = TokenOr")
      case True
      with 2 show ?thesis
        by (auto intro!: consumes_advance consumes_bind [OF Suc.IH(3)] loop [OF Suc.IH(2)])
    qed (use 2 in simp)
  next
    case 3
    show ?case
      using Suc.IH(5) [OF 3] by (auto intro!: consumes_bind loop [OF Suc.IH(4)])
  next
    case 4
    show ?case
    proof (cases "cur_type p = TokenAnd")
      case True
      with 4 show ?thesis
        by (auto intro!: consumes_advance consumes_bind [OF Suc.IH(5)] loop [OF Suc.IH(4)])
    qed (use 4 in simp)
  next
    case 5
    show ?case
    proof (cases "cur_type p = TokenNot")
      case True
      with 5 show ?thesis by (auto intro!: consumes_advance consumes_bind [OF Suc.IH(5)])
    next
      case False
      with Suc.IH(6) [OF 5] show ?thesis by simp
    qed
  next
    case 6
    show ?case
    proof (cases "cur_type p = TokenLParen")
      case True
      have close: "consumes 1 p2 (bindE (parser_advance p2) (\<lambda>p3. Inr (m, p3)))"
        if "parser_ok p2" "cur_type p2 = TokenRParen" for p2 m
        using that by (intro consumes_advance) auto
      from True 6 show ?thesis
        by (auto intro!: consumes_advance consumes_bind [OF Suc.IH(1)] consumes_mono [OF close])
    next
      case False
      with parseComparison_consumes [OF 6] show ?thesis by simp
    qed
  }
qed simp_all

definition fueled :: "query_error + 'a \<Rightarrow> bool" where
  "fueled r \<longleftrightarrow> r \<noteq> Inl OutOfFuel"

lemma fueled_simps [simp]: "fueled (Inl e) \<longleftrightarrow> e \<noteq> OutOfFuel" "fueled (Inr x)"
  by (simp_all add: fueled_def)

lemma fueled_advance [simp]: "fueled (parser_advance p)"
  by (simp add: fueled_def parser_advance_no_fuel)

lemma bindE_no_fuel:
  assumes "fueled r" and "\<And>x. r = Inr x \<Longrightarrow> fueled (f x)"
  shows "fueled (bindE r f)"
  using assms by (cases r) auto

lemma advance_no_fuel:
  assumes "parser_ok p" and "cur_type p \<noteq> TokenEOF"
    and "\<And>p1. parser_ok p1 \<Longrightarrow> parser_left p1 < parser_left p \<Longrightarrow> fueled (f p1)"
  shows "fueled (bindE (parser_advance p) f)"
  using assms parser_advance_left [OF assms(1)] by (intro bindE_no_fuel) auto

lemma consumed_no_fuel:
  assumes "consumes d p r" and "fueled r"
    and "\<And>n p1. parser_ok p1 \<Longrightarrow> parser_left p1 + d \<le> parser_left p \<Longrightarrow> fueled (f (n, p1))"
  shows "fueled (bindE r f)"
  using assms by (intro bindE_no_fuel) auto

lemma parseComparison_no_fuel: "fueled (parseComparison p)"
  unfolding parseComparison_def Let_def
  by (auto intro!: bindE_no_fuel split: option.split)

lemma parse_fuel_enough:
  "parser_ok p \<Longrightarrow> 6 * parser_left p + 4 \<le> k \<Longrightarrow> fueled (parseOr k p)"
  "parser_ok p \<Longrightarrow> 6 * parser_left p + 1 \<le> k \<Longrightarrow> fueled (parseOr_loop k n p)"
  "parser_ok p \<Longrightarrow> 6 * parser_left p + 3 \<le> k \<Longrightarrow> fueled (parseAnd k p)"
  "parser_ok p \<Longrightarrow> 6 * parser_left p + 1 \<le> k \<Longrightarrow> fueled (parseAnd_loop k n p)"
  "parser_ok p \<Longrightarrow> 6 * parser_left p + 2 \<le> k \<Longrightarrow> fueled (parseNot k p)"
  "parser_ok p \<Longrightarrow> 6 * parser_left p + 1 \<le> k \<Longrightarrow> fueled (parsePrimary k p)"
proof (induction k arbitrary: p n)
  case (Suc k)
  {
    case 1
    then show ?case
      by (auto intro!: consumed_no_fuel [OF parse_consumes(3)] Suc.IH(2,3))
  next
    case 2
    then show ?case
      by (auto intro!: advance_no_fuel consumed_no_fuel [OF parse_consumes(3)] Suc.IH(2,3))
  next
    case 3
    then show ?case
      by (auto intro!: consumed_no_fuel [OF parse_consumes(5)] Suc.IH(4,5))
  next
    case 4
    then show ?case
      by (auto intro!: advance_no_fuel consumed_no_fuel [OF parse_consumes(5)] Suc.IH(4,5))
  next
    case 5
    then show ?case
      by (auto intro!: advance_no_fuel consumed_no_fuel [OF parse_consumes(5)] Suc.IH(5,6))
  next
    case 6
    then show ?case
      by (auto intro!: advance_no_fuel consumed_no_fuel [OF parse_consumes(1)] Suc.IH(1)
          parseComparison_no_fuel)
  }
qed simp_all

text \<open>
  C29: parsing always ends with a syntax tree or one of the parser's own errors: the fuel of the model
  is never exhausted, whatever the input.
\<close>

theorem Parse_total: "Parse input \<noteq> Inl OutOfFuel"
proof -
  let ?p0 = "NewParser input"
  have ok: "parser_ok ?p0" by (simp add: NewParser_def parser_ok_def)
  have len: "lex_left (p_lexer ?p0) = length input" by (simp add: NewParser_def lex_left_rest)
  have run: "fueled (parseOr (parse_fuel input) p)" if "parser_advance ?p0 = Inr p" for p
    using parser_advance_left [OF ok that] len
    by (intro parse_fuel_enough(1)) (auto simp: parse_fuel_def)
  have "fueled (Parse input)"
    unfolding Parse_def Parser_Parse_def using run by (auto intro!: bindE_no_fuel)
  then show ?thesis by (simp add: fueled_def)
qed

section \<open>Printing and parsing\<close>

text \<open>Syntax trees whose texts can be read back: field names in lower case (or metadata keys), plain
  identifiers that are no keyword, numbers and durations as values.\<close>

definition word_text :: "string \<Rightarrow> bool" where
  "word_text v \<longleftrightarrow> ident_text v \<and> ident_type v = TokenIdent"

definition value_text :: "TokenType \<Rightarrow> string \<Rightarrow> bool" where
  "value_text t v \<longleftrightarrow>
     (case t of
        TokenIdent \<Rightarrow> word_text v
      | TokenNumber \<Rightarrow> v \<noteq> [] \<and> list_all is_digit v
      | TokenDuration \<Rightarrow>
          butlast v \<noteq> [] \<and> list_all is_digit (butlast v) \<and> isDurationSuffix (rune_of (last v))
      | _ \<Rightarrow> False)"

definition comparison_text :: "ComparisonNode \<Rightarrow> bool" where
  "comparison_text n \<longleftrightarrow> word_text (c_Field n) \<and> field_name (c_Field n) = c_Field n \<and>
     value_text (c_ValueType n) (c_Value n)"

fun printable :: "Node \<Rightarrow> bool" where
  "printable (Comparison n) = comparison_text n"
| "printable (AndNode l r) = (printable l \<and> printable r)"
| "printable (OrNode l r) = (printable l \<and> printable r)"
| "printable (NotNode n) = printable n"

text \<open>\<open>reads p t v r\<close>: the parser stands on a token of type \<open>t\<close> and text \<open>v\<close>, and \<open>r\<close> is left.\<close>

definition reads :: "Parser \<Rightarrow> TokenType \<Rightarrow> string \<Rightarrow> string \<Rightarrow> bool" where
  "reads p t v r \<longleftrightarrow> parser_ok p \<and> cur_type p = t \<and> cur_value p = v \<and> lex_rest (p_lexer p) = r"

lemma advance_reads:
  assumes "reads p t v s" and "lexes s t' v' r"
  obtains p' where "parser_advance p = Inr p'" "reads p' t' v' r"
proof -
  have "lex_rest (p_lexer p) = s" using assms(1) by (simp add: reads_def)
  from lexesE [OF assms(2) this] obtain q l where
    "NextToken (p_lexer p) = Inr (mk_token t' v' q, l)" "lex_rest l = r" .
  with assms(1) that show ?thesis
    by (simp add: parser_advance_def reads_def parser_ok_def)
qed

lemma value_lexes:
  assumes "value_text t v" and "ends_value r"
  shows "lexes (v @ r) t v r"
proof -
  consider "t = TokenIdent" "word_text v" | "t = TokenNumber" "v \<noteq> []" "list_all is_digit v"
    | "t = TokenDuration" "butlast v \<noteq> []" "list_all is_digit (butlast v)" "isDurationSuffix (rune_of (last v))"
    using assms(1) by (auto simp: value_text_def split: TokenType.splits)
  then show ?thesis
  proof cases
    case 1
    with lexes_ident [of v r] ends_value_not_ident(1) [OF assms(2)] show ?thesis
      by (auto simp: word_text_def)
  next
    case 2
    with lexes_number [OF 2(2,3) assms(2)] show ?thesis by simp
  next
    case 3
    have "v = butlast v @ [last v]" using 3(2) by (metis append_butlast_last_id butlast.simps(1))
    with lexes_duration [OF 3(2,3,4) assms(2)] 3(1) show ?thesis
      by (metis append.assoc append_Cons append_Nil)
  qed
qed

lemma lexes_unique:
  assumes "lexes s t v r" and "lexes s t' v' r'"
  shows "t' = t \<and> v' = v \<and> r' = r"
proof -
  obtain p l where "NextToken (NewLexer s) = Inr (mk_token t v p, l)" "lex_rest l = r"
    using lexesE [OF assms(1), of "NewLexer s"] by auto
  moreover obtain p' l' where "NextToken (NewLexer s) = Inr (mk_token t' v' p', l')" "lex_rest l' = r'"
    using lexesE [OF assms(2), of "NewLexer s"] by auto
  ultimately show ?thesis by auto
qed

text \<open>\<open>stands p s\<close>: the parser has just read the first token of \<open>s\<close>.\<close>

definition stands :: "Parser \<Rightarrow> string \<Rightarrow> bool" where
  "stands p s \<longleftrightarrow> (\<exists>t v r. lexes s t v r \<and> reads p t v r)"

lemma stands_reads: "stands p s \<Longrightarrow> lexes s t v r \<Longrightarrow> reads p t v r"
  unfolding stands_def using lexes_unique by blast

lemma advance_stands:
  assumes "reads p t v s" and "lexes s t' v' r"
  obtains p' where "parser_advance p = Inr p'" "stands p' s" "reads p' t' v' r"
  using advance_reads [OF assms] assms(2) unfolding stands_def by metis

fun token_of_op :: "ComparisonOp \<Rightarrow> TokenType" where
  "token_of_op OpEquals = TokenEquals"
| "token_of_op OpNotEquals = TokenNotEquals"
| "token_of_op OpLess = TokenLess"
| "token_of_op OpLessEq = TokenLessEq"
| "token_of_op OpGreater = TokenGreater"
| "token_of_op OpGreaterEq = TokenGreaterEq"

lemma op_of_token_of_op [simp]: "op_of_token (token_of_op op) = Some op"
  by (cases op) simp_all

lemma lexes_op:
  "s \<noteq> [] \<Longrightarrow> hd s \<noteq> CHR ''='' \<Longrightarrow>
     lexes (ComparisonOp_String op @ s) (token_of_op op) (ComparisonOp_String op) s"
  using lexes_ops by (cases op) auto

lemma value_text_hd: "value_text t v \<Longrightarrow> v \<noteq> [] \<and> hd v \<noteq> CHR ''=''"
proof -
  assume a: "value_text t v"
  have "hd v \<noteq> CHR ''=''" if "ident_text v"
    using that by (auto simp: ident_text_def rune_defs)
  moreover have "hd v \<noteq> CHR ''=''" if "v \<noteq> []" "list_all is_digit v"
    using that by (cases v) (auto simp: is_digit_def)
  moreover have "v \<noteq> [] \<and> hd v \<noteq> CHR ''=''" if "butlast v \<noteq> []" "list_all is_digit (butlast v)"
    using that by (cases v) (auto simp: is_digit_def split: if_splits)
  ultimately show ?thesis
    using a by (auto simp: value_text_def word_text_def ident_text_def split: TokenType.splits)
qed

lemma comparison_field_lexes:
  assumes "comparison_text n"
  shows "lexes (Comparison_String n @ r) TokenIdent (c_Field n) (ComparisonOp_String (c_Op n) @ c_Value n @ r)"
proof -
  let ?s = "ComparisonOp_String (c_Op n) @ c_Value n @ r"
  have "?s \<noteq> [] \<and> \<not> isIdentChar (rune_of (hd ?s))"
    by (cases "c_Op n") (simp_all add: rune_defs)
  with lexes_ident [of "c_Field n" ?s] assms show ?thesis
    by (simp add: comparison_text_def word_text_def Comparison_String_def)
qed

lemma parseComparison_print:
  assumes "comparison_text n" and "ends_value r" and "stands p (Comparison_String n @ r)" and "lexes r t v r'"
  obtains p' where "parseComparison p = Inr (Comparison n, p')" "reads p' t v r'"
proof -
  have val: "value_text (c_ValueType n) (c_Value n)" and f: "field_name (c_Field n) = c_Field n"
    using assms(1) by (auto simp: comparison_text_def)
  note p = stands_reads [OF assms(3) comparison_field_lexes [OF assms(1)]]
  have "lexes (ComparisonOp_String (c_Op n) @ c_Value n @ r) (token_of_op (c_Op n))
      (ComparisonOp_String (c_Op n)) (c_Value n @ r)"
    using value_text_hd [OF val] by (intro lexes_op) auto
  from advance_reads [OF p this] obtain p1 where p1: "parser_advance p = Inr p1"
    "reads p1 (token_of_op (c_Op n)) (ComparisonOp_String (c_Op n)) (c_Value n @ r)" .
  from advance_reads [OF p1(2) value_lexes [OF val assms(2)]] obtain p2 where
    p2: "parser_advance p1 = Inr p2" "reads p2 (c_ValueType n) (c_Value n) r" .
  from advance_reads [OF p2(2) assms(4)] obtain p3 where
    p3: "parser_advance p2 = Inr p3" "reads p3 t v r'" .
  have "value_token (c_ValueType n)"
    using val by (auto simp: value_text_def value_token_def split: TokenType.splits)
  then have "parseComparison p = Inr (Comparison n, p3)"
    using p p1 p2 p3(1) f by (simp add: parseComparison_def reads_def)
  with p3(2) that show ?thesis by blast
qed

lemma keyword_lexes:
  "lexes (CHR '' '' # ''AND '' @ r) TokenAnd ''AND'' (CHR '' '' # r)"
  "lexes (CHR '' '' # ''OR '' @ r) TokenOr ''OR'' (CHR '' '' # r)"
  "lexes (''NOT '' @ r) TokenNot ''NOT'' (CHR '' '' # r)"
proof -
  have sp: "\<not> isIdentChar (rune_of (CHR '' ''))" by (simp add: rune_defs)
  have "ident_text ''AND''" "ident_text ''OR''" "ident_text ''NOT''" by code_simp+
  moreover have "ident_type ''AND'' = TokenAnd" "ident_type ''OR'' = TokenOr"
    "ident_type ''NOT'' = TokenNot" by code_simp+
  ultimately show "lexes (CHR '' '' # ''AND '' @ r) TokenAnd ''AND'' (CHR '' '' # r)"
    "lexes (CHR '' '' # ''OR '' @ r) TokenOr ''OR'' (CHR '' '' # r)"
    "lexes (''NOT '' @ r) TokenNot ''NOT'' (CHR '' '' # r)"
    using sp lexes_ident [of "''AND''" "CHR '' '' # r"] lexes_ident [of "''OR''" "CHR '' '' # r"]
      lexes_ident [of "''NOT''" "CHR '' '' # r"] by (auto intro!: lexes_space)
qed

lemma first_token:
  assumes "printable n"
  shows "\<exists>t v s. lexes (Node_String n @ r) t v s \<and> t \<noteq> TokenEOF"
proof (cases n)
  case (Comparison c)
  with assms have "lexes (Node_String n @ r) TokenIdent (c_Field c)
      (ComparisonOp_String (c_Op c) @ c_Value c @ r)" using comparison_field_lexes by simp
  then show ?thesis by blast
next
  case (AndNode a b)
  have "lexes (CHR ''('' # Node_String a @ '' AND '' @ Node_String b @ '')'' @ r) TokenLParen ''(''
      (Node_String a @ '' AND '' @ Node_String b @ '')'' @ r)" by (rule lexes_lparen)
  then show ?thesis unfolding AndNode by auto
next
  case (OrNode a b)
  have "lexes (CHR ''('' # Node_String a @ '' OR '' @ Node_String b @ '')'' @ r) TokenLParen ''(''
      (Node_String a @ '' OR '' @ Node_String b @ '')'' @ r)" by (rule lexes_lparen)
  then show ?thesis unfolding OrNode by auto
next
  case (NotNode m)
  have "lexes (''NOT '' @ (Node_String m @ r)) TokenNot ''NOT'' (CHR '' '' # (Node_String m @ r))"
    by (rule keyword_lexes(3))
  then show ?thesis unfolding NotNode by auto
qed

lemma advance_to_node:
  assumes "reads p t v (CHR '' '' # Node_String n @ r)" and "printable n"
  obtains p' where "parser_advance p = Inr p'" "stands p' (Node_String n @ r)"
proof -
  obtain t' v' s where l: "lexes (Node_String n @ r) t' v' s" using first_token [OF assms(2)] by blast
  from advance_reads [OF assms(1) lexes_space [OF l]] obtain p' where
    "parser_advance p = Inr p'" "reads p' t' v' s" .
  with l that show ?thesis by (auto simp: stands_def)
qed

text \<open>A parenthesised pair: what \<open>parseOr\<close> does between the parentheses, given the two operands.\<close>

lemma parsePrimary_paren:
  assumes "stands p (CHR ''('' # s)" and "lexes s t0 v0 s0"
    and body: "\<And>p1. stands p1 s \<Longrightarrow> \<exists>p2. parseOr k p1 = Inr (n, p2) \<and> reads p2 TokenRParen '')'' r"
    and "lexes r t v r'"
  shows "\<exists>p'. parsePrimary (Suc k) p = Inr (n, p') \<and> reads p' t v r'"
proof -
  have p: "reads p TokenLParen ''('' s" using assms(1) lexes_lparen by (rule stands_reads)
  from advance_stands [OF p assms(2)] obtain p1 where p1: "parser_advance p = Inr p1" "stands p1 s" .
  from body [OF p1(2)] obtain p2 where p2: "parseOr k p1 = Inr (n, p2)" "reads p2 TokenRParen '')'' r" by blast
  from advance_reads [OF p2(2) assms(4)] obtain p3 where p3: "parser_advance p2 = Inr p3" "reads p3 t v r'" .
  from p p1 p2 p3 show ?thesis by (simp add: reads_def)
qed

lemma parseNot_print:
  assumes "printable n" and "ends_value r" and "stands p (Node_String n @ r)" and "lexes r t v r'"
    and "6 * length (Node_String n) \<le> k"
  shows "\<exists>p'. parseNot k p = Inr (n, p') \<and> reads p' t v r'"
  using assms
proof (induction n arbitrary: p r t v r' k)
  case (Comparison c)
  have "Comparison_String c \<noteq> []" by (cases "c_Op c") (simp_all add: Comparison_String_def)
  then have "1 \<le> length (Comparison_String c)" by (simp add: Suc_le_eq)
  with Comparison.prems(5) have "2 \<le> k" by simp
  then obtain j where k: "k = Suc (Suc j)" by (metis add_2_eq_Suc le_Suc_ex)
  have "comparison_text c" "stands p (Comparison_String c @ r)" using Comparison.prems by auto
  with Comparison.prems obtain p' where "parseComparison p = Inr (Comparison c, p')" "reads p' t v r'"
    by (auto elim: parseComparison_print)
  moreover have "cur_type p = TokenIdent"
    using stands_reads [OF \<open>stands p (Comparison_String c @ r)\<close> comparison_field_lexes [OF \<open>comparison_text c\<close>]]
    by (simp add: reads_def)
  ultimately show ?case by (simp add: k)
next
  case (NotNode n)
  then obtain j where k: "k = Suc j" "6 * length (Node_String n) \<le> j" by (cases k) auto
  have "stands p (''NOT '' @ (Node_String n @ r))" using NotNode.prems(3) by simp
  then have p: "reads p TokenNot ''NOT'' (CHR '' '' # Node_String n @ r)"
    using keyword_lexes(3) by (rule stands_reads)
  from NotNode.prems(1) have n: "printable n" by simp
  from advance_to_node [OF p n] obtain p1 where p1: "parser_advance p = Inr p1" "stands p1 (Node_String n @ r)" .
  from NotNode.IH [OF n NotNode.prems(2) p1(2) NotNode.prems(4) k(2)] p p1 show ?case
    by (auto simp: k(1) reads_def)
next
  case (AndNode a b)
  let ?rb = "CHR '')'' # r" and ?ra = "CHR '' '' # ''AND '' @ Node_String b @ CHR '')'' # r"
  have pr: "printable a" "printable b" using AndNode.prems(1) by auto
  obtain j where k: "k = Suc (Suc (Suc (Suc (Suc (Suc j)))))"
    and j: "6 * length (Node_String a) \<le> j" "6 * length (Node_String b) \<le> j"
    using AndNode.prems(5) by (intro that [of "k - 6"]) auto
  have ends: "ends_value ?ra" "ends_value ?rb" by (simp_all add: ends_value_def)
  have st: "stands p (CHR ''('' # (Node_String a @ ?ra))" using AndNode.prems(3) by simp
  obtain t0 v0 s0 where first: "lexes (Node_String a @ ?ra) t0 v0 s0" using first_token [OF pr(1)] by blast
  have "\<exists>p2. parseOr (Suc (Suc (Suc (Suc j)))) p1 = Inr (AndNode a b, p2) \<and> reads p2 TokenRParen '')'' r"
    if s1: "stands p1 (Node_String a @ ?ra)" for p1
  proof -
    from AndNode.IH(1) [OF pr(1) ends(1) s1 keyword_lexes(1), of "Suc (Suc j)"] j obtain q1 where
      q1: "parseNot (Suc (Suc j)) p1 = Inr (a, q1)" "reads q1 TokenAnd ''AND'' (CHR '' '' # Node_String b @ ?rb)"
      by auto
    from advance_to_node [OF q1(2) pr(2)] obtain q2 where
      q2: "parser_advance q1 = Inr q2" "stands q2 (Node_String b @ ?rb)" .
    from AndNode.IH(2) [OF pr(2) ends(2) q2(2) lexes_rparen, of "Suc j"] j obtain q3 where
      q3: "parseNot (Suc j) q2 = Inr (b, q3)" "reads q3 TokenRParen '')'' r" by auto
    from q1 q2 q3 show ?thesis by (simp add: reads_def)
  qed
  from parsePrimary_paren [OF st first this AndNode.prems(4)] obtain p' where
    "parsePrimary (Suc (Suc (Suc (Suc (Suc j))))) p = Inr (AndNode a b, p')" "reads p' t v r'" by blast
  moreover have "cur_type p = TokenLParen"
    using stands_reads [OF st lexes_lparen] by (simp add: reads_def)
  ultimately show ?case by (simp add: k del: parsePrimary.simps)
next
  case (OrNode a b)
  let ?rb = "CHR '')'' # r" and ?ra = "CHR '' '' # ''OR '' @ Node_String b @ CHR '')'' # r"
  have pr: "printable a" "printable b" using OrNode.prems(1) by auto
  obtain j where k: "k = Suc (Suc (Suc (Suc (Suc (Suc j)))))"
    and j: "6 * length (Node_String a) \<le> j" "6 * length (Node_String b) \<le> j"
    using OrNode.prems(5) by (intro that [of "k - 6"]) auto
  have ends: "ends_value ?ra" "ends_value ?rb" by (simp_all add: ends_value_def)
  have st: "stands p (CHR ''('' # (Node_String a @ ?ra))" using OrNode.prems(3) by simp
  obtain t0 v0 s0 where first: "lexes (Node_String a @ ?ra) t0 v0 s0" using first_token [OF pr(1)] by blast
  have "\<exists>p2. parseOr (Suc (Suc (Suc (Suc j)))) p1 = Inr (OrNode a b, p2) \<and> reads p2 TokenRParen '')'' r"
    if s1: "stands p1 (Node_String a @ ?ra)" for p1
  proof -
    from OrNode.IH(1) [OF pr(1) ends(1) s1 keyword_lexes(2), of "Suc (Suc j)"] j obtain q1 where
      q1: "parseNot (Suc (Suc j)) p1 = Inr (a, q1)" "reads q1 TokenOr ''OR'' (CHR '' '' # Node_String b @ ?rb)"
      by auto
    from advance_to_node [OF q1(2) pr(2)] obtain q2 where
      q2: "parser_advance q1 = Inr q2" "stands q2 (Node_String b @ ?rb)" .
    from OrNode.IH(2) [OF pr(2) ends(2) q2(2) lexes_rparen, of "Suc j"] j obtain q3 where
      q3: "parseNot (Suc j) q2 = Inr (b, q3)" "reads q3 TokenRParen '')'' r" by auto
    from q1 q2 q3 show ?thesis by (simp add: reads_def)
  qed
  from parsePrimary_paren [OF st first this OrNode.prems(4)] obtain p' where
    "parsePrimary (Suc (Suc (Suc (Suc (Suc j))))) p = Inr (OrNode a b, p')" "reads p' t v r'" by blast
  moreover have "cur_type p = TokenLParen"
    using stands_reads [OF st lexes_lparen] by (simp add: reads_def)
  ultimately show ?case by (simp add: k del: parsePrimary.simps)
qed


lemma NewParser_reads: "reads (NewParser s) TokenEOF [] s"
  by (simp add: reads_def NewParser_def parser_ok_def)

text \<open>The whole parser on a text whose first token is known.\<close>

lemma Parse_text:
  assumes "lexes s t v r" and "t \<noteq> TokenEOF"
    and "\<And>p. stands p s \<Longrightarrow> \<exists>p'. parseOr (parse_fuel s) p = Inr (n, p') \<and> reads p' TokenEOF [] []"
  shows "Parse s = Inr n"
proof -
  from advance_stands [OF NewParser_reads assms(1)] obtain p where
    p: "parser_advance (NewParser s) = Inr p" "stands p s" "reads p t v r" .
  moreover obtain p' where "parseOr (parse_fuel s) p = Inr (n, p')" "reads p' TokenEOF [] []"
    using assms(3) [OF p(2)] by blast
  ultimately show ?thesis using assms(2) by (simp add: Parse_def Parser_Parse_def reads_def)
qed

lemma ends_value_Nil: "ends_value []" by (simp add: ends_value_def)

text \<open>
  C28: printing a query and parsing the text gives the query back, for every tree over field names,
  identifiers, numbers and durations, however deeply the connectives are nested.
\<close>

theorem Parse_print:
  assumes "printable n"
  shows "Parse (Node_String n) = Inr n"
proof -
  obtain t v s where first: "lexes (Node_String n @ []) t v s" "t \<noteq> TokenEOF"
    using first_token [OF assms] by blast
  have "\<exists>p'. parseOr (parse_fuel (Node_String n)) p = Inr (n, p') \<and> reads p' TokenEOF [] []"
    if "stands p (Node_String n)" for p
  proof -
    obtain j where k: "parse_fuel (Node_String n) = Suc (Suc (Suc j))" "6 * length (Node_String n) \<le> j"
      by (intro that [of "6 * length (Node_String n) + 9"]) (auto simp: parse_fuel_def)
    have "stands p (Node_String n @ [])" using that by simp
    from parseNot_print [OF assms ends_value_Nil this lexes_eof, of "Suc j"] k(2) obtain p' where
      "parseNot (Suc j) p = Inr (n, p')" "reads p' TokenEOF [] []" by auto
    then show ?thesis by (simp add: k(1) reads_def)
  qed
  with first show ?thesis by (intro Parse_text [of _ t v s]) simp_all
qed

definition sample_query :: Node where
  "sample_query =
     AndNode (NotNode (Comparison \<lparr>c_Field = ''status'', c_Op = OpEquals, c_Value = ''closed'',
                c_ValueType = TokenIdent\<rparr>))
       (OrNode (Comparison \<lparr>c_Field = ''priority'', c_Op = OpLess, c_Value = ''2'', c_ValueType = TokenNumber\<rparr>)
          (Comparison \<lparr>c_Field = ''updated'', c_Op = OpGreater, c_Value = ''7d'', c_ValueType = TokenDuration\<rparr>))"

theorem Parse_print_witness:
  "Parse ''(NOT status=closed AND (priority<2 OR updated>7d))'' = Inr sample_query"
proof -
  have "printable sample_query" by code_simp
  moreover have "Node_String sample_query = ''(NOT status=closed AND (priority<2 OR updated>7d))''"
    by code_simp
  ultimately show ?thesis using Parse_print [of sample_query] by simp
qed

section \<open>Precedence and associativity\<close>

text \<open>A query without parentheses: alternatives joined by OR, each a chain of operands joined by AND.\<close>

definition and_rest :: "Node list \<Rightarrow> string" where
  "and_rest cs = concat (map (\<lambda>c. '' AND '' @ Node_String c) cs)"

fun and_text :: "Node list \<Rightarrow> string" where
  "and_text [] = []"
| "and_text (c # cs) = Node_String c @ and_rest cs"

definition or_rest :: "Node list list \<Rightarrow> string" where
  "or_rest gs = concat (map (\<lambda>g. '' OR '' @ and_text g) gs)"

fun or_text :: "Node list list \<Rightarrow> string" where
  "or_text [] = []"
| "or_text (g # gs) = and_text g @ or_rest gs"

fun and_tree :: "Node list \<Rightarrow> Node" where
  "and_tree (c # cs) = foldl AndNode c cs"

fun or_tree :: "Node list list \<Rightarrow> Node" where
  "or_tree (g # gs) = foldl OrNode (and_tree g) (map and_tree gs)"

lemma ends_value_rest:
  "ends_value r \<Longrightarrow> ends_value (and_rest cs @ r)" "ends_value r \<Longrightarrow> ends_value (or_rest gs @ r)"
  by (cases cs; simp add: and_rest_def ends_value_def) (cases gs; simp add: or_rest_def ends_value_def)

lemma rest_lexes:
  assumes "lexes r t v r'"
  shows "\<exists>t v r'. lexes (and_rest cs @ r) t v r'" and "\<exists>t v r'. lexes (or_rest gs @ r) t v r'"
proof -
  show "\<exists>t v r'. lexes (and_rest cs @ r) t v r'"
  proof (cases cs)
    case (Cons c cs')
    with keyword_lexes(1) [of "Node_String c @ and_rest cs' @ r"] show ?thesis
      by (auto simp: and_rest_def)
  qed (use assms in \<open>auto simp: and_rest_def\<close>)
  show "\<exists>t v r'. lexes (or_rest gs @ r) t v r'"
  proof (cases gs)
    case (Cons g gs')
    with keyword_lexes(2) [of "and_text g @ or_rest gs' @ r"] show ?thesis
      by (auto simp: or_rest_def)
  qed (use assms in \<open>auto simp: or_rest_def\<close>)
qed

lemma parseAnd_loop_chain:
  assumes "list_all printable cs" and "ends_value r" and "stands p (and_rest cs @ r)"
    and "lexes r t v r'" and "t \<noteq> TokenAnd" and "6 * length (and_rest cs) + 1 \<le> k"
  shows "\<exists>p'. parseAnd_loop k left p = Inr (foldl AndNode left cs, p') \<and> reads p' t v r'"
  using assms
proof (induction cs arbitrary: k p left)
  case Nil
  then obtain j where k: "k = Suc j" by (cases k) auto
  have "reads p t v r'" using Nil by (auto simp: and_rest_def intro: stands_reads)
  with Nil k show ?case by (simp add: reads_def)
next
  case (Cons c cs)
  let ?s = "and_rest cs @ r"
  have split: "and_rest (c # cs) @ r = CHR '' '' # ''AND '' @ (Node_String c @ ?s)"
    by (simp add: and_rest_def)
  have "stands p (CHR '' '' # ''AND '' @ (Node_String c @ ?s))" using Cons.prems(3) split by simp
  then have p: "reads p TokenAnd ''AND'' (CHR '' '' # Node_String c @ ?s)"
    using keyword_lexes(1) by (rule stands_reads)
  have len: "length (and_rest (c # cs)) = 5 + length (Node_String c) + length (and_rest cs)"
    by (simp add: and_rest_def)
  obtain j where k: "k = Suc j" "6 * length (Node_String c) \<le> j" "6 * length (and_rest cs) + 1 \<le> j"
    using Cons.prems(6) len by (cases k) auto
  have c: "printable c" and cs: "list_all printable cs" using Cons.prems(1) by auto
  from advance_to_node [OF p c] obtain p1 where p1: "parser_advance p = Inr p1" "stands p1 (Node_String c @ ?s)" .
  from rest_lexes(1) [OF Cons.prems(4)] obtain t1 v1 r1 where l1: "lexes ?s t1 v1 r1" by blast
  from parseNot_print [OF c ends_value_rest(1) [OF Cons.prems(2)] p1(2) l1 k(2)] obtain p2 where
    p2: "parseNot j p1 = Inr (c, p2)" "reads p2 t1 v1 r1" by blast
  have "stands p2 ?s" using l1 p2(2) by (auto simp: stands_def)
  from Cons.IH [OF cs Cons.prems(2) this Cons.prems(4,5) k(3)] p p1(1) p2(1) show ?case
    by (simp add: k(1) reads_def)
qed

lemma parseAnd_chain:
  assumes "g \<noteq> []" and "list_all printable g" and "ends_value r" and "stands p (and_text g @ r)"
    and "lexes r t v r'" and "t \<noteq> TokenAnd" and "6 * length (and_text g) + 2 \<le> k"
  shows "\<exists>p'. parseAnd k p = Inr (and_tree g, p') \<and> reads p' t v r'"
proof -
  obtain c cs where g: "g = c # cs" using assms(1) by (cases g) auto
  let ?s = "and_rest cs @ r"
  obtain j where k: "k = Suc j" "6 * length (Node_String c) \<le> j" "6 * length (and_rest cs) + 1 \<le> j"
    using assms(7) by (cases k) (auto simp: g)
  have c: "printable c" and cs: "list_all printable cs" and p: "stands p (Node_String c @ ?s)"
    using assms(2,4) by (auto simp: g)
  from rest_lexes(1) [OF assms(5)] obtain t1 v1 r1 where l1: "lexes ?s t1 v1 r1" by blast
  from parseNot_print [OF c ends_value_rest(1) [OF assms(3)] p l1 k(2)] obtain p2 where
    p2: "parseNot j p = Inr (c, p2)" "reads p2 t1 v1 r1" by blast
  have "stands p2 ?s" using l1 p2(2) by (auto simp: stands_def)
  from parseAnd_loop_chain [OF cs assms(3) this assms(5,6) k(3)] p2(1) show ?thesis
    by (simp add: k(1) g)
qed

lemma or_rest_lexes: "\<exists>t v r. lexes (or_rest gs) t v r \<and> t \<noteq> TokenAnd"
proof (cases gs)
  case Nil
  then show ?thesis using lexes_eof by (auto simp: or_rest_def)
next
  case (Cons g gs')
  with keyword_lexes(2) [of "and_text g @ or_rest gs'"] show ?thesis by (auto simp: or_rest_def)
qed

lemma and_text_first:
  assumes "g \<noteq> []" and "list_all printable g"
  shows "\<exists>t v s. lexes (and_text g @ r) t v s \<and> t \<noteq> TokenEOF"
  using assms first_token [of "hd g" "and_rest (tl g) @ r"] by (cases g) auto

definition chain_ok :: "Node list \<Rightarrow> bool" where
  "chain_ok g \<longleftrightarrow> g \<noteq> [] \<and> list_all printable g"

lemma parseOr_loop_chain:
  assumes "list_all chain_ok gs" and "stands p (or_rest gs)" and "6 * length (or_rest gs) + 1 \<le> k"
  shows "\<exists>p'. parseOr_loop k left p = Inr (foldl OrNode left (map and_tree gs), p') \<and>
    reads p' TokenEOF [] []"
  using assms
proof (induction gs arbitrary: k p left)
  case Nil
  then obtain j where k: "k = Suc j" by (cases k) auto
  have "reads p TokenEOF [] []" using Nil stands_reads [OF _ lexes_eof] by (simp add: or_rest_def)
  with k show ?case by (simp add: reads_def)
next
  case (Cons g gs)
  let ?s = "or_rest gs"
  have split: "or_rest (g # gs) = CHR '' '' # ''OR '' @ (and_text g @ ?s)" by (simp add: or_rest_def)
  have "stands p (CHR '' '' # ''OR '' @ (and_text g @ ?s))" using Cons.prems(2) split by simp
  then have p: "reads p TokenOr ''OR'' (CHR '' '' # and_text g @ ?s)"
    using keyword_lexes(2) by (rule stands_reads)
  have len: "length (or_rest (g # gs)) = 4 + length (and_text g) + length ?s" by (simp add: or_rest_def)
  obtain j where k: "k = Suc j" "6 * length (and_text g) + 2 \<le> j" "6 * length ?s + 1 \<le> j"
    using Cons.prems(3) len by (cases k) auto
  have g: "g \<noteq> []" "list_all printable g" and gs: "list_all chain_ok gs"
    using Cons.prems(1) by (simp_all add: chain_ok_def [of g])
  from and_text_first [OF g] obtain t0 v0 s0 where l0: "lexes (and_text g @ ?s) t0 v0 s0" by blast
  from advance_reads [OF p lexes_space [OF l0]] obtain p1 where
    p1: "parser_advance p = Inr p1" "reads p1 t0 v0 s0" .
  have s1: "stands p1 (and_text g @ ?s)" using l0 p1(2) by (auto simp: stands_def)
  from or_rest_lexes obtain t1 v1 r1 where l1: "lexes ?s t1 v1 r1" "t1 \<noteq> TokenAnd" by blast
  have "ends_value ?s" using ends_value_rest(2) [OF ends_value_Nil] by simp
  from parseAnd_chain [OF g this s1 l1 k(2)] obtain p2 where
    p2: "parseAnd j p1 = Inr (and_tree g, p2)" "reads p2 t1 v1 r1" by blast
  have "stands p2 ?s" using l1 p2(2) by (auto simp: stands_def)
  from Cons.IH [OF gs this k(3)] p p1(1) p2(1) show ?case by (simp add: k(1) reads_def)
qed

text \<open>
  Without parentheses NOT binds tighter than AND and AND tighter than OR, and both connectives
  associate to the left: a text of alternatives of conjunctions parses to the left-nested OR of the
  left-nested ANDs of its operands, for any number of each.
\<close>

theorem Parse_precedence:
  assumes "gs \<noteq> []" and "list_all chain_ok gs"
  shows "Parse (or_text gs) = Inr (or_tree gs)"
proof -
  obtain g gs' where gs: "gs = g # gs'" using assms(1) by (cases gs) auto
  have g: "g \<noteq> []" "list_all printable g" and ok: "list_all chain_ok gs'"
    using assms(2) by (simp_all add: gs chain_ok_def [of g])
  from and_text_first [OF g] obtain t0 v0 s0 where
    first: "lexes (and_text g @ or_rest gs') t0 v0 s0" "t0 \<noteq> TokenEOF" by blast
  from or_rest_lexes obtain t1 v1 r1 where l1: "lexes (or_rest gs') t1 v1 r1" "t1 \<noteq> TokenAnd" by blast
  have "\<exists>p'. parseOr (parse_fuel (or_text gs)) p = Inr (or_tree gs, p') \<and> reads p' TokenEOF [] []"
    if s: "stands p (or_text gs)" for p
  proof -
    obtain j where k: "parse_fuel (or_text gs) = Suc j" "6 * length (and_text g) + 2 \<le> j"
      "6 * length (or_rest gs') + 1 \<le> j"
      by (intro that [of "6 * length (or_text gs) + 11"]) (auto simp: parse_fuel_def gs)
    have "stands p (and_text g @ or_rest gs')" using s by (simp add: gs)
    moreover have "ends_value (or_rest gs')" using ends_value_rest(2) [OF ends_value_Nil] by simp
    ultimately obtain p1 where p1: "parseAnd j p = Inr (and_tree g, p1)" "reads p1 t1 v1 r1"
      using parseAnd_chain [OF g _ _ l1 k(2)] by blast
    have "stands p1 (or_rest gs')" using l1 p1(2) by (auto simp: stands_def)
    from parseOr_loop_chain [OF ok this k(3)] p1(1) show ?thesis unfolding k(1) by (simp add: gs)
  qed
  with first show ?thesis by (intro Parse_text [of _ t0 v0 s0]) (simp_all add: gs)
qed

theorem Parse_precedence_witness:
  "Parse ''a=1 OR NOT b=2 AND c=3 AND d=4'' =
     (let cmp = \<lambda>f v. Comparison \<lparr>c_Field = f, c_Op = OpEquals, c_Value = v, c_ValueType = TokenNumber\<rparr>
      in Inr (OrNode (cmp ''a'' ''1'')
           (AndNode (AndNode (NotNode (cmp ''b'' ''2'')) (cmp ''c'' ''3'')) (cmp ''d'' ''4''))))"
proof -
  let ?cmp = "\<lambda>f v. Comparison \<lparr>c_Field = f, c_Op = OpEquals, c_Value = v, c_ValueType = TokenNumber\<rparr>"
  let ?gs = "[[?cmp ''a'' ''1''], [NotNode (?cmp ''b'' ''2''), ?cmp ''c'' ''3'', ?cmp ''d'' ''4'']]"
  have "list_all chain_ok ?gs" by code_simp
  moreover have "or_text ?gs = ''a=1 OR NOT b=2 AND c=3 AND d=4''" by code_simp
  ultimately show ?thesis using Parse_precedence [of ?gs] by simp
qed

end
