(* ===== verification/Time_Format.thy ===== *)
theory Time_Format
  imports GoTime
begin

text \<open>
  \<open>time.Time.Format\<close> and \<open>time.Parse\<close> for the layouts the sources use: RFC 3339 with and without
  fractions of a second, the date and time of a SQL column, and their forms without a zone. The
  parser is the one of the package \<open>time\<close>, with what it tolerates: one digit for the hour, a fraction
  after the seconds in every layout, a comma as its separator, and any number of spaces for a space.
  The theorem at the end is the round trip of the RFC 3339 layout.
\<close>

section \<open>Formatting\<close>

text \<open>\<open>appendInt\<close> with a width, for a number that is not negative.\<close>

definition zero_pad :: "nat \<Rightarrow> string \<Rightarrow> string" where
  "zero_pad w s = replicate (w - length s) (CHR ''0'') @ s"

definition pad_nat :: "nat \<Rightarrow> nat \<Rightarrow> string" where
  "pad_nat w n = zero_pad w (nat_to_dec n)"

definition format_year :: "int \<Rightarrow> string" where
  "format_year y = (if y < 0 then ''-'' else []) @ pad_nat 4 (nat \<bar>y\<bar>)"

text \<open>\<open>.999999999\<close>: the fraction without its trailing zeros, nothing for a whole second.\<close>

definition format_frac :: "nat \<Rightarrow> string" where
  "format_frac ns =
     (if ns = 0 then []
      else ''.'' @ rev (dropWhile (\<lambda>c. c = CHR ''0'') (rev (pad_nat 9 ns))))"

text \<open>\<open>Z07:00\<close>: seconds of the offset are dropped.\<close>

definition format_zone :: "int \<Rightarrow> string" where
  "format_zone off =
     (if off = 0 then ''Z''
      else let mins = nat (\<bar>off\<bar> div 60)
           in (if off < 0 then ''-'' else ''+'') @ pad_nat 2 (mins div 60) @ '':'' @ pad_nat 2 (mins mod 60))"

definition tod_sec :: "gotime \<Rightarrow> nat" where
  "tod_sec t = nat (time_of_day t div ns_per_sec)"

definition tod_frac :: "gotime \<Rightarrow> nat" where
  "tod_frac t = nat (time_of_day t mod ns_per_sec)"

definition format_clock :: "nat \<Rightarrow> string" where
  "format_clock s = pad_nat 2 (s div 3600) @ '':'' @ pad_nat 2 (s div 60 mod 60) @ '':'' @ pad_nat 2 (s mod 60)"

definition format_date :: "int \<times> int \<times> int \<Rightarrow> string" where
  "format_date ymd = (case ymd of (y, m, d) \<Rightarrow> format_year y @ ''-'' @ pad_nat 2 (nat m) @ ''-'' @ pad_nat 2 (nat d))"

definition format_RFC3339Nano :: "gotime \<Rightarrow> string" where
  "format_RFC3339Nano t =
     format_date (civil t) @ ''T'' @ format_clock (tod_sec t) @ format_frac (tod_frac t) @ format_zone (t_off t)"

definition format_RFC3339 :: "gotime \<Rightarrow> string" where
  "format_RFC3339 t = format_date (civil t) @ ''T'' @ format_clock (tod_sec t) @ format_zone (t_off t)"

section \<open>Parsing\<close>

text \<open>\<open>getnum\<close>: two digits, or one where the layout does not fix the width.\<close>

definition getnum :: "bool \<Rightarrow> string \<Rightarrow> (nat \<times> string) option" where
  "getnum fixed s =
     (case s of
        [] \<Rightarrow> None
      | a # r \<Rightarrow>
          if \<not> is_digit a then None
          else case r of
            b # r' \<Rightarrow> if is_digit b then Some (dec_val [a, b], r') else if fixed then None else Some (dec_val [a], r)
          | [] \<Rightarrow> if fixed then None else Some (dec_val [a], r))"

definition get_year :: "string \<Rightarrow> (nat \<times> string) option" where
  "get_year s = (if length s \<ge> 4 \<and> list_all is_digit (take 4 s) then Some (dec_val (take 4 s), drop 4 s) else None)"

text \<open>A literal byte of the layout; a space stands for any number of spaces, none at the end.\<close>

definition literal :: "char \<Rightarrow> string \<Rightarrow> string option" where
  "literal c s =
     (if c = CHR '' ''
      then (if s \<noteq> [] \<and> hd s \<noteq> c then None else Some (dropWhile (\<lambda>x. x = c) s))
      else case s of [] \<Rightarrow> None | x # r \<Rightarrow> if x = c then Some r else None)"

text \<open>The fraction after the seconds: digits beyond the ninth are read and ignored.\<close>

definition get_frac :: "string \<Rightarrow> nat \<times> string" where
  "get_frac s =
     (case s of
        c # r \<Rightarrow>
          if (c = CHR ''.'' \<or> c = CHR '','') \<and> r \<noteq> [] \<and> is_digit (hd r)
          then let ds = take 9 (takeWhile is_digit r)
               in (dec_val ds * 10 ^ (9 - length ds), dropWhile is_digit r)
          else (0, s)
      | [] \<Rightarrow> (0, s))"

definition ranged :: "nat \<Rightarrow> nat \<Rightarrow> (nat \<times> string) option \<Rightarrow> (nat \<times> string) option" where
  "ranged lo hi r = (case r of None \<Rightarrow> None | Some (n, s) \<Rightarrow> if lo \<le> n \<and> n \<le> hi then Some (n, s) else None)"

definition is_leap :: "int \<Rightarrow> bool" where
  "is_leap y \<longleftrightarrow> y mod 4 = 0 \<and> (y mod 100 \<noteq> 0 \<or> y mod 400 = 0)"

definition days_in :: "int \<Rightarrow> int \<Rightarrow> int" where
  "days_in y m = (if m = 2 then (if is_leap y then 29 else 28)
                  else if m \<in> {4, 6, 9, 11} then 30 else 31)"

text \<open>Year, month and day; the day is checked against the month when the whole text has been read.\<close>

definition parse_date :: "string \<Rightarrow> ((int \<times> int \<times> int) \<times> string) option" where
  "parse_date s =
     Option.bind (get_year s) (\<lambda>(y, s1).
     Option.bind (literal (CHR ''-'') s1) (\<lambda>s2.
     Option.bind (ranged 1 12 (getnum True s2)) (\<lambda>(m, s3).
     Option.bind (literal (CHR ''-'') s3) (\<lambda>s4.
     Option.bind (getnum True s4) (\<lambda>(d, s5). Some ((int y, int m, int d), s5))))))"

text \<open>Hours, minutes, seconds and fraction, as nanoseconds.\<close>

definition parse_clock :: "string \<Rightarrow> (int \<times> string) option" where
  "parse_clock s =
     Option.bind (ranged 0 23 (getnum False s)) (\<lambda>(h, s1).
     Option.bind (literal (CHR '':'') s1) (\<lambda>s2.
     Option.bind (ranged 0 59 (getnum True s2)) (\<lambda>(mi, s3).
     Option.bind (literal (CHR '':'') s3) (\<lambda>s4.
     Option.bind (ranged 0 59 (getnum True s4)) (\<lambda>(se, s5).
     let (ns, s6) = get_frac s5
     in Some (int (h * 3600 + mi * 60 + se) * ns_per_sec + int ns, s6))))))"

text \<open>\<open>Z07:00\<close>.\<close>

definition parse_zone :: "string \<Rightarrow> (int \<times> string) option" where
  "parse_zone s =
     (if s \<noteq> [] \<and> hd s = CHR ''Z'' then Some (0, tl s)
      else if length s < 6 \<or> s ! 3 \<noteq> CHR '':'' then None
      else
        Option.bind (ranged 0 24 (getnum True (take 2 (drop 1 s)))) (\<lambda>(h, _).
        Option.bind (ranged 0 60 (getnum True (take 2 (drop 4 s)))) (\<lambda>(m, _).
        let off = int ((h * 60 + m) * 60)
        in if hd s = CHR ''+'' then Some (off, drop 6 s)
           else if hd s = CHR ''-'' then Some (- off, drop 6 s)
           else None)))"

text \<open>The end of \<open>parse\<close>: no text is left and the month has the day.\<close>

definition finish_parse :: "int \<times> int \<times> int \<Rightarrow> int \<Rightarrow> int \<times> string \<Rightarrow> gotime option" where
  "finish_parse ymd tod zone =
     (case (ymd, zone) of
        ((y, m, d), (off, rest)) \<Rightarrow>
          if rest = [] \<and> 1 \<le> d \<and> d \<le> days_in y m then Some (time_Date y m d tod off) else None)"

text \<open>Both RFC 3339 layouts accept the same texts, as a fraction is accepted after the seconds anyway.\<close>

definition parse_RFC3339 :: "string \<Rightarrow> gotime option" where
  "parse_RFC3339 s =
     Option.bind (parse_date s) (\<lambda>(ymd, s1).
     Option.bind (literal (CHR ''T'') s1) (\<lambda>s2.
     Option.bind (parse_clock s2) (\<lambda>(tod, s3).
     Option.bind (parse_zone s3) (\<lambda>z. finish_parse ymd tod z))))"

text \<open>A layout without a zone, \<open>2006-01-02T15:04:05\<close> or \<open>2006-01-02 15:04:05\<close>, in a location.\<close>

definition parse_local :: "char \<Rightarrow> int \<Rightarrow> string \<Rightarrow> gotime option" where
  "parse_local sep off s =
     Option.bind (parse_date s) (\<lambda>(ymd, s1).
     Option.bind (literal sep s1) (\<lambda>s2.
     Option.bind (parse_clock s2) (\<lambda>(tod, s3). finish_parse ymd tod (off, s3))))"


section \<open>Numbers of a fixed width\<close>

lemma nat_to_dec_length: "n < 10 ^ w \<Longrightarrow> 0 < w \<Longrightarrow> length (nat_to_dec n) \<le> w"
proof (induction n arbitrary: w rule: nat_to_dec.induct)
  case (1 n)
  show ?case
  proof (cases "n < 10")
    case True
    then show ?thesis using 1(3) by (subst nat_to_dec.simps) simp
  next
    case False
    then obtain v where w: "w = Suc v" "0 < v"
      using 1(2, 3) by (cases w; cases "w - 1") auto
    then have "n div 10 < 10 ^ v" using 1(2) by simp
    then show ?thesis using 1(1) [OF False _ w(2)] False w(1) by (subst nat_to_dec.simps) simp
  qed
qed

lemma dec_val_zeros: "dec_val (replicate k (CHR ''0'') @ s) = dec_val s"
  by (induction k) (simp_all add: dec_val_def)

lemma pad_nat_length: "n < 10 ^ w \<Longrightarrow> 0 < w \<Longrightarrow> length (pad_nat w n) = w"
  using nat_to_dec_length [of n w] by (simp add: pad_nat_def zero_pad_def)

lemma pad_nat_nonempty [simp]: "pad_nat w n \<noteq> []"
  by (simp add: pad_nat_def zero_pad_def)

lemma pad_nat_digits: "list_all is_digit (pad_nat w n)"
  using nat_to_dec_digits [of n] by (auto simp: pad_nat_def zero_pad_def list_all_iff is_digit_def)

lemma dec_val_pad_nat [simp]: "dec_val (pad_nat w n) = n"
  by (simp add: pad_nat_def zero_pad_def dec_val_zeros)

lemma getnum_pad: "n < 100 \<Longrightarrow> getnum fixed (pad_nat 2 n @ r) = Some (n, r)"
proof -
  assume "n < 100"
  then have "length (pad_nat 2 n) = 2" by (simp add: pad_nat_length)
  then obtain a b where p: "pad_nat 2 n = [a, b]"
    by (auto simp: numeral_2_eq_2 length_Suc_conv)
  then have "is_digit a" "is_digit b" "dec_val [a, b] = n"
    using pad_nat_digits [of 2 n] dec_val_pad_nat [of 2 n] by simp_all
  then show ?thesis by (simp add: p getnum_def)
qed

lemma get_year_pad: "n < 10000 \<Longrightarrow> get_year (pad_nat 4 n @ r) = Some (n, r)"
  using pad_nat_length [of n 4] pad_nat_digits [of 4 n] by (simp add: get_year_def)

lemma literal_Cons [simp]: "c \<noteq> CHR '' '' \<Longrightarrow> literal c (c # r) = Some r"
  by (simp add: literal_def)

lemma ranged_Some [simp]: "lo \<le> n \<Longrightarrow> n \<le> hi \<Longrightarrow> ranged lo hi (Some (n, s)) = Some (n, s)"
  by (simp add: ranged_def)

section \<open>The fraction and the zone\<close>

lemma dec_val_trailing_zeros: "dec_val (s @ replicate k (CHR ''0'')) = dec_val s * 10 ^ k"
proof (induction k)
  case (Suc k)
  have "s @ replicate (Suc k) (CHR ''0'') = (s @ replicate k (CHR ''0'')) @ [CHR ''0'']"
    by (simp add: replicate_append_same)
  then show ?case using Suc by (simp only: dec_val_snoc) simp
qed simp

lemma trailing_zeros:
  "s = rev (dropWhile (\<lambda>c. c = z) (rev s)) @ replicate (length s - length (dropWhile (\<lambda>c. c = z) (rev s))) z"
proof -
  have "takeWhile (\<lambda>c. c = z) (rev s) = replicate (length (takeWhile (\<lambda>c. c = z) (rev s))) z"
    by (rule replicate_eqI) (auto dest: set_takeWhileD)
  moreover have "length (takeWhile (\<lambda>c. c = z) (rev s)) = length s - length (dropWhile (\<lambda>c. c = z) (rev s))"
    by (metis add_diff_cancel_right' length_append length_rev takeWhile_dropWhile_id)
  moreover have "s = rev (dropWhile (\<lambda>c. c = z) (rev s)) @ rev (takeWhile (\<lambda>c. c = z) (rev s))"
    by (metis rev_append rev_rev_ident takeWhile_dropWhile_id)
  ultimately show ?thesis by (metis rev_replicate)
qed

lemma get_frac_format:
  assumes "ns < 1000000000" and "r \<noteq> []" and "\<not> is_digit (hd r)" "hd r \<noteq> CHR ''.''" "hd r \<noteq> CHR '',''"
  shows "get_frac (format_frac ns @ r) = (ns, r)"
proof (cases "ns = 0")
  case True
  then show ?thesis using assms(2-) by (cases r) (simp_all add: get_frac_def format_frac_def)
next
  case False
  define p where "p = pad_nat 9 ns"
  define ds where "ds = rev (dropWhile (\<lambda>c. c = CHR ''0'') (rev p))"
  have p: "length p = 9" "list_all is_digit p" "dec_val p = ns"
    using assms(1) by (simp_all add: p_def pad_nat_length pad_nat_digits)
  have eq: "p = ds @ replicate (9 - length ds) (CHR ''0'')"
    using trailing_zeros [of p] by (simp add: ds_def p(1))
  have "ds \<noteq> []"
  proof
    assume "ds = []"
    then have "ns = 0" using eq p(3) dec_val_trailing_zeros [of "[]" 9] by (simp add: dec_val_def)
    with False show False by simp
  qed
  moreover have len: "length ds \<le> 9" using p(1) eq by (metis length_append le_add1)
  moreover have dig: "list_all is_digit ds" using p(2) by (subst (asm) eq) simp
  moreover have "dec_val ds * 10 ^ (9 - length ds) = ns"
    using p(3) by (subst (asm) eq) (simp only: dec_val_trailing_zeros)
  moreover have "takeWhile is_digit (ds @ r) = ds" "dropWhile is_digit (ds @ r) = r"
    using dig assms(2, 3) by (auto simp: takeWhile_append2 dropWhile_append2 list_all_iff neq_Nil_conv)
  moreover have "format_frac ns = CHR ''.'' # ds" using False by (simp add: format_frac_def ds_def p_def)
  moreover have "is_digit (hd ds)" using dig \<open>ds \<noteq> []\<close> by (cases ds) auto
  ultimately show ?thesis by (simp add: get_frac_def Let_def)
qed

text \<open>Offsets of whole minutes, of less than a day, survive.\<close>

definition whole_zone :: "int \<Rightarrow> bool" where
  "whole_zone off \<longleftrightarrow> off mod 60 = 0 \<and> \<bar>off\<bar> < 86400"

lemma length_two: "length s = 2 \<Longrightarrow> \<exists>a b. s = [a, b]"
  by (auto simp: numeral_2_eq_2 length_Suc_conv)

lemma parse_zone_signed:
  assumes "h \<le> 24" "m \<le> 60" "c \<noteq> CHR ''Z''"
  shows "parse_zone (c # pad_nat 2 h @ CHR '':'' # pad_nat 2 m) =
    (if c = CHR ''+'' then Some (int ((h * 60 + m) * 60), [])
     else if c = CHR ''-'' then Some (- int ((h * 60 + m) * 60), []) else None)"
proof -
  obtain a b where h: "pad_nat 2 h = [a, b]"
    using length_two [OF pad_nat_length [of h 2]] assms(1) by auto
  obtain d e where m: "pad_nat 2 m = [d, e]"
    using length_two [OF pad_nat_length [of m 2]] assms(2) by auto
  have "getnum True [a, b] = Some (h, [])" "getnum True [d, e] = Some (m, [])"
    using getnum_pad [of h True "[]"] getnum_pad [of m True "[]"] assms(1, 2) by (simp_all add: h m)
  then show ?thesis
    using assms by (simp add: parse_zone_def h m Let_def)
qed

lemma parse_zone_format:
  assumes "whole_zone off"
  shows "parse_zone (format_zone off) = Some (off, [])"
proof (cases "off = 0")
  case True
  then show ?thesis by (simp add: format_zone_def parse_zone_def)
next
  case False
  define k where "k = nat (\<bar>off\<bar> div 60)"
  have k: "int k * 60 = \<bar>off\<bar>" "k < 1440"
    using assms by (auto simp: k_def whole_zone_def abs_if)
  then have "(k div 60 * 60 + k mod 60) * 60 = nat \<bar>off\<bar>" by simp
  moreover have "k div 60 \<le> 24" "k mod 60 \<le> 60" using k(2) by (simp_all add: less_imp_le)
  ultimately show ?thesis
    using False by (auto simp: format_zone_def Let_def k_def [symmetric] parse_zone_signed)
qed

section \<open>The round trip\<close>

lemma year_parts_leap:
  assumes "0 \<le> doe" "doe < 146097" "year_parts doe = (yoe, 365)"
  shows "is_leap (yoe + 1)"
proof -
  define c where "c = min 3 (doe div 36524)"
  define doc where "doc = doe - 36524 * c"
  define q where "q = doc div 1461"
  define doq where "doq = doc - 1461 * q"
  define a where "a = min 3 (doq div 365)"
  have eqs: "yoe = 100 * c + 4 * q + a" "doq - 365 * a = 365"
    using assms(3) by (auto simp: year_parts_def Let_def c_def doc_def q_def doq_def a_def)
  have c: "0 \<le> c" "c \<le> 3" and doc: "0 \<le> doc" "doc \<le> 36524" "c < 3 \<Longrightarrow> doc < 36524"
    using assms(1,2) by (auto simp: c_def doc_def min_def)
  have q: "0 \<le> q" "q \<le> 24" and doq: "0 \<le> doq" "doq \<le> 1460"
    using doc by (auto simp: q_def doq_def)
  have a: "a = 3" "doq = 1460"
    using doq eqs(2) by (auto simp: a_def min_def split: if_splits)
  then have "doc = 1461 * q + 1460" by (simp add: doq_def)
  then have "q = 24 \<Longrightarrow> c = 3" using c(2) doc(3) by force
  moreover have "yoe + 1 = 4 * (25 * c + q + 1)" by (simp add: eqs(1) a(1))
  moreover have "q \<noteq> 24 \<Longrightarrow> (yoe + 1) mod 100 \<noteq> 0"
    using q by (simp add: eqs(1) a(1)) presburger
  moreover have "q = 24 \<Longrightarrow> c = 3 \<Longrightarrow> (yoe + 1) mod 400 = 0" by (simp add: eqs(1) a(1))
  ultimately show ?thesis unfolding is_leap_def by (cases "q = 24") auto
qed

lemma is_leap_era: "is_leap (e * 400 + y) = is_leap y"
proof -
  have "(e * 400 + y) mod 4 = y mod 4" "(e * 400 + y) mod 100 = y mod 100" "(e * 400 + y) mod 400 = y mod 400"
    using mod_mult_self3 [of "e * 100" 4 y] mod_mult_self3 [of "e * 4" 100 y] mod_mult_self3 [of e 400 y]
    by (simp_all add: mult.assoc)
  then show ?thesis by (simp add: is_leap_def)
qed

lemma civil_day_bounds:
  assumes "civil_from_days n = (y, m, d)"
  shows "1 \<le> d" and "d \<le> days_in y m"
proof -
  define z where "z = n + 719468"
  obtain yoe doy where yp: "year_parts (z mod 146097) = (yoe, doy)"
    by (cases "year_parts (z mod 146097)")
  note b = year_parts_bounds [OF _ _ yp, simplified]
  define mp where "mp = (5 * doy + 2) div 153"
  have ymd: "m = (if mp < 10 then mp + 3 else mp - 9)"
    "y = (z div 146097) * 400 + yoe + (if m \<le> 2 then 1 else 0)"
    "d = doy - (153 * mp + 2) div 5 + 1"
    using assms yp by (auto simp: civil_from_days_def Let_def z_def mp_def)
  have "0 \<le> mp" "mp \<le> 11" using b by (auto simp: mp_def)
  then have mp: "mp = 0 \<or> mp = 1 \<or> mp = 2 \<or> mp = 3 \<or> mp = 4 \<or> mp = 5 \<or> mp = 6 \<or> mp = 7 \<or>
      mp = 8 \<or> mp = 9 \<or> mp = 10 \<or> mp = 11" by arith
  have doy: "153 * mp \<le> 5 * doy + 2" "5 * doy + 2 < 153 * mp + 153" by (auto simp: mp_def)
  show "1 \<le> d" using mp doy by (auto simp: ymd(3))
  have "is_leap y" if "mp = 11" "doy = 365"
    using year_parts_leap [of "z mod 146097" yoe] yp that is_leap_era [of "z div 146097" "yoe + 1"]
    by (simp add: ymd(1, 2) add.assoc)
  then show "d \<le> days_in y m"
    using mp doy b(4) by (cases "doy = 365") (auto simp: ymd(1, 3) days_in_def)
qed

lemma parse_date_format:
  assumes "civil_from_days n = (y, m, d)" "0 \<le> y" "y < 10000"
  shows "parse_date (format_date (y, m, d) @ r) = Some ((y, m, d), r)"
proof -
  have m: "1 \<le> m" "m \<le> 12" using days_civil_roundtrip [OF assms(1)] by auto
  have d: "1 \<le> d" "d \<le> 31"
    using civil_day_bounds [OF assms(1)] by (auto simp: days_in_def split: if_splits)
  show ?thesis
    using m d assms(2, 3)
    by (simp add: format_date_def parse_date_def format_year_def get_year_pad getnum_pad nat_less_iff nat_le_iff)
qed

lemma parse_clock_format:
  assumes "s < 86400" "ns < 1000000000"
    and "r \<noteq> []" "\<not> is_digit (hd r)" "hd r \<noteq> CHR ''.''" "hd r \<noteq> CHR '',''"
  shows "parse_clock (format_clock s @ format_frac ns @ r) = Some (int s * ns_per_sec + int ns, r)"
proof -
  have "s div 3600 \<le> 23" "s div 60 mod 60 \<le> 59" "s mod 60 \<le> 59"
    using assms(1) by (auto simp: less_Suc_eq_le [symmetric] less_mult_imp_div_less)
  moreover have "s div 3600 = s div 60 div 60" by (simp add: div_mult2_eq [symmetric])
  then have "s div 3600 * 3600 + s div 60 mod 60 * 60 + s mod 60 = s"
    using div_mult_mod_eq [of "s div 60" 60] div_mult_mod_eq [of s 60] by linarith
  ultimately show ?thesis
    using get_frac_format [OF assms(2-)] by (simp add: format_clock_def parse_clock_def getnum_pad)
qed

lemma format_zone_start:
  "format_zone off \<noteq> []" "\<not> is_digit (hd (format_zone off))"
  "hd (format_zone off) \<noteq> CHR ''.''" "hd (format_zone off) \<noteq> CHR '',''"
  by (auto simp: format_zone_def is_digit_def Let_def)

text \<open>Parsing a formatted time gives the time back, for years of four digits.\<close>

theorem parse_format_RFC3339Nano:
  assumes "fst (civil t) \<in> {0..9999}" and "whole_zone (t_off t)"
  shows "parse_RFC3339 (format_RFC3339Nano t) = Some t"
proof -
  obtain y m d where c: "civil_from_days (day_num t) = (y, m, d)"
    by (rule prod_cases3)
  have ct: "civil t = (y, m, d)" and y: "0 \<le> y" "y < 10000"
    using assms(1) by (auto simp: civil_def c)
  have tod: "0 \<le> time_of_day t" "time_of_day t < ns_per_day" by (rule time_of_day_range)+
  then have s: "tod_sec t < 86400" "tod_frac t < 1000000000"
    "int (tod_sec t) * ns_per_sec + int (tod_frac t) = time_of_day t"
    by (simp_all add: tod_sec_def tod_frac_def ns_defs nat_less_iff pos_imp_zdiv_nonneg_iff)
  have "finish_parse (y, m, d) (time_of_day t) (t_off t, []) = Some t"
    using civil_day_bounds [OF c] time_Date_civil [OF c, of 0] day_split [of t]
    by (simp add: finish_parse_def)
  then show ?thesis
    using parse_zone_format [OF assms(2)]
    by (simp add: parse_RFC3339_def format_RFC3339Nano_def ct parse_date_format [OF c y]
        parse_clock_format [OF s(1, 2) format_zone_start] s(3))
qed

end
