(* ===== verification/Time_Parsing.thy ===== *)
theory Time_Parsing
  imports Time_Format
begin

text \<open>
  The layered time parser of \<open>internal/timeparsing/parser.go\<close>: compact durations
  (\<open>+6h\<close>, \<open>-1d\<close>), then absolute formats, then natural language.

  The third-party natural-language parser (\<open>olebedev/when\<close>) is the field of a \<open>time_lib\<close>, an argument
  of \<open>ParseRelativeTime\<close>; the layouts of \<open>time.Parse\<close> are those of \<open>Time_Format\<close>.
\<close>

section \<open>Definitions\<close>

datatype time_error =
    NotCompactDuration string
  | InvalidDurationAmount string
  | NLPParseError
  | NotNaturalLanguage string
  | CannotParseTime string

text \<open>\<open>compactDurationRe\<close>: the sign, the digits and the unit of a string that matches.\<close>

definition compactDurationRe :: "string \<Rightarrow> (string \<times> string \<times> char) option" where
  "compactDurationRe s =
     (let signed = (s \<noteq> [] \<and> (hd s = CHR ''+'' \<or> hd s = CHR ''-''));
          sign = (if signed then [hd s] else []);
          rest = (if signed then tl s else s);
          digits = butlast rest
      in if rest \<noteq> [] \<and> digits \<noteq> [] \<and> list_all is_digit digits \<and> last rest \<in> set ''hdwmy''
         then Some (sign, digits, last rest) else None)"

definition applyDuration :: "gotime \<Rightarrow> int \<Rightarrow> char \<Rightarrow> gotime" where
  "applyDuration base amount u =
     (if u = CHR ''h'' then time_Add base (wrap64 (amount * ns_per_hour))
      else if u = CHR ''d'' then AddDate base 0 0 amount
      else if u = CHR ''w'' then AddDate base 0 0 (wrap64 (amount * 7))
      else if u = CHR ''m'' then AddDate base 0 amount 0
      else if u = CHR ''y'' then AddDate base amount 0 0
      else base)"

definition ParseCompactDuration :: "string \<Rightarrow> gotime \<Rightarrow> time_error + gotime" where
  "ParseCompactDuration s now =
     (case compactDurationRe s of
        None \<Rightarrow> Inl (NotCompactDuration s)
      | Some (sign, amountStr, u) \<Rightarrow>
          (case atoi amountStr of
             None \<Rightarrow> Inl (InvalidDurationAmount amountStr)
           | Some amount \<Rightarrow>
               Inr (applyDuration now (if sign = ''-'' then - amount else amount) u)))"

definition isCompactDuration :: "string \<Rightarrow> bool" where
  "isCompactDuration s \<longleftrightarrow> compactDurationRe s \<noteq> None"

record time_lib =
  tl_when :: "string \<Rightarrow> gotime \<Rightarrow> unit + gotime option"

definition parseNaturalLanguage :: "time_lib \<Rightarrow> string \<Rightarrow> gotime \<Rightarrow> time_error + gotime" where
  "parseNaturalLanguage lib s now =
     (case tl_when lib s now of
        Inl _ \<Rightarrow> Inl NLPParseError
      | Inr None \<Rightarrow> Inl (NotNaturalLanguage s)
      | Inr (Some t) \<Rightarrow> Inr t)"

definition dateOnlyRe :: "string \<Rightarrow> bool" where
  "dateOnlyRe s \<longleftrightarrow> length s = 10 \<and> s ! 4 = CHR ''-'' \<and> s ! 7 = CHR ''-'' \<and>
     list_all (\<lambda>i. is_digit (s ! i)) [0, 1, 2, 3, 5, 6, 8, 9]"

text \<open>\<open>time.ParseInLocation("2006-01-02", s, loc)\<close>.\<close>

definition parse_date_only :: "string \<Rightarrow> int \<Rightarrow> gotime option" where
  "parse_date_only s off = Option.bind (parse_date s) (\<lambda>(ymd, r). finish_parse ymd 0 (off, r))"

text \<open>
  \<open>ParseRelativeTime\<close> tries its layers in order and converts the first success to UTC.
\<close>

definition ParseRelativeTime :: "time_lib \<Rightarrow> string \<Rightarrow> gotime \<Rightarrow> time_error + gotime" where
  "ParseRelativeTime lib s now =
     (let loc = t_off now in
      case ParseCompactDuration s now of
        Inr t \<Rightarrow> Inr (UTC t)
      | Inl _ \<Rightarrow>
      case (if dateOnlyRe s then parse_date_only s loc else None) of
        Some t \<Rightarrow> Inr (UTC t)
      | None \<Rightarrow>
      case parse_RFC3339 s of
        Some t \<Rightarrow> Inr (UTC t)
      | None \<Rightarrow>
      case parse_local (CHR ''T'') loc s of
        Some t \<Rightarrow> Inr (UTC t)
      | None \<Rightarrow>
      case parse_local (CHR '' '') loc s of
        Some t \<Rightarrow> Inr (UTC t)
      | None \<Rightarrow>
      case parseNaturalLanguage lib s now of
        Inr t \<Rightarrow> Inr (UTC t)
      | Inl _ \<Rightarrow> Inl (CannotParseTime s))"

section \<open>Properties\<close>

lemma compactDurationRe_digits:
  assumes "list_all is_digit ds" "ds \<noteq> []" "u \<in> set ''hdwmy''"
  shows "compactDurationRe (ds @ [u]) = Some ([], ds, u)"
    and "compactDurationRe (CHR ''-'' # ds @ [u]) = Some (''-'', ds, u)"
    and "compactDurationRe (CHR ''+'' # ds @ [u]) = Some (''+'', ds, u)"
proof -
  have "is_digit (hd ds)" using assms(1,2) by (cases ds) auto
  then have "hd ds \<noteq> CHR ''+''" "hd ds \<noteq> CHR ''-''" by (auto simp: is_digit_def)
  with assms show "compactDurationRe (ds @ [u]) = Some ([], ds, u)"
    by (simp add: compactDurationRe_def Let_def)
  show "compactDurationRe (CHR ''-'' # ds @ [u]) = Some (''-'', ds, u)"
    "compactDurationRe (CHR ''+'' # ds @ [u]) = Some (''+'', ds, u)"
    using assms by (simp_all add: compactDurationRe_def Let_def)
qed

lemma atoi_nat_to_dec: "int n \<le> max_int64 \<Longrightarrow> atoi (nat_to_dec n) = Some (int n)"
  using atoi_itoa [of "int n"] by (simp add: itoa_def int64_defs)

lemma ParseCompactDuration_print:
  assumes "int n \<le> max_int64" "u \<in> set ''hdwmy''"
  shows "ParseCompactDuration (nat_to_dec n @ [u]) now = Inr (applyDuration now (int n) u)"
    and "ParseCompactDuration (CHR ''-'' # nat_to_dec n @ [u]) now =
      Inr (applyDuration now (- int n) u)"
    and "ParseCompactDuration (CHR ''+'' # nat_to_dec n @ [u]) now =
      Inr (applyDuration now (int n) u)"
  using assms
  by (simp_all add: ParseCompactDuration_def compactDurationRe_digits nat_to_dec_digits
      atoi_nat_to_dec del: set_simps)

lemma applyDuration_days:
  assumes "in_int64 (k * 7)"
  shows "applyDuration t k (CHR ''d'') = t\<lparr>t_ns := t_ns t + k * ns_per_day\<rparr>"
    and "applyDuration t k (CHR ''w'') = t\<lparr>t_ns := t_ns t + 7 * k * ns_per_day\<rparr>"
  using assms by (simp_all add: applyDuration_def AddDate_days algebra_simps)

lemma applyDuration_hours:
  assumes "in_int64 (k * ns_per_hour)"
  shows "applyDuration t k (CHR ''h'') = t\<lparr>t_ns := t_ns t + k * ns_per_hour\<rparr>"
  using assms by (simp add: applyDuration_def time_Add_def)

lemma ParseRelativeTime_compact:
  "ParseCompactDuration s now = Inr t \<Longrightarrow> ParseRelativeTime lib s now = Inr (UTC t)"
  by (simp add: ParseRelativeTime_def)

lemma ParseRelativeTime_UTC: "ParseRelativeTime lib s now = Inr t \<Longrightarrow> t_off t = 0"
  by (auto simp: ParseRelativeTime_def Let_def UTC_def split: sum.splits option.splits if_splits)

text \<open>
  A compact duration of days or weeks moves the time by exactly that many days of 24 hours, in the
  direction of its sign, and every result of the layered parser is in UTC.
\<close>

theorem ParseRelativeTime_days:
  assumes "7 * int n \<le> max_int64"
  shows "ParseRelativeTime lib (nat_to_dec n @ ''d'') now = Inr (UTC (now\<lparr>t_ns := t_ns now + int n * ns_per_day\<rparr>)) \<and>
    ParseRelativeTime lib (''-'' @ nat_to_dec n @ ''d'') now = Inr (UTC (now\<lparr>t_ns := t_ns now - int n * ns_per_day\<rparr>)) \<and>
    ParseRelativeTime lib (''-'' @ nat_to_dec n @ ''w'') now = Inr (UTC (now\<lparr>t_ns := t_ns now - 7 * int n * ns_per_day\<rparr>)) \<and>
    (\<forall>s t. ParseRelativeTime lib s now = Inr t \<longrightarrow> t_off t = 0)"
proof -
  have n: "int n \<le> max_int64" "in_int64 (int n * 7)" "in_int64 (- int n * 7)"
    using assms by (simp_all add: int64_defs)
  have u: "CHR ''d'' \<in> set ''hdwmy''" "CHR ''w'' \<in> set ''hdwmy''" by simp_all
  note p = ParseCompactDuration_print [OF n(1) u(1), of now] ParseCompactDuration_print [OF n(1) u(2), of now]
  note d = applyDuration_days [OF n(2), of now] applyDuration_days [OF n(3), of now]
  have "ParseRelativeTime lib (nat_to_dec n @ ''d'') now = Inr (UTC (now\<lparr>t_ns := t_ns now + int n * ns_per_day\<rparr>))"
    by (rule ParseRelativeTime_compact) (simp only: p d)
  moreover have "ParseRelativeTime lib (''-'' @ nat_to_dec n @ ''d'') now = Inr (UTC (now\<lparr>t_ns := t_ns now - int n * ns_per_day\<rparr>))"
    by (rule ParseRelativeTime_compact) (simp add: p d)
  moreover have "ParseRelativeTime lib (''-'' @ nat_to_dec n @ ''w'') now = Inr (UTC (now\<lparr>t_ns := t_ns now - 7 * int n * ns_per_day\<rparr>))"
    by (rule ParseRelativeTime_compact) (simp add: p d)
  ultimately show ?thesis using ParseRelativeTime_UTC by blast
qed

text \<open>A natural-language parser that knows no phrase.\<close>

definition no_times :: time_lib where
  "no_times = \<lparr>tl_when = \<lambda>_ _. Inr None\<rparr>"

theorem ParseRelativeTime_days_witness:
  "ParseRelativeTime no_times ''-2w'' \<lparr>t_ns = 0, t_off = 0\<rparr> = Inr \<lparr>t_ns = - 14 * 86400000000000, t_off = 0\<rparr>"
proof -
  have "nat_to_dec 2 = ''2''" by code_simp
  then show ?thesis
    using ParseRelativeTime_days [of 2 no_times "\<lparr>t_ns = 0, t_off = 0\<rparr>"]
    by (simp add: max_int64_def UTC_def ns_defs)
qed

lemma format_RFC3339Nano_shape:
  "CHR ''T'' \<in> set (format_RFC3339Nano t)" "last (format_RFC3339Nano t) \<notin> set ''hdwmy''"
proof -
  have "is_digit (last (pad_nat 2 n))" for n
    using pad_nat_digits [of 2 n] last_in_set [OF pad_nat_nonempty [of 2 n]] by (auto simp: list_all_iff)
  then have "last (format_zone off) = CHR ''Z'' \<or> is_digit (last (format_zone off))" for off
    by (auto simp: format_zone_def Let_def)
  then have "last (format_RFC3339Nano t) = CHR ''Z'' \<or> is_digit (last (format_RFC3339Nano t))"
    using format_zone_start(1) by (auto simp: format_RFC3339Nano_def)
  then show "last (format_RFC3339Nano t) \<notin> set ''hdwmy''" by (auto simp: is_digit_def)
qed (simp add: format_RFC3339Nano_def)

text \<open>
  C36: a time written by \<open>Format(time.RFC3339Nano)\<close> is read back as the same instant, in UTC: no earlier
  layer of the parser takes it for something else.
\<close>

theorem ParseRelativeTime_timestamp:
  assumes "fst (civil t) \<in> {0..9999}" and "whole_zone (t_off t)"
  shows "ParseRelativeTime lib (format_RFC3339Nano t) now = Inr (UTC t)"
proof -
  have "compactDurationRe (format_RFC3339Nano t) = None"
    using format_RFC3339Nano_shape(2) [of t] by (auto simp: compactDurationRe_def Let_def last_tl)
  moreover have "\<not> dateOnlyRe (format_RFC3339Nano t)"
  proof
    assume d: "dateOnlyRe (format_RFC3339Nano t)"
    obtain i where i: "i < length (format_RFC3339Nano t)" "format_RFC3339Nano t ! i = CHR ''T''"
      using format_RFC3339Nano_shape(1) [of t] by (auto simp: in_set_conv_nth)
    moreover from this(1) d have "i \<in> {0, 1, 2, 3, 4, 5, 6, 7, 8, 9}" by (auto simp: dateOnlyRe_def)
    ultimately show False using d by (auto simp: dateOnlyRe_def is_digit_def)
  qed
  ultimately show ?thesis
    using parse_format_RFC3339Nano [OF assms] by (simp add: ParseRelativeTime_def ParseCompactDuration_def)
qed

theorem ParseRelativeTime_timestamp_witness:
  "ParseRelativeTime no_times (format_RFC3339Nano \<lparr>t_ns = 1500000000, t_off = 7200\<rparr>) \<lparr>t_ns = 0, t_off = 0\<rparr> =
     Inr \<lparr>t_ns = 1500000000, t_off = 0\<rparr>"
proof -
  have "fst (civil \<lparr>t_ns = 1500000000, t_off = 7200\<rparr>) = 1970" by code_simp
  then have "fst (civil \<lparr>t_ns = 1500000000, t_off = 7200\<rparr>) \<in> {0..9999}" by simp
  moreover have "whole_zone (t_off \<lparr>t_ns = 1500000000, t_off = 7200\<rparr>)" by (simp add: whole_zone_def)
  ultimately show ?thesis by (simp add: ParseRelativeTime_timestamp UTC_def)
qed

text \<open>
  A duration in hours is multiplied in 64-bit nanoseconds without a check, so a large positive one
  wraps around and gives a time in the past.
\<close>

theorem ParseCompactDuration_hours_wrap:
  "\<exists>t. ParseCompactDuration ''+2562048h'' now = Inr t \<and> Before t now"
proof -
  have "compactDurationRe ''+2562048h'' = Some (''+'', ''2562048'', CHR ''h'')" by code_simp
  moreover have "atoi ''2562048'' = Some 2562048"
    by (simp add: atoi_def dec_val_def is_digit_def int64_defs)
  moreover have "wrap64 (2562048 * ns_per_hour) < 0" by (simp add: wrap64_def ns_defs)
  ultimately show ?thesis
    by (simp add: ParseCompactDuration_def applyDuration_def time_Add_def Before_def)
qed

end
