(* ===== verification/Query_Eval.thy ===== *)
theory Query_Eval
  imports Issue_Filter Query_Parser Time_Parsing
begin

text \<open>
  The evaluator of the query language, \<open>internal/query/evaluator.go\<close>, with the metadata key check of
  \<open>internal/storage/metadata.go\<close>: the filter-only route, the predicates, the base filters extracted
  for a complex query, and the choice between the routes. A Go function that fills a filter through
  a pointer returns the new filter; none of them changes it before an error.
\<close>

section \<open>Definitions\<close>

datatype eval_error =
    SyntaxError query_error
  | UnsupportedOp string ComparisonOp
  | InvalidStatus string
  | InvalidPriority string
  | PriorityOutOfRange
  | PriorityMatchesNothing int
  | NeedsPredicate string
  | InvalidTime string time_error
  | InvalidBool string
  | InvalidMolType string
  | InvalidMetadataKey string
  | UnknownField string
  | NotUnsupported string
  | OrUnsupported

record Evaluator =
  e_now :: gotime
  e_lib :: time_lib

definition ValidateMetadataKey :: "string \<Rightarrow> bool" where
  "ValidateMetadataKey key \<longleftrightarrow>
     (case key of
        [] \<Rightarrow> False
      | c # s \<Rightarrow>
          (is_upper c \<or> is_lower c \<or> c = CHR ''_'') \<and>
          list_all (\<lambda>c. is_upper c \<or> is_lower c \<or> is_digit c \<or> c = CHR ''_'' \<or> c = CHR ''.'' \<or>
            c = CHR ''/'') s)"

definition is_none_value :: "string \<Rightarrow> bool" where
  "is_none_value v \<longleftrightarrow> v = [] \<or> to_lower v = ''none'' \<or> to_lower v = ''null''"

definition parseDurationAgo :: "Evaluator \<Rightarrow> string \<Rightarrow> time_error + gotime" where
  "parseDurationAgo e s = ParseCompactDuration (''-'' @ trim_prefix s ''+'') (e_now e)"

definition parseTimeValue :: "Evaluator \<Rightarrow> ComparisonNode \<Rightarrow> time_error + gotime" where
  "parseTimeValue e cn =
     (if c_ValueType cn = TokenDuration then parseDurationAgo e (c_Value cn)
      else ParseRelativeTime (e_lib e) (c_Value cn) (e_now e))"

definition bind_time :: "string \<Rightarrow> time_error + gotime \<Rightarrow> (gotime \<Rightarrow> eval_error + 'a) \<Rightarrow> eval_error + 'a" where
  "bind_time field r k = (case r of Inl err \<Rightarrow> Inl (InvalidTime field err) | Inr t \<Rightarrow> k t)"

subsection \<open>Filter-only mode\<close>

definition applyStatusFilter :: "ComparisonNode \<Rightarrow> IssueFilter \<Rightarrow> eval_error + IssueFilter" where
  "applyStatusFilter cn flt =
     check (c_Op cn \<noteq> OpEquals \<and> c_Op cn \<noteq> OpNotEquals) (UnsupportedOp ''status'' (c_Op cn))
       (let st = to_lower (c_Value cn) in
        check (\<not> Status_IsValid st) (InvalidStatus (c_Value cn))
          (Inr (if c_Op cn = OpEquals then flt\<lparr>f_Status := Some st\<rparr>
                else flt\<lparr>f_ExcludeStatus := f_ExcludeStatus flt @ [st]\<rparr>)))"

definition applyPriorityFilter :: "ComparisonNode \<Rightarrow> IssueFilter \<Rightarrow> eval_error + IssueFilter" where
  "applyPriorityFilter cn flt =
     (case atoi (c_Value cn) of
        None \<Rightarrow> Inl (InvalidPriority (c_Value cn))
      | Some priority \<Rightarrow>
          check (priority < 0 \<or> priority > 4) PriorityOutOfRange
            (case c_Op cn of
               OpEquals \<Rightarrow> Inr (flt\<lparr>f_Priority := Some priority\<rparr>)
             | OpNotEquals \<Rightarrow> Inl (NeedsPredicate ''priority'')
             | OpLess \<Rightarrow>
                 check (priority - 1 < 0) (PriorityMatchesNothing priority)
                   (Inr (flt\<lparr>f_PriorityMax := Some (priority - 1)\<rparr>))
             | OpLessEq \<Rightarrow> Inr (flt\<lparr>f_PriorityMax := Some priority\<rparr>)
             | OpGreater \<Rightarrow>
                 check (priority + 1 > 4) (PriorityMatchesNothing priority)
                   (Inr (flt\<lparr>f_PriorityMin := Some (priority + 1)\<rparr>))
             | OpGreaterEq \<Rightarrow> Inr (flt\<lparr>f_PriorityMin := Some priority\<rparr>)))"

definition applyTypeFilter :: "ComparisonNode \<Rightarrow> IssueFilter \<Rightarrow> eval_error + IssueFilter" where
  "applyTypeFilter cn flt =
     check (c_Op cn \<noteq> OpEquals \<and> c_Op cn \<noteq> OpNotEquals) (UnsupportedOp ''type'' (c_Op cn))
       (let ty = to_lower (c_Value cn) in
        Inr (if c_Op cn = OpEquals then flt\<lparr>f_IssueType := Some ty\<rparr>
             else flt\<lparr>f_ExcludeTypes := f_ExcludeTypes flt @ [ty]\<rparr>))"

definition applyAssigneeFilter :: "ComparisonNode \<Rightarrow> IssueFilter \<Rightarrow> eval_error + IssueFilter" where
  "applyAssigneeFilter cn flt =
     check (c_Op cn \<noteq> OpEquals) (UnsupportedOp ''assignee'' (c_Op cn))
       (Inr (if is_none_value (c_Value cn) then flt\<lparr>f_NoAssignee := True\<rparr>
             else flt\<lparr>f_Assignee := Some (c_Value cn)\<rparr>))"

definition applyOwnerFilter :: "ComparisonNode \<Rightarrow> IssueFilter \<Rightarrow> eval_error + IssueFilter" where
  "applyOwnerFilter cn flt = Inl (NeedsPredicate ''owner'')"

definition applyLabelFilter :: "ComparisonNode \<Rightarrow> IssueFilter \<Rightarrow> eval_error + IssueFilter" where
  "applyLabelFilter cn flt =
     check (c_Op cn \<noteq> OpEquals) (UnsupportedOp ''label'' (c_Op cn))
       (Inr (if is_none_value (c_Value cn) then flt\<lparr>f_NoLabels := True\<rparr>
             else flt\<lparr>f_Labels := f_Labels flt @ [c_Value cn]\<rparr>))"

definition applyTitleFilter :: "ComparisonNode \<Rightarrow> IssueFilter \<Rightarrow> eval_error + IssueFilter" where
  "applyTitleFilter cn flt =
     check (c_Op cn \<noteq> OpEquals) (UnsupportedOp ''title'' (c_Op cn))
       (Inr (flt\<lparr>f_TitleContains := c_Value cn\<rparr>))"

definition applyDescriptionFilter :: "ComparisonNode \<Rightarrow> IssueFilter \<Rightarrow> eval_error + IssueFilter" where
  "applyDescriptionFilter cn flt =
     check (c_Op cn \<noteq> OpEquals) (UnsupportedOp ''description'' (c_Op cn))
       (Inr (if is_none_value (c_Value cn) then flt\<lparr>f_EmptyDescription := True\<rparr>
             else flt\<lparr>f_DescriptionContains := c_Value cn\<rparr>))"

definition applyNotesFilter :: "ComparisonNode \<Rightarrow> IssueFilter \<Rightarrow> eval_error + IssueFilter" where
  "applyNotesFilter cn flt =
     check (c_Op cn \<noteq> OpEquals) (UnsupportedOp ''notes'' (c_Op cn))
       (Inr (flt\<lparr>f_NotesContains := c_Value cn\<rparr>))"

definition applyCreatedFilter ::
  "Evaluator \<Rightarrow> ComparisonNode \<Rightarrow> IssueFilter \<Rightarrow> eval_error + IssueFilter" where
  "applyCreatedFilter e cn flt =
     bind_time ''created'' (parseTimeValue e cn) (\<lambda>t.
       case c_Op cn of
         OpEquals \<Rightarrow>
           (let dayStart = start_of_day t; dayEnd = time_Add dayStart (24 * ns_per_hour) in
            Inr (flt\<lparr>f_CreatedAfter := Some dayStart, f_CreatedBefore := Some dayEnd\<rparr>))
       | OpGreater \<Rightarrow> Inr (flt\<lparr>f_CreatedAfter := Some t\<rparr>)
       | OpGreaterEq \<Rightarrow> Inr (flt\<lparr>f_CreatedAfter := Some t\<rparr>)
       | OpLess \<Rightarrow> Inr (flt\<lparr>f_CreatedBefore := Some t\<rparr>)
       | OpLessEq \<Rightarrow> Inr (flt\<lparr>f_CreatedBefore := Some (end_of_day t)\<rparr>)
       | op \<Rightarrow> Inl (UnsupportedOp ''created'' op))"

definition applyUpdatedFilter ::
  "Evaluator \<Rightarrow> ComparisonNode \<Rightarrow> IssueFilter \<Rightarrow> eval_error + IssueFilter" where
  "applyUpdatedFilter e cn flt =
     bind_time ''updated'' (parseTimeValue e cn) (\<lambda>t.
       case c_Op cn of
         OpEquals \<Rightarrow>
           (let dayStart = start_of_day t; dayEnd = time_Add dayStart (24 * ns_per_hour) in
            Inr (flt\<lparr>f_UpdatedAfter := Some dayStart, f_UpdatedBefore := Some dayEnd\<rparr>))
       | OpGreater \<Rightarrow> Inr (flt\<lparr>f_UpdatedAfter := Some t\<rparr>)
       | OpGreaterEq \<Rightarrow> Inr (flt\<lparr>f_UpdatedAfter := Some t\<rparr>)
       | OpLess \<Rightarrow> Inr (flt\<lparr>f_UpdatedBefore := Some t\<rparr>)
       | OpLessEq \<Rightarrow> Inr (flt\<lparr>f_UpdatedBefore := Some (end_of_day t)\<rparr>)
       | op \<Rightarrow> Inl (UnsupportedOp ''updated'' op))"

definition applyClosedFilter ::
  "Evaluator \<Rightarrow> ComparisonNode \<Rightarrow> IssueFilter \<Rightarrow> eval_error + IssueFilter" where
  "applyClosedFilter e cn flt =
     bind_time ''closed'' (parseTimeValue e cn) (\<lambda>t.
       case c_Op cn of
         OpGreater \<Rightarrow> Inr (flt\<lparr>f_ClosedAfter := Some t\<rparr>)
       | OpGreaterEq \<Rightarrow> Inr (flt\<lparr>f_ClosedAfter := Some t\<rparr>)
       | OpLess \<Rightarrow> Inr (flt\<lparr>f_ClosedBefore := Some t\<rparr>)
       | OpLessEq \<Rightarrow> Inr (flt\<lparr>f_ClosedBefore := Some (end_of_day t)\<rparr>)
       | op \<Rightarrow> Inl (UnsupportedOp ''closed'' op))"

definition applyStartedFilter ::
  "Evaluator \<Rightarrow> ComparisonNode \<Rightarrow> IssueFilter \<Rightarrow> eval_error + IssueFilter" where
  "applyStartedFilter e cn flt =
     bind_time ''started'' (parseTimeValue e cn) (\<lambda>t.
       case c_Op cn of
         OpGreater \<Rightarrow> Inr (flt\<lparr>f_StartedAfter := Some t\<rparr>)
       | OpGreaterEq \<Rightarrow> Inr (flt\<lparr>f_StartedAfter := Some t\<rparr>)
       | OpLess \<Rightarrow> Inr (flt\<lparr>f_StartedBefore := Some t\<rparr>)
       | OpLessEq \<Rightarrow> Inr (flt\<lparr>f_StartedBefore := Some (end_of_day t)\<rparr>)
       | op \<Rightarrow> Inl (UnsupportedOp ''started'' op))"

definition applyIDFilter :: "ComparisonNode \<Rightarrow> IssueFilter \<Rightarrow> eval_error + IssueFilter" where
  "applyIDFilter cn flt =
     check (c_Op cn \<noteq> OpEquals) (UnsupportedOp ''id'' (c_Op cn))
       (Inr (if has_suffix (c_Value cn) ''*''
             then flt\<lparr>f_IDPrefix := trim_suffix (c_Value cn) ''*''\<rparr>
             else flt\<lparr>f_IDs := f_IDs flt @ [c_Value cn]\<rparr>))"

definition applySpecFilter :: "ComparisonNode \<Rightarrow> IssueFilter \<Rightarrow> eval_error + IssueFilter" where
  "applySpecFilter cn flt =
     check (c_Op cn \<noteq> OpEquals) (UnsupportedOp ''spec'' (c_Op cn))
       (Inr (if has_suffix (c_Value cn) ''*''
             then flt\<lparr>f_SpecIDPrefix := trim_suffix (c_Value cn) ''*''\<rparr>
             else flt\<lparr>f_SpecIDPrefix := c_Value cn\<rparr>))"

definition applyParentFilter :: "ComparisonNode \<Rightarrow> IssueFilter \<Rightarrow> eval_error + IssueFilter" where
  "applyParentFilter cn flt =
     check (c_Op cn \<noteq> OpEquals) (UnsupportedOp ''parent'' (c_Op cn))
       (Inr (flt\<lparr>f_ParentID := Some (c_Value cn)\<rparr>))"

definition bool_value :: "string \<Rightarrow> bool option" where
  "bool_value v =
     (let val = to_lower v in
      if val \<in> {''true'', ''yes'', ''1''} then Some True
      else if val \<in> {''false'', ''no'', ''0''} then Some False else None)"

datatype bool_field = Pinned | Ephemeral | Template

fun set_bool :: "bool_field \<Rightarrow> bool \<Rightarrow> IssueFilter \<Rightarrow> IssueFilter" where
  "set_bool Pinned b flt = flt\<lparr>f_Pinned := Some b\<rparr>"
| "set_bool Ephemeral b flt = flt\<lparr>f_Ephemeral := Some b\<rparr>"
| "set_bool Template b flt = flt\<lparr>f_IsTemplate := Some b\<rparr>"

definition applyBoolFilter ::
  "ComparisonNode \<Rightarrow> IssueFilter \<Rightarrow> bool_field \<Rightarrow> eval_error + IssueFilter" where
  "applyBoolFilter cn flt field =
     check (c_Op cn \<noteq> OpEquals) (UnsupportedOp (c_Field cn) (c_Op cn))
       (case bool_value (c_Value cn) of
          None \<Rightarrow> Inl (InvalidBool (c_Value cn))
        | Some b \<Rightarrow> Inr (set_bool field b flt))"

definition applyMolTypeFilter :: "ComparisonNode \<Rightarrow> IssueFilter \<Rightarrow> eval_error + IssueFilter" where
  "applyMolTypeFilter cn flt =
     check (c_Op cn \<noteq> OpEquals) (UnsupportedOp ''mol_type'' (c_Op cn))
       (let mt = to_lower (c_Value cn) in
        check (\<not> MolType_IsValid mt) (InvalidMolType (c_Value cn))
          (Inr (flt\<lparr>f_MolType := Some mt\<rparr>)))"

text \<open>Assignment to a key of the metadata map.\<close>

definition map_set :: "string \<Rightarrow> string \<Rightarrow> (string \<times> string) list \<Rightarrow> (string \<times> string) list" where
  "map_set k v m = filter (\<lambda>b. fst b \<noteq> k) m @ [(k, v)]"

definition applyMetadataFilter :: "ComparisonNode \<Rightarrow> IssueFilter \<Rightarrow> eval_error + IssueFilter" where
  "applyMetadataFilter cn flt =
     check (c_Op cn \<noteq> OpEquals) (UnsupportedOp (c_Field cn) (c_Op cn))
       (let key = trim_prefix (c_Field cn) metadata_prefix in
        check (\<not> ValidateMetadataKey key) (InvalidMetadataKey key)
          (Inr (flt\<lparr>f_MetadataFields := map_set key (c_Value cn) (f_MetadataFields flt)\<rparr>)))"

definition applyHasMetadataKeyFilter :: "ComparisonNode \<Rightarrow> IssueFilter \<Rightarrow> eval_error + IssueFilter" where
  "applyHasMetadataKeyFilter cn flt =
     check (c_Op cn \<noteq> OpEquals) (UnsupportedOp ''has_metadata_key'' (c_Op cn))
       (check (\<not> ValidateMetadataKey (c_Value cn)) (InvalidMetadataKey (c_Value cn))
         (Inr (flt\<lparr>f_HasMetadataKey := c_Value cn\<rparr>)))"

definition applyComparison ::
  "Evaluator \<Rightarrow> ComparisonNode \<Rightarrow> IssueFilter \<Rightarrow> eval_error + IssueFilter" where
  "applyComparison e cn flt =
     (let field = c_Field cn in
      if field = ''status'' then applyStatusFilter cn flt
      else if field = ''priority'' then applyPriorityFilter cn flt
      else if field = ''type'' then applyTypeFilter cn flt
      else if field = ''assignee'' then applyAssigneeFilter cn flt
      else if field = ''owner'' then applyOwnerFilter cn flt
      else if field = ''label'' \<or> field = ''labels'' then applyLabelFilter cn flt
      else if field = ''title'' then applyTitleFilter cn flt
      else if field = ''description'' \<or> field = ''desc'' then applyDescriptionFilter cn flt
      else if field = ''notes'' then applyNotesFilter cn flt
      else if field = ''created'' \<or> field = ''created_at'' then applyCreatedFilter e cn flt
      else if field = ''updated'' \<or> field = ''updated_at'' then applyUpdatedFilter e cn flt
      else if field = ''closed'' \<or> field = ''closed_at'' then applyClosedFilter e cn flt
      else if field = ''started'' \<or> field = ''started_at'' then applyStartedFilter e cn flt
      else if field = ''id'' then applyIDFilter cn flt
      else if field = ''spec'' \<or> field = ''spec_id'' then applySpecFilter cn flt
      else if field = ''parent'' then applyParentFilter cn flt
      else if field = ''pinned'' then applyBoolFilter cn flt Pinned
      else if field = ''ephemeral'' then applyBoolFilter cn flt Ephemeral
      else if field = ''template'' then applyBoolFilter cn flt Template
      else if field = ''mol_type'' then applyMolTypeFilter cn flt
      else if field = ''has_metadata_key'' then applyHasMetadataKeyFilter cn flt
      else if has_prefix field metadata_prefix then applyMetadataFilter cn flt
      else Inl (UnknownField field))"

fun applyNot :: "Node \<Rightarrow> IssueFilter \<Rightarrow> eval_error + IssueFilter" where
  "applyNot (NotNode (Comparison cn)) flt =
     (if c_Field cn = ''status'' then
        check (c_Op cn \<noteq> OpEquals) (UnsupportedOp ''NOT status'' (c_Op cn))
          (Inr (flt\<lparr>f_ExcludeStatus := f_ExcludeStatus flt @ [to_lower (c_Value cn)]\<rparr>))
      else if c_Field cn = ''type'' then
        check (c_Op cn \<noteq> OpEquals) (UnsupportedOp ''NOT type'' (c_Op cn))
          (Inr (flt\<lparr>f_ExcludeTypes := f_ExcludeTypes flt @ [to_lower (c_Value cn)]\<rparr>))
      else Inl (NotUnsupported (c_Field cn)))"
| "applyNot _ flt = Inl (NotUnsupported [])"

fun collectOrLabels :: "Node \<Rightarrow> string list option" where
  "collectOrLabels (Comparison n) =
     (if (c_Field n = ''label'' \<or> c_Field n = ''labels'') \<and> c_Op n = OpEquals
      then Some [c_Value n] else None)"
| "collectOrLabels (OrNode l r) =
     (case (collectOrLabels l, collectOrLabels r) of
        (Some xs, Some ys) \<Rightarrow> Some (xs @ ys)
      | _ \<Rightarrow> None)"
| "collectOrLabels _ = None"

definition canUseLabelsAnyOptimization :: "Node \<Rightarrow> bool" where
  "canUseLabelsAnyOptimization n \<longleftrightarrow> length (case_option [] id (collectOrLabels n)) > 0"

fun canUseFilterOnly :: "Node \<Rightarrow> bool" where
  "canUseFilterOnly (Comparison n) = True"
| "canUseFilterOnly (AndNode l r) = (canUseFilterOnly l \<and> canUseFilterOnly r)"
| "canUseFilterOnly (NotNode n) =
     (case n of
        Comparison cn \<Rightarrow>
          (c_Field cn = ''status'' \<or> c_Field cn = ''type'') \<and> c_Op cn = OpEquals
      | _ \<Rightarrow> False)"
| "canUseFilterOnly (OrNode l r) = canUseLabelsAnyOptimization (OrNode l r)"

fun buildFilter :: "Evaluator \<Rightarrow> Node \<Rightarrow> IssueFilter \<Rightarrow> eval_error + IssueFilter" where
  "buildFilter e (Comparison n) flt = applyComparison e n flt"
| "buildFilter e (AndNode l r) flt = bindE (buildFilter e l flt) (buildFilter e r)"
| "buildFilter e (NotNode n) flt = applyNot (NotNode n) flt"
| "buildFilter e (OrNode l r) flt =
     (case collectOrLabels (OrNode l r) of
        Some labels \<Rightarrow> Inr (flt\<lparr>f_LabelsAny := f_LabelsAny flt @ labels\<rparr>)
      | None \<Rightarrow> Inl OrUnsupported)"

text \<open>Errors of a part are ignored; that part then adds nothing to the base filter.\<close>

definition or_keep :: "IssueFilter \<Rightarrow> eval_error + IssueFilter \<Rightarrow> IssueFilter" where
  "or_keep flt r = (case r of Inl _ \<Rightarrow> flt | Inr f \<Rightarrow> f)"

fun extractBaseFilters :: "Evaluator \<Rightarrow> Node \<Rightarrow> IssueFilter \<Rightarrow> IssueFilter" where
  "extractBaseFilters e (Comparison n) flt = or_keep flt (applyComparison e n flt)"
| "extractBaseFilters e (AndNode l r) flt = extractBaseFilters e r (extractBaseFilters e l flt)"
| "extractBaseFilters e (NotNode n) flt = or_keep flt (applyNot (NotNode n) flt)"
| "extractBaseFilters e (OrNode l r) flt = flt"

subsection \<open>Predicate mode\<close>

type_synonym predicate = "Issue \<Rightarrow> bool"

text \<open>The switch most predicates end with: equality and its negation are supported.\<close>

definition eq_or_not :: "string \<Rightarrow> ComparisonOp \<Rightarrow> predicate \<Rightarrow> eval_error + predicate" where
  "eq_or_not field op P =
     (case op of
        OpEquals \<Rightarrow> Inr P
      | OpNotEquals \<Rightarrow> Inr (\<lambda>i. \<not> P i)
      | _ \<Rightarrow> Inl (UnsupportedOp field op))"

definition buildStatusPredicate :: "ComparisonNode \<Rightarrow> eval_error + predicate" where
  "buildStatusPredicate cn =
     (let st = to_lower (c_Value cn) in eq_or_not ''status'' (c_Op cn) (\<lambda>i. i_Status i = st))"

definition buildPriorityPredicate :: "ComparisonNode \<Rightarrow> eval_error + predicate" where
  "buildPriorityPredicate cn =
     (case atoi (c_Value cn) of
        None \<Rightarrow> Inl (InvalidPriority (c_Value cn))
      | Some priority \<Rightarrow>
          (case c_Op cn of
             OpEquals \<Rightarrow> Inr (\<lambda>i. i_Priority i = priority)
           | OpNotEquals \<Rightarrow> Inr (\<lambda>i. i_Priority i \<noteq> priority)
           | OpLess \<Rightarrow> Inr (\<lambda>i. i_Priority i < priority)
           | OpLessEq \<Rightarrow> Inr (\<lambda>i. i_Priority i \<le> priority)
           | OpGreater \<Rightarrow> Inr (\<lambda>i. i_Priority i > priority)
           | OpGreaterEq \<Rightarrow> Inr (\<lambda>i. i_Priority i \<ge> priority)))"

definition buildTypePredicate :: "ComparisonNode \<Rightarrow> eval_error + predicate" where
  "buildTypePredicate cn =
     (let ty = to_lower (c_Value cn) in eq_or_not ''type'' (c_Op cn) (\<lambda>i. i_IssueType i = ty))"

definition buildAssigneePredicate :: "ComparisonNode \<Rightarrow> eval_error + predicate" where
  "buildAssigneePredicate cn =
     (let v = c_Value cn in
      eq_or_not ''assignee'' (c_Op cn)
        (if is_none_value v then (\<lambda>i. i_Assignee i = []) else (\<lambda>i. equal_fold (i_Assignee i) v)))"

definition buildOwnerPredicate :: "ComparisonNode \<Rightarrow> eval_error + predicate" where
  "buildOwnerPredicate cn =
     eq_or_not ''owner'' (c_Op cn) (\<lambda>i. equal_fold (i_Owner i) (c_Value cn))"

definition buildLabelPredicate :: "ComparisonNode \<Rightarrow> eval_error + predicate" where
  "buildLabelPredicate cn =
     (let v = c_Value cn in
      eq_or_not ''label'' (c_Op cn)
        (if is_none_value v then (\<lambda>i. length (i_Labels i) = 0)
         else (\<lambda>i. list_ex (\<lambda>l. equal_fold l v) (i_Labels i))))"

definition buildTitlePredicate :: "ComparisonNode \<Rightarrow> eval_error + predicate" where
  "buildTitlePredicate cn =
     (let v = to_lower (c_Value cn) in
      eq_or_not ''title'' (c_Op cn) (\<lambda>i. str_contains (to_lower (i_Title i)) v))"

definition buildDescriptionPredicate :: "ComparisonNode \<Rightarrow> eval_error + predicate" where
  "buildDescriptionPredicate cn =
     (let v = c_Value cn in
      eq_or_not ''description'' (c_Op cn)
        (if is_none_value v then (\<lambda>i. i_Description i = [])
         else (\<lambda>i. str_contains (to_lower (i_Description i)) (to_lower v))))"

definition buildNotesPredicate :: "ComparisonNode \<Rightarrow> eval_error + predicate" where
  "buildNotesPredicate cn =
     (let v = to_lower (c_Value cn) in
      eq_or_not ''notes'' (c_Op cn) (\<lambda>i. str_contains (to_lower (i_Notes i)) v))"

fun compareTime :: "ComparisonOp \<Rightarrow> gotime \<Rightarrow> gotime \<Rightarrow> bool" where
  "compareTime OpEquals actual target = same_day actual target"
| "compareTime OpNotEquals actual target = (\<not> same_day actual target)"
| "compareTime OpLess actual target = Before actual target"
| "compareTime OpLessEq actual target = (Before actual target \<or> Equal actual target)"
| "compareTime OpGreater actual target = After actual target"
| "compareTime OpGreaterEq actual target = (After actual target \<or> Equal actual target)"

definition buildTimePredicate :: "ComparisonOp \<Rightarrow> gotime \<Rightarrow> (Issue \<Rightarrow> gotime) \<Rightarrow> eval_error + predicate" where
  "buildTimePredicate op t getter = Inr (\<lambda>i. compareTime op (getter i) t)"

definition buildCreatedPredicate :: "Evaluator \<Rightarrow> ComparisonNode \<Rightarrow> eval_error + predicate" where
  "buildCreatedPredicate e cn =
     bind_time ''created'' (parseTimeValue e cn) (\<lambda>t. buildTimePredicate (c_Op cn) t i_CreatedAt)"

definition buildUpdatedPredicate :: "Evaluator \<Rightarrow> ComparisonNode \<Rightarrow> eval_error + predicate" where
  "buildUpdatedPredicate e cn =
     bind_time ''updated'' (parseTimeValue e cn) (\<lambda>t. buildTimePredicate (c_Op cn) t i_UpdatedAt)"

definition buildClosedPredicate :: "Evaluator \<Rightarrow> ComparisonNode \<Rightarrow> eval_error + predicate" where
  "buildClosedPredicate e cn =
     bind_time ''closed'' (parseTimeValue e cn) (\<lambda>t. Inr (\<lambda>i.
       case i_ClosedAt i of None \<Rightarrow> False | Some a \<Rightarrow> compareTime (c_Op cn) a t))"

definition buildStartedPredicate :: "Evaluator \<Rightarrow> ComparisonNode \<Rightarrow> eval_error + predicate" where
  "buildStartedPredicate e cn =
     bind_time ''started'' (parseTimeValue e cn) (\<lambda>t. Inr (\<lambda>i.
       case i_StartedAt i of None \<Rightarrow> False | Some a \<Rightarrow> compareTime (c_Op cn) a t))"

definition buildIDPredicate :: "ComparisonNode \<Rightarrow> eval_error + predicate" where
  "buildIDPredicate cn =
     (let v = c_Value cn in
      eq_or_not ''id'' (c_Op cn)
        (if has_suffix v ''*'' then (\<lambda>i. has_prefix (i_ID i) (trim_suffix v ''*'')) else (\<lambda>i. i_ID i = v)))"

definition buildSpecPredicate :: "ComparisonNode \<Rightarrow> eval_error + predicate" where
  "buildSpecPredicate cn =
     (let v = c_Value cn in
      eq_or_not ''spec'' (c_Op cn)
        (if has_suffix v ''*'' then (\<lambda>i. has_prefix (i_SpecID i) (trim_suffix v ''*''))
         else (\<lambda>i. i_SpecID i = v)))"

definition buildBoolPredicate :: "ComparisonNode \<Rightarrow> (Issue \<Rightarrow> bool) \<Rightarrow> eval_error + predicate" where
  "buildBoolPredicate cn getter =
     (case bool_value (c_Value cn) of
        None \<Rightarrow> Inl (InvalidBool (c_Value cn))
      | Some b \<Rightarrow> eq_or_not (c_Field cn) (c_Op cn) (\<lambda>i. getter i = b))"

definition buildMetadataPredicate :: "ComparisonNode \<Rightarrow> eval_error + predicate" where
  "buildMetadataPredicate cn =
     check (c_Op cn \<noteq> OpEquals) (UnsupportedOp (c_Field cn) (c_Op cn))
       (let key = trim_prefix (c_Field cn) metadata_prefix in
        check (\<not> ValidateMetadataKey key) (InvalidMetadataKey key)
          (Inr (\<lambda>i.
             if length (i_Metadata i) = 0 then False
             else case json_members (i_Metadata i) of
               None \<Rightarrow> False
             | Some ms \<Rightarrow>
                 (case json_lookup ms key of
                    None \<Rightarrow> False
                  | Some raw \<Rightarrow>
                      (case json_string [] raw of
                         Some s \<Rightarrow> s = c_Value cn
                       | None \<Rightarrow> trim_quotes raw = c_Value cn)))))"

definition buildHasMetadataKeyPredicate :: "ComparisonNode \<Rightarrow> eval_error + predicate" where
  "buildHasMetadataKeyPredicate cn =
     check (c_Op cn \<noteq> OpEquals) (UnsupportedOp ''has_metadata_key'' (c_Op cn))
       (check (\<not> ValidateMetadataKey (c_Value cn)) (InvalidMetadataKey (c_Value cn))
         (Inr (\<lambda>i.
            if length (i_Metadata i) = 0 then False
            else case json_members (i_Metadata i) of
              None \<Rightarrow> False
            | Some ms \<Rightarrow> json_lookup ms (c_Value cn) \<noteq> None)))"

definition buildComparisonPredicate :: "Evaluator \<Rightarrow> ComparisonNode \<Rightarrow> eval_error + predicate" where
  "buildComparisonPredicate e cn =
     (let field = c_Field cn in
      if field = ''status'' then buildStatusPredicate cn
      else if field = ''priority'' then buildPriorityPredicate cn
      else if field = ''type'' then buildTypePredicate cn
      else if field = ''assignee'' then buildAssigneePredicate cn
      else if field = ''owner'' then buildOwnerPredicate cn
      else if field = ''label'' \<or> field = ''labels'' then buildLabelPredicate cn
      else if field = ''title'' then buildTitlePredicate cn
      else if field = ''description'' \<or> field = ''desc'' then buildDescriptionPredicate cn
      else if field = ''notes'' then buildNotesPredicate cn
      else if field = ''created'' \<or> field = ''created_at'' then buildCreatedPredicate e cn
      else if field = ''updated'' \<or> field = ''updated_at'' then buildUpdatedPredicate e cn
      else if field = ''closed'' \<or> field = ''closed_at'' then buildClosedPredicate e cn
      else if field = ''started'' \<or> field = ''started_at'' then buildStartedPredicate e cn
      else if field = ''id'' then buildIDPredicate cn
      else if field = ''spec'' \<or> field = ''spec_id'' then buildSpecPredicate cn
      else if field = ''pinned'' then buildBoolPredicate cn i_Pinned
      else if field = ''ephemeral'' then buildBoolPredicate cn i_Ephemeral
      else if field = ''template'' then buildBoolPredicate cn i_IsTemplate
      else if field = ''has_metadata_key'' then buildHasMetadataKeyPredicate cn
      else if has_prefix field metadata_prefix then buildMetadataPredicate cn
      else Inl (UnknownField field))"

fun buildPredicate :: "Evaluator \<Rightarrow> Node \<Rightarrow> eval_error + predicate" where
  "buildPredicate e (Comparison n) = buildComparisonPredicate e n"
| "buildPredicate e (AndNode l r) =
     bindE (buildPredicate e l) (\<lambda>left. bindE (buildPredicate e r) (\<lambda>right.
       Inr (\<lambda>i. left i \<and> right i)))"
| "buildPredicate e (OrNode l r) =
     bindE (buildPredicate e l) (\<lambda>left. bindE (buildPredicate e r) (\<lambda>right.
       Inr (\<lambda>i. left i \<or> right i)))"
| "buildPredicate e (NotNode n) =
     bindE (buildPredicate e n) (\<lambda>operand. Inr (\<lambda>i. \<not> operand i))"

subsection \<open>The evaluator\<close>

record QueryResult =
  q_Filter :: IssueFilter
  q_Predicate :: "predicate option"
  q_RequiresPredicate :: bool

definition Evaluate :: "Evaluator \<Rightarrow> Node \<Rightarrow> eval_error + QueryResult" where
  "Evaluate e node =
     (if canUseFilterOnly node then
        bindE (buildFilter e node zero_filter) (\<lambda>f.
          Inr \<lparr>q_Filter = f, q_Predicate = None, q_RequiresPredicate = False\<rparr>)
      else
        bindE (buildPredicate e node) (\<lambda>pred.
          Inr \<lparr>q_Filter = extractBaseFilters e node zero_filter, q_Predicate = Some pred,
               q_RequiresPredicate = True\<rparr>))"

definition EvaluateAt :: "time_lib \<Rightarrow> string \<Rightarrow> gotime \<Rightarrow> eval_error + QueryResult" where
  "EvaluateAt lib query now =
     (case Parse query of
        Inl err \<Rightarrow> Inl (SyntaxError err)
      | Inr node \<Rightarrow> Evaluate \<lparr>e_now = now, e_lib = lib\<rparr> node)"

text \<open>How a caller uses a result: the issues the filter selects, cut down by the predicate if any.\<close>

definition result_matches :: "QueryResult \<Rightarrow> Issue \<Rightarrow> bool" where
  "result_matches q i \<longleftrightarrow> filter_matches (q_Filter q) i \<and> opt_holds (\<lambda>P. P i) (q_Predicate q)"

end
