(* ===== verification/Query_Semantics.thy ===== *)
theory Query_Semantics
  imports Query_Eval
begin

text \<open>
  What the two routes of the query evaluator mean. A comparison is analysed as one \<open>write\<close> to the
  filter; the interface between the evaluator and the functions that fill the filter is the locale
  \<open>condition_compiler\<close>, its exact variant \<open>exact_compiler\<close>, and both are interpreted on the model's
  functions. From them follow the soundness of the base filters of a complex query and the agreement
  of the filter-only route with the predicate.
\<close>

section \<open>The interface: compiling conditions into a filter\<close>

text \<open>
  \<open>compile c f\<close> adds condition \<open>c\<close> to the filter \<open>f\<close>, or fails; \<open>cond c\<close> is the predicate of the same
  condition. \<open>safe c x\<close> says that for the item \<open>x\<close> the filter asks for no more than the predicate.
\<close>

fun foldE :: "('c \<Rightarrow> 'f \<Rightarrow> 'e + 'f) \<Rightarrow> 'c list \<Rightarrow> 'f \<Rightarrow> 'e + 'f" where
  "foldE g [] f = Inr f"
| "foldE g (c # cs) f = bindE (g c f) (foldE g cs)"

lemma foldE_append: "foldE g (xs @ ys) f = bindE (foldE g xs f) (foldE g ys)"
proof (induction xs arbitrary: f)
  case (Cons x xs)
  then show ?case by (cases "g x f") auto
qed simp

locale condition_compiler =
  fixes compile :: "'c \<Rightarrow> 'f \<Rightarrow> 'e + 'f"
    and cond :: "'c \<Rightarrow> 'e + ('i \<Rightarrow> bool)"
    and holds :: "'f \<Rightarrow> 'i \<Rightarrow> bool"
    and safe :: "'c \<Rightarrow> 'i \<Rightarrow> bool"
  assumes compile_keeps:
    "\<lbrakk>compile c f = Inr f'; cond c = Inr P; safe c x; holds f x; P x\<rbrakk> \<Longrightarrow> holds f' x"
begin

definition keep_going :: "'c \<Rightarrow> 'f \<Rightarrow> 'f" where
  "keep_going c f = (case compile c f of Inl _ \<Rightarrow> f | Inr f' \<Rightarrow> f')"

text \<open>Compiling what can be compiled of a conjunction never loses an item that satisfies it.\<close>

lemma fold_keeps:
  assumes "holds f x"
    and "\<And>c. c \<in> set cs \<Longrightarrow> safe c x \<and> (\<exists>P. cond c = Inr P \<and> P x)"
  shows "holds (fold keep_going cs f) x"
  using assms
proof (induction cs arbitrary: f)
  case (Cons c cs)
  obtain P where P: "safe c x" "cond c = Inr P" "P x" using Cons.prems(2) [of c] by auto
  have "holds (keep_going c f) x"
    using P Cons.prems(1) compile_keeps [of c f] by (auto simp: keep_going_def split: sum.split)
  with Cons show ?case by simp
qed simp

end

text \<open>
  With slots: a condition may overwrite its slot, so it is exact only on a filter whose slot is free.
\<close>

locale exact_compiler = condition_compiler compile cond holds safe
  for compile :: "'c \<Rightarrow> 'f \<Rightarrow> 'e + 'f"
    and cond :: "'c \<Rightarrow> 'e + ('i \<Rightarrow> bool)"
    and holds :: "'f \<Rightarrow> 'i \<Rightarrow> bool"
    and safe :: "'c \<Rightarrow> 'i \<Rightarrow> bool" +
  fixes exact :: "'c \<Rightarrow> 'i \<Rightarrow> bool"
    and slots :: "'c \<Rightarrow> 's list"
    and free :: "'s \<Rightarrow> 'f \<Rightarrow> bool"
  assumes exact_safe: "exact c x \<Longrightarrow> safe c x"
    and compile_exact:
      "\<lbrakk>compile c f = Inr f'; cond c = Inr P; exact c x; \<And>s. s \<in> set (slots c) \<Longrightarrow> free s f; holds f' x\<rbrakk>
        \<Longrightarrow> holds f x \<and> P x"
    and compile_frame: "\<lbrakk>compile c f = Inr f'; s \<notin> set (slots c); free s f\<rbrakk> \<Longrightarrow> free s f'"
begin

text \<open>Conditions on distinct free slots compile to a filter that is exactly their conjunction.\<close>

lemma compile_all_exact:
  assumes "foldE compile cs f = Inr f'" and "distinct (concat (map slots cs))"
    and "\<And>s. s \<in> set (concat (map slots cs)) \<Longrightarrow> free s f"
    and "\<And>c. c \<in> set cs \<Longrightarrow> exact c x \<and> cond c = Inr (P c)"
  shows "holds f' x \<longleftrightarrow> holds f x \<and> (\<forall>c \<in> set cs. P c x)"
  using assms
proof (induction cs arbitrary: f)
  case (Cons c cs)
  obtain f1 where f1: "compile c f = Inr f1" "foldE compile cs f1 = Inr f'"
    using Cons.prems(1) by (auto elim: bindE_InrE)
  have c: "exact c x" "cond c = Inr (P c)" using Cons.prems(4) by auto
  have free_c: "\<And>s. s \<in> set (slots c) \<Longrightarrow> free s f" using Cons.prems(3) by auto
  have "free s f1" if "s \<in> set (concat (map slots cs))" for s
    using that Cons.prems(2,3) by (intro compile_frame [OF f1(1)]) auto
  then have "holds f' x \<longleftrightarrow> holds f1 x \<and> (\<forall>c \<in> set cs. P c x)"
    using Cons.IH [OF f1(2)] Cons.prems(2,4) by auto
  moreover have "holds f1 x \<longleftrightarrow> holds f x \<and> P c x"
    using compile_exact [OF f1(1) c(2,1) free_c] compile_keeps [OF f1(1) c(2) exact_safe [OF c(1)]] by blast
  ultimately show ?case by auto
qed simp

end

section \<open>Writes to the filter\<close>

datatype time_field = TCreated | TUpdated | TClosed | TStarted

datatype filter_write =
    WStatus string | WNotStatus string | WPriority int | WPriorityMin int | WPriorityMax int
  | WType string | WNotType string | WAssignee string | WNoAssignee | WLabel string | WNoLabels
  | WTitle string | WDescription string | WEmptyDescription | WNotes string
  | WAfter time_field gotime | WBefore time_field gotime | WDay time_field gotime
  | WID string | WIDPrefix string | WSpec string | WParent string | WBool bool_field bool
  | WMolType string | WMeta string string | WHasKey string | WLabelsAny string "string list"

fun set_after :: "time_field \<Rightarrow> gotime \<Rightarrow> IssueFilter \<Rightarrow> IssueFilter" where
  "set_after TCreated t f = f\<lparr>f_CreatedAfter := Some t\<rparr>"
| "set_after TUpdated t f = f\<lparr>f_UpdatedAfter := Some t\<rparr>"
| "set_after TClosed t f = f\<lparr>f_ClosedAfter := Some t\<rparr>"
| "set_after TStarted t f = f\<lparr>f_StartedAfter := Some t\<rparr>"

fun set_before :: "time_field \<Rightarrow> gotime \<Rightarrow> IssueFilter \<Rightarrow> IssueFilter" where
  "set_before TCreated t f = f\<lparr>f_CreatedBefore := Some t\<rparr>"
| "set_before TUpdated t f = f\<lparr>f_UpdatedBefore := Some t\<rparr>"
| "set_before TClosed t f = f\<lparr>f_ClosedBefore := Some t\<rparr>"
| "set_before TStarted t f = f\<lparr>f_StartedBefore := Some t\<rparr>"

fun exec_write :: "filter_write \<Rightarrow> IssueFilter \<Rightarrow> IssueFilter" where
  "exec_write (WStatus s) f = f\<lparr>f_Status := Some s\<rparr>"
| "exec_write (WNotStatus s) f = f\<lparr>f_ExcludeStatus := f_ExcludeStatus f @ [s]\<rparr>"
| "exec_write (WPriority p) f = f\<lparr>f_Priority := Some p\<rparr>"
| "exec_write (WPriorityMin p) f = f\<lparr>f_PriorityMin := Some p\<rparr>"
| "exec_write (WPriorityMax p) f = f\<lparr>f_PriorityMax := Some p\<rparr>"
| "exec_write (WType t) f = f\<lparr>f_IssueType := Some t\<rparr>"
| "exec_write (WNotType t) f = f\<lparr>f_ExcludeTypes := f_ExcludeTypes f @ [t]\<rparr>"
| "exec_write (WAssignee a) f = f\<lparr>f_Assignee := Some a\<rparr>"
| "exec_write WNoAssignee f = f\<lparr>f_NoAssignee := True\<rparr>"
| "exec_write (WLabel l) f = f\<lparr>f_Labels := f_Labels f @ [l]\<rparr>"
| "exec_write WNoLabels f = f\<lparr>f_NoLabels := True\<rparr>"
| "exec_write (WTitle s) f = f\<lparr>f_TitleContains := s\<rparr>"
| "exec_write (WDescription s) f = f\<lparr>f_DescriptionContains := s\<rparr>"
| "exec_write WEmptyDescription f = f\<lparr>f_EmptyDescription := True\<rparr>"
| "exec_write (WNotes s) f = f\<lparr>f_NotesContains := s\<rparr>"
| "exec_write (WAfter tf t) f = set_after tf t f"
| "exec_write (WBefore tf t) f = set_before tf t f"
| "exec_write (WDay tf t) f =
     set_before tf (time_Add (start_of_day t) (24 * ns_per_hour)) (set_after tf (start_of_day t) f)"
| "exec_write (WID s) f = f\<lparr>f_IDs := f_IDs f @ [s]\<rparr>"
| "exec_write (WIDPrefix s) f = f\<lparr>f_IDPrefix := s\<rparr>"
| "exec_write (WSpec s) f = f\<lparr>f_SpecIDPrefix := s\<rparr>"
| "exec_write (WParent s) f = f\<lparr>f_ParentID := Some s\<rparr>"
| "exec_write (WBool bf b) f = set_bool bf b f"
| "exec_write (WMolType m) f = f\<lparr>f_MolType := Some m\<rparr>"
| "exec_write (WMeta k v) f = f\<lparr>f_MetadataFields := map_set k v (f_MetadataFields f)\<rparr>"
| "exec_write (WHasKey k) f = f\<lparr>f_HasMetadataKey := k\<rparr>"
| "exec_write (WLabelsAny l ls) f = f\<lparr>f_LabelsAny := f_LabelsAny f @ l # ls\<rparr>"

fun time_of :: "time_field \<Rightarrow> Issue \<Rightarrow> gotime option" where
  "time_of TCreated i = Some (i_CreatedAt i)"
| "time_of TUpdated i = Some (i_UpdatedAt i)"
| "time_of TClosed i = i_ClosedAt i"
| "time_of TStarted i = i_StartedAt i"

fun bool_of :: "bool_field \<Rightarrow> Issue \<Rightarrow> bool" where
  "bool_of Pinned i = i_Pinned i"
| "bool_of Ephemeral i = i_Ephemeral i"
| "bool_of Template i = i_IsTemplate i"

text \<open>The condition a write adds.\<close>

fun write_cond :: "filter_write \<Rightarrow> Issue \<Rightarrow> bool" where
  "write_cond (WStatus s) i = (i_Status i = s)"
| "write_cond (WNotStatus s) i = (i_Status i \<noteq> s)"
| "write_cond (WPriority p) i = (i_Priority i = p)"
| "write_cond (WPriorityMin p) i = (p \<le> i_Priority i)"
| "write_cond (WPriorityMax p) i = (i_Priority i \<le> p)"
| "write_cond (WType t) i = (i_IssueType i = t)"
| "write_cond (WNotType t) i = (i_IssueType i \<noteq> t)"
| "write_cond (WAssignee a) i = (i_Assignee i = a)"
| "write_cond WNoAssignee i = (i_Assignee i = [])"
| "write_cond (WLabel l) i = (l \<in> set (i_Labels i))"
| "write_cond WNoLabels i = (i_Labels i = [])"
| "write_cond (WTitle s) i = text_contains (i_Title i) s"
| "write_cond (WDescription s) i = text_contains (i_Description i) s"
| "write_cond WEmptyDescription i = (i_Description i = [])"
| "write_cond (WNotes s) i = text_contains (i_Notes i) s"
| "write_cond (WAfter tf t) i = time_after (Some t) (time_of tf i)"
| "write_cond (WBefore tf t) i = time_before (Some t) (time_of tf i)"
| "write_cond (WDay tf t) i =
     (time_after (Some (start_of_day t)) (time_of tf i) \<and>
      time_before (Some (time_Add (start_of_day t) (24 * ns_per_hour))) (time_of tf i))"
| "write_cond (WID s) i = (i_ID i = s)"
| "write_cond (WIDPrefix s) i = has_prefix (i_ID i) s"
| "write_cond (WSpec s) i = has_prefix (i_SpecID i) s"
| "write_cond (WParent s) i = child_of i s"
| "write_cond (WBool bf b) i = (bool_of bf i = b)"
| "write_cond (WMolType m) i = (i_MolType i = m)"
| "write_cond (WMeta k v) i = metadata_equals (i_Metadata i) k v"
| "write_cond (WHasKey k) i = metadata_has_key (i_Metadata i) k"
| "write_cond (WLabelsAny l ls) i = (\<exists>x \<in> set (l # ls). x \<in> set (i_Labels i))"

lemma list_all_map_set: "list_all P m \<Longrightarrow> P (k, v) \<Longrightarrow> list_all P (map_set k v m)"
  by (auto simp: map_set_def list_all_iff)

lemma time_bounds_None [simp]: "time_after None a" "time_before None a"
  by (simp_all add: time_after_def time_before_def)

lemma exec_write_keeps:
  assumes "filter_matches f i" and "write_cond w i" and "\<And>k. w = WHasKey k \<Longrightarrow> k \<noteq> []"
  shows "filter_matches (exec_write w f) i"
  using assms
proof (cases w)
  case (WAfter tf t)
  with assms show ?thesis by (cases tf) (simp_all add: filter_matches_defs)
next
  case (WBefore tf t)
  with assms show ?thesis by (cases tf) (simp_all add: filter_matches_defs)
next
  case (WDay tf t)
  with assms show ?thesis by (cases tf) (simp_all add: filter_matches_defs)
next
  case (WBool bf b)
  with assms show ?thesis by (cases bf) (simp_all add: filter_matches_defs)
next
  case (WMeta k v)
  with assms show ?thesis by (simp add: filter_matches_defs list_all_map_set)
next
  case WNoLabels
  with assms have "i_Labels i = []" by simp
  with assms WNoLabels show ?thesis
    by (cases "f_LabelsAny f = []") (simp_all add: filter_matches_defs)
next
  case (WLabelsAny l ls)
  with assms(2) have "set (f_LabelsAny f @ l # ls) \<inter> set (i_Labels i) \<noteq> {}" by auto
  with assms(1) WLabelsAny show ?thesis by (simp add: filter_matches_defs)
qed (simp_all add: filter_matches_defs)

section \<open>Slots\<close>

text \<open>What a write overwrites; writes that append to a list or set a flag overwrite nothing.\<close>

datatype filter_slot =
    SStatus | SPriority | SPriorityMin | SPriorityMax | SType | SAssignee | STitle | SDescription
  | SNotes | SAfter time_field | SBefore time_field | SIDs | SIDPrefix | SSpec | SParent
  | SBool bool_field | SMolType | SMeta string | SHasKey | SLabelsAny

fun write_slots :: "filter_write \<Rightarrow> filter_slot list" where
  "write_slots (WStatus s) = [SStatus]"
| "write_slots (WPriority p) = [SPriority]"
| "write_slots (WPriorityMin p) = [SPriorityMin]"
| "write_slots (WPriorityMax p) = [SPriorityMax]"
| "write_slots (WType t) = [SType]"
| "write_slots (WAssignee a) = [SAssignee]"
| "write_slots (WTitle s) = [STitle]"
| "write_slots (WDescription s) = [SDescription]"
| "write_slots (WNotes s) = [SNotes]"
| "write_slots (WAfter tf t) = [SAfter tf]"
| "write_slots (WBefore tf t) = [SBefore tf]"
| "write_slots (WDay tf t) = [SAfter tf, SBefore tf]"
| "write_slots (WID s) = [SIDs]"
| "write_slots (WIDPrefix s) = [SIDPrefix]"
| "write_slots (WSpec s) = [SSpec]"
| "write_slots (WParent s) = [SParent]"
| "write_slots (WBool bf b) = [SBool bf]"
| "write_slots (WMolType m) = [SMolType]"
| "write_slots (WMeta k v) = [SMeta k]"
| "write_slots (WHasKey k) = [SHasKey]"
| "write_slots (WLabelsAny l ls) = [SLabelsAny]"
| "write_slots _ = []"

fun after_slot :: "time_field \<Rightarrow> IssueFilter \<Rightarrow> gotime option" where
  "after_slot TCreated f = f_CreatedAfter f"
| "after_slot TUpdated f = f_UpdatedAfter f"
| "after_slot TClosed f = f_ClosedAfter f"
| "after_slot TStarted f = f_StartedAfter f"

fun before_slot :: "time_field \<Rightarrow> IssueFilter \<Rightarrow> gotime option" where
  "before_slot TCreated f = f_CreatedBefore f"
| "before_slot TUpdated f = f_UpdatedBefore f"
| "before_slot TClosed f = f_ClosedBefore f"
| "before_slot TStarted f = f_StartedBefore f"

fun bool_slot :: "bool_field \<Rightarrow> IssueFilter \<Rightarrow> bool option" where
  "bool_slot Pinned f = f_Pinned f"
| "bool_slot Ephemeral f = f_Ephemeral f"
| "bool_slot Template f = f_IsTemplate f"

fun slot_free :: "filter_slot \<Rightarrow> IssueFilter \<Rightarrow> bool" where
  "slot_free SStatus f = (f_Status f = None)"
| "slot_free SPriority f = (f_Priority f = None)"
| "slot_free SPriorityMin f = (f_PriorityMin f = None)"
| "slot_free SPriorityMax f = (f_PriorityMax f = None)"
| "slot_free SType f = (f_IssueType f = None)"
| "slot_free SAssignee f = (f_Assignee f = None)"
| "slot_free STitle f = (f_TitleContains f = [])"
| "slot_free SDescription f = (f_DescriptionContains f = [])"
| "slot_free SNotes f = (f_NotesContains f = [])"
| "slot_free (SAfter tf) f = (after_slot tf f = None)"
| "slot_free (SBefore tf) f = (before_slot tf f = None)"
| "slot_free SIDs f = (f_IDs f = [])"
| "slot_free SIDPrefix f = (f_IDPrefix f = [])"
| "slot_free SSpec f = (f_SpecIDPrefix f = [])"
| "slot_free SParent f = (f_ParentID f = None)"
| "slot_free (SBool bf) f = (bool_slot bf f = None)"
| "slot_free SMolType f = (f_MolType f = None)"
| "slot_free (SMeta k) f = (k \<notin> fst ` set (f_MetadataFields f))"
| "slot_free SHasKey f = (f_HasMetadataKey f = [])"
| "slot_free SLabelsAny f = (f_LabelsAny f = [])"

lemma zero_filter_free: "slot_free s zero_filter"
proof (cases s)
  case (SAfter tf)
  then show ?thesis by (cases tf) (simp_all add: zero_filter_def)
next
  case (SBefore tf)
  then show ?thesis by (cases tf) (simp_all add: zero_filter_def)
next
  case (SBool bf)
  then show ?thesis by (cases bf) (simp_all add: zero_filter_def)
qed (simp_all add: zero_filter_def)

lemma slot_cases:
  "after_slot tf f = (case tf of TCreated \<Rightarrow> f_CreatedAfter f | TUpdated \<Rightarrow> f_UpdatedAfter f
     | TClosed \<Rightarrow> f_ClosedAfter f | TStarted \<Rightarrow> f_StartedAfter f)"
  "before_slot tf f = (case tf of TCreated \<Rightarrow> f_CreatedBefore f | TUpdated \<Rightarrow> f_UpdatedBefore f
     | TClosed \<Rightarrow> f_ClosedBefore f | TStarted \<Rightarrow> f_StartedBefore f)"
  "bool_slot bf f = (case bf of Pinned \<Rightarrow> f_Pinned f | Ephemeral \<Rightarrow> f_Ephemeral f
     | Template \<Rightarrow> f_IsTemplate f)"
  by (simp_all split: time_field.split bool_field.split)

lemmas slot_splits = time_field.splits bool_field.splits

lemma exec_write_frame:
  assumes "s \<notin> set (write_slots w)" and "slot_free s f"
  shows "slot_free s (exec_write w f)"
proof (cases w)
  case (WAfter tf t)
  with assms show ?thesis by (cases tf; cases s) (auto simp: slot_cases split: slot_splits)
next
  case (WBefore tf t)
  with assms show ?thesis by (cases tf; cases s) (auto simp: slot_cases split: slot_splits)
next
  case (WDay tf t)
  with assms show ?thesis by (cases tf; cases s) (auto simp: slot_cases split: slot_splits)
next
  case (WBool bf b)
  with assms show ?thesis by (cases bf; cases s) (auto simp: slot_cases split: slot_splits)
next
  case (WMeta k v)
  with assms show ?thesis by (cases s) (auto simp: map_set_def slot_cases split: slot_splits)
qed (use assms in \<open>(cases s; auto simp: slot_cases split: slot_splits)+\<close>)

lemma map_set_free: "k \<notin> fst ` set m \<Longrightarrow> map_set k v m = m @ [(k, v)]"
  by (force simp: map_set_def filter_id_conv)

lemma flag_writes_exact:
  "filter_matches (f\<lparr>f_EmptyDescription := True\<rparr>) i \<longleftrightarrow> filter_matches f i \<and> i_Description i = []"
  "filter_matches (f\<lparr>f_NoLabels := True\<rparr>) i \<longleftrightarrow> filter_matches f i \<and> i_Labels i = []"
  "filter_matches (f\<lparr>f_NoAssignee := True\<rparr>) i \<longleftrightarrow> filter_matches f i \<and> i_Assignee i = []"
proof -
  have "match_core (f\<lparr>f_EmptyDescription := True\<rparr>) i = match_core f i"
    "match_labels (f\<lparr>f_EmptyDescription := True\<rparr>) i = match_labels f i"
    "match_times (f\<lparr>f_EmptyDescription := True\<rparr>) i = match_times f i"
    "match_metadata (f\<lparr>f_EmptyDescription := True\<rparr>) i = match_metadata f i"
    "match_text (f\<lparr>f_EmptyDescription := True\<rparr>) i \<longleftrightarrow> match_text f i \<and> i_Description i = []"
    by (auto simp: match_core_def match_labels_def match_times_def match_metadata_def match_text_def)
  then show "filter_matches (f\<lparr>f_EmptyDescription := True\<rparr>) i \<longleftrightarrow> filter_matches f i \<and> i_Description i = []"
    by (auto simp: filter_matches_def)
  have "match_core (f\<lparr>f_NoLabels := True\<rparr>) i = match_core f i"
    "match_text (f\<lparr>f_NoLabels := True\<rparr>) i = match_text f i"
    "match_times (f\<lparr>f_NoLabels := True\<rparr>) i = match_times f i"
    "match_metadata (f\<lparr>f_NoLabels := True\<rparr>) i = match_metadata f i"
    "match_labels (f\<lparr>f_NoLabels := True\<rparr>) i \<longleftrightarrow> match_labels f i \<and> i_Labels i = []"
    by (auto simp: match_core_def match_labels_def match_times_def match_metadata_def match_text_def)
  then show "filter_matches (f\<lparr>f_NoLabels := True\<rparr>) i \<longleftrightarrow> filter_matches f i \<and> i_Labels i = []"
    by (auto simp: filter_matches_def)
  have "match_text (f\<lparr>f_NoAssignee := True\<rparr>) i = match_text f i"
    "match_labels (f\<lparr>f_NoAssignee := True\<rparr>) i = match_labels f i"
    "match_times (f\<lparr>f_NoAssignee := True\<rparr>) i = match_times f i"
    "match_metadata (f\<lparr>f_NoAssignee := True\<rparr>) i = match_metadata f i"
    "match_core (f\<lparr>f_NoAssignee := True\<rparr>) i \<longleftrightarrow> match_core f i \<and> i_Assignee i = []"
    by (auto simp: match_core_def match_labels_def match_times_def match_metadata_def match_text_def)
  then show "filter_matches (f\<lparr>f_NoAssignee := True\<rparr>) i \<longleftrightarrow> filter_matches f i \<and> i_Assignee i = []"
    by (auto simp: filter_matches_def)
qed

text \<open>On free slots a write adds exactly its condition.\<close>

lemma exec_write_exact:
  assumes "list_all (\<lambda>s. slot_free s f) (write_slots w)" and "filter_matches (exec_write w f) i"
    and "\<And>k. w = WHasKey k \<Longrightarrow> k \<noteq> []"
  shows "filter_matches f i \<and> write_cond w i"
proof (cases w)
  case (WAfter tf t)
  with assms show ?thesis by (cases tf) (simp_all add: filter_matches_defs)
next
  case (WBefore tf t)
  with assms show ?thesis by (cases tf) (simp_all add: filter_matches_defs)
next
  case (WDay tf t)
  with assms show ?thesis by (cases tf) (simp_all add: filter_matches_defs)
next
  case (WBool bf b)
  with assms show ?thesis by (cases bf) (simp_all add: filter_matches_defs)
next
  case (WMeta k v)
  with assms show ?thesis by (simp add: filter_matches_defs map_set_free)
next
  case WEmptyDescription
  with assms(2) flag_writes_exact(1) show ?thesis by simp
next
  case WNoLabels
  with assms(2) flag_writes_exact(2) show ?thesis by simp
next
  case WNoAssignee
  with assms(2) flag_writes_exact(3) show ?thesis by simp
next
  case (WLabelsAny l ls)
  then have "filter_matches f i" "set (l # ls) \<inter> set (i_Labels i) \<noteq> {}"
    using assms(1, 2) by (simp_all add: filter_matches_defs)
  then show ?thesis using WLabelsAny by auto
qed (use assms in \<open>simp_all add: filter_matches_defs\<close>)

section \<open>The write of a comparison\<close>

definition time_fields :: "time_field \<Rightarrow> string list" where
  "time_fields tf = (case tf of TCreated \<Rightarrow> [''created'', ''created_at''] | TUpdated \<Rightarrow> [''updated'', ''updated_at'']
     | TClosed \<Rightarrow> [''closed'', ''closed_at''] | TStarted \<Rightarrow> [''started'', ''started_at''])"

definition bool_field_name :: "bool_field \<Rightarrow> string" where
  "bool_field_name bf = (case bf of Pinned \<Rightarrow> ''pinned'' | Ephemeral \<Rightarrow> ''ephemeral'' | Template \<Rightarrow> ''template'')"

definition meta_field :: "ComparisonNode \<Rightarrow> bool" where
  "meta_field c \<longleftrightarrow> has_prefix (c_Field c) metadata_prefix"

inductive writes :: "Evaluator \<Rightarrow> ComparisonNode \<Rightarrow> filter_write \<Rightarrow> bool" for e c where
  w_status_eq: "c_Field c = ''status'' \<Longrightarrow> c_Op c = OpEquals \<Longrightarrow> writes e c (WStatus (to_lower (c_Value c)))"
| w_status_ne: "c_Field c = ''status'' \<Longrightarrow> c_Op c = OpNotEquals \<Longrightarrow> writes e c (WNotStatus (to_lower (c_Value c)))"
| w_prio_eq: "c_Field c = ''priority'' \<Longrightarrow> atoi (c_Value c) = Some p \<Longrightarrow> c_Op c = OpEquals \<Longrightarrow> writes e c (WPriority p)"
| w_prio_lt: "c_Field c = ''priority'' \<Longrightarrow> atoi (c_Value c) = Some p \<Longrightarrow> c_Op c = OpLess \<Longrightarrow> writes e c (WPriorityMax (p - 1))"
| w_prio_le: "c_Field c = ''priority'' \<Longrightarrow> atoi (c_Value c) = Some p \<Longrightarrow> c_Op c = OpLessEq \<Longrightarrow> writes e c (WPriorityMax p)"
| w_prio_gt: "c_Field c = ''priority'' \<Longrightarrow> atoi (c_Value c) = Some p \<Longrightarrow> c_Op c = OpGreater \<Longrightarrow> writes e c (WPriorityMin (p + 1))"
| w_prio_ge: "c_Field c = ''priority'' \<Longrightarrow> atoi (c_Value c) = Some p \<Longrightarrow> c_Op c = OpGreaterEq \<Longrightarrow> writes e c (WPriorityMin p)"
| w_type_eq: "c_Field c = ''type'' \<Longrightarrow> c_Op c = OpEquals \<Longrightarrow> writes e c (WType (to_lower (c_Value c)))"
| w_type_ne: "c_Field c = ''type'' \<Longrightarrow> c_Op c = OpNotEquals \<Longrightarrow> writes e c (WNotType (to_lower (c_Value c)))"
| w_assignee_none: "c_Field c = ''assignee'' \<Longrightarrow> c_Op c = OpEquals \<Longrightarrow> is_none_value (c_Value c) \<Longrightarrow> writes e c WNoAssignee"
| w_assignee: "c_Field c = ''assignee'' \<Longrightarrow> c_Op c = OpEquals \<Longrightarrow> \<not> is_none_value (c_Value c) \<Longrightarrow> writes e c (WAssignee (c_Value c))"
| w_label_none: "c_Field c \<in> {''label'', ''labels''} \<Longrightarrow> c_Op c = OpEquals \<Longrightarrow> is_none_value (c_Value c) \<Longrightarrow> writes e c WNoLabels"
| w_label: "c_Field c \<in> {''label'', ''labels''} \<Longrightarrow> c_Op c = OpEquals \<Longrightarrow> \<not> is_none_value (c_Value c) \<Longrightarrow> writes e c (WLabel (c_Value c))"
| w_title: "c_Field c = ''title'' \<Longrightarrow> c_Op c = OpEquals \<Longrightarrow> writes e c (WTitle (c_Value c))"
| w_desc_none: "c_Field c \<in> {''description'', ''desc''} \<Longrightarrow> c_Op c = OpEquals \<Longrightarrow> is_none_value (c_Value c) \<Longrightarrow> writes e c WEmptyDescription"
| w_desc: "c_Field c \<in> {''description'', ''desc''} \<Longrightarrow> c_Op c = OpEquals \<Longrightarrow> \<not> is_none_value (c_Value c) \<Longrightarrow> writes e c (WDescription (c_Value c))"
| w_notes: "c_Field c = ''notes'' \<Longrightarrow> c_Op c = OpEquals \<Longrightarrow> writes e c (WNotes (c_Value c))"
| w_time_eq: "c_Field c \<in> set (time_fields tf) \<Longrightarrow> tf \<in> {TCreated, TUpdated} \<Longrightarrow> parseTimeValue e c = Inr t \<Longrightarrow>
    c_Op c = OpEquals \<Longrightarrow> writes e c (WDay tf t)"
| w_time_gt: "c_Field c \<in> set (time_fields tf) \<Longrightarrow> parseTimeValue e c = Inr t \<Longrightarrow>
    c_Op c \<in> {OpGreater, OpGreaterEq} \<Longrightarrow> writes e c (WAfter tf t)"
| w_time_lt: "c_Field c \<in> set (time_fields tf) \<Longrightarrow> parseTimeValue e c = Inr t \<Longrightarrow>
    c_Op c = OpLess \<Longrightarrow> writes e c (WBefore tf t)"
| w_time_le: "c_Field c \<in> set (time_fields tf) \<Longrightarrow> parseTimeValue e c = Inr t \<Longrightarrow>
    c_Op c = OpLessEq \<Longrightarrow> writes e c (WBefore tf (end_of_day t))"
| w_id_prefix: "c_Field c = ''id'' \<Longrightarrow> c_Op c = OpEquals \<Longrightarrow> has_suffix (c_Value c) ''*'' \<Longrightarrow>
    writes e c (WIDPrefix (trim_suffix (c_Value c) ''*''))"
| w_id_eq: "c_Field c = ''id'' \<Longrightarrow> c_Op c = OpEquals \<Longrightarrow> \<not> has_suffix (c_Value c) ''*'' \<Longrightarrow> writes e c (WID (c_Value c))"
| w_spec_prefix: "c_Field c \<in> {''spec'', ''spec_id''} \<Longrightarrow> c_Op c = OpEquals \<Longrightarrow> has_suffix (c_Value c) ''*'' \<Longrightarrow>
    writes e c (WSpec (trim_suffix (c_Value c) ''*''))"
| w_spec_eq: "c_Field c \<in> {''spec'', ''spec_id''} \<Longrightarrow> c_Op c = OpEquals \<Longrightarrow> \<not> has_suffix (c_Value c) ''*'' \<Longrightarrow>
    writes e c (WSpec (c_Value c))"
| w_parent: "c_Field c = ''parent'' \<Longrightarrow> c_Op c = OpEquals \<Longrightarrow> writes e c (WParent (c_Value c))"
| w_flag: "c_Field c = bool_field_name bf \<Longrightarrow> c_Op c = OpEquals \<Longrightarrow> bool_value (c_Value c) = Some b \<Longrightarrow> writes e c (WBool bf b)"
| w_mol_type: "c_Field c = ''mol_type'' \<Longrightarrow> c_Op c = OpEquals \<Longrightarrow> writes e c (WMolType (to_lower (c_Value c)))"
| w_meta: "meta_field c \<Longrightarrow> c_Op c = OpEquals \<Longrightarrow> ValidateMetadataKey (trim_prefix (c_Field c) metadata_prefix) \<Longrightarrow>
    writes e c (WMeta (trim_prefix (c_Field c) metadata_prefix) (c_Value c))"
| w_has_key: "c_Field c = ''has_metadata_key'' \<Longrightarrow> c_Op c = OpEquals \<Longrightarrow> ValidateMetadataKey (c_Value c) \<Longrightarrow> writes e c (WHasKey (c_Value c))"

lemmas apply_time_defs = applyCreatedFilter_def applyUpdatedFilter_def applyClosedFilter_def
  applyStartedFilter_def bind_time_def

text \<open>Each function that succeeds performs the write of its comparison.\<close>

lemma status_writes:
  "c_Field c = ''status'' \<Longrightarrow> applyStatusFilter c f = Inr f' \<Longrightarrow> \<exists>w. writes e c w \<and> f' = exec_write w f"
  by (rule exI [of _ "if c_Op c = OpEquals then WStatus (to_lower (c_Value c))
      else WNotStatus (to_lower (c_Value c))"])
    (auto simp: applyStatusFilter_def Let_def intro: writes.intros)

lemma priority_writes:
  assumes "c_Field c = ''priority''" and "applyPriorityFilter c f = Inr f'"
  shows "\<exists>w. writes e c w \<and> f' = exec_write w f"
proof -
  obtain p where p: "atoi (c_Value c) = Some p"
    using assms(2) by (auto simp: applyPriorityFilter_def split: option.splits)
  show ?thesis
    using assms p by (intro exI [of _ "case c_Op c of OpEquals \<Rightarrow> WPriority p | OpLess \<Rightarrow> WPriorityMax (p - 1)
        | OpLessEq \<Rightarrow> WPriorityMax p | OpGreater \<Rightarrow> WPriorityMin (p + 1) | _ \<Rightarrow> WPriorityMin p"])
      (auto simp: applyPriorityFilter_def intro: writes.intros split: ComparisonOp.splits)
qed

lemma type_writes:
  "c_Field c = ''type'' \<Longrightarrow> applyTypeFilter c f = Inr f' \<Longrightarrow> \<exists>w. writes e c w \<and> f' = exec_write w f"
  by (rule exI [of _ "if c_Op c = OpEquals then WType (to_lower (c_Value c))
      else WNotType (to_lower (c_Value c))"])
    (auto simp: applyTypeFilter_def Let_def intro: writes.intros)

lemma assignee_writes:
  "c_Field c = ''assignee'' \<Longrightarrow> applyAssigneeFilter c f = Inr f' \<Longrightarrow> \<exists>w. writes e c w \<and> f' = exec_write w f"
  by (rule exI [of _ "if is_none_value (c_Value c) then WNoAssignee else WAssignee (c_Value c)"])
    (auto simp: applyAssigneeFilter_def intro: writes.intros)

lemma label_writes:
  "c_Field c \<in> {''label'', ''labels''} \<Longrightarrow> applyLabelFilter c f = Inr f' \<Longrightarrow> \<exists>w. writes e c w \<and> f' = exec_write w f"
  by (rule exI [of _ "if is_none_value (c_Value c) then WNoLabels else WLabel (c_Value c)"])
    (auto simp: applyLabelFilter_def intro: writes.intros)

lemma title_writes:
  "c_Field c = ''title'' \<Longrightarrow> applyTitleFilter c f = Inr f' \<Longrightarrow> \<exists>w. writes e c w \<and> f' = exec_write w f"
  by (rule exI [of _ "WTitle (c_Value c)"]) (auto simp: applyTitleFilter_def Let_def intro: writes.intros)

lemma notes_writes:
  "c_Field c = ''notes'' \<Longrightarrow> applyNotesFilter c f = Inr f' \<Longrightarrow> \<exists>w. writes e c w \<and> f' = exec_write w f"
  by (rule exI [of _ "WNotes (c_Value c)"]) (auto simp: applyNotesFilter_def Let_def intro: writes.intros)

lemma description_writes:
  "c_Field c \<in> {''description'', ''desc''} \<Longrightarrow> applyDescriptionFilter c f = Inr f' \<Longrightarrow> \<exists>w. writes e c w \<and> f' = exec_write w f"
  by (rule exI [of _ "if is_none_value (c_Value c) then WEmptyDescription
      else WDescription (c_Value c)"]) (auto simp: applyDescriptionFilter_def Let_def intro: writes.intros)

lemma id_writes:
  "c_Field c = ''id'' \<Longrightarrow> applyIDFilter c f = Inr f' \<Longrightarrow> \<exists>w. writes e c w \<and> f' = exec_write w f"
  by (rule exI [of _ "if has_suffix (c_Value c) ''*'' then WIDPrefix (trim_suffix (c_Value c) ''*'')
      else WID (c_Value c)"])
    (auto simp: applyIDFilter_def intro: writes.intros)

lemma spec_writes:
  "c_Field c \<in> {''spec'', ''spec_id''} \<Longrightarrow> applySpecFilter c f = Inr f' \<Longrightarrow> \<exists>w. writes e c w \<and> f' = exec_write w f"
  by (rule exI [of _ "WSpec (if has_suffix (c_Value c) ''*'' then trim_suffix (c_Value c) ''*''
      else c_Value c)"])
    (auto simp: applySpecFilter_def intro: writes.intros)

lemma parent_writes:
  "c_Field c = ''parent'' \<Longrightarrow> applyParentFilter c f = Inr f' \<Longrightarrow> \<exists>w. writes e c w \<and> f' = exec_write w f"
  by (rule exI [of _ "WParent (c_Value c)"]) (auto simp: applyParentFilter_def Let_def intro: writes.intros)

lemma mol_type_writes:
  "c_Field c = ''mol_type'' \<Longrightarrow> applyMolTypeFilter c f = Inr f' \<Longrightarrow> \<exists>w. writes e c w \<and> f' = exec_write w f"
  by (rule exI [of _ "WMolType (to_lower (c_Value c))"]) (auto simp: applyMolTypeFilter_def Let_def intro: writes.intros)

lemma metadata_writes:
  "meta_field c \<Longrightarrow> applyMetadataFilter c f = Inr f' \<Longrightarrow> \<exists>w. writes e c w \<and> f' = exec_write w f"
  by (rule exI [of _ "WMeta (trim_prefix (c_Field c) metadata_prefix) (c_Value c)"]) (auto simp: applyMetadataFilter_def Let_def intro: writes.intros)

lemma has_key_writes:
  "c_Field c = ''has_metadata_key'' \<Longrightarrow> applyHasMetadataKeyFilter c f = Inr f' \<Longrightarrow> \<exists>w. writes e c w \<and> f' = exec_write w f"
  by (rule exI [of _ "WHasKey (c_Value c)"]) (auto simp: applyHasMetadataKeyFilter_def Let_def intro: writes.intros)

lemma bool_writes:
  assumes "c_Field c = bool_field_name bf" and "applyBoolFilter c f bf = Inr f'"
  shows "\<exists>w. writes e c w \<and> f' = exec_write w f"
proof -
  obtain b where "bool_value (c_Value c) = Some b" "c_Op c = OpEquals" "f' = set_bool bf b f"
    using assms(2) by (auto simp: applyBoolFilter_def split: option.splits)
  with assms(1) show ?thesis by (intro exI [of _ "WBool bf b"]) (auto intro: writes.intros)
qed

text \<open>The four time fields share one shape.\<close>

lemma time_writes:
  assumes "c_Field c \<in> set (time_fields tf)"
    and "(case tf of TCreated \<Rightarrow> applyCreatedFilter e c f | TUpdated \<Rightarrow> applyUpdatedFilter e c f
          | TClosed \<Rightarrow> applyClosedFilter e c f | TStarted \<Rightarrow> applyStartedFilter e c f) = Inr f'"
  shows "\<exists>w. writes e c w \<and> f' = exec_write w f"
proof -
  obtain t where t: "parseTimeValue e c = Inr t"
    using assms(2) by (auto simp: apply_time_defs split: time_field.splits sum.splits)
  show ?thesis
    using assms t by (intro exI [of _ "case c_Op c of OpEquals \<Rightarrow> WDay tf t | OpLess \<Rightarrow> WBefore tf t
        | OpLessEq \<Rightarrow> WBefore tf (end_of_day t) | _ \<Rightarrow> WAfter tf t"])
      (cases tf; cases "c_Op c"; auto simp: apply_time_defs Let_def intro: writes.intros)
qed

lemmas created_writes = time_writes [where tf = TCreated, unfolded time_fields_def, simplified]
lemmas updated_writes = time_writes [where tf = TUpdated, unfolded time_fields_def, simplified]
lemmas closed_writes = time_writes [where tf = TClosed, unfolded time_fields_def, simplified]
lemmas started_writes = time_writes [where tf = TStarted, unfolded time_fields_def, simplified]
lemmas pinned_writes = bool_writes [where bf = Pinned, unfolded bool_field_name_def, simplified]
lemmas ephemeral_writes = bool_writes [where bf = Ephemeral, unfolded bool_field_name_def, simplified]
lemmas template_writes = bool_writes [where bf = Template, unfolded bool_field_name_def, simplified]

lemma if_elim:
  assumes "(if b then x else y) = z"
  obtains "b" "x = z" | "\<not> b" "y = z"
  using assms by (cases b) auto

lemma applyComparison_writes:
  assumes "applyComparison e c f = Inr f'"
  shows "\<exists>w. writes e c w \<and> f' = exec_write w f"
  using assms unfolding applyComparison_def Let_def applyOwnerFilter_def
  by (elim if_elim)
    (erule (1) status_writes | erule (1) priority_writes | erule (1) type_writes | erule (1) assignee_writes
      | erule (1) label_writes [simplified] | erule (1) title_writes
      | erule (1) description_writes [simplified] | erule (1) notes_writes | erule (1) created_writes
      | erule (1) updated_writes | erule (1) closed_writes | erule (1) started_writes
      | erule (1) id_writes | erule (1) spec_writes [simplified] | erule (1) parent_writes
      | erule (1) pinned_writes | erule (1) ephemeral_writes | erule (1) template_writes
      | erule (1) mol_type_writes | erule (1) has_key_writes
      | erule (1) metadata_writes [unfolded meta_field_def] | simp)+

section \<open>Writes and predicates\<close>

definition time_field_names :: "string list" where
  "time_field_names = concat (map time_fields [TCreated, TUpdated, TClosed, TStarted])"

text \<open>
  When the filter asks for no more than the predicate. Assignees and labels are compared exactly by
  the filter and ignoring case by the predicate; time bounds are exact for the two strict orders
  only; a metadata key with the value \<open>null\<close> is present for the predicate and absent for the filter.
\<close>

definition comp_safe :: "ComparisonNode \<Rightarrow> Issue \<Rightarrow> bool" where
  "comp_safe c i \<longleftrightarrow>
     (c_Field c = ''assignee'' \<and> equal_fold (i_Assignee i) (c_Value c) \<longrightarrow>
        is_none_value (c_Value c) \<or> i_Assignee i = c_Value c) \<and>
     (c_Field c \<in> {''label'', ''labels''} \<and> \<not> is_none_value (c_Value c) \<longrightarrow>
        list_all (\<lambda>l. equal_fold l (c_Value c) \<longrightarrow> l = c_Value c) (i_Labels i)) \<and>
     (c_Field c \<in> set time_field_names \<longrightarrow> c_Op c \<in> {OpLess, OpGreater}) \<and>
     (c_Field c = ''has_metadata_key'' \<longrightarrow>
        opt_holds (\<lambda>raw. \<not> json_is_null raw) (metadata_value (i_Metadata i) (c_Value c)))"

text \<open>The filter also reads a spec without wildcard as a prefix.\<close>

definition comp_exact :: "ComparisonNode \<Rightarrow> Issue \<Rightarrow> bool" where
  "comp_exact c i \<longleftrightarrow> comp_safe c i \<and>
     (c_Field c \<in> {''spec'', ''spec_id''} \<and> \<not> has_suffix (c_Value c) ''*'' \<and>
        has_prefix (i_SpecID i) (c_Value c) \<longrightarrow> i_SpecID i = c_Value c)"

lemma buildComparisonPredicate_meta:
  "meta_field c \<Longrightarrow> buildComparisonPredicate e c = buildMetadataPredicate c"
  by (auto simp: meta_field_def buildComparisonPredicate_def Let_def metadata_prefix_def has_prefix_def)

lemmas predicate_defs = buildComparisonPredicate_def buildStatusPredicate_def
  buildPriorityPredicate_def buildTypePredicate_def buildAssigneePredicate_def
  buildLabelPredicate_def buildTitlePredicate_def buildDescriptionPredicate_def
  buildNotesPredicate_def buildIDPredicate_def buildSpecPredicate_def buildBoolPredicate_def
  buildHasMetadataKeyPredicate_def eq_or_not_def Let_def

lemmas time_predicate_defs = buildComparisonPredicate_def buildCreatedPredicate_def
  buildUpdatedPredicate_def buildClosedPredicate_def buildStartedPredicate_def
  buildTimePredicate_def bind_time_def Let_def

lemma has_prefix_self: "has_prefix s s" by (simp add: has_prefix_def)

text \<open>On the fields other than times, labels and metadata the predicate is the condition of the write,
  given \<open>comp_exact\<close>.\<close>

lemma time_write_cond:
  assumes "c_Field c \<in> set (time_fields tf)" and "parseTimeValue e c = Inr t"
    and "buildComparisonPredicate e c = Inr P"
  shows "P i \<longleftrightarrow> (case time_of tf i of None \<Rightarrow> False | Some a \<Rightarrow> compareTime (c_Op c) a t)"
  using assms by (cases tf) (auto simp: time_fields_def time_predicate_defs split: option.split)

lemma time_field_names_iff: "x \<in> set time_field_names \<longleftrightarrow> (\<exists>tf. x \<in> set (time_fields tf))"
proof
  assume "\<exists>tf. x \<in> set (time_fields tf)"
  then obtain tf where "x \<in> set (time_fields tf)" ..
  then show "x \<in> set time_field_names" by (cases tf) (simp_all add: time_field_names_def)
qed (auto simp: time_field_names_def)

lemma has_key_cond:
  "ValidateMetadataKey k \<Longrightarrow> metadata_has_key md k \<longleftrightarrow>
     metadata_value md k \<noteq> None \<and> opt_holds (\<lambda>raw. \<not> json_is_null raw) (metadata_value md k)"
  by (auto simp: metadata_has_key_def split: option.split)

lemma label_cond:
  assumes "list_all (\<lambda>l. equal_fold l v \<longrightarrow> l = v) ls"
  shows "list_ex (\<lambda>l. equal_fold l v) ls \<longleftrightarrow> v \<in> set ls"
  using assms by (auto simp: list_ex_iff list_all_iff equal_fold_def)

lemma metadata_cond:
  "(if length md = 0 then False
    else case json_members md of
      None \<Rightarrow> False
    | Some ms \<Rightarrow>
        (case json_lookup ms key of
           None \<Rightarrow> False
         | Some raw \<Rightarrow>
             (case json_string [] raw of Some s \<Rightarrow> s = v | None \<Rightarrow> trim_quotes raw = v)))
   \<longleftrightarrow> metadata_equals md key v"
  by (cases "md = []"; cases "json_members md")
    (simp_all add: metadata_equals_def metadata_value_def split: option.split)

lemma comp_safeD:
  assumes "comp_safe c i"
  shows "c_Field c \<in> set (time_fields tf) \<Longrightarrow> c_Op c \<in> {OpLess, OpGreater}"
    and "c_Field c = ''assignee'' \<Longrightarrow> \<not> is_none_value (c_Value c) \<Longrightarrow>
      equal_fold (i_Assignee i) (c_Value c) \<longleftrightarrow> i_Assignee i = c_Value c"
    and "c_Field c \<in> {''label'', ''labels''} \<Longrightarrow> \<not> is_none_value (c_Value c) \<Longrightarrow>
      list_ex (\<lambda>l. equal_fold l (c_Value c)) (i_Labels i) \<longleftrightarrow> c_Value c \<in> set (i_Labels i)"
    and "c_Field c = ''has_metadata_key'' \<Longrightarrow>
      opt_holds (\<lambda>raw. \<not> json_is_null raw) (metadata_value (i_Metadata i) (c_Value c))"
proof -
  show "c_Field c \<in> set (time_fields tf) \<Longrightarrow> c_Op c \<in> {OpLess, OpGreater}"
    using assms time_field_names_iff unfolding comp_safe_def by blast
  show "c_Field c = ''assignee'' \<Longrightarrow> \<not> is_none_value (c_Value c) \<Longrightarrow>
      equal_fold (i_Assignee i) (c_Value c) \<longleftrightarrow> i_Assignee i = c_Value c"
    using assms unfolding comp_safe_def equal_fold_def by metis
  show "c_Field c \<in> {''label'', ''labels''} \<Longrightarrow> \<not> is_none_value (c_Value c) \<Longrightarrow>
      list_ex (\<lambda>l. equal_fold l (c_Value c)) (i_Labels i) \<longleftrightarrow> c_Value c \<in> set (i_Labels i)"
    using assms label_cond unfolding comp_safe_def by blast
  show "c_Field c = ''has_metadata_key'' \<Longrightarrow>
      opt_holds (\<lambda>raw. \<not> json_is_null raw) (metadata_value (i_Metadata i) (c_Value c))"
    using assms unfolding comp_safe_def by blast
qed

lemma key_cond:
  "(if length md = 0 then False
    else case json_members md of None \<Rightarrow> False | Some ms \<Rightarrow> json_lookup ms key \<noteq> None)
   \<longleftrightarrow> metadata_value md key \<noteq> None"
  by (simp add: metadata_value_def split: option.split)

lemma no_metadata_prefix [simp]:
  "\<not> has_prefix ''parent'' metadata_prefix" "\<not> has_prefix ''mol_type'' metadata_prefix"
  by code_simp+

lemma writes_exact:
  assumes "writes e c w" and "buildComparisonPredicate e c = Inr P" and "comp_exact c i"
  shows "P i \<longleftrightarrow> write_cond w i"
proof -
  have safe: "comp_safe c i" using assms(3) by (simp add: comp_exact_def)
  note safe = comp_safeD [OF this]
  show ?thesis
    using assms(1)
  proof cases
    case w_meta
    then have "buildMetadataPredicate c =
        Inr (\<lambda>i. metadata_equals (i_Metadata i) (trim_prefix (c_Field c) metadata_prefix) (c_Value c))"
      unfolding buildMetadataPredicate_def Let_def metadata_cond by simp
    with w_meta assms(2) show ?thesis by (auto simp: buildComparisonPredicate_meta)
  next
    case (w_time_gt tf t)
    have "c_Op c = OpGreater" using safe(1) [OF w_time_gt(2)] w_time_gt(4) by auto
    then show ?thesis
      using time_write_cond [OF w_time_gt(2,3) assms(2)]
      by (simp add: w_time_gt(1) time_after_def split: option.split)
  next
    case (w_time_lt tf t)
    then show ?thesis
      using time_write_cond [OF w_time_lt(2,3) assms(2)]
      by (simp add: time_before_def split: option.split)
  next
    case (w_time_le tf t)
    then show ?thesis using safe(1) [OF w_time_le(2)] by simp
  next
    case (w_time_eq tf t)
    then show ?thesis using safe(1) [OF w_time_eq(2)] by simp
  next
    case (w_flag bf b)
    then show ?thesis
      using assms(2) by (cases bf) (auto simp: predicate_defs bool_field_name_def)
  next
    case w_has_key
    then have "buildHasMetadataKeyPredicate c = Inr (\<lambda>i. metadata_value (i_Metadata i) (c_Value c) \<noteq> None)"
      unfolding buildHasMetadataKeyPredicate_def key_cond by simp
    with w_has_key assms(2) safe(4) show ?thesis
      by (auto simp: buildComparisonPredicate_def has_key_cond)
  next
    case w_label
    then show ?thesis using assms(2) safe(3) by (auto simp: predicate_defs)
  next
    case w_assignee
    then show ?thesis using assms(2) safe(2) by (auto simp: predicate_defs)
  next
    case w_spec_eq
    then show ?thesis
      using assms(2,3) by (auto simp: predicate_defs comp_exact_def has_prefix_self)
  qed (use assms(2) in \<open>auto simp: predicate_defs text_contains_def\<close>)
qed

lemma writes_safe:
  assumes "writes e c w" and "buildComparisonPredicate e c = Inr P" and "comp_safe c i" and "P i"
  shows "write_cond w i"
proof (cases "comp_exact c i")
  case True
  then show ?thesis using writes_exact assms by blast
next
  case False
  then have f: "c_Field c \<in> {''spec'', ''spec_id''}" and v: "\<not> has_suffix (c_Value c) ''*''"
    and p: "has_prefix (i_SpecID i) (c_Value c)"
    using assms(3) by (auto simp: comp_exact_def)
  from assms(1) have "w = WSpec (c_Value c)"
    using f v by cases (auto simp: time_fields_def bool_field_name_def meta_field_def metadata_prefix_def
        has_prefix_def split: time_field.splits bool_field.splits)
  with p show ?thesis by simp
qed

section \<open>Literals\<close>

text \<open>The parts of a conjunction that can reach the filter: a comparison, a negated one, or alternatives.\<close>

definition compile_lit :: "Evaluator \<Rightarrow> Node \<Rightarrow> IssueFilter \<Rightarrow> eval_error + IssueFilter" where
  "compile_lit e n f =
     (case n of
        Comparison c \<Rightarrow> applyComparison e c f
      | NotNode m \<Rightarrow> applyNot n f
      | OrNode l r \<Rightarrow> buildFilter e n f
      | _ \<Rightarrow> Inl OrUnsupported)"

fun comparisons :: "Node \<Rightarrow> ComparisonNode list" where
  "comparisons (Comparison c) = [c]"
| "comparisons (AndNode l r) = comparisons l @ comparisons r"
| "comparisons (OrNode l r) = comparisons l @ comparisons r"
| "comparisons (NotNode n) = comparisons n"

text \<open>
  Alternatives of labels become one list of wanted labels. A word for none in it is looked up as a label by the
  filter, while the predicate asks for an issue without labels.
\<close>

definition labels_safe :: "Node \<Rightarrow> Issue \<Rightarrow> bool" where
  "labels_safe n i \<longleftrightarrow> list_all (\<lambda>c. \<not> is_none_value (c_Value c) \<and> comp_safe c i) (comparisons n)"

fun lit_safe :: "Node \<Rightarrow> Issue \<Rightarrow> bool" where
  "lit_safe (Comparison c) i = comp_safe c i"
| "lit_safe (OrNode l r) i = labels_safe (OrNode l r) i"
| "lit_safe _ i = True"

fun lit_exact :: "Node \<Rightarrow> Issue \<Rightarrow> bool" where
  "lit_exact (Comparison c) i = comp_exact c i"
| "lit_exact (OrNode l r) i = labels_safe (OrNode l r) i"
| "lit_exact _ i = True"

definition comp_slots :: "ComparisonNode \<Rightarrow> filter_slot list" where
  "comp_slots c =
     (let field = c_Field c; op = c_Op c; v = c_Value c;
          time = (\<lambda>tf. if op = OpEquals then [SAfter tf, SBefore tf]
                       else if op \<in> {OpGreater, OpGreaterEq} then [SAfter tf] else [SBefore tf]) in
      if field = ''status'' then (if op = OpEquals then [SStatus] else [])
      else if field = ''priority'' then
        (if op = OpEquals then [SPriority] else if op \<in> {OpLess, OpLessEq} then [SPriorityMax] else [SPriorityMin])
      else if field = ''type'' then (if op = OpEquals then [SType] else [])
      else if field = ''assignee'' then (if is_none_value v then [] else [SAssignee])
      else if field \<in> {''label'', ''labels''} then []
      else if field = ''title'' then [STitle]
      else if field \<in> {''description'', ''desc''} then (if is_none_value v then [] else [SDescription])
      else if field = ''notes'' then [SNotes]
      else if field \<in> {''created'', ''created_at''} then time TCreated
      else if field \<in> {''updated'', ''updated_at''} then time TUpdated
      else if field \<in> {''closed'', ''closed_at''} then time TClosed
      else if field \<in> {''started'', ''started_at''} then time TStarted
      else if field = ''id'' then (if has_suffix v ''*'' then [SIDPrefix] else [SIDs])
      else if field \<in> {''spec'', ''spec_id''} then [SSpec]
      else if field = ''parent'' then [SParent]
      else if field = ''pinned'' then [SBool Pinned]
      else if field = ''ephemeral'' then [SBool Ephemeral]
      else if field = ''template'' then [SBool Template]
      else if field = ''mol_type'' then [SMolType]
      else if field = ''has_metadata_key'' then [SHasKey]
      else [SMeta (trim_prefix field metadata_prefix)])"

lemma comp_slots_meta: "meta_field c \<Longrightarrow> comp_slots c = [SMeta (trim_prefix (c_Field c) metadata_prefix)]"
  by (auto simp: meta_field_def comp_slots_def Let_def metadata_prefix_def has_prefix_def)

lemma writes_slots: "writes e c w \<Longrightarrow> comp_slots c = write_slots w"
proof (induction rule: writes.induct)
  case (w_time_eq tf t)
  then show ?case by (cases tf) (auto simp: time_fields_def comp_slots_def)
next
  case (w_time_gt tf t)
  then show ?case by (cases tf) (auto simp: time_fields_def comp_slots_def)
next
  case (w_time_lt tf t)
  then show ?case by (cases tf) (auto simp: time_fields_def comp_slots_def)
next
  case (w_time_le tf t)
  then show ?case by (cases tf) (auto simp: time_fields_def comp_slots_def)
next
  case (w_flag bf b)
  then show ?case by (cases bf) (simp_all add: bool_field_name_def comp_slots_def)
next
  case w_meta
  then show ?case by (simp add: comp_slots_meta)
qed (auto simp: comp_slots_def)

lemma writes_key: "writes e c (WHasKey k) \<Longrightarrow> k \<noteq> []"
  by (erule writes.cases) (auto simp: ValidateMetadataKey_def)

fun lit_slots :: "Node \<Rightarrow> filter_slot list" where
  "lit_slots (Comparison c) = comp_slots c"
| "lit_slots (OrNode l r) = [SLabelsAny]"
| "lit_slots _ = []"

text \<open>A negated status or type is one write as well.\<close>

lemma applyNot_writes:
  assumes "applyNot (NotNode m) f = Inr f'" and "buildPredicate e (NotNode m) = Inr P"
  obtains w where "f' = exec_write w f" "write_slots w = []" "write_cond w = P" "\<And>k. w \<noteq> WHasKey k"
proof -
  obtain c where m: "m = Comparison c" using assms(1) by (cases m) auto
  have s: "c_Field c = ''status'' \<Longrightarrow> f' = exec_write (WNotStatus (to_lower (c_Value c))) f \<and>
      write_cond (WNotStatus (to_lower (c_Value c))) = P"
    using assms by (auto simp: m predicate_defs)
  have t: "c_Field c = ''type'' \<Longrightarrow> f' = exec_write (WNotType (to_lower (c_Value c))) f \<and>
      write_cond (WNotType (to_lower (c_Value c))) = P"
    using assms by (auto simp: m predicate_defs)
  have "c_Field c = ''status'' \<or> c_Field c = ''type''" using assms(1) by (auto simp: m split: if_splits)
  then show ?thesis using s t that by force
qed

text \<open>Alternatives of labels are one write too.\<close>

lemma collectOrLabels_predicate:
  assumes "collectOrLabels n = Some ls" and "buildPredicate e n = Inr P" and "labels_safe n i"
  shows "P i \<longleftrightarrow> (\<exists>x \<in> set ls. x \<in> set (i_Labels i))"
  using assms
proof (induction n arbitrary: ls P)
  case (Comparison c)
  then have c: "c_Field c \<in> {''label'', ''labels''}" "c_Op c = OpEquals" "ls = [c_Value c]"
    by (auto split: if_splits)
  moreover have "\<not> is_none_value (c_Value c)" "comp_safe c i" using Comparison.prems(3) by (simp_all add: labels_safe_def)
  ultimately show ?case
    using Comparison.prems(2) comp_safeD(3) [of c i] by (auto simp: predicate_defs)
next
  case (OrNode l r)
  from OrNode.prems obtain xs ys L R where d: "collectOrLabels l = Some xs" "collectOrLabels r = Some ys" "ls = xs @ ys"
    "buildPredicate e l = Inr L" "buildPredicate e r = Inr R" "P = (\<lambda>i. L i \<or> R i)" "labels_safe l i" "labels_safe r i"
    by (auto simp: labels_safe_def elim!: bindE_InrE split: option.splits)
  have "L i \<longleftrightarrow> (\<exists>x \<in> set xs. x \<in> set (i_Labels i))" "R i \<longleftrightarrow> (\<exists>x \<in> set ys. x \<in> set (i_Labels i))"
    using OrNode.IH(1) [OF d(1, 4, 7)] OrNode.IH(2) [OF d(2, 5, 8)] by simp_all
  then show ?case using d(3, 6) by auto
qed simp_all

lemma collectOrLabels_nonempty: "collectOrLabels n = Some ls \<Longrightarrow> ls \<noteq> []"
  by (induction n arbitrary: ls) (auto split: if_splits option.splits)

lemma buildFilter_or_writes:
  assumes "buildFilter e (OrNode l r) f = Inr f'"
  obtains x xs where "collectOrLabels (OrNode l r) = Some (x # xs)" "f' = exec_write (WLabelsAny x xs) f"
proof -
  obtain ls where ls: "collectOrLabels (OrNode l r) = Some ls" "f' = f\<lparr>f_LabelsAny := f_LabelsAny f @ ls\<rparr>"
    using assms by (auto simp del: collectOrLabels.simps split: option.splits)
  obtain x xs where "ls = x # xs" using collectOrLabels_nonempty [OF ls(1)] by (cases ls) auto
  with ls that show ?thesis by simp
qed

text \<open>Every literal that compiles performs one write.\<close>

lemma compile_lit_writes:
  assumes "compile_lit e n f = Inr f'" and "buildPredicate e n = Inr P"
  obtains w where "f' = exec_write w f" "write_slots w = lit_slots n" "\<And>k. w = WHasKey k \<Longrightarrow> k \<noteq> []"
    "\<And>i. lit_safe n i \<Longrightarrow> P i \<Longrightarrow> write_cond w i"
    "\<And>i. lit_exact n i \<Longrightarrow> write_cond w i \<Longrightarrow> P i"
proof (cases n)
  case (Comparison c)
  then have "applyComparison e c f = Inr f'" using assms(1) by (simp add: compile_lit_def)
  then obtain w where w: "writes e c w" "f' = exec_write w f" using applyComparison_writes by blast
  have p: "buildComparisonPredicate e c = Inr P" using assms(2) Comparison by simp
  show ?thesis
    by (rule that [of w])
      (use w writes_slots [OF w(1)] writes_key writes_safe [OF w(1) p] writes_exact [OF w(1) p] Comparison
        in \<open>auto\<close>)
next
  case (NotNode m)
  then have a: "applyNot (NotNode m) f = Inr f'" and p: "buildPredicate e (NotNode m) = Inr P"
    using assms by (auto simp: compile_lit_def)
  from applyNot_writes [OF a p] show ?thesis using that NotNode
    by (metis lit_slots.simps(4))
next
  case (OrNode l r)
  then have "buildFilter e (OrNode l r) f = Inr f'" using assms(1) by (simp add: compile_lit_def)
  then obtain x xs where w: "collectOrLabels (OrNode l r) = Some (x # xs)" "f' = exec_write (WLabelsAny x xs) f"
    by (rule buildFilter_or_writes)
  have "P i \<longleftrightarrow> write_cond (WLabelsAny x xs) i" if "labels_safe n i" for i
    using collectOrLabels_predicate [OF _ assms(2) that] w(1) OrNode by simp
  then show ?thesis
    by (intro that [of "WLabelsAny x xs"]) (simp_all add: w(2) OrNode)
qed (use assms in \<open>simp_all add: compile_lit_def\<close>)

lemma compile_lit_frame:
  assumes "compile_lit e n f = Inr f'" and "s \<notin> set (lit_slots n)" and "slot_free s f"
  shows "slot_free s f'"
proof (cases n)
  case (Comparison c)
  then have "applyComparison e c f = Inr f'" using assms(1) by (simp add: compile_lit_def)
  then obtain w where "writes e c w" "f' = exec_write w f" using applyComparison_writes by blast
  with assms Comparison show ?thesis
    using exec_write_frame [of s w f] writes_slots [of e c w] by simp
next
  case (NotNode m)
  then obtain c where m: "m = Comparison c" using assms(1) by (cases m) (auto simp: compile_lit_def)
  have "f' = exec_write (WNotStatus (to_lower (c_Value c))) f \<or> f' = exec_write (WNotType (to_lower (c_Value c))) f"
    using assms(1) NotNode m by (auto simp: compile_lit_def split: if_splits)
  then show ?thesis
    using exec_write_frame [of s "WNotStatus (to_lower (c_Value c))" f]
      exec_write_frame [of s "WNotType (to_lower (c_Value c))" f] assms(3) by auto
next
  case (OrNode l r)
  then have "buildFilter e (OrNode l r) f = Inr f'" using assms(1) by (simp add: compile_lit_def)
  then obtain x xs where "f' = exec_write (WLabelsAny x xs) f" by (rule buildFilter_or_writes)
  then show ?thesis using exec_write_frame [of s "WLabelsAny x xs" f] assms(2, 3) OrNode by simp
qed (use assms in \<open>simp_all add: compile_lit_def\<close>)

interpretation lits: exact_compiler "compile_lit e" "buildPredicate e" filter_matches lit_safe
  lit_exact lit_slots slot_free for e
proof
  show "filter_matches f' x" if "compile_lit e c f = Inr f'" "buildPredicate e c = Inr P"
    "lit_safe c x" "filter_matches f x" "P x" for c f f' P x
    using compile_lit_writes [OF that(1,2)] exec_write_keeps that(3-5) by metis
  show "lit_safe c x" if "lit_exact c x" for c x
    using that by (cases c) (simp_all add: comp_exact_def)
  show "filter_matches f x \<and> P x" if a: "compile_lit e c f = Inr f'" "buildPredicate e c = Inr P"
    "lit_exact c x" "\<And>s. s \<in> set (lit_slots c) \<Longrightarrow> slot_free s f" "filter_matches f' x" for c f f' P x
  proof -
    obtain w where w: "f' = exec_write w f" "write_slots w = lit_slots c" "\<And>k. w = WHasKey k \<Longrightarrow> k \<noteq> []"
      "\<And>i. lit_exact c i \<Longrightarrow> write_cond w i \<Longrightarrow> P i"
      using compile_lit_writes [OF a(1,2)] by metis
    have "filter_matches f x \<and> write_cond w x"
      using exec_write_exact [of f w x] w(1,2,3) a(4,5) by (simp add: list_all_iff)
    with w(4) a(3) show ?thesis by blast
  qed
  show "slot_free s f'" if "compile_lit e c f = Inr f'" "s \<notin> set (lit_slots c)" "slot_free s f" for c f f' s
    using compile_lit_frame that by blast
qed

section \<open>Conjunctions\<close>

fun conjuncts :: "Node \<Rightarrow> Node list" where
  "conjuncts (AndNode l r) = conjuncts l @ conjuncts r"
| "conjuncts n = [n]"

definition is_or :: "Node \<Rightarrow> bool" where
  "is_or n = (case n of OrNode _ _ \<Rightarrow> True | _ \<Rightarrow> False)"

definition literals :: "Node \<Rightarrow> Node list" where
  "literals n = filter (\<lambda>m. \<not> is_or m) (conjuncts n)"

lemma literals_simps [simp]:
  "literals (AndNode l r) = literals l @ literals r" "literals (Comparison c) = [Comparison c]"
  "literals (NotNode m) = [NotNode m]" "literals (OrNode l r) = []"
  by (simp_all add: literals_def is_or_def)

lemma extractBaseFilters_fold: "extractBaseFilters e n f = fold (lits.keep_going e) (literals n) f"
  by (induction n arbitrary: f) (simp_all add: lits.keep_going_def compile_lit_def or_keep_def)

lemma bindE_foldE_Nil [simp]: "bindE r (foldE g []) = r"
  by (cases r) simp_all

lemma buildFilter_foldE: "buildFilter e n f = foldE (compile_lit e) (conjuncts n) f"
  by (induction n arbitrary: f)
    (auto simp: foldE_append compile_lit_def fun_eq_iff simp del: buildFilter.simps(4) intro!: bindE_cong)

text \<open>The predicate of a conjunction is the conjunction of the predicates of its parts.\<close>

lemma buildPredicate_conjuncts:
  assumes "buildPredicate e n = Inr P"
  shows "\<exists>Q. (\<forall>m \<in> set (conjuncts n). buildPredicate e m = Inr (Q m)) \<and>
    (\<forall>i. P i \<longleftrightarrow> (\<forall>m \<in> set (conjuncts n). Q m i))"
proof -
  have *: "(\<forall>m \<in> set (conjuncts n). buildPredicate e m = Inr (projr (buildPredicate e m))) \<and>
    (\<forall>i. P i \<longleftrightarrow> (\<forall>m \<in> set (conjuncts n). projr (buildPredicate e m) i))"
    using assms
  proof (induction n arbitrary: P)
    case (AndNode l r)
    from AndNode.prems obtain L R where "buildPredicate e l = Inr L" "buildPredicate e r = Inr R"
      "P = (\<lambda>i. L i \<and> R i)" by (auto elim!: bindE_InrE)
    with AndNode.IH show ?case by auto
  qed auto
  then show ?thesis by (rule exI [of _ "\<lambda>m. projr (buildPredicate e m)"])
qed

section \<open>Properties\<close>

text \<open>The meaning of a query over a meaning of its comparisons.\<close>

fun node_sem :: "(ComparisonNode \<Rightarrow> Issue \<Rightarrow> bool) \<Rightarrow> Node \<Rightarrow> Issue \<Rightarrow> bool" where
  "node_sem S (Comparison c) i = S c i"
| "node_sem S (AndNode l r) i = (node_sem S l i \<and> node_sem S r i)"
| "node_sem S (OrNode l r) i = (node_sem S l i \<or> node_sem S r i)"
| "node_sem S (NotNode n) i = (\<not> node_sem S n i)"

text \<open>
  In predicate mode a query is built exactly when each of its comparisons is supported, and it then
  means what its connectives say of the predicates of the comparisons.
\<close>

theorem buildPredicate_sem:
  "(case buildPredicate e n of
      Inl err \<Rightarrow> \<exists>c \<in> set (comparisons n). buildComparisonPredicate e c = Inl err
    | Inr P \<Rightarrow> list_all (\<lambda>c. \<exists>Q. buildComparisonPredicate e c = Inr Q) (comparisons n) \<and>
        P = node_sem (\<lambda>c. projr (buildComparisonPredicate e c)) n)"
proof (induction n)
  case (Comparison c)
  then show ?case by (cases "buildComparisonPredicate e c") (auto simp: fun_eq_iff)
next
  case (AndNode l r)
  then show ?case
    by (cases "buildPredicate e l"; cases "buildPredicate e r") (auto simp: fun_eq_iff)
next
  case (OrNode l r)
  then show ?case
    by (cases "buildPredicate e l"; cases "buildPredicate e r") (auto simp: fun_eq_iff)
next
  case (NotNode n)
  then show ?case by (cases "buildPredicate e n") (auto simp: fun_eq_iff)
qed

text \<open>
  C19: a complex query selects exactly the issues its predicate accepts: the base filter that narrows
  the search first loses none of them, as long as every comparison it was extracted from is safe for
  the issue.
\<close>

theorem Evaluate_predicate_mode:
  assumes "Evaluate e n = Inr q" and "\<not> canUseFilterOnly n"
    and "list_all (\<lambda>m. lit_safe m i) (literals n)"
  shows "result_matches q i \<longleftrightarrow> projr (buildPredicate e n) i"
proof -
  obtain P where P: "buildPredicate e n = Inr P" and q: "q_Predicate q = Some P"
    "q_Filter q = extractBaseFilters e n zero_filter"
    using assms(1,2) by (auto simp: Evaluate_def elim!: bindE_InrE)
  obtain Q where Q: "\<forall>m \<in> set (conjuncts n). buildPredicate e m = Inr (Q m)"
    "\<And>i. P i \<longleftrightarrow> (\<forall>m \<in> set (conjuncts n). Q m i)" using buildPredicate_conjuncts [OF P] by blast
  have "filter_matches (q_Filter q) i" if "P i"
    unfolding q(2) extractBaseFilters_fold
  proof (rule lits.fold_keeps [OF zero_filter_matches])
    fix m assume "m \<in> set (literals n)"
    then show "lit_safe m i \<and> (\<exists>P. buildPredicate e m = Inr P \<and> P i)"
      using assms(3) Q that by (auto simp: literals_def list_all_iff)
  qed
  then show ?thesis using q(1) P by (auto simp: result_matches_def)
qed

text \<open>An evaluator without time layouts, and queries on it.\<close>

definition plain_eval :: Evaluator where
  "plain_eval = \<lparr>e_now = zero_time, e_lib = no_times\<rparr>"

definition cmp :: "string \<Rightarrow> ComparisonOp \<Rightarrow> string \<Rightarrow> Node" where
  "cmp field op v = Comparison \<lparr>c_Field = field, c_Op = op, c_Value = v, c_ValueType = TokenIdent\<rparr>"

lemmas eval_simps = cmp_def plain_eval_def Evaluate_def applyComparison_def applyStatusFilter_def
  applyPriorityFilter_def applyAssigneeFilter_def applySpecFilter_def applyOwnerFilter_def
  or_keep_def predicate_defs buildOwnerPredicate_def

lemma sample_status: "Status_IsValid ''open''" "Status_IsValid ''closed''"
  "to_lower ''open'' = ''open''" "to_lower ''closed'' = ''closed''"
  by code_simp+

theorem Evaluate_predicate_mode_witness:
  "\<exists>q. Evaluate plain_eval (AndNode (cmp ''status'' OpEquals ''open'')
        (OrNode (cmp ''priority'' OpLess ''2'') (cmp ''owner'' OpEquals ''ann''))) = Inr q \<and>
     result_matches q (zero_issue\<lparr>i_Status := ''open''\<rparr>)"
proof -
  let ?n = "AndNode (cmp ''status'' OpEquals ''open'')
        (OrNode (cmp ''priority'' OpLess ''2'') (cmp ''owner'' OpEquals ''ann''))"
  let ?i = "zero_issue\<lparr>i_Status := ''open''\<rparr>"
  have p: "atoi ''2'' = Some 2" by code_simp
  obtain q where q: "Evaluate plain_eval ?n = Inr q"
    by (simp add: eval_simps p canUseLabelsAnyOptimization_def)
  have "\<not> canUseFilterOnly ?n" by (simp add: cmp_def canUseLabelsAnyOptimization_def)
  moreover have "list_all (\<lambda>m. lit_safe m ?i) (literals ?n)"
    by (simp add: cmp_def comp_safe_def time_field_names_def time_fields_def)
  moreover have "projr (buildPredicate plain_eval ?n) ?i"
    by (simp add: eval_simps p sample_status zero_issue_def)
  ultimately show ?thesis using Evaluate_predicate_mode [OF q] q by blast
qed

text \<open>
  C20: a query that the filter alone answers, alternatives of labels included, selects the same issues as its predicate
  would, provided no two of its parts write the same slot of the filter and each is exact for the
  issue: alternatives of labels do not contain a word for none, and labels and assignees that differ from a wanted
  one only in case do not occur.
\<close>

theorem Evaluate_filter_mode:
  assumes "Evaluate e n = Inr q" and "canUseFilterOnly n" and "buildPredicate e n = Inr P"
    and "list_all (\<lambda>m. lit_exact m i) (conjuncts n)"
    and "distinct (concat (map lit_slots (conjuncts n)))"
  shows "result_matches q i \<longleftrightarrow> P i"
proof -
  have all: "\<forall>m \<in> set (conjuncts n). lit_exact m i"
    using assms(4) by (auto simp: list_all_iff)
  obtain f where f: "foldE (compile_lit e) (conjuncts n) zero_filter = Inr f" "q_Filter q = f"
    "q_Predicate q = None"
    using assms(1,2) by (auto simp: Evaluate_def buildFilter_foldE elim!: bindE_InrE)
  obtain Q where Q: "\<forall>m \<in> set (conjuncts n). buildPredicate e m = Inr (Q m)"
    "\<And>i. P i \<longleftrightarrow> (\<forall>m \<in> set (conjuncts n). Q m i)"
    using buildPredicate_conjuncts [OF assms(3)] by blast
  have "filter_matches f i \<longleftrightarrow> filter_matches zero_filter i \<and> (\<forall>m \<in> set (conjuncts n). Q m i)"
    using lits.compile_all_exact [OF f(1) assms(5), of i Q] zero_filter_free all Q(1) by blast
  then show ?thesis
    using f Q(2) zero_filter_matches by (simp add: result_matches_def)
qed

theorem Evaluate_filter_mode_witness:
  "\<exists>q. Evaluate plain_eval (AndNode (cmp ''status'' OpEquals ''open'')
       (OrNode (cmp ''label'' OpEquals ''ui'') (cmp ''label'' OpEquals ''db''))) = Inr q \<and>
     result_matches q (zero_issue\<lparr>i_Status := ''open'', i_Labels := [''db'']\<rparr>)"
proof -
  let ?n = "AndNode (cmp ''status'' OpEquals ''open'')
       (OrNode (cmp ''label'' OpEquals ''ui'') (cmp ''label'' OpEquals ''db''))"
  let ?i = "zero_issue\<lparr>i_Status := ''open'', i_Labels := [''db'']\<rparr>"
  have l: "\<not> is_none_value ''ui''" "\<not> is_none_value ''db''" "\<not> equal_fold ''db'' ''ui''" "equal_fold ''db'' ''db''"
    by code_simp+
  obtain q where q: "Evaluate plain_eval ?n = Inr q"
    by (simp add: eval_simps sample_status canUseLabelsAnyOptimization_def)
  obtain P where P: "buildPredicate plain_eval ?n = Inr P" "P ?i"
    by (simp add: eval_simps l sample_status zero_issue_def)
  have "canUseFilterOnly ?n" by (simp add: cmp_def canUseLabelsAnyOptimization_def)
  moreover have "list_all (\<lambda>m. lit_exact m ?i) (conjuncts ?n)"
    by (simp add: cmp_def comp_exact_def comp_safe_def labels_safe_def l time_field_names_def time_fields_def)
  moreover have "distinct (concat (map lit_slots (conjuncts ?n)))" by (simp add: cmp_def comp_slots_def)
  ultimately show ?thesis using Evaluate_filter_mode [OF q _ P(1)] P(2) q by blast
qed

text \<open>
  Alternatives with a word for none differ between the routes: as labels joined by OR the filter looks for a
  label of that name, and an issue without labels, which the predicate accepts, is lost.
\<close>

theorem label_or_none:
  "\<exists>q P. Evaluate plain_eval (OrNode (cmp ''label'' OpEquals l) (cmp ''label'' OpEquals ''none'')) = Inr q \<and>
     buildPredicate plain_eval (OrNode (cmp ''label'' OpEquals l) (cmp ''label'' OpEquals ''none'')) = Inr P \<and>
     (\<forall>i. i_Labels i = [] \<longrightarrow> P i \<and> \<not> result_matches q i)"
proof -
  have "is_none_value ''none''" by code_simp
  then show ?thesis
    by (auto simp: eval_simps canUseLabelsAnyOptimization_def result_matches_def filter_matches_defs)
qed

text \<open>
  Two comparisons on one slot do not conjoin: the later overwrites the earlier, so a query for open
  and closed issues at once is accepted and selects the closed ones, while its predicate selects none.
\<close>

theorem Evaluate_same_slot:
  "\<exists>q P. Evaluate plain_eval (AndNode (cmp ''status'' OpEquals ''open'') (cmp ''status'' OpEquals ''closed'')) = Inr q \<and>
     result_matches q (zero_issue\<lparr>i_Status := ''closed''\<rparr>) \<and>
     buildPredicate plain_eval (AndNode (cmp ''status'' OpEquals ''open'') (cmp ''status'' OpEquals ''closed'')) = Inr P \<and>
     (\<forall>i. \<not> P i)"
proof -
  have "filter_matches (zero_filter\<lparr>f_Status := Some ''closed''\<rparr>) (zero_issue\<lparr>i_Status := ''closed''\<rparr>)"
    by (simp add: filter_matches_defs zero_filter_def zero_issue_def)
  moreover have "(zero_filter\<lparr>f_Status := Some ''open''\<rparr>)\<lparr>f_Status := Some ''closed''\<rparr> =
      zero_filter\<lparr>f_Status := Some ''closed''\<rparr>" by simp
  ultimately show ?thesis
    by (simp add: eval_simps sample_status result_matches_def)
qed

text \<open>
  The same comparison can mean two things. Alone it is answered by the filter, which reads a spec as
  a prefix and compares assignees by case; under an OR with itself it is answered by the predicate,
  which wants the spec in full and ignores case.
\<close>

theorem Evaluate_route_dependent:
  "(\<exists>q q'. Evaluate plain_eval (cmp ''spec'' OpEquals ''ab'') = Inr q \<and>
     Evaluate plain_eval (OrNode (cmp ''spec'' OpEquals ''ab'') (cmp ''spec'' OpEquals ''ab'')) = Inr q' \<and>
     result_matches q (zero_issue\<lparr>i_SpecID := ''abc''\<rparr>) \<and>
     \<not> result_matches q' (zero_issue\<lparr>i_SpecID := ''abc''\<rparr>)) \<and>
   (\<exists>q q'. Evaluate plain_eval (cmp ''assignee'' OpEquals ''Ann'') = Inr q \<and>
     Evaluate plain_eval (OrNode (cmp ''assignee'' OpEquals ''Ann'') (cmp ''assignee'' OpEquals ''Ann'')) = Inr q' \<and>
     \<not> result_matches q (zero_issue\<lparr>i_Assignee := ''ann''\<rparr>) \<and>
     result_matches q' (zero_issue\<lparr>i_Assignee := ''ann''\<rparr>))"
proof -
  have s: "\<not> has_suffix ''ab'' ''*''" "has_prefix ''abc'' ''ab''" by code_simp+
  have a: "\<not> is_none_value ''Ann''" "equal_fold ''ann'' ''Ann''" by code_simp+
  have "filter_matches (zero_filter\<lparr>f_SpecIDPrefix := ''ab''\<rparr>) (zero_issue\<lparr>i_SpecID := ''abc''\<rparr>)"
    using s(2) by (simp add: filter_matches_defs zero_filter_def zero_issue_def)
  then have spec: "\<exists>q q'. Evaluate plain_eval (cmp ''spec'' OpEquals ''ab'') = Inr q \<and>
     Evaluate plain_eval (OrNode (cmp ''spec'' OpEquals ''ab'') (cmp ''spec'' OpEquals ''ab'')) = Inr q' \<and>
     result_matches q (zero_issue\<lparr>i_SpecID := ''abc''\<rparr>) \<and>
     \<not> result_matches q' (zero_issue\<lparr>i_SpecID := ''abc''\<rparr>)"
    using s by (simp add: eval_simps result_matches_def canUseLabelsAnyOptimization_def)
  have "\<not> filter_matches (zero_filter\<lparr>f_Assignee := Some ''Ann''\<rparr>) (zero_issue\<lparr>i_Assignee := ''ann''\<rparr>)"
    by (simp add: filter_matches_defs)
  then have assignee: "\<exists>q q'. Evaluate plain_eval (cmp ''assignee'' OpEquals ''Ann'') = Inr q \<and>
     Evaluate plain_eval (OrNode (cmp ''assignee'' OpEquals ''Ann'') (cmp ''assignee'' OpEquals ''Ann'')) = Inr q' \<and>
     \<not> result_matches q (zero_issue\<lparr>i_Assignee := ''ann''\<rparr>) \<and>
     result_matches q' (zero_issue\<lparr>i_Assignee := ''ann''\<rparr>)"
    using a zero_filter_matches by (simp add: eval_simps result_matches_def canUseLabelsAnyOptimization_def)
  from spec assignee show ?thesis by (rule conjI)
qed

text \<open>
  A relative time in a query counts back from now: the bound of a comparison with \<open>n\<close> days is the
  moment \<open>n\<close> times 24 hours ago, in both routes.
\<close>

theorem query_days_ago:
  assumes "7 * int n \<le> max_int64"
  shows "parseTimeValue e \<lparr>c_Field = f, c_Op = op, c_Value = nat_to_dec n @ ''d'', c_ValueType = TokenDuration\<rparr> =
    Inr ((e_now e)\<lparr>t_ns := t_ns (e_now e) - int n * ns_per_day\<rparr>)"
proof -
  have n: "int n \<le> max_int64" "in_int64 (- int n * 7)" using assms by (simp_all add: int64_defs)
  have u: "CHR ''d'' \<in> set ''hdwmy''" by simp
  have "\<not> has_prefix (nat_to_dec n @ ''d'') ''+''"
    using nat_to_dec_hd(2) [of n] by (cases "nat_to_dec n") (auto simp: has_prefix_def)
  then show ?thesis
    using ParseCompactDuration_print(2) [OF n(1) u, of "e_now e"] applyDuration_days(1) [OF n(2), of "e_now e"]
    by (simp add: parseTimeValue_def parseDurationAgo_def trim_prefix_def)
qed

theorem query_days_ago_witness:
  "parseTimeValue plain_eval
     \<lparr>c_Field = ''updated'', c_Op = OpGreater, c_Value = ''7d'', c_ValueType = TokenDuration\<rparr> =
   Inr (zero_time\<lparr>t_ns := t_ns zero_time - 7 * ns_per_day\<rparr>)"
proof -
  have "nat_to_dec 7 = ''7''" by code_simp
  then show ?thesis
    using query_days_ago [of 7 plain_eval "''updated''" OpGreater] by (simp add: max_int64_def plain_eval_def)
qed

text \<open>
  An upper-case unit is a duration for the lexer and none for the evaluator: any query with a bound
  such as \<open>7D\<close> fails.
\<close>

theorem upper_case_duration:
  assumes "ds \<noteq> []" and "list_all is_digit ds" and "u \<in> set ''HDWMY''"
  shows "(\<exists>p l. NextToken (NewLexer (ds @ [u])) = Inr (mk_token TokenDuration (ds @ [u]) p, l)) \<and>
    (\<exists>err. parseTimeValue e \<lparr>c_Field = f, c_Op = op, c_Value = ds @ [u], c_ValueType = TokenDuration\<rparr> = Inl err)"
proof -
  have "isDurationSuffix (byte_val u)" using assms(3) by (auto simp: isDurationSuffix_def)
  then have "lexes (ds @ u # []) TokenDuration (ds @ [u]) []"
    using lexes_duration assms(1,2) ends_value_Nil by blast
  then have "\<exists>p l. NextToken (NewLexer (ds @ [u])) = Inr (mk_token TokenDuration (ds @ [u]) p, l)"
    using lexesE [of "ds @ u # []" _ _ _ "NewLexer (ds @ [u])"] by (metis lex_rest_New)
  moreover have "compactDurationRe (CHR ''-'' # ds @ [u]) = None"
    using assms(3) by (auto simp: compactDurationRe_def Let_def)
  moreover have "\<not> has_prefix (ds @ [u]) ''+''"
    using assms(1,2) by (cases ds) (auto simp: has_prefix_def is_digit_def)
  ultimately show ?thesis
    by (simp add: parseTimeValue_def parseDurationAgo_def trim_prefix_def ParseCompactDuration_def)
qed

theorem upper_case_duration_witness:
  "\<exists>p l. NextToken (NewLexer ''7D'') = Inr (mk_token TokenDuration ''7D'' p, l)"
  using upper_case_duration [of "''7''" "CHR ''D''" plain_eval "''updated''" OpGreater]
  by (simp add: is_digit_def)

end
