(* ===== verification/Sql_Values.thy ===== *)
theory Sql_Values
  imports Issue_Filter "HOL-Library.Product_Lexorder"
begin

text \<open>
  What the SQL layer shares: the values of columns and placeholders, with the order in which the
  database sorts them, ordering by several keys, and stable sorting (\<open>sort.SliceStable\<close>). The locale
  \<open>ranking\<close> is the contract a \<open>less\<close> function has to meet for the pages built with it to be right;
  the comparison functions of the code are interpretations of it.
\<close>

section \<open>Values\<close>

text \<open>A time is the instant in nanoseconds. NULL sorts before everything, as in MySQL; columns never
  mix the other kinds.\<close>

datatype sql_value = SqlNull | SqlInt int | SqlStr string | SqlTime int

fun sql_key :: "sql_value \<Rightarrow> nat \<times> int \<times> string" where
  "sql_key SqlNull = (0, 0, [])"
| "sql_key (SqlInt n) = (1, n, [])"
| "sql_key (SqlStr s) = (2, 0, s)"
| "sql_key (SqlTime t) = (3, t, [])"

lemma sql_key_inject: "sql_key x = sql_key y \<longleftrightarrow> x = y"
  by (cases x; cases y) auto

instantiation sql_value :: linorder
begin

definition less_eq_sql_value :: "sql_value \<Rightarrow> sql_value \<Rightarrow> bool" where
  "less_eq_sql_value x y \<longleftrightarrow> sql_key x \<le> sql_key y"

definition less_sql_value :: "sql_value \<Rightarrow> sql_value \<Rightarrow> bool" where
  "less_sql_value x y \<longleftrightarrow> sql_key x < sql_key y"

instance
proof
  fix x y z :: sql_value
  show "x < y \<longleftrightarrow> x \<le> y \<and> \<not> y \<le> x"
    unfolding less_eq_sql_value_def less_sql_value_def by (rule less_le_not_le)
  show "x \<le> x" by (simp add: less_eq_sql_value_def)
  show "x \<le> y \<Longrightarrow> y \<le> z \<Longrightarrow> x \<le> z"
    unfolding less_eq_sql_value_def by (rule order_trans)
  show "x \<le> y \<Longrightarrow> y \<le> x \<Longrightarrow> x = y"
    unfolding less_eq_sql_value_def using order_antisym [of "sql_key x" "sql_key y"]
    by (simp add: sql_key_inject)
  show "x \<le> y \<or> y \<le> x"
    unfolding less_eq_sql_value_def by (rule linear)
qed

end

lemma sql_less_simps [simp]:
  "SqlInt m < SqlInt n \<longleftrightarrow> m < n" "SqlStr s < SqlStr t \<longleftrightarrow> s < t" "SqlTime i < SqlTime j \<longleftrightarrow> i < j"
  "SqlNull < SqlInt n" "SqlNull < SqlStr s" "SqlNull < SqlTime i"
  "\<not> x < SqlNull"
  by (auto simp: less_sql_value_def) (cases x; simp)

lemma sql_le_simps [simp]:
  "SqlInt m \<le> SqlInt n \<longleftrightarrow> m \<le> n" "SqlStr s \<le> SqlStr t \<longleftrightarrow> s \<le> t" "SqlTime i \<le> SqlTime j \<longleftrightarrow> i \<le> j"
  by (auto simp: less_eq_sql_value_def)

section \<open>Ordering by several keys\<close>

text \<open>\<open>ORDER BY k1 d1, k2 d2, \<dots>\<close> on the key values of two rows; \<open>True\<close> is ascending.\<close>

fun rank_less :: "bool list \<Rightarrow> 'v::linorder list \<Rightarrow> 'v list \<Rightarrow> bool" where
  "rank_less (asc # ds) (x # xs) (y # ys) =
     (if x = y then rank_less ds xs ys else if asc then x < y else y < x)"
| "rank_less _ _ _ = False"

lemma rank_less_irrefl [simp]: "\<not> rank_less ds xs xs"
proof (induction xs arbitrary: ds)
  case (Cons x xs)
  then show ?case by (cases ds) auto
qed simp

lemma rank_less_trans: "rank_less ds xs ys \<Longrightarrow> rank_less ds ys zs \<Longrightarrow> rank_less ds xs zs"
proof (induction ds xs ys arbitrary: zs rule: rank_less.induct)
  case (1 asc ds x xs y ys)
  then show ?case by (cases zs) (auto split: if_splits)
qed auto

lemma rank_less_total:
  "length xs = length ds \<Longrightarrow> length ys = length ds \<Longrightarrow> xs \<noteq> ys \<Longrightarrow> rank_less ds xs ys \<or> rank_less ds ys xs"
  by (induction ds xs ys rule: rank_less.induct) (auto simp: neq_iff)

section \<open>Stable sorting\<close>

text \<open>The result of \<open>sort.SliceStable\<close>, which a strict weak order determines.\<close>

fun insert_stable :: "('a \<Rightarrow> 'a \<Rightarrow> bool) \<Rightarrow> 'a \<Rightarrow> 'a list \<Rightarrow> 'a list" where
  "insert_stable lt x [] = [x]"
| "insert_stable lt x (y # ys) = (if lt y x then y # insert_stable lt x ys else x # y # ys)"

definition SliceStable :: "('a \<Rightarrow> 'a \<Rightarrow> bool) \<Rightarrow> 'a list \<Rightarrow> 'a list" where
  "SliceStable lt xs = foldr (insert_stable lt) xs []"

lemma SliceStable_simps [simp]:
  "SliceStable lt [] = []"
  "SliceStable lt (x # xs) = insert_stable lt x (SliceStable lt xs)"
  by (simp_all add: SliceStable_def)

lemma set_insert_stable [simp]: "set (insert_stable lt x xs) = insert x (set xs)"
  by (induction xs) auto

lemma mset_insert_stable [simp]: "mset (insert_stable lt x xs) = add_mset x (mset xs)"
  by (induction xs) auto

lemma mset_SliceStable [simp]: "mset (SliceStable lt xs) = mset xs"
  by (induction xs) auto

lemma set_SliceStable [simp]: "set (SliceStable lt xs) = set xs"
  by (induction xs) auto

lemma length_SliceStable [simp]: "length (SliceStable lt xs) = length xs"
  using mset_SliceStable [of lt xs] mset_eq_length by blast

text \<open>A comparison that never holds leaves the slice as it is.\<close>

lemma SliceStable_never [simp]: "SliceStable (\<lambda>a b. False) xs = xs"
proof -
  have "insert_stable (\<lambda>a b. False) x ys = x # ys" for x :: 'a and ys by (cases ys) auto
  then show ?thesis by (induction xs) auto
qed

text \<open>The bound of a page: a positive one cuts.\<close>

definition bounded :: "int \<Rightarrow> 'a list \<Rightarrow> 'a list" where
  "bounded n xs = (if n > 0 then take (nat n) xs else xs)"

lemma bounded_nonpos [simp]: "n \<le> 0 \<Longrightarrow> bounded n xs = xs"
  by (simp add: bounded_def)

lemma set_bounded_subset: "set (bounded n xs) \<subseteq> set xs"
  by (auto simp: bounded_def dest: in_set_takeD)

lemma map_bounded: "map f (bounded n xs) = bounded n (map f xs)"
  by (simp add: bounded_def take_map)

lemma distinct_bounded [intro]: "distinct xs \<Longrightarrow> distinct (bounded n xs)"
  by (simp add: bounded_def)

text \<open>Filtering a list keeps what its prefixes hold.\<close>

lemma take_filter_mem: "z \<in> set (take n zs) \<Longrightarrow> P z \<Longrightarrow> z \<in> set (take n (filter P zs))"
proof (induction zs arbitrary: n)
  case (Cons a zs)
  then obtain m where n: "n = Suc m" by (cases n) auto
  consider "z = a" | "z \<in> set (take m zs)" using Cons.prems n by auto
  then show ?case
  proof cases
    case 2
    then have "z \<in> set (take m (filter P zs))" using Cons by blast
    then show ?thesis using n set_take_subset_set_take [of m n "filter P zs"] by auto
  qed (use Cons n in auto)
qed simp

lemma take_filter_eq: "\<forall>z \<in> set (take n zs). P z \<Longrightarrow> take n (filter P zs) = take n zs"
  by (induction zs arbitrary: n) (auto simp: take_Cons split: nat.splits)

section \<open>Rankings\<close>

text \<open>
  A comparison ranks the rows of \<open>S\<close> when it is a strict order on them that decides between any two
  with different identifiers.
\<close>

locale ranking =
  fixes lt :: "'a \<Rightarrow> 'a \<Rightarrow> bool" and ident :: "'a \<Rightarrow> 'k" and S :: "'a set"
  assumes lt_irrefl: "a \<in> S \<Longrightarrow> \<not> lt a a"
    and lt_trans: "a \<in> S \<Longrightarrow> b \<in> S \<Longrightarrow> c \<in> S \<Longrightarrow> lt a b \<Longrightarrow> lt b c \<Longrightarrow> lt a c"
    and lt_total: "a \<in> S \<Longrightarrow> b \<in> S \<Longrightarrow> ident a \<noteq> ident b \<Longrightarrow> lt a b \<or> lt b a"
begin

text \<open>Rows that can be ranked together.\<close>

definition rankable :: "'a list \<Rightarrow> bool" where
  "rankable xs \<longleftrightarrow> set xs \<subseteq> S \<and> distinct (map ident xs)"

lemma rankable_Cons: "rankable (x # xs) \<longleftrightarrow> x \<in> S \<and> ident x \<notin> ident ` set xs \<and> rankable xs"
  by (auto simp: rankable_def)

lemma rankable_mset: "mset xs = mset ys \<Longrightarrow> rankable xs \<longleftrightarrow> rankable ys"
  unfolding rankable_def using mset_eq_setD [of xs ys]
  by (metis mset_map mset_eq_imp_distinct_iff)

lemma rankable_sub:
  assumes "rankable (xs @ ys)" shows "rankable xs" "rankable ys"
  using assms by (auto simp: rankable_def)

lemma rankable_take: "rankable xs \<Longrightarrow> rankable (take n xs)"
  using rankable_sub(1) [of "take n xs" "drop n xs"] by simp

lemma rankable_append:
  "rankable (xs @ ys) \<longleftrightarrow> rankable xs \<and> rankable ys \<and> ident ` set xs \<inter> ident ` set ys = {}"
  by (auto simp: rankable_def)

lemma rankable_takes:
  assumes "rankable (xs @ ys)" shows "rankable (take n xs @ take m ys)"
proof -
  have "ident ` set (take n xs) \<subseteq> ident ` set xs" "ident ` set (take m ys) \<subseteq> ident ` set ys"
    using set_take_subset by (metis image_mono)+
  then show ?thesis using assms by (auto simp: rankable_append rankable_take)
qed

lemma insert_sorted:
  "rankable (x # xs) \<Longrightarrow> sorted_wrt lt xs \<Longrightarrow> sorted_wrt lt (insert_stable lt x xs)"
proof (induction xs)
  case (Cons y ys)
  have S: "x \<in> S" "y \<in> S" "set ys \<subseteq> S" "ident x \<noteq> ident y"
    using Cons.prems by (auto simp: rankable_def)
  show ?case
  proof (cases "lt y x")
    case True
    then show ?thesis using Cons by (auto simp: rankable_def)
  next
    case False
    then have "lt x y" using lt_total S by blast
    have "lt x z" if "z \<in> set ys" for z
    proof (rule lt_trans [of x y z])
      show "lt y z" using Cons.prems(2) that by simp
    qed (use S that \<open>lt x y\<close> in auto)
    with False \<open>lt x y\<close> show ?thesis using Cons.prems by auto
  qed
qed simp

lemma sorted_SliceStable: "rankable xs \<Longrightarrow> sorted_wrt lt (SliceStable lt xs)"
proof (induction xs)
  case (Cons x xs)
  have "rankable (x # SliceStable lt xs)"
    using Cons.prems rankable_mset [of "x # SliceStable lt xs" "x # xs"] by simp
  with Cons show ?case by (simp add: insert_sorted rankable_Cons)
qed simp

text \<open>A set of rows has one sorted listing.\<close>

lemma sorted_unique:
  "sorted_wrt lt xs \<Longrightarrow> sorted_wrt lt ys \<Longrightarrow> mset xs = mset ys \<Longrightarrow> set xs \<subseteq> S \<Longrightarrow> xs = ys"
proof (induction xs arbitrary: ys)
  case (Cons x xs)
  obtain y ys' where ys: "ys = y # ys'" using Cons.prems(3) by (cases ys) auto
  have "x = y"
  proof (rule ccontr)
    assume "x \<noteq> y"
    have "set (x # xs) = set ys" using Cons.prems(3) by (rule mset_eq_setD)
    then have "y \<in> set xs" "x \<in> set ys'" using \<open>x \<noteq> y\<close> ys by auto
    then have "lt x y" "lt y x" using Cons.prems(1, 2) ys by auto
    moreover have S: "x \<in> S" "y \<in> S" using Cons.prems(4) \<open>y \<in> set xs\<close> by auto
    ultimately have "lt x x" using lt_trans [of x y x] by blast
    then show False using lt_irrefl [OF S(1)] by contradiction
  qed
  then show ?case using Cons ys by auto
qed simp

lemma SliceStable_mset:
  assumes "mset xs = mset ys" "rankable xs"
  shows "SliceStable lt xs = SliceStable lt ys"
proof (rule sorted_unique)
  show "sorted_wrt lt (SliceStable lt ys)" "sorted_wrt lt (SliceStable lt xs)"
    using assms rankable_mset sorted_SliceStable by blast+
qed (use assms in \<open>auto simp: rankable_def\<close>)

lemma SliceStable_id: "sorted_wrt lt xs \<Longrightarrow> rankable xs \<Longrightarrow> SliceStable lt xs = xs"
  using sorted_unique [of "SliceStable lt xs" xs] sorted_SliceStable by (auto simp: rankable_def)

text \<open>The rows of a leg are those of the whole listing that belong to it, in the same order.\<close>

lemma sorted_sub:
  assumes "rankable zs" "rankable xs" "set xs \<subseteq> set zs"
  shows "SliceStable lt xs = filter (\<lambda>z. z \<in> set xs) (SliceStable lt zs)"
proof (rule sorted_unique)
  show "sorted_wrt lt (SliceStable lt xs)" using assms(2) by (rule sorted_SliceStable)
  show "sorted_wrt lt (filter (\<lambda>z. z \<in> set xs) (SliceStable lt zs))"
    using sorted_SliceStable [OF assms(1)] by (rule sorted_wrt_filter)
  have "distinct zs" "distinct xs"
    using assms by (auto simp: rankable_def distinct_map)
  then have "mset xs = mset (filter (\<lambda>z. z \<in> set xs) zs)"
    using assms(3) by (intro set_eq_iff_mset_eq_distinct [THEN iffD1]) auto
  then show "mset (SliceStable lt xs) = mset (filter (\<lambda>z. z \<in> set xs) (SliceStable lt zs))"
    by simp
qed (use assms(2) in \<open>auto simp: rankable_def\<close>)

text \<open>Cutting each leg of a merge before merging does not change the page.\<close>

theorem top_merge:
  assumes "rankable (xs @ ys)"
  shows "take n (SliceStable lt (take n (SliceStable lt xs) @ take n (SliceStable lt ys))) =
    take n (SliceStable lt (xs @ ys))"
proof -
  define Z where "Z = SliceStable lt (xs @ ys)"
  define W where "W = take n (SliceStable lt xs) @ take n (SliceStable lt ys)"
  have sub: "set W \<subseteq> set (xs @ ys)" by (auto simp: W_def dest: in_set_takeD)
  have "rankable (SliceStable lt xs @ SliceStable lt ys)"
    using assms rankable_mset [of "SliceStable lt xs @ SliceStable lt ys" "xs @ ys"] by simp
  then have W: "rankable W" unfolding W_def by (rule rankable_takes)
  have "SliceStable lt xs = filter (\<lambda>z. z \<in> set xs) Z"
    unfolding Z_def by (rule sorted_sub [OF assms rankable_sub(1) [OF assms]]) simp
  moreover have "SliceStable lt ys = filter (\<lambda>z. z \<in> set ys) Z"
    unfolding Z_def by (rule sorted_sub [OF assms rankable_sub(2) [OF assms]]) simp
  ultimately have Wset: "set W = set (take n (filter (\<lambda>z. z \<in> set xs) Z)) \<union> set (take n (filter (\<lambda>z. z \<in> set ys) Z))"
    by (simp add: W_def)
  have "\<forall>z \<in> set (take n Z). z \<in> set W"
  proof
    fix z assume z: "z \<in> set (take n Z)"
    then have "z \<in> set xs \<or> z \<in> set ys" by (auto simp: Z_def dest: in_set_takeD)
    then show "z \<in> set W"
      unfolding Wset using take_filter_mem [OF z, of "\<lambda>z. z \<in> set xs"]
        take_filter_mem [OF z, of "\<lambda>z. z \<in> set ys"] by blast
  qed
  then show ?thesis
    using sorted_sub [OF assms W sub] take_filter_eq [of n Z] unfolding W_def Z_def by simp
qed

end

end
