(* ===== verification/Sql_Sort.thy ===== *)
theory Sql_Sort
  imports Sql_Values
begin

text \<open>
  The order of search results, \<open>internal/storage/sqlbuild/sort.go\<close>: the \<open>ORDER BY\<close> text of a sort key
  and the Go comparison that must order merged rows the same way. The text is related to the
  comparison through the list of its order keys, which is rendered to exactly that text and whose
  meaning is \<open>rank_less\<close> on the column values.
\<close>

section \<open>Definitions\<close>

record SortDef =
  sd_Column :: string
  sd_DefaultDir :: string

definition SortDefs :: "string \<rightharpoonup> SortDef" where
  "SortDefs = map_of (map (\<lambda>(k, c, d). (k, \<lparr>sd_Column = c, sd_DefaultDir = d\<rparr>))
     [('''', ''priority'', ''ASC''), (''priority'', ''priority'', ''ASC''),
      (''created'', ''created_at'', ''DESC''), (''updated'', ''updated_at'', ''DESC''),
      (''closed'', ''closed_at'', ''DESC''), (''status'', ''status'', ''ASC''),
      (''type'', ''issue_type'', ''ASC''), (''assignee'', ''assignee'', ''ASC''),
      (''title'', ''title'', ''ASC'')])"

definition IsGoSideSort :: "string \<Rightarrow> bool" where
  "IsGoSideSort sortBy \<longleftrightarrow> sortBy = ''id''"

definition LessID :: "string \<Rightarrow> string \<Rightarrow> bool \<Rightarrow> bool" where
  "LessID a b desc = (if desc then b < a else a < b)"

definition flipDir :: "string \<Rightarrow> string" where
  "flipDir dir = (if dir = ''ASC'' then ''DESC'' else ''ASC'')"

text \<open>\<open>def, ok := SortDefs[sortBy]\<close> with the fallback to the default key.\<close>

definition sort_def :: "string \<Rightarrow> SortDef \<times> string" where
  "sort_def sortBy =
     (case SortDefs sortBy of
        Some def \<Rightarrow> (def, sortBy)
      | None \<Rightarrow> (case SortDefs [] of Some def \<Rightarrow> (def, []) | None \<Rightarrow> (\<lparr>sd_Column = [], sd_DefaultDir = []\<rparr>, [])))"

definition OrderByForColumns :: "string \<Rightarrow> bool \<Rightarrow> (string \<Rightarrow> string) \<Rightarrow> string" where
  "OrderByForColumns sortBy0 sortDesc col =
     (if IsGoSideSort sortBy0 then []
      else
        let (def, sortBy) = sort_def sortBy0;
            dir = (if sortDesc then flipDir (sd_DefaultDir def) else sd_DefaultDir def)
        in if sortBy = [] \<or> sortBy = ''priority''
           then ''ORDER BY '' @ col ''priority'' @ '' '' @ dir @ '', '' @ col ''created'' @ '' DESC, '' @
                col ''id'' @ '' ASC''
           else if sortBy = ''closed'' \<or> sortBy = ''assignee''
           then ''ORDER BY ('' @ col sortBy @ '' IS NULL) '' @ flipDir dir @ '', '' @ col sortBy @ '' '' @
                dir @ '', '' @ col ''id'' @ '' ASC''
           else ''ORDER BY '' @ col sortBy @ '' '' @ dir @ '', '' @ col ''id'' @ '' ASC'')"

definition order_column :: "string \<Rightarrow> string \<Rightarrow> string" where
  "order_column table k =
     (let qual = (if table \<noteq> [] then table @ ''.'' else []) in
      if k = ''id'' then qual @ ''id''
      else if k = ''title'' then ''LOWER('' @ qual @ ''title)''
      else qual @ (case SortDefs k of Some def \<Rightarrow> sd_Column def | None \<Rightarrow> []))"

definition OrderBy :: "string \<Rightarrow> bool \<Rightarrow> string \<Rightarrow> string" where
  "OrderBy sortBy sortDesc table = OrderByForColumns sortBy sortDesc (order_column table)"

definition strings_Compare :: "string \<Rightarrow> string \<Rightarrow> int" where
  "strings_Compare a b = (if a = b then 0 else if a < b then -1 else 1)"

definition compareTimesAsc :: "gotime \<Rightarrow> gotime \<Rightarrow> int" where
  "compareTimesAsc a b = (if Before a b then -1 else if After a b then 1 else 0)"

definition sortKeyCompare :: "Issue \<Rightarrow> Issue \<Rightarrow> string \<Rightarrow> int" where
  "sortKeyCompare a b sortBy =
     (if sortBy = ''created'' then compareTimesAsc (i_CreatedAt a) (i_CreatedAt b)
      else if sortBy = ''updated'' then compareTimesAsc (i_UpdatedAt a) (i_UpdatedAt b)
      else if sortBy = ''closed'' then
        (case (i_ClosedAt a, i_ClosedAt b) of
           (None, None) \<Rightarrow> 0
         | (None, Some _) \<Rightarrow> -1
         | (Some _, None) \<Rightarrow> 1
         | (Some s, Some t) \<Rightarrow> compareTimesAsc s t)
      else if sortBy = ''status'' then strings_Compare (i_Status a) (i_Status b)
      else if sortBy = ''type'' then strings_Compare (i_IssueType a) (i_IssueType b)
      else if sortBy = ''assignee'' then strings_Compare (i_Assignee a) (i_Assignee b)
      else if sortBy = ''title'' then strings_Compare (to_lower (i_Title a)) (to_lower (i_Title b))
      else wrap64 (i_Priority a - i_Priority b))"

definition Less :: "Issue \<Rightarrow> Issue \<Rightarrow> string \<Rightarrow> bool \<Rightarrow> bool" where
  "Less a b sortBy0 sortDesc =
     (if sortBy0 = ''id'' then LessID (i_ID a) (i_ID b) sortDesc
      else
        let (def, sortBy) = sort_def sortBy0;
            descending = (if sortDesc then sd_DefaultDir def \<noteq> ''DESC'' else sd_DefaultDir def = ''DESC'');
            c = sortKeyCompare a b sortBy
        in if c \<noteq> 0 then (if descending then c > 0 else c < 0)
           else if (sortBy = [] \<or> sortBy = ''priority'') \<and> \<not> Equal (i_CreatedAt a) (i_CreatedAt b)
           then After (i_CreatedAt a) (i_CreatedAt b)
           else i_ID a < i_ID b)"

section \<open>The meaning of the ORDER BY text\<close>

datatype order_expr = OrderCol string | OrderLower string | OrderIsNull string

text \<open>The column a sort key stands for.\<close>

definition key_column :: "string \<Rightarrow> string" where
  "key_column k =
     (if k = [] then ''priority'' else if k = ''created'' then ''created_at'' else if k = ''updated'' then ''updated_at''
      else if k = ''closed'' then ''closed_at'' else if k = ''type'' then ''issue_type'' else k)"

definition order_keys :: "string \<Rightarrow> bool \<Rightarrow> (order_expr \<times> bool) list" where
  "order_keys sortBy0 sortDesc =
     (let (def, sortBy) = sort_def sortBy0;
          asc = ((sd_DefaultDir def = ''ASC'') \<noteq> sortDesc)
      in (if sortBy = [] \<or> sortBy = ''priority''
          then [(OrderCol ''priority'', asc), (OrderCol ''created_at'', False)]
          else if sortBy = ''closed'' \<or> sortBy = ''assignee''
          then [(OrderIsNull (key_column sortBy), \<not> asc), (OrderCol (key_column sortBy), asc)]
          else if sortBy = ''title'' then [(OrderLower (key_column sortBy), asc)]
          else [(OrderCol (key_column sortBy), asc)]) @ [(OrderCol ''id'', True)])"

fun order_expr_text :: "string \<Rightarrow> order_expr \<Rightarrow> string" where
  "order_expr_text qual (OrderCol c) = qual @ c"
| "order_expr_text qual (OrderLower c) = ''LOWER('' @ qual @ c @ '')''"
| "order_expr_text qual (OrderIsNull c) = ''('' @ qual @ c @ '' IS NULL)''"

definition order_text :: "string \<Rightarrow> (order_expr \<times> bool) list \<Rightarrow> string" where
  "order_text table ks = ''ORDER BY '' @
     join '', '' (map (\<lambda>(e, asc). order_expr_text (if table \<noteq> [] then table @ ''.'' else []) e @ '' '' @
       (if asc then ''ASC'' else ''DESC'')) ks)"

text \<open>
  The column values of a stored issue. An issue without assignee reads as the empty string; the column
  is NULL after an insertion and the empty text after a release, and \<open>nulls\<close> says which for an ID.
\<close>

definition sort_column :: "(string \<Rightarrow> bool) \<Rightarrow> Issue \<Rightarrow> string \<Rightarrow> sql_value" where
  "sort_column nulls i c =
     (if c = ''id'' then SqlStr (i_ID i)
      else if c = ''priority'' then SqlInt (i_Priority i)
      else if c = ''created_at'' then SqlTime (t_ns (i_CreatedAt i))
      else if c = ''updated_at'' then SqlTime (t_ns (i_UpdatedAt i))
      else if c = ''closed_at'' then (case i_ClosedAt i of None \<Rightarrow> SqlNull | Some t \<Rightarrow> SqlTime (t_ns t))
      else if c = ''status'' then SqlStr (i_Status i)
      else if c = ''issue_type'' then SqlStr (i_IssueType i)
      else if c = ''assignee'' then (if i_Assignee i = [] \<and> nulls (i_ID i) then SqlNull else SqlStr (i_Assignee i))
      else if c = ''title'' then SqlStr (i_Title i)
      else SqlNull)"

fun order_value :: "(string \<Rightarrow> bool) \<Rightarrow> Issue \<Rightarrow> order_expr \<Rightarrow> sql_value" where
  "order_value nulls i (OrderCol c) = sort_column nulls i c"
| "order_value nulls i (OrderLower c) = (case sort_column nulls i c of SqlStr s \<Rightarrow> SqlStr (to_lower s) | v \<Rightarrow> v)"
| "order_value nulls i (OrderIsNull c) = SqlInt (if sort_column nulls i c = SqlNull then 1 else 0)"

definition keys_before :: "(string \<Rightarrow> bool) \<Rightarrow> (order_expr \<times> bool) list \<Rightarrow> Issue \<Rightarrow> Issue \<Rightarrow> bool" where
  "keys_before nulls ks a b = rank_less (map snd ks) (map (order_value nulls a \<circ> fst) ks) (map (order_value nulls b \<circ> fst) ks)"

definition sql_before :: "(string \<Rightarrow> bool) \<Rightarrow> string \<Rightarrow> bool \<Rightarrow> Issue \<Rightarrow> Issue \<Rightarrow> bool" where
  "sql_before nulls sortBy sortDesc a b = keys_before nulls (order_keys sortBy sortDesc) a b"

text \<open>The rows among which an order by assignee cannot tell NULL from the empty text.\<close>

definition alike_blanks :: "(string \<Rightarrow> bool) \<Rightarrow> string \<Rightarrow> Issue \<Rightarrow> Issue \<Rightarrow> bool" where
  "alike_blanks nulls sortBy a b \<longleftrightarrow>
     (sortBy = ''assignee'' \<and> i_Assignee a = [] \<and> i_Assignee b = [] \<longrightarrow> nulls (i_ID a) = nulls (i_ID b))"

section \<open>Lemmas\<close>

lemma sort_def_cases:
  "sort_def sortBy \<in> {(\<lparr>sd_Column = ''priority'', sd_DefaultDir = ''ASC''\<rparr>, []),
     (\<lparr>sd_Column = ''priority'', sd_DefaultDir = ''ASC''\<rparr>, ''priority''),
     (\<lparr>sd_Column = ''created_at'', sd_DefaultDir = ''DESC''\<rparr>, ''created''),
     (\<lparr>sd_Column = ''updated_at'', sd_DefaultDir = ''DESC''\<rparr>, ''updated''),
     (\<lparr>sd_Column = ''closed_at'', sd_DefaultDir = ''DESC''\<rparr>, ''closed''),
     (\<lparr>sd_Column = ''status'', sd_DefaultDir = ''ASC''\<rparr>, ''status''),
     (\<lparr>sd_Column = ''issue_type'', sd_DefaultDir = ''ASC''\<rparr>, ''type''),
     (\<lparr>sd_Column = ''assignee'', sd_DefaultDir = ''ASC''\<rparr>, ''assignee''),
     (\<lparr>sd_Column = ''title'', sd_DefaultDir = ''ASC''\<rparr>, ''title'')}"
  unfolding sort_def_def SortDefs_def by (simp split: option.splits if_splits)

lemma order_text_keys:
  assumes "\<not> IsGoSideSort sortBy"
  shows "OrderBy sortBy sortDesc table = order_text table (order_keys sortBy sortDesc)"
  using sort_def_cases [of sortBy] assms
  unfolding OrderBy_def OrderByForColumns_def order_text_def order_keys_def order_column_def
  by (auto simp: flipDir_def Let_def key_column_def SortDefs_def)

lemma strings_Compare_cases:
  "strings_Compare a b = 0 \<longleftrightarrow> a = b" "strings_Compare a b < 0 \<longleftrightarrow> a < b"
  "0 < strings_Compare a b \<longleftrightarrow> b < a"
  by (auto simp: strings_Compare_def)

lemma compareTimesAsc_cases:
  "compareTimesAsc a b = 0 \<longleftrightarrow> t_ns a = t_ns b" "compareTimesAsc a b < 0 \<longleftrightarrow> t_ns a < t_ns b"
  "0 < compareTimesAsc a b \<longleftrightarrow> t_ns b < t_ns a"
  by (auto simp: compareTimesAsc_def Before_def After_def)

lemma Nil_less_iff [simp]: "[] < (s :: string) \<longleftrightarrow> s \<noteq> []"
  by (cases s) auto

lemma sort_def_same: "sort_def sortBy = (def, ''assignee'') \<Longrightarrow> sortBy = ''assignee''"
  by (auto simp: sort_def_def split: option.splits)

lemma Less_is_sql_before:
  assumes "sortBy \<noteq> ''id''" and "in_int64 (i_Priority a - i_Priority b)" and "alike_blanks nulls sortBy a b"
  shows "Less a b sortBy sortDesc = sql_before nulls sortBy sortDesc a b"
  using sort_def_cases [of sortBy] assms unfolding Less_def sql_before_def keys_before_def order_keys_def
  by (elim insertE emptyE; simp add: sortKeyCompare_def Let_def sort_column_def key_column_def strings_Compare_cases
      compareTimesAsc_cases Equal_def After_def split: option.splits)
    (auto simp: alike_blanks_def dest!: sort_def_same)

text \<open>The rows the comparison is used on: those whose priority the validation accepts.\<close>

definition rows_ok :: "Issue set" where
  "rows_ok = {i. ValidateIssuePriority (i_Priority i) = None}"

lemma rows_ok_iff: "i \<in> rows_ok \<longleftrightarrow> 0 \<le> i_Priority i \<and> i_Priority i \<le> 4"
  by (auto simp: rows_ok_def ValidateIssuePriority_def)

lemma Less_on_rows:
  assumes "a \<in> rows_ok" "b \<in> rows_ok" "alike_blanks nulls sortBy a b"
  shows "Less a b sortBy sortDesc =
    (if sortBy = ''id'' then LessID (i_ID a) (i_ID b) sortDesc else sql_before nulls sortBy sortDesc a b)"
  using assms Less_is_sql_before [of sortBy a b nulls sortDesc]
  by (auto simp: Less_def rows_ok_iff int64_defs)

lemma sql_before_total:
  assumes "i_ID a \<noteq> i_ID b"
  shows "sql_before nulls sortBy sortDesc a b \<or> sql_before nulls sortBy sortDesc b a"
proof -
  obtain def key where "sort_def sortBy = (def, key)" by fastforce
  then obtain ks where "order_keys sortBy sortDesc = ks @ [(OrderCol ''id'', True)]"
    by (simp add: order_keys_def Let_def)
  then have "map (order_value nulls a \<circ> fst) (order_keys sortBy sortDesc) \<noteq>
      map (order_value nulls b \<circ> fst) (order_keys sortBy sortDesc)"
    using assms by (simp add: sort_column_def)
  then show ?thesis unfolding sql_before_def keys_before_def by (intro rank_less_total) simp_all
qed

text \<open>With one way of storing blanks the comparison is the order of the database, so it ranks.\<close>

lemma Less_uniform:
  assumes "a \<in> rows_ok" "b \<in> rows_ok"
  shows "Less a b sortBy sortDesc =
    (if sortBy = ''id'' then LessID (i_ID a) (i_ID b) sortDesc else sql_before (\<lambda>_. True) sortBy sortDesc a b)"
  using Less_on_rows [OF assms, of "\<lambda>_. True"] by (simp add: alike_blanks_def)

interpretation issue_rank: ranking "\<lambda>a b. Less a b sortBy sortDesc" i_ID rows_ok for sortBy sortDesc
proof
  fix a b c
  assume S: "a \<in> rows_ok"
  show "\<not> Less a a sortBy sortDesc"
    using S by (simp add: Less_uniform LessID_def sql_before_def keys_before_def)
  assume T: "b \<in> rows_ok"
  show "i_ID a \<noteq> i_ID b \<Longrightarrow> Less a b sortBy sortDesc \<or> Less b a sortBy sortDesc"
    using S T sql_before_total by (auto simp: Less_uniform LessID_def)
  assume U: "c \<in> rows_ok"
  show "Less a b sortBy sortDesc \<Longrightarrow> Less b c sortBy sortDesc \<Longrightarrow> Less a c sortBy sortDesc"
    using S T U
    by (auto simp: Less_uniform LessID_def sql_before_def keys_before_def split: if_splits intro: rank_less_trans)
qed

section \<open>Properties\<close>

text \<open>
  C23: \<open>Less\<close> orders rows as the database does. The text of the \<open>ORDER BY\<close> clause is the rendering of a
  list of keys, and for issues with valid priorities the comparison is the meaning of that list on the
  stored columns. The one exception is a sort by assignee of two unassigned issues of which one is
  stored with NULL and the other with the empty text: the database keeps them apart, the one with NULL first
  in ascending order, while \<open>Less\<close> goes by their IDs. Sorting by ID is left to Go, and titles are compared in the lower
  case of ASCII.
\<close>

theorem Less_mirrors_OrderBy:
  assumes "\<not> IsGoSideSort sortBy"
    and "ValidateIssuePriority (i_Priority a) = None" "ValidateIssuePriority (i_Priority b) = None"
  shows "OrderBy sortBy sortDesc table = order_text table (order_keys sortBy sortDesc) \<and>
    (if sortBy = ''assignee'' \<and> i_Assignee a = [] \<and> i_Assignee b = [] \<and> nulls (i_ID a) \<noteq> nulls (i_ID b)
     then sql_before nulls sortBy sortDesc a b = (nulls (i_ID a) \<noteq> sortDesc) \<and> Less a b sortBy sortDesc = (i_ID a < i_ID b)
     else Less a b sortBy sortDesc = sql_before nulls sortBy sortDesc a b)"
proof -
  have t: "OrderBy sortBy sortDesc table = order_text table (order_keys sortBy sortDesc)"
    by (rule order_text_keys [OF assms(1)])
  show ?thesis
  proof (cases "alike_blanks nulls sortBy a b")
    case True
    then show ?thesis
      using assms Less_on_rows [of a b nulls sortBy sortDesc] t by (auto simp: rows_ok_def IsGoSideSort_def alike_blanks_def)
  next
    case False
    then have "sortBy = ''assignee''" "i_Assignee a = []" "i_Assignee b = []" "nulls (i_ID a) \<noteq> nulls (i_ID b)"
      by (auto simp: alike_blanks_def)
    then show ?thesis
      using t by (auto simp: sql_before_def keys_before_def order_keys_def sort_def_def SortDefs_def sort_column_def key_column_def Less_def
          sortKeyCompare_def strings_Compare_def)
  qed
qed

theorem Less_mirrors_OrderBy_witness:
  "OrderBy ''closed'' True ''i'' =
     ''ORDER BY (i.closed_at IS NULL) DESC, i.closed_at ASC, i.id ASC'' \<and>
   Less zero_issue (zero_issue\<lparr>i_ClosedAt := Some zero_time\<rparr>) ''closed'' True"
proof -
  have "OrderBy ''closed'' True ''i'' = order_text ''i'' (order_keys ''closed'' True) \<and>
     Less zero_issue (zero_issue\<lparr>i_ClosedAt := Some zero_time\<rparr>) ''closed'' True =
     sql_before (\<lambda>_. True) ''closed'' True zero_issue (zero_issue\<lparr>i_ClosedAt := Some zero_time\<rparr>)"
    using Less_mirrors_OrderBy [of "''closed''" zero_issue "zero_issue\<lparr>i_ClosedAt := Some zero_time\<rparr>" True "''i''" "\<lambda>_. True"]
    by (simp add: IsGoSideSort_def ValidateIssuePriority_def zero_issue_def)
  then show ?thesis
    by (simp add: order_text_def key_column_def order_keys_def sort_def_def SortDefs_def
        sql_before_def keys_before_def sort_column_def zero_issue_def)
qed

text \<open>
  C24: for every sort key and direction the comparison is a strict order on issues with valid
  priorities, and it decides between any two with different IDs, so that sorting by it has exactly
  one result whatever the order in which the rows arrive.
\<close>

theorem Less_sort_unique:
  assumes "mset xs = mset ys" and "distinct (map i_ID xs)"
    and "list_all (\<lambda>i. ValidateIssuePriority (i_Priority i) = None) xs"
  shows "SliceStable (\<lambda>a b. Less a b sortBy sortDesc) xs = SliceStable (\<lambda>a b. Less a b sortBy sortDesc) ys \<and>
    sorted_wrt (\<lambda>a b. Less a b sortBy sortDesc \<and> \<not> Less b a sortBy sortDesc)
      (SliceStable (\<lambda>a b. Less a b sortBy sortDesc) xs)"
proof
  have r: "issue_rank.rankable xs"
    using assms(2, 3) unfolding issue_rank.rankable_def by (auto simp: rows_ok_def list_all_iff)
  show "SliceStable (\<lambda>a b. Less a b sortBy sortDesc) xs = SliceStable (\<lambda>a b. Less a b sortBy sortDesc) ys"
    using assms(1) r by (rule issue_rank.SliceStable_mset)
  have "\<not> Less b a sortBy sortDesc" if "a \<in> set xs" "b \<in> set xs" "Less a b sortBy sortDesc" for a b
    using that r issue_rank.lt_trans [of a b a sortBy sortDesc] issue_rank.lt_irrefl [of a sortBy sortDesc]
    unfolding issue_rank.rankable_def by blast
  then show "sorted_wrt (\<lambda>a b. Less a b sortBy sortDesc \<and> \<not> Less b a sortBy sortDesc)
      (SliceStable (\<lambda>a b. Less a b sortBy sortDesc) xs)"
    using issue_rank.sorted_SliceStable [OF r]
    by (rule_tac sorted_wrt_mono_rel [where P = "\<lambda>a b. Less a b sortBy sortDesc"]) auto
qed

theorem Less_sort_unique_witness:
  "SliceStable (\<lambda>a b. Less a b [] False) [zero_issue\<lparr>i_ID := ''b''\<rparr>, zero_issue\<lparr>i_ID := ''a''\<rparr>] =
   [zero_issue\<lparr>i_ID := ''a''\<rparr>, zero_issue\<lparr>i_ID := ''b''\<rparr>]"
proof -
  have "SliceStable (\<lambda>a b. Less a b [] False) [zero_issue\<lparr>i_ID := ''b''\<rparr>, zero_issue\<lparr>i_ID := ''a''\<rparr>] =
      SliceStable (\<lambda>a b. Less a b [] False) [zero_issue\<lparr>i_ID := ''a''\<rparr>, zero_issue\<lparr>i_ID := ''b''\<rparr>]"
    using Less_sort_unique [of "[zero_issue\<lparr>i_ID := ''b''\<rparr>, zero_issue\<lparr>i_ID := ''a''\<rparr>]"
        "[zero_issue\<lparr>i_ID := ''a''\<rparr>, zero_issue\<lparr>i_ID := ''b''\<rparr>]" "[]" False]
    by (simp add: ValidateIssuePriority_def zero_issue_def)
  also have "\<dots> = [zero_issue\<lparr>i_ID := ''a''\<rparr>, zero_issue\<lparr>i_ID := ''b''\<rparr>]"
    by (simp add: Less_def sort_def_def SortDefs_def sortKeyCompare_def wrap64_def Equal_def zero_issue_def)
  finally show ?thesis .
qed

end
