(* ===== verification/Sql_Filter.thy ===== *)
theory Sql_Filter
  imports Sql_Values Query_Eval
begin

text \<open>
  The builders of \<open>WHERE\<close> clauses in \<open>internal/storage/sqlbuild\<close> (\<open>sqlbuild.go\<close>, \<open>filter.go\<close>,
  \<open>labels.go\<close>, \<open>reclaim.go\<close>), with the metadata paths of \<open>internal/storage/metadata.go\<close>. The code
  appends clauses and arguments to two slices; here a group of statements returns its list of
  clauses, each with its own arguments, and the builder concatenates.
\<close>

section \<open>Tables and arguments\<close>

text \<open>\<open>ArgRFC3339 t\<close> is the string \<open>t.Format(time.RFC3339)\<close>.\<close>

datatype sql_arg = ArgStr string | ArgInt int | ArgTime gotime | ArgRFC3339 gotime

type_synonym frag = "string \<times> sql_arg list"

record FilterTables =
  ft_Main :: string
  ft_Labels :: string
  ft_Dependencies :: string
  ft_Comments :: string

definition IssuesFilterTables :: FilterTables where
  "IssuesFilterTables = \<lparr>ft_Main = ''issues'', ft_Labels = ''labels'', ft_Dependencies = ''dependencies'',
     ft_Comments = ''comments''\<rparr>"

definition WispsFilterTables :: FilterTables where
  "WispsFilterTables = \<lparr>ft_Main = ''wisps'', ft_Labels = ''wisp_labels'',
     ft_Dependencies = ''wisp_dependencies'', ft_Comments = ''wisp_comments''\<rparr>"

definition DepTargetExpr :: string where
  "DepTargetExpr = ''COALESCE(depends_on_issue_id, depends_on_wisp_id, depends_on_external)''"

text \<open>The column lists; the lines of the constant are separated by a newline, a tab and spaces.\<close>

abbreviation (input) line_break :: string where
  "line_break \<equiv> [CHR 0x0A, CHR 0x09] @ ''       ''"

definition IssueBaseColumns :: string where
  "IssueBaseColumns = join ('','' @ line_break)
     [''id, content_hash, title, description, design, acceptance_criteria, notes'',
      ''status, priority, issue_type, assignee, estimated_minutes'',
      ''created_at, created_by, owner, updated_at, started_at, closed_at, external_ref, spec_id'',
      ''compaction_level, compacted_at, compacted_at_commit, original_size, source_repo, close_reason, closed_by_session'',
      ''sender, ephemeral, no_history, wisp_type, pinned, is_template'',
      ''await_type, await_id, timeout_ns, waiters'', ''mol_type'', ''event_kind, actor, target, payload'',
      ''due_at, defer_until'', ''work_type, source_system, metadata, row_lock, storage_class'']"

definition IssueBaseColumnsLite :: string where
  "IssueBaseColumnsLite = join ('','' @ line_break)
     [''id, content_hash, title'', ''status, priority, issue_type, assignee, estimated_minutes'',
      ''created_at, created_by, owner, updated_at, started_at, closed_at, external_ref, spec_id'',
      ''compaction_level, compacted_at, compacted_at_commit, original_size, source_repo, close_reason, closed_by_session'',
      ''sender, ephemeral, no_history, wisp_type, pinned, is_template'', ''await_type, await_id, timeout_ns'',
      ''mol_type'', ''event_kind, actor, target'', ''due_at, defer_until'',
      ''work_type, source_system, metadata, row_lock, storage_class'']"

definition LeaseSelectColumns :: string where
  "LeaseSelectColumns = ''leases.lease_expires_at, leases.heartbeat_at, leases.granted_node''"

definition IssueSelectColumns :: string where
  "IssueSelectColumns = IssueBaseColumns @ '','' @ line_break @ LeaseSelectColumns"

definition IssueSelectColumnsLite :: string where
  "IssueSelectColumnsLite = IssueBaseColumnsLite @ '','' @ line_break @ LeaseSelectColumns"

definition QualifyColumns :: "string \<Rightarrow> string \<Rightarrow> string" where
  "QualifyColumns columns pre =
     (let raw = map (\<lambda>c. if c = CHR 0x0A \<or> c = CHR 0x09 then CHR '' '' else c) columns
      in join '', '' (map (\<lambda>p. pre @ trim_space p) (split_byte (CHR '','') raw)))"

definition LeaseJoin :: "string \<Rightarrow> string" where
  "LeaseJoin tableRef = ''LEFT JOIN leases ON leases.issue_id = '' @ tableRef @ ''.id''"

definition QueryBatchSize :: nat where "QueryBatchSize = 200"

text \<open>\<open>strings.Join(placeholders, sep)\<close> for \<open>n\<close> placeholders.\<close>

definition placeholders :: "string \<Rightarrow> nat \<Rightarrow> string" where
  "placeholders sep n = join sep (replicate n ''?'')"

definition InPlaceholders :: "string list \<Rightarrow> string \<times> sql_arg list" where
  "InPlaceholders values = (placeholders '','' (length values), map ArgStr values)"

definition CompactNonEmptyStrings :: "string list \<Rightarrow> string list" where
  "CompactNonEmptyStrings values = filter (\<lambda>v. v \<noteq> []) values"

abbreviation (input) sq :: string where "sq \<equiv> [CHR 0x27]"

text \<open>\<open>if x != nil { append(clause), append(arg) }\<close>.\<close>

definition opt_frag :: "'a option \<Rightarrow> ('a \<Rightarrow> 'b) \<Rightarrow> 'b list" where
  "opt_frag x k = (case x of None \<Rightarrow> [] | Some v \<Rightarrow> [k v])"

definition if_frag :: "bool \<Rightarrow> 'b \<Rightarrow> 'b list" where
  "if_frag c fr = (if c then [fr] else [])"

definition in_frag :: "string \<Rightarrow> string \<Rightarrow> string list \<Rightarrow> frag list" where
  "in_frag text sep vs =
     (if vs = [] then [] else [(text @ '' ('' @ placeholders sep (length vs) @ '')'', map ArgStr vs)])"

section \<open>Metadata paths\<close>

definition json_path_escape :: "string \<Rightarrow> string" where
  "json_path_escape key =
     concat (map (\<lambda>c. if c = bslash then [bslash, bslash] else if c = quote_ch then [bslash, quote_ch] else [c]) key)"

definition JSONMetadataPath :: "string \<Rightarrow> string" where
  "JSONMetadataPath key = ''$.'' @ [quote_ch] @ json_path_escape key @ [quote_ch]"

datatype sql_error = BadMetadataKey string

fun metadata_field_frags :: "(string \<times> string) list \<Rightarrow> string list \<Rightarrow> sql_error + frag list" where
  "metadata_field_frags flds [] = Inr []"
| "metadata_field_frags flds (k # ks) =
     check (\<not> ValidateMetadataKey k) (BadMetadataKey k)
       (bindE (metadata_field_frags flds ks) (\<lambda>frs.
          Inr ((''JSON_UNQUOTE(JSON_EXTRACT(metadata, ?)) = ?'',
                [ArgStr (JSONMetadataPath k), ArgStr (case map_of flds k of Some v \<Rightarrow> v | None \<Rightarrow> [])]) # frs)))"

definition metadata_frags :: "string \<Rightarrow> (string \<times> string) list \<Rightarrow> sql_error + frag list" where
  "metadata_frags hasKey flds =
     check (hasKey \<noteq> [] \<and> \<not> ValidateMetadataKey hasKey) (BadMetadataKey hasKey)
       (bindE (metadata_field_frags flds (sort (map fst flds))) (\<lambda>frs.
          Inr (if_frag (hasKey \<noteq> []) (''JSON_EXTRACT(metadata, ?) IS NOT NULL'', [ArgStr (JSONMetadataPath hasKey)]) @ frs)))"

definition AppendMetadataClauses ::
    "string list \<Rightarrow> sql_arg list \<Rightarrow> string \<Rightarrow> (string \<times> string) list \<Rightarrow> sql_error + string list \<times> sql_arg list" where
  "AppendMetadataClauses whr args hasKey flds =
     bindE (metadata_frags hasKey flds) (\<lambda>frs. Inr (whr @ map fst frs, args @ concat (map snd frs)))"

section \<open>Issue filters\<close>

definition KeysetCreatedAtIDPredicate :: string where
  "KeysetCreatedAtIDPredicate = ''(created_at <= ? AND ((created_at < ?) OR (id > ?)))''"

text \<open>Iteration over the runes of a string; an invalid byte is written as the replacement character.\<close>

function globToLikePattern :: "string \<Rightarrow> string" where
  "globToLikePattern s =
     (if s = [] then []
      else let w = rune_width s; c = hd s in
        (if c = CHR ''%'' \<or> c = CHR ''_'' \<or> c = CHR ''|'' then [CHR ''|'', c]
         else if c = CHR ''*'' then ''%''
         else if c = CHR ''?'' then ''_''
         else if w = 1 \<and> 128 \<le> byte_val c then utf8_encode 65533
         else take w s) @ globToLikePattern (drop w s))"
  by pat_completeness auto
termination
  by (relation "measure length") (auto simp: diff_less)

declare globToLikePattern.simps [simp del]

definition LooksLikeIssueID :: "string \<Rightarrow> bool" where
  "LooksLikeIssueID query \<longleftrightarrow>
     (case index_byte query (CHR ''-'') of
        None \<Rightarrow> False
      | Some idx \<Rightarrow>
          0 < idx \<and> idx < length query - 1 \<and> \<not> str_contains query '' '' \<and>
          list_all (\<lambda>c. is_digit c \<or> is_lower c \<or> is_upper c \<or> c = CHR ''-'' \<or> c = CHR ''.'') query)"

definition query_frags :: "string \<Rightarrow> frag list" where
  "query_frags query =
     (if query = [] then []
      else let lowerQuery = to_lower query; pattern = ''%'' @ lowerQuery @ ''%'' in
        if LooksLikeIssueID query
        then [(''(id = ? OR id LIKE ? OR LOWER(title) LIKE ? OR LOWER(external_ref) LIKE ?)'',
               [ArgStr lowerQuery, ArgStr (lowerQuery @ ''%''), ArgStr pattern, ArgStr pattern])]
        else [(''(LOWER(title) LIKE ? OR id LIKE ?)'', [ArgStr pattern, ArgStr pattern])])"

definition contains_frag :: "string \<Rightarrow> string \<Rightarrow> frag list" where
  "contains_frag col text =
     if_frag (text \<noteq> []) (''LOWER('' @ col @ '') LIKE ?'', [ArgStr (''%'' @ to_lower text @ ''%'')])"

definition text_frags :: "IssueFilter \<Rightarrow> frag list" where
  "text_frags f =
     contains_frag ''title'' (f_TitleSearch f) @ contains_frag ''title'' (f_TitleContains f) @
     contains_frag ''description'' (f_DescriptionContains f) @ contains_frag ''notes'' (f_NotesContains f) @
     contains_frag ''external_ref'' (f_ExternalRefContains f) @
     opt_frag (f_ExternalRef f) (\<lambda>s. (''external_ref = ?'', [ArgStr s]))"

definition core_frags :: "IssueFilter \<Rightarrow> frag list" where
  "core_frags f =
     opt_frag (f_Status f) (\<lambda>s. (''status = ?'', [ArgStr s])) @
     in_frag ''status IN'' '','' (f_Statuses f) @
     in_frag ''status NOT IN'' '','' (f_ExcludeStatus f) @
     opt_frag (f_IssueType f) (\<lambda>t. (''issue_type = ?'', [ArgStr t])) @
     in_frag ''issue_type NOT IN'' '','' (f_ExcludeTypes f) @
     opt_frag (f_Assignee f) (\<lambda>a. (''assignee = ?'', [ArgStr a])) @
     opt_frag (f_Priority f) (\<lambda>p. (''priority = ?'', [ArgInt p])) @
     opt_frag (f_PriorityMin f) (\<lambda>p. (''priority >= ?'', [ArgInt p])) @
     opt_frag (f_PriorityMax f) (\<lambda>p. (''priority <= ?'', [ArgInt p]))"

definition parent_sub :: "FilterTables \<Rightarrow> string" where
  "parent_sub tables = ''SELECT issue_id FROM '' @ ft_Dependencies tables @ '' WHERE type = '' @ sq @ ''parent-child'' @ sq"

definition dotted_child :: "FilterTables \<Rightarrow> string" where
  "dotted_child tables = ''(id LIKE CONCAT(?, '' @ sq @ ''.%'' @ sq @ '') AND id NOT IN ('' @ parent_sub tables @ ''))''"

definition child_of_frag :: "FilterTables \<Rightarrow> string \<Rightarrow> frag" where
  "child_of_frag tables parentID =
     (''(id IN ('' @ parent_sub tables @ '' AND '' @ DepTargetExpr @ '' = ?) OR '' @ dotted_child tables @ '')'',
      [ArgStr parentID, ArgStr parentID])"

definition id_frags :: "IssueFilter \<Rightarrow> FilterTables \<Rightarrow> frag list" where
  "id_frags f tables =
     in_frag ''id IN'' '', '' (f_IDs f) @
     if_frag (f_IDPrefix f \<noteq> []) (''id LIKE ?'', [ArgStr (f_IDPrefix f @ ''%'')]) @
     if_frag (f_SpecIDPrefix f \<noteq> []) (''spec_id LIKE ?'', [ArgStr (f_SpecIDPrefix f @ ''%'')]) @
     opt_frag (f_ParentID f) (child_of_frag tables) @
     if_frag (f_NoParent f) (''id NOT IN ('' @ parent_sub tables @ '')'', []) @
     opt_frag (f_MolType f) (\<lambda>m. (''mol_type = ?'', [ArgStr m])) @
     opt_frag (f_WispType f) (\<lambda>w. (''wisp_type = ?'', [ArgStr w]))"

definition label_sub :: "FilterTables \<Rightarrow> string \<Rightarrow> string" where
  "label_sub tables cond = ''(SELECT issue_id FROM '' @ ft_Labels tables @ '' WHERE label '' @ cond @ '')''"

definition labels_frags :: "string list \<Rightarrow> FilterTables \<Rightarrow> frag list" where
  "labels_frags labels tables = map (\<lambda>label. (''id IN '' @ label_sub tables ''= ?'', [ArgStr label])) labels"

definition labels_any_frags :: "string \<Rightarrow> string list \<Rightarrow> FilterTables \<Rightarrow> frag list" where
  "labels_any_frags head labels tables =
     (if labels = [] then []
      else [(head @ label_sub tables (''IN ('' @ placeholders '', '' (length labels) @ '')''), map ArgStr labels)])"

definition label_match_frags :: "string \<Rightarrow> string \<Rightarrow> FilterTables \<Rightarrow> frag list" where
  "label_match_frags pattern regex tables =
     if_frag (pattern \<noteq> [])
       (''id IN '' @ label_sub tables (''LIKE ? ESCAPE '' @ sq @ ''|'' @ sq), [ArgStr (globToLikePattern pattern)]) @
     if_frag (regex \<noteq> []) (''id IN '' @ label_sub tables ''REGEXP ?'', [ArgStr regex])"

definition label_frags :: "IssueFilter \<Rightarrow> FilterTables \<Rightarrow> frag list" where
  "label_frags f tables =
     labels_frags (f_Labels f) tables @
     labels_any_frags ''id IN '' (f_LabelsAny f) tables @
     labels_any_frags ''id NOT IN '' (f_ExcludeLabels f) tables @
     if_frag (f_NoLabels f) (''id NOT IN (SELECT DISTINCT issue_id FROM '' @ ft_Labels tables @ '')'', []) @
     label_match_frags (f_LabelPattern f) (f_LabelRegex f) tables"

definition bool_frag :: "string \<Rightarrow> bool option \<Rightarrow> frag list" where
  "bool_frag col b =
     opt_frag b (\<lambda>v. (if v then col @ '' = 1'' else ''('' @ col @ '' = 0 OR '' @ col @ '' IS NULL)'', []))"

definition flag_frags :: "IssueFilter \<Rightarrow> frag list" where
  "flag_frags f =
     bool_frag ''pinned'' (f_Pinned f) @
     opt_frag (f_SourceRepo f) (\<lambda>s. (''source_repo = ?'', [ArgStr s])) @
     bool_frag ''ephemeral'' (f_Ephemeral f) @
     bool_frag ''is_template'' (f_IsTemplate f) @
     opt_frag (f_IsBlocked f) (\<lambda>b. (''is_blocked = ?'', [ArgInt (if b then 1 else 0)])) @
     if_frag (f_EmptyDescription f) (''(description IS NULL OR description = '' @ sq @ sq @ '')'', []) @
     if_frag (f_NoAssignee f) (''(assignee IS NULL OR assignee = '' @ sq @ sq @ '')'', [])"

definition time_frag :: "string \<Rightarrow> string \<Rightarrow> gotime option \<Rightarrow> frag list" where
  "time_frag col cmpop v = opt_frag v (\<lambda>t. (col @ '' '' @ cmpop @ '' ?'', [ArgRFC3339 t]))"

definition time_frags :: "IssueFilter \<Rightarrow> frag list" where
  "time_frags f =
     time_frag ''created_at'' ''>'' (f_CreatedAfter f) @ time_frag ''created_at'' ''<'' (f_CreatedBefore f) @
     time_frag ''updated_at'' ''>'' (f_UpdatedAfter f) @ time_frag ''updated_at'' ''<'' (f_UpdatedBefore f) @
     time_frag ''closed_at'' ''>'' (f_ClosedAfter f) @ time_frag ''closed_at'' ''<'' (f_ClosedBefore f) @
     time_frag ''started_at'' ''>'' (f_StartedAfter f) @ time_frag ''started_at'' ''<'' (f_StartedBefore f) @
     time_frag ''defer_until'' ''>'' (f_DeferAfter f) @ time_frag ''defer_until'' ''<'' (f_DeferBefore f) @
     time_frag ''due_at'' ''>'' (f_DueAfter f) @ time_frag ''due_at'' ''<'' (f_DueBefore f)"

definition schedule_frags :: "gotime \<Rightarrow> IssueFilter \<Rightarrow> frag list" where
  "schedule_frags now f =
     opt_frag (f_AfterCreatedAt f) (\<lambda>ac. (KeysetCreatedAtIDPredicate, [ArgTime ac, ArgTime ac, ArgStr (f_AfterID f)])) @
     if_frag (f_Deferred f) (''(defer_until IS NOT NULL OR status = ?)'', [ArgStr StatusDeferred]) @
     if_frag (f_Overdue f)
       (''due_at IS NOT NULL AND due_at < ? AND status != ?'', [ArgRFC3339 (UTC now), ArgStr StatusClosed])"

definition filter_frags :: "gotime \<Rightarrow> string \<Rightarrow> IssueFilter \<Rightarrow> FilterTables \<Rightarrow> frag list" where
  "filter_frags now query f tables =
     query_frags query @ text_frags f @ core_frags f @ id_frags f tables @ label_frags f tables @
     flag_frags f @ time_frags f @ schedule_frags now f"

definition BuildIssueFilterClauses ::
    "gotime \<Rightarrow> string \<Rightarrow> IssueFilter \<Rightarrow> FilterTables \<Rightarrow> sql_error + string list \<times> sql_arg list" where
  "BuildIssueFilterClauses now query f tables =
     (let frs = filter_frags now query f tables in
      AppendMetadataClauses (map fst frs) (concat (map snd frs)) (f_HasMetadataKey f) (f_MetadataFields f))"

section \<open>Label joins\<close>

record LabelSearchPlan =
  lp_FromSQL :: string
  lp_Where :: "string list"
  lp_Args :: "sql_arg list"
  lp_Distinct :: bool
  lp_Filter :: IssueFilter

definition MergeInto :: "LabelSearchPlan \<Rightarrow> string list \<Rightarrow> sql_arg list \<Rightarrow> string list \<times> sql_arg list" where
  "MergeInto p whr args =
     (if lp_Where p = [] then (whr, args) else (lp_Where p @ whr, lp_Args p @ args))"

definition label_alias :: "nat \<Rightarrow> string" where
  "label_alias i = ''label_filter_'' @ nat_to_dec i"

definition label_join :: "FilterTables \<Rightarrow> string \<Rightarrow> string" where
  "label_join tables alias =
     ''JOIN '' @ ft_Labels tables @ '' '' @ alias @ '' ON '' @ alias @ ''.issue_id = '' @ ft_Main tables @ ''.id''"

definition BuildLabelDrivenSearch :: "IssueFilter \<Rightarrow> FilterTables \<Rightarrow> LabelSearchPlan" where
  "BuildLabelDrivenSearch f tables =
     (let labels = CompactNonEmptyStrings (f_Labels f); labelsAny = CompactNonEmptyStrings (f_LabelsAny f) in
      if labels = [] \<and> labelsAny = []
      then \<lparr>lp_FromSQL = ft_Main tables, lp_Where = [], lp_Args = [], lp_Distinct = False, lp_Filter = f\<rparr>
      else
        let aliases = map label_alias [0..<length labels];
            anyAlias = ''label_filter_any'';
            joins = map (label_join tables) aliases @ (if labelsAny = [] then [] else [label_join tables anyAlias])
        in \<lparr>lp_FromSQL = ft_Main tables @ '' '' @ join '' '' joins,
            lp_Where = map (\<lambda>a. a @ ''.label = ?'') aliases @
              (if labelsAny = [] then []
               else [anyAlias @ ''.label IN ('' @ placeholders '', '' (length labelsAny) @ '')'']),
            lp_Args = map ArgStr labels @ map ArgStr labelsAny,
            lp_Distinct = True,
            lp_Filter = f\<lparr>f_Labels := [], f_LabelsAny := []\<rparr>\<rparr>)"

section \<open>Reclaim scopes\<close>

record ReclaimFilter =
  rf_IDs :: "string list"
  rf_Assignees :: "string list"
  rf_Labels :: "string list"
  rf_LabelsAny :: "string list"
  rf_ExcludeLabels :: "string list"
  rf_AnyReplica :: bool

definition ReclaimFilter_IsEmpty :: "ReclaimFilter \<Rightarrow> bool" where
  "ReclaimFilter_IsEmpty f \<longleftrightarrow>
     length (rf_IDs f) = 0 \<and> length (rf_Assignees f) = 0 \<and> length (rf_Labels f) = 0 \<and>
     length (rf_LabelsAny f) = 0 \<and> length (rf_ExcludeLabels f) = 0"

definition degenerate :: "string list \<Rightarrow> string list \<Rightarrow> bool" where
  "degenerate raw compacted \<longleftrightarrow> length raw > 0 \<and> length compacted = 0"

definition no_match :: frag where
  "no_match = (''1=0'', [])"

text \<open>The four switches on a populated field: \<open>text\<close> puts the placeholders into the clause.\<close>

definition scope_frags :: "string list \<Rightarrow> (string \<Rightarrow> string) \<Rightarrow> frag list" where
  "scope_frags raw text =
     (let vs = CompactNonEmptyStrings raw in
      if degenerate raw vs then [no_match]
      else if length vs > 0 then [(text (fst (InPlaceholders vs)), snd (InPlaceholders vs))]
      else [])"

definition reclaim_column :: "string \<Rightarrow> string \<Rightarrow> string" where
  "reclaim_column alias name = (if alias = [] then name else alias @ ''.'' @ name)"

definition reclaim_frags :: "ReclaimFilter \<Rightarrow> FilterTables \<Rightarrow> string \<Rightarrow> frag list" where
  "reclaim_frags f tables alias =
     (let col = reclaim_column alias; labels = CompactNonEmptyStrings (rf_Labels f) in
      scope_frags (rf_IDs f) (\<lambda>ph. col ''id'' @ '' IN ('' @ ph @ '')'') @
      scope_frags (rf_Assignees f) (\<lambda>ph. col ''assignee'' @ '' IN ('' @ ph @ '')'') @
      if_frag (degenerate (rf_Labels f) labels) no_match @
      map (\<lambda>label. (col ''id'' @ '' IN '' @ label_sub tables ''= ?'', [ArgStr label])) labels @
      scope_frags (rf_LabelsAny f) (\<lambda>ph. col ''id'' @ '' IN '' @ label_sub tables (''IN ('' @ ph @ '')'')) @
      scope_frags (rf_ExcludeLabels f)
        (\<lambda>ph. col ''id'' @ '' NOT IN '' @ label_sub tables (''IN ('' @ ph @ '')'')))"

definition BuildReclaimScopeClauses ::
    "ReclaimFilter \<Rightarrow> FilterTables \<Rightarrow> string \<Rightarrow> string list \<times> sql_arg list" where
  "BuildReclaimScopeClauses f tables alias =
     (let frs = reclaim_frags f tables alias in (map fst frs, concat (map snd frs)))"

definition ReclaimScopeSQL :: "ReclaimFilter \<Rightarrow> FilterTables \<Rightarrow> string \<Rightarrow> string \<times> sql_arg list" where
  "ReclaimScopeSQL f tables alias =
     (let (clauses, args) = BuildReclaimScopeClauses f tables alias in
      if clauses = [] then ([], []) else ('' AND '' @ join '' AND '' clauses, args))"

section \<open>Placeholders and arguments\<close>

definition count_marks :: "string \<Rightarrow> nat" where
  "count_marks s = length (filter (\<lambda>c. c = CHR ''?'') s)"

lemma count_marks_append [simp]: "count_marks (s @ t) = count_marks s + count_marks t"
  by (simp add: count_marks_def)

lemma count_marks_Cons [simp]: "count_marks (c # s) = (if c = CHR ''?'' then 1 else 0) + count_marks s"
  by (simp add: count_marks_def)

lemma count_marks_Nil [simp]: "count_marks [] = 0"
  by (simp add: count_marks_def)

text \<open>A clause is balanced when it has a placeholder for each of its arguments.\<close>

definition balanced :: "frag \<Rightarrow> bool" where
  "balanced fr \<longleftrightarrow> count_marks (fst fr) = length (snd fr)"

lemma balanced_pair [simp]: "balanced (s, as) \<longleftrightarrow> count_marks s = length as"
  by (simp add: balanced_def)

lemma count_marks_join:
  "count_marks sep = 0 \<Longrightarrow> count_marks (join sep xs) = sum_list (map count_marks xs)"
  by (induction sep xs rule: join.induct) auto

lemma count_placeholders [simp]: "count_marks sep = 0 \<Longrightarrow> count_marks (placeholders sep n) = n"
  by (simp add: placeholders_def count_marks_join sum_list_replicate)

lemma list_all_opt_frag [simp]: "list_all P (opt_frag x k) \<longleftrightarrow> opt_holds (\<lambda>v. P (k v)) x"
  by (cases x) (simp_all add: opt_frag_def)

lemma list_all_if_frag [simp]: "list_all P (if_frag c fr) \<longleftrightarrow> (c \<longrightarrow> P fr)"
  by (simp add: if_frag_def)

lemma opt_holds_const [simp]: "opt_holds (\<lambda>v. True) x"
  by (cases x) simp_all

text \<open>A table name brings no placeholder of its own.\<close>

definition plain_tables :: "FilterTables \<Rightarrow> bool" where
  "plain_tables tables \<longleftrightarrow> count_marks (ft_Labels tables) = 0 \<and> count_marks (ft_Dependencies tables) = 0"

lemma plain_tables_both [simp]: "plain_tables IssuesFilterTables" "plain_tables WispsFilterTables"
  by (simp_all add: plain_tables_def IssuesFilterTables_def WispsFilterTables_def)

lemma in_frag_balanced: "count_marks text = 0 \<Longrightarrow> count_marks sep = 0 \<Longrightarrow> list_all balanced (in_frag text sep vs)"
  by (simp add: in_frag_def)

lemma label_sub_marks: "plain_tables tables \<Longrightarrow> count_marks (label_sub tables cond) = count_marks cond"
  by (simp add: label_sub_def plain_tables_def)

lemma scope_frags_balanced:
  "(\<And>ph. count_marks (text ph) = count_marks ph) \<Longrightarrow> list_all balanced (scope_frags raw text)"
  by (simp add: scope_frags_def Let_def no_match_def InPlaceholders_def)

lemmas frag_balance = in_frag_balanced label_sub_marks scope_frags_balanced contains_frag_def
  bool_frag_def time_frag_def labels_frags_def labels_any_frags_def label_match_frags_def

lemma filter_frags_balanced:
  assumes "plain_tables tables"
  shows "list_all balanced (filter_frags now query f tables)"
proof -
  have "list_all balanced (query_frags query)"
    by (simp add: query_frags_def Let_def)
  moreover have "list_all balanced (text_frags f)" "list_all balanced (core_frags f)"
    "list_all balanced (time_frags f)" "list_all balanced (flag_frags f)"
    by (simp_all add: text_frags_def core_frags_def time_frags_def flag_frags_def frag_balance
        if_distrib [of count_marks] opt_holds_def split: option.splits)
  moreover have "list_all balanced (schedule_frags now f)"
    by (simp add: schedule_frags_def KeysetCreatedAtIDPredicate_def)
  moreover have "list_all balanced (id_frags f tables)"
    using assms by (simp add: id_frags_def frag_balance child_of_frag_def parent_sub_def dotted_child_def
        DepTargetExpr_def plain_tables_def)
  moreover have "list_all balanced (label_frags f tables)"
    using assms
    by (simp add: label_frags_def frag_balance list.pred_map comp_def) (simp add: plain_tables_def list.pred_True)
  ultimately show ?thesis by (simp add: filter_frags_def)
qed

lemma metadata_field_frags_balanced:
  "metadata_field_frags flds ks = Inr frs \<Longrightarrow> list_all balanced frs"
  by (induction ks arbitrary: frs) (auto simp: check_def bindE_def split: if_splits sum.splits)

lemma metadata_frags_balanced: "metadata_frags hasKey flds = Inr frs \<Longrightarrow> list_all balanced frs"
  by (auto simp: metadata_frags_def check_def bindE_def dest: metadata_field_frags_balanced
      split: if_splits sum.splits)

lemma balanced_total:
  "list_all balanced frs \<Longrightarrow> sum_list (map count_marks (map fst frs)) = length (concat (map snd frs))"
  by (induction frs) (auto simp: balanced_def)

lemma reclaim_frags_balanced:
  assumes "plain_tables tables" "count_marks alias = 0"
  shows "list_all balanced (reclaim_frags f tables alias)"
  using assms by (simp add: reclaim_frags_def Let_def frag_balance reclaim_column_def no_match_def
      list.pred_map comp_def list.pred_True)

section \<open>Values stay out of the text\<close>



lemma fst_if_frag: "c' = c \<Longrightarrow> fst fr' = fst fr \<Longrightarrow> map fst (if_frag c' fr') = map fst (if_frag c fr)"
  by (simp add: if_frag_def)







lemma MergeInto_total:
  assumes "plain_tables tables" "count_marks (ft_Main tables) = 0"
  shows "MergeInto (BuildLabelDrivenSearch f tables) whr args = (w, as) \<Longrightarrow>
    sum_list (map count_marks whr) = length args \<Longrightarrow> sum_list (map count_marks w) = length as"
proof -
  have al: "count_marks (label_alias i) = 0" for i
  proof -
    have "CHR ''?'' \<notin> set (nat_to_dec i)"
      using nat_to_dec_digits [of i] by (auto simp: list_all_iff is_digit_def)
    then have "count_marks (nat_to_dec i) = 0" by (auto simp: count_marks_def filter_empty_conv)
    then show ?thesis by (simp add: label_alias_def)
  qed
  show "MergeInto (BuildLabelDrivenSearch f tables) whr args = (w, as) \<Longrightarrow>
    sum_list (map count_marks whr) = length args \<Longrightarrow> sum_list (map count_marks w) = length as"
    by (auto simp: MergeInto_def BuildLabelDrivenSearch_def Let_def al comp_def sum_list_triv
        split: if_splits)
qed

section \<open>Properties\<close>




text \<open>
  The search query binds exactly. For both table families, the text of the whole condition, label
  joins included, has one placeholder for every argument.
\<close>

theorem search_condition_balanced:
  assumes "tables = IssuesFilterTables \<or> tables = WispsFilterTables"
    and "BuildIssueFilterClauses now query (lp_Filter (BuildLabelDrivenSearch f tables)) tables = Inr (cl, as)"
    and "MergeInto (BuildLabelDrivenSearch f tables) cl as = (whr, args)"
  shows "count_marks (join '' AND '' whr) = length args"
proof -
  have t: "plain_tables tables" "count_marks (ft_Main tables) = 0"
    using assms(1) by (auto simp: IssuesFilterTables_def WispsFilterTables_def plain_tables_def)
  define g where "g = lp_Filter (BuildLabelDrivenSearch f tables)"
  obtain frs where frs: "metadata_frags (f_HasMetadataKey g) (f_MetadataFields g) = Inr frs"
    "cl = map fst (filter_frags now query g tables @ frs)"
    "as = concat (map snd (filter_frags now query g tables @ frs))"
    using assms(2) by (auto simp: g_def [symmetric] BuildIssueFilterClauses_def AppendMetadataClauses_def
        bindE_def Let_def split: sum.splits)
  have "list_all balanced (filter_frags now query g tables @ frs)"
    using filter_frags_balanced [OF t(1)] metadata_frags_balanced [OF frs(1)] by simp
  then have "sum_list (map count_marks cl) = length as"
    unfolding frs(2, 3) by (rule balanced_total)
  then have "sum_list (map count_marks whr) = length args"
    by (rule MergeInto_total [OF t assms(3)])
  then show ?thesis by (simp add: count_marks_join)
qed

theorem search_condition_balanced_witness:
  "count_marks (join '' AND '' [''label_filter_0.label = ?'', ''label_filter_any.label IN (?, ?)'', ''status = ?'']) =
   length [ArgStr ''x'', ArgStr ''y'', ArgStr ''z'', ArgStr ''open'']"
  by (rule search_condition_balanced [where tables = IssuesFilterTables and now = zero_time and query = "[]"
        and f = "zero_filter\<lparr>f_Status := Some ''open'', f_Labels := [''x''], f_LabelsAny := [''y'', ''z'']\<rparr>"
        and cl = "[''status = ?'']" and as = "[ArgStr ''open'']"]) code_simp+

text \<open>
  C26: reclaiming fails closed. The scope is the empty text only for the filter without any entry,
  and a field whose entries are all empty adds the clause that matches nothing.
\<close>

theorem reclaim_fails_closed:
  "(fst (ReclaimScopeSQL f tables alias) = [] \<longleftrightarrow> ReclaimFilter_IsEmpty f) \<and>
   (list_ex (\<lambda>raw. raw \<noteq> [] \<and> list_all (\<lambda>v. v = []) raw)
      [rf_IDs f, rf_Assignees f, rf_Labels f, rf_LabelsAny f, rf_ExcludeLabels f] \<longrightarrow>
    ''1=0'' \<in> set (fst (BuildReclaimScopeClauses f tables alias)))"
proof -
  have scope: "scope_frags raw tx = [] \<longleftrightarrow> raw = []" for raw tx
    by (auto simp: scope_frags_def Let_def degenerate_def CompactNonEmptyStrings_def)
  have lab: "if_frag (degenerate (rf_Labels f) (CompactNonEmptyStrings (rf_Labels f))) no_match = [] \<and>
      CompactNonEmptyStrings (rf_Labels f) = [] \<longleftrightarrow> rf_Labels f = []"
    by (auto simp: if_frag_def degenerate_def CompactNonEmptyStrings_def)
  have empty: "reclaim_frags f tables alias = [] \<longleftrightarrow> ReclaimFilter_IsEmpty f"
    using lab by (auto simp: reclaim_frags_def Let_def scope ReclaimFilter_IsEmpty_def)
  have hit: "no_match \<in> set (scope_frags raw tx)" if "raw \<noteq> []" "list_all (\<lambda>v. v = []) raw" for raw tx
    using that by (auto simp: scope_frags_def Let_def degenerate_def CompactNonEmptyStrings_def
        list_all_iff filter_empty_conv)
  have "no_match \<in> set (reclaim_frags f tables alias)"
    if "list_ex (\<lambda>raw. raw \<noteq> [] \<and> list_all (\<lambda>v. v = []) raw)
      [rf_IDs f, rf_Assignees f, rf_Labels f, rf_LabelsAny f, rf_ExcludeLabels f]"
    using that by (auto simp: reclaim_frags_def Let_def hit if_frag_def degenerate_def
        CompactNonEmptyStrings_def list_all_iff filter_empty_conv)
  then show ?thesis
    using empty by (force simp: ReclaimScopeSQL_def BuildReclaimScopeClauses_def Let_def no_match_def)
qed

theorem reclaim_fails_closed_witness:
  "ReclaimScopeSQL \<lparr>rf_IDs = [], rf_Assignees = [], rf_Labels = [''''], rf_LabelsAny = [],
     rf_ExcludeLabels = [], rf_AnyReplica = False\<rparr> IssuesFilterTables ''i'' = ('' AND 1=0'', []) \<and>
   ''1=0'' \<in> set (fst (BuildReclaimScopeClauses \<lparr>rf_IDs = [], rf_Assignees = [], rf_Labels = [''''],
     rf_LabelsAny = [], rf_ExcludeLabels = [], rf_AnyReplica = False\<rparr> IssuesFilterTables ''i''))"
proof
  show "ReclaimScopeSQL \<lparr>rf_IDs = [], rf_Assignees = [], rf_Labels = [''''], rf_LabelsAny = [],
     rf_ExcludeLabels = [], rf_AnyReplica = False\<rparr> IssuesFilterTables ''i'' = ('' AND 1=0'', [])"
    by code_simp
  show "''1=0'' \<in> set (fst (BuildReclaimScopeClauses \<lparr>rf_IDs = [], rf_Assignees = [], rf_Labels = [''''],
     rf_LabelsAny = [], rf_ExcludeLabels = [], rf_AnyReplica = False\<rparr> IssuesFilterTables ''i''))"
    by (rule reclaim_fails_closed [THEN conjunct2, THEN mp]) simp
qed

end
