(* ===== verification/Sql_Semantics.thy ===== *)
theory Sql_Semantics
  imports Sql_Filter
begin

text \<open>
  The meaning of the \<open>WHERE\<close> clauses of \<open>Sql_Filter\<close>. A condition is a term of the datatype
  \<open>sql_cond\<close> that renders to the clause the code builds; \<open>holds\<close> is what the database decides for a
  stored issue. Strings compare by bytes (the collation of the database is binary), and a comparison with NULL
  is not true. \<open>REGEXP\<close> and the JSON functions belong to the database and are components of the
  record \<open>engine\<close>.
\<close>

section \<open>LIKE\<close>

fun like :: "char \<Rightarrow> string \<Rightarrow> string \<Rightarrow> bool" where
  "like e [] s = (s = [])"
| "like e [p] s =
     (if p = e then s = [p] else if p = CHR ''%'' then True
      else if p = CHR ''_'' then length s = 1 else s = [p])"
| "like e (p # q # ps) [] = (p \<noteq> e \<and> p = CHR ''%'' \<and> like e (q # ps) [])"
| "like e (p # q # ps) (c # s) =
     (if p = e then c = q \<and> like e ps s
      else if p = CHR ''%'' then like e (q # ps) (c # s) \<or> like e (p # q # ps) s
      else (p = CHR ''_'' \<or> p = c) \<and> like e (q # ps) s)"

text \<open>The default escape character is the backslash.\<close>

abbreviation sql_like :: "string \<Rightarrow> string \<Rightarrow> bool" where
  "sql_like pattern s \<equiv> like bslash pattern s"

definition plain :: "string \<Rightarrow> bool" where
  "plain s \<longleftrightarrow> list_all (\<lambda>c. c \<noteq> CHR ''%'' \<and> c \<noteq> CHR ''_'' \<and> c \<noteq> bslash) s"

lemma plain_simps [simp]:
  "plain []" "plain (c # s) \<longleftrightarrow> c \<noteq> CHR ''%'' \<and> c \<noteq> CHR ''_'' \<and> c \<noteq> bslash \<and> plain s"
  "plain (s @ t) \<longleftrightarrow> plain s \<and> plain t"
  by (auto simp: plain_def)

lemma like_char:
  assumes "c \<noteq> e" "c \<noteq> CHR ''%''" "c \<noteq> CHR ''_''"
  shows "like e (c # ps) s \<longleftrightarrow> (\<exists>s'. s = c # s' \<and> like e ps s')"
  using assms by (cases ps; cases s) auto

lemma like_percent:
  assumes "e \<noteq> CHR ''%''"
  shows "like e (CHR ''%'' # ps) s \<longleftrightarrow> (\<exists>k \<le> length s. like e ps (drop k s))"
proof (induction s)
  case Nil
  show ?case using assms by (cases ps) auto
next
  case (Cons c s)
  have "like e (CHR ''%'' # ps) (c # s) \<longleftrightarrow> like e ps (c # s) \<or> like e (CHR ''%'' # ps) s"
    using assms by (cases ps) auto
  also have "\<dots> \<longleftrightarrow> like e ps (drop 0 (c # s)) \<or> (\<exists>k \<le> length s. like e ps (drop (Suc k) (c # s)))"
    using Cons.IH by simp
  also have "\<dots> \<longleftrightarrow> (\<exists>k \<le> length (c # s). like e ps (drop k (c # s)))"
    by (metis Suc_le_mono length_Cons not0_implies_Suc zero_le)
  finally show ?case .
qed

lemma has_prefix_Cons_iff: "has_prefix s (a # p) \<longleftrightarrow> (\<exists>s'. s = a # s' \<and> has_prefix s' p)"
  by (cases s) (auto simp: has_prefix_def)

lemma like_prefix: "plain p \<Longrightarrow> sql_like (p @ ''%'') s \<longleftrightarrow> has_prefix s p"
  by (induction p arbitrary: s) (auto simp: like_char has_prefix_Cons_iff)

lemma str_contains_drop: "str_contains s p \<longleftrightarrow> (\<exists>k \<le> length s. has_prefix (drop k s) p)"
proof (induction s)
  case (Cons c s)
  have "str_contains (c # s) p \<longleftrightarrow>
      has_prefix (drop 0 (c # s)) p \<or> (\<exists>k \<le> length s. has_prefix (drop (Suc k) (c # s)) p)"
    using Cons by simp
  also have "\<dots> \<longleftrightarrow> (\<exists>k \<le> length (c # s). has_prefix (drop k (c # s)) p)"
    by (metis Suc_le_mono length_Cons not0_implies_Suc zero_le)
  finally show ?case .
qed (auto simp: has_prefix_def)

lemma like_contains: "plain p \<Longrightarrow> sql_like (''%'' @ p @ ''%'') s \<longleftrightarrow> str_contains s p"
proof -
  assume p: "plain p"
  have "sql_like (''%'' @ p @ ''%'') s \<longleftrightarrow> (\<exists>k \<le> length s. has_prefix (drop k s) p)"
    using like_prefix [OF p] by (simp add: like_percent)
  also have "\<dots> \<longleftrightarrow> str_contains s p"
    by (simp add: str_contains_drop)
  finally show ?thesis .
qed

text \<open>A shell glob: \<open>*\<close> is any text, \<open>?\<close> any character.\<close>

fun glob :: "string \<Rightarrow> string \<Rightarrow> bool" where
  "glob [] s = (s = [])"
| "glob (p # ps) [] = (p = CHR ''*'' \<and> glob ps [])"
| "glob (p # ps) (c # s) =
     (if p = CHR ''*'' then glob ps (c # s) \<or> glob (p # ps) s
      else (p = CHR ''?'' \<or> p = c) \<and> glob ps s)"

lemma glob_star: "glob (CHR ''*'' # ps) s \<longleftrightarrow> (\<exists>k \<le> length s. glob ps (drop k s))"
proof (induction s)
  case (Cons c s)
  have "glob (CHR ''*'' # ps) (c # s) \<longleftrightarrow>
      glob ps (drop 0 (c # s)) \<or> (\<exists>k \<le> length s. glob ps (drop (Suc k) (c # s)))"
    using Cons by simp
  also have "\<dots> \<longleftrightarrow> (\<exists>k \<le> length (c # s). glob ps (drop k (c # s)))"
    by (metis Suc_le_mono length_Cons not0_implies_Suc zero_le)
  finally show ?case .
qed auto

lemma like_escaped: "like e (e # c # ps) s \<longleftrightarrow> (\<exists>s'. s = c # s' \<and> like e ps s')"
  by (cases s) auto

lemma like_underscore: "e \<noteq> CHR ''_'' \<Longrightarrow> like e (CHR ''_'' # ps) s \<longleftrightarrow> (\<exists>c s'. s = c # s' \<and> like e ps s')"
  by (cases ps; cases s) (auto simp: length_Suc_conv)

definition glob_char :: "char \<Rightarrow> string" where
  "glob_char c =
     (if c = CHR ''%'' \<or> c = CHR ''_'' \<or> c = CHR ''|'' then [CHR ''|'', c]
      else if c = CHR ''*'' then ''%'' else if c = CHR ''?'' then ''_'' else [c])"

lemma globToLikePattern_ascii:
  "list_all (\<lambda>c. byte_val c < 128) s \<Longrightarrow> globToLikePattern s = concat (map glob_char s)"
proof (induction s)
  case (Cons c s)
  then have "rune_width (c # s) = 1" by (simp add: rune_width_def Let_def)
  with Cons show ?case
    by (simp add: globToLikePattern.simps [of "c # s"] glob_char_def Let_def)
qed (simp add: globToLikePattern.simps)

lemma like_glob_chars: "like (CHR ''|'') (concat (map glob_char g)) s \<longleftrightarrow> glob g s"
proof (induction g arbitrary: s)
  case (Cons c g)
  consider "c = CHR ''*''" | "c = CHR ''?''" | "c \<noteq> CHR ''*''" "c \<noteq> CHR ''?''" by blast
  then show ?case
  proof cases
    case 1
    then show ?thesis using Cons by (simp add: glob_char_def like_percent glob_star)
  next
    case 2
    then show ?thesis using Cons by (cases s) (simp_all add: glob_char_def like_underscore)
  next
    case 3
    then have "like (CHR ''|'') (concat (map glob_char (c # g))) s \<longleftrightarrow>
        (\<exists>s'. s = c # s' \<and> like (CHR ''|'') (concat (map glob_char g)) s')"
      by (simp add: glob_char_def like_escaped like_char)
    then show ?thesis using Cons 3 by (cases s) auto
  qed
qed simp

section \<open>Conditions\<close>

datatype sql_expr = ECol string | ELower string

datatype sub_cond =
    LabelEq sql_arg | LabelIn string "sql_arg list" | LabelLike sql_arg | LabelRegexp sql_arg
  | AnyLabel | ParentChild | ParentChildOf sql_arg

datatype sql_cond =
    CCmp sql_expr string sql_arg
  | CFlag string bool
  | CBlank string
  | CNotNull string
  | CIn string bool string "sql_arg list"
  | CSub bool sub_cond
  | CDotted sql_arg
  | CHasKey sql_arg
  | CKeyEq sql_arg sql_arg
  | CParen sql_cond
  | CAnd sql_cond sql_cond
  | COr sql_cond sql_cond

fun expr_text :: "sql_expr \<Rightarrow> string" where
  "expr_text (ECol c) = c"
| "expr_text (ELower c) = ''LOWER('' @ c @ '')''"

fun sub_text :: "FilterTables \<Rightarrow> sub_cond \<Rightarrow> string" where
  "sub_text t (LabelEq a) = label_sub t ''= ?''"
| "sub_text t (LabelIn sep as) = label_sub t (''IN ('' @ placeholders sep (length as) @ '')'')"
| "sub_text t (LabelLike a) = label_sub t (''LIKE ? ESCAPE '' @ sq @ ''|'' @ sq)"
| "sub_text t (LabelRegexp a) = label_sub t ''REGEXP ?''"
| "sub_text t AnyLabel = ''(SELECT DISTINCT issue_id FROM '' @ ft_Labels t @ '')''"
| "sub_text t ParentChild = ''('' @ parent_sub t @ '')''"
| "sub_text t (ParentChildOf a) = ''('' @ parent_sub t @ '' AND '' @ DepTargetExpr @ '' = ?)''"

fun sub_args :: "sub_cond \<Rightarrow> sql_arg list" where
  "sub_args (LabelEq a) = [a]"
| "sub_args (LabelIn sep as) = as"
| "sub_args (LabelLike a) = [a]"
| "sub_args (LabelRegexp a) = [a]"
| "sub_args AnyLabel = []"
| "sub_args ParentChild = []"
| "sub_args (ParentChildOf a) = [a]"

fun cond_text :: "FilterTables \<Rightarrow> sql_cond \<Rightarrow> string" where
  "cond_text t (CCmp e cmpop a) = expr_text e @ '' '' @ cmpop @ '' ?''"
| "cond_text t (CFlag c v) = (if v then c @ '' = 1'' else ''('' @ c @ '' = 0 OR '' @ c @ '' IS NULL)'')"
| "cond_text t (CBlank c) = ''('' @ c @ '' IS NULL OR '' @ c @ '' = '' @ sq @ sq @ '')''"
| "cond_text t (CNotNull c) = c @ '' IS NOT NULL''"
| "cond_text t (CIn c pos sep as) =
     c @ (if pos then '' IN '' else '' NOT IN '') @ ''('' @ placeholders sep (length as) @ '')''"
| "cond_text t (CSub pos sub) = (if pos then ''id IN '' else ''id NOT IN '') @ sub_text t sub"
| "cond_text t (CDotted a) = ''id LIKE CONCAT(?, '' @ sq @ ''.%'' @ sq @ '')''"
| "cond_text t (CHasKey p) = ''JSON_EXTRACT(metadata, ?) IS NOT NULL''"
| "cond_text t (CKeyEq p v) = ''JSON_UNQUOTE(JSON_EXTRACT(metadata, ?)) = ?''"
| "cond_text t (CParen x) = ''('' @ cond_text t x @ '')''"
| "cond_text t (CAnd x y) = cond_text t x @ '' AND '' @ cond_text t y"
| "cond_text t (COr x y) = cond_text t x @ '' OR '' @ cond_text t y"

fun cond_args :: "sql_cond \<Rightarrow> sql_arg list" where
  "cond_args (CCmp e cmpop a) = [a]"
| "cond_args (CFlag c v) = []"
| "cond_args (CBlank c) = []"
| "cond_args (CNotNull c) = []"
| "cond_args (CIn c pos sep as) = as"
| "cond_args (CSub pos sub) = sub_args sub"
| "cond_args (CDotted a) = [a]"
| "cond_args (CHasKey p) = [p]"
| "cond_args (CKeyEq p v) = [p, v]"
| "cond_args (CParen x) = cond_args x"
| "cond_args (CAnd x y) = cond_args x @ cond_args y"
| "cond_args (COr x y) = cond_args x @ cond_args y"

definition cond_frag :: "FilterTables \<Rightarrow> sql_cond \<Rightarrow> frag" where
  "cond_frag t x = (cond_text t x, cond_args x)"

section \<open>What a condition selects\<close>

record engine =
  en_regexp :: "string \<Rightarrow> string \<Rightarrow> bool"
  en_has :: "string \<Rightarrow> string \<Rightarrow> bool"
  en_eq :: "string \<Rightarrow> string \<Rightarrow> string \<Rightarrow> bool"

text \<open>
  The label rows (issue, label), the dependency rows (issue, type, target), and which issues hold
  NULL rather than the empty text when nobody is assigned: an insertion stores NULL, a release the
  empty text.
\<close>

record sql_db =
  db_labels :: "(string \<times> string) list"
  db_deps :: "(string \<times> string \<times> string) list"
  db_nulls :: "string \<Rightarrow> bool"

definition represents :: "sql_db \<Rightarrow> Issue \<Rightarrow> bool" where
  "represents db i \<longleftrightarrow>
     (\<forall>l. (i_ID i, l) \<in> set (db_labels db) \<longleftrightarrow> l \<in> set (i_Labels i)) \<and>
     (\<forall>ty tg. (i_ID i, ty, tg) \<in> set (db_deps db) \<longleftrightarrow>
        list_ex (\<lambda>d. d_Type d = ty \<and> d_DependsOnID d = tg) (i_Dependencies i))"

definition sql_bool :: "bool \<Rightarrow> sql_value" where
  "sql_bool b = SqlInt (if b then 1 else 0)"

definition sql_opt_time :: "gotime option \<Rightarrow> sql_value" where
  "sql_opt_time t = (case t of None \<Rightarrow> SqlNull | Some t \<Rightarrow> SqlTime (t_ns t))"

definition column_values :: "sql_db \<Rightarrow> Issue \<Rightarrow> (string \<times> sql_value) list" where
  "column_values db i =
     [(''id'', SqlStr (i_ID i)), (''title'', SqlStr (i_Title i)), (''description'', SqlStr (i_Description i)),
      (''notes'', SqlStr (i_Notes i)), (''status'', SqlStr (i_Status i)), (''priority'', SqlInt (i_Priority i)),
      (''issue_type'', SqlStr (i_IssueType i)),
      (''assignee'', if i_Assignee i = [] \<and> db_nulls db (i_ID i) then SqlNull else SqlStr (i_Assignee i)),
      (''external_ref'', case i_ExternalRef i of None \<Rightarrow> SqlNull | Some s \<Rightarrow> SqlStr s),
      (''spec_id'', SqlStr (i_SpecID i)), (''mol_type'', SqlStr (i_MolType i)),
      (''wisp_type'', SqlStr (i_WispType i)), (''source_repo'', SqlStr (i_SourceRepo i)),
      (''pinned'', sql_bool (i_Pinned i)), (''ephemeral'', sql_bool (i_Ephemeral i)),
      (''is_template'', sql_bool (i_IsTemplate i)), (''is_blocked'', sql_bool (i_IsBlocked i)),
      (''created_at'', SqlTime (t_ns (i_CreatedAt i))), (''updated_at'', SqlTime (t_ns (i_UpdatedAt i))),
      (''closed_at'', sql_opt_time (i_ClosedAt i)), (''started_at'', sql_opt_time (i_StartedAt i)),
      (''defer_until'', sql_opt_time (i_DeferUntil i)), (''due_at'', sql_opt_time (i_DueAt i))]"

definition column :: "sql_db \<Rightarrow> Issue \<Rightarrow> string \<Rightarrow> sql_value" where
  "column db i c = (case map_of (column_values db i) c of None \<Rightarrow> SqlNull | Some v \<Rightarrow> v)"

fun expr_value :: "sql_db \<Rightarrow> Issue \<Rightarrow> sql_expr \<Rightarrow> sql_value" where
  "expr_value db i (ECol c) = column db i c"
| "expr_value db i (ELower c) = (case column db i c of SqlStr s \<Rightarrow> SqlStr (to_lower s) | v \<Rightarrow> v)"

text \<open>A formatted time has lost its fraction of a second.\<close>

definition whole_second :: "gotime \<Rightarrow> gotime" where
  "whole_second t = t\<lparr>t_ns := t_ns t div ns_per_sec * ns_per_sec\<rparr>"

fun arg_value :: "sql_arg \<Rightarrow> sql_value" where
  "arg_value (ArgStr s) = SqlStr s"
| "arg_value (ArgInt n) = SqlInt n"
| "arg_value (ArgTime t) = SqlTime (t_ns t)"
| "arg_value (ArgRFC3339 t) = SqlTime (t_ns (whole_second t))"

fun arg_text :: "sql_arg \<Rightarrow> string" where
  "arg_text (ArgStr s) = s"
| "arg_text _ = []"

definition compare_holds :: "string \<Rightarrow> sql_value \<Rightarrow> sql_value \<Rightarrow> bool" where
  "compare_holds cmpop v a \<longleftrightarrow> v \<noteq> SqlNull \<and>
     (if cmpop = ''='' then v = a else if cmpop = ''!='' then v \<noteq> a
      else if cmpop = ''<'' then v < a else if cmpop = ''<='' then v \<le> a
      else if cmpop = ''>'' then a < v else if cmpop = ''>='' then a \<le> v
      else case (v, a) of (SqlStr s, SqlStr p) \<Rightarrow> sql_like p s | _ \<Rightarrow> False)"

fun label_holds :: "engine \<Rightarrow> sub_cond \<Rightarrow> string \<Rightarrow> bool" where
  "label_holds en (LabelEq a) l = (SqlStr l = arg_value a)"
| "label_holds en (LabelIn sep as) l = (SqlStr l \<in> arg_value ` set as)"
| "label_holds en (LabelLike a) l = like (CHR ''|'') (arg_text a) l"
| "label_holds en (LabelRegexp a) l = en_regexp en (arg_text a) l"
| "label_holds en AnyLabel l = True"
| "label_holds en _ l = False"

text \<open>The issue IDs a subquery returns.\<close>

fun sub_ids :: "engine \<Rightarrow> sql_db \<Rightarrow> sub_cond \<Rightarrow> string list" where
  "sub_ids en db ParentChild = [i. (i, ty, tg) \<leftarrow> db_deps db, ty = DepParentChild]"
| "sub_ids en db (ParentChildOf a) = [i. (i, ty, tg) \<leftarrow> db_deps db, ty = DepParentChild \<and> SqlStr tg = arg_value a]"
| "sub_ids en db sub = [i. (i, l) \<leftarrow> db_labels db, label_holds en sub l]"

fun holds :: "engine \<Rightarrow> sql_db \<Rightarrow> Issue \<Rightarrow> sql_cond \<Rightarrow> bool" where
  "holds en db i (CCmp e cmpop a) = compare_holds cmpop (expr_value db i e) (arg_value a)"
| "holds en db i (CFlag c v) = (if v then column db i c = SqlInt 1 else column db i c = SqlInt 0 \<or> column db i c = SqlNull)"
| "holds en db i (CBlank c) = (column db i c = SqlNull \<or> column db i c = SqlStr [])"
| "holds en db i (CNotNull c) = (column db i c \<noteq> SqlNull)"
| "holds en db i (CIn c pos sep as) = (column db i c \<noteq> SqlNull \<and> (column db i c \<in> arg_value ` set as) = pos)"
| "holds en db i (CSub pos sub) = ((i_ID i \<in> set (sub_ids en db sub)) = pos)"
| "holds en db i (CDotted a) = sql_like (arg_text a @ ''.%'') (i_ID i)"
| "holds en db i (CHasKey p) = en_has en (i_Metadata i) (arg_text p)"
| "holds en db i (CKeyEq p v) = en_eq en (i_Metadata i) (arg_text p) (arg_text v)"
| "holds en db i (CParen x) = holds en db i x"
| "holds en db i (CAnd x y) = (holds en db i x \<and> holds en db i y)"
| "holds en db i (COr x y) = (holds en db i x \<or> holds en db i y)"

text \<open>Joining by AND reads a condition as one operand unless it is an OR without parentheses.\<close>

fun operand :: "sql_cond \<Rightarrow> bool" where
  "operand (COr x y) = False"
| "operand (CAnd x y) = (operand x \<and> operand y)"
| "operand _ = True"

section \<open>The conditions of a filter\<close>

definition query_conds :: "string \<Rightarrow> sql_cond list" where
  "query_conds query =
     (if query = [] then []
      else let lq = to_lower query; pattern = ArgStr (''%'' @ lq @ ''%'') in
        if LooksLikeIssueID query
        then [CParen (COr (CCmp (ECol ''id'') ''='' (ArgStr lq)) (COr (CCmp (ECol ''id'') ''LIKE'' (ArgStr (lq @ ''%'')))
               (COr (CCmp (ELower ''title'') ''LIKE'' pattern) (CCmp (ELower ''external_ref'') ''LIKE'' pattern))))]
        else [CParen (COr (CCmp (ELower ''title'') ''LIKE'' pattern) (CCmp (ECol ''id'') ''LIKE'' pattern))])"

definition contains_cond :: "string \<Rightarrow> string \<Rightarrow> sql_cond list" where
  "contains_cond col text =
     if_frag (text \<noteq> []) (CCmp (ELower col) ''LIKE'' (ArgStr (''%'' @ to_lower text @ ''%'')))"

definition eq_cond :: "string \<Rightarrow> string option \<Rightarrow> sql_cond list" where
  "eq_cond col x = opt_frag x (\<lambda>s. CCmp (ECol col) ''='' (ArgStr s))"

definition in_cond :: "string \<Rightarrow> bool \<Rightarrow> string \<Rightarrow> string list \<Rightarrow> sql_cond list" where
  "in_cond col pos sep vs = (if vs = [] then [] else [CIn col pos sep (map ArgStr vs)])"

definition prefix_cond :: "string \<Rightarrow> string \<Rightarrow> sql_cond list" where
  "prefix_cond col p = if_frag (p \<noteq> []) (CCmp (ECol col) ''LIKE'' (ArgStr (p @ ''%'')))"

definition text_conds :: "IssueFilter \<Rightarrow> sql_cond list" where
  "text_conds f =
     contains_cond ''title'' (f_TitleSearch f) @ contains_cond ''title'' (f_TitleContains f) @
     contains_cond ''description'' (f_DescriptionContains f) @ contains_cond ''notes'' (f_NotesContains f) @
     contains_cond ''external_ref'' (f_ExternalRefContains f) @ eq_cond ''external_ref'' (f_ExternalRef f)"

definition core_conds :: "IssueFilter \<Rightarrow> sql_cond list" where
  "core_conds f =
     eq_cond ''status'' (f_Status f) @ in_cond ''status'' True '','' (f_Statuses f) @
     in_cond ''status'' False '','' (f_ExcludeStatus f) @ eq_cond ''issue_type'' (f_IssueType f) @
     in_cond ''issue_type'' False '','' (f_ExcludeTypes f) @ eq_cond ''assignee'' (f_Assignee f) @
     opt_frag (f_Priority f) (\<lambda>p. CCmp (ECol ''priority'') ''='' (ArgInt p)) @
     opt_frag (f_PriorityMin f) (\<lambda>p. CCmp (ECol ''priority'') ''>='' (ArgInt p)) @
     opt_frag (f_PriorityMax f) (\<lambda>p. CCmp (ECol ''priority'') ''<='' (ArgInt p))"

definition child_cond :: "string \<Rightarrow> sql_cond" where
  "child_cond p = CParen (COr (CSub True (ParentChildOf (ArgStr p)))
     (CParen (CAnd (CDotted (ArgStr p)) (CSub False ParentChild))))"

definition id_conds :: "IssueFilter \<Rightarrow> sql_cond list" where
  "id_conds f =
     in_cond ''id'' True '', '' (f_IDs f) @ prefix_cond ''id'' (f_IDPrefix f) @
     prefix_cond ''spec_id'' (f_SpecIDPrefix f) @ opt_frag (f_ParentID f) child_cond @
     if_frag (f_NoParent f) (CSub False ParentChild) @
     eq_cond ''mol_type'' (f_MolType f) @ eq_cond ''wisp_type'' (f_WispType f)"

definition labels_any_cond :: "bool \<Rightarrow> string list \<Rightarrow> sql_cond list" where
  "labels_any_cond pos vs = (if vs = [] then [] else [CSub pos (LabelIn '', '' (map ArgStr vs))])"

definition label_conds :: "IssueFilter \<Rightarrow> sql_cond list" where
  "label_conds f =
     map (\<lambda>l. CSub True (LabelEq (ArgStr l))) (f_Labels f) @
     labels_any_cond True (f_LabelsAny f) @ labels_any_cond False (f_ExcludeLabels f) @
     if_frag (f_NoLabels f) (CSub False AnyLabel) @
     if_frag (f_LabelPattern f \<noteq> []) (CSub True (LabelLike (ArgStr (globToLikePattern (f_LabelPattern f))))) @
     if_frag (f_LabelRegex f \<noteq> []) (CSub True (LabelRegexp (ArgStr (f_LabelRegex f))))"

definition flag_conds :: "IssueFilter \<Rightarrow> sql_cond list" where
  "flag_conds f =
     opt_frag (f_Pinned f) (CFlag ''pinned'') @ eq_cond ''source_repo'' (f_SourceRepo f) @
     opt_frag (f_Ephemeral f) (CFlag ''ephemeral'') @ opt_frag (f_IsTemplate f) (CFlag ''is_template'') @
     opt_frag (f_IsBlocked f) (\<lambda>b. CCmp (ECol ''is_blocked'') ''='' (ArgInt (if b then 1 else 0))) @
     if_frag (f_EmptyDescription f) (CBlank ''description'') @ if_frag (f_NoAssignee f) (CBlank ''assignee'')"

definition time_cond :: "string \<Rightarrow> string \<Rightarrow> gotime option \<Rightarrow> sql_cond list" where
  "time_cond col cmpop v = opt_frag v (\<lambda>t. CCmp (ECol col) cmpop (ArgRFC3339 t))"

definition time_conds :: "IssueFilter \<Rightarrow> sql_cond list" where
  "time_conds f =
     time_cond ''created_at'' ''>'' (f_CreatedAfter f) @ time_cond ''created_at'' ''<'' (f_CreatedBefore f) @
     time_cond ''updated_at'' ''>'' (f_UpdatedAfter f) @ time_cond ''updated_at'' ''<'' (f_UpdatedBefore f) @
     time_cond ''closed_at'' ''>'' (f_ClosedAfter f) @ time_cond ''closed_at'' ''<'' (f_ClosedBefore f) @
     time_cond ''started_at'' ''>'' (f_StartedAfter f) @ time_cond ''started_at'' ''<'' (f_StartedBefore f) @
     time_cond ''defer_until'' ''>'' (f_DeferAfter f) @ time_cond ''defer_until'' ''<'' (f_DeferBefore f) @
     time_cond ''due_at'' ''>'' (f_DueAfter f) @ time_cond ''due_at'' ''<'' (f_DueBefore f)"

definition keyset_cond :: "gotime \<Rightarrow> string \<Rightarrow> sql_cond" where
  "keyset_cond t aid = CParen (CAnd (CCmp (ECol ''created_at'') ''<='' (ArgTime t))
     (CParen (COr (CParen (CCmp (ECol ''created_at'') ''<'' (ArgTime t)))
                  (CParen (CCmp (ECol ''id'') ''>'' (ArgStr aid))))))"

definition schedule_conds :: "gotime \<Rightarrow> IssueFilter \<Rightarrow> sql_cond list" where
  "schedule_conds now f =
     opt_frag (f_AfterCreatedAt f) (\<lambda>t. keyset_cond t (f_AfterID f)) @
     if_frag (f_Deferred f) (CParen (COr (CNotNull ''defer_until'') (CCmp (ECol ''status'') ''='' (ArgStr StatusDeferred)))) @
     if_frag (f_Overdue f) (CAnd (CNotNull ''due_at'') (CAnd (CCmp (ECol ''due_at'') ''<'' (ArgRFC3339 (UTC now)))
       (CCmp (ECol ''status'') ''!='' (ArgStr StatusClosed))))"

definition metadata_conds :: "IssueFilter \<Rightarrow> sql_cond list" where
  "metadata_conds f =
     if_frag (f_HasMetadataKey f \<noteq> []) (CHasKey (ArgStr (JSONMetadataPath (f_HasMetadataKey f)))) @
     map (\<lambda>k. CKeyEq (ArgStr (JSONMetadataPath k))
          (ArgStr (case map_of (f_MetadataFields f) k of Some v \<Rightarrow> v | None \<Rightarrow> [])))
       (sort (map fst (f_MetadataFields f)))"

definition filter_conds :: "gotime \<Rightarrow> string \<Rightarrow> IssueFilter \<Rightarrow> sql_cond list" where
  "filter_conds now query f =
     query_conds query @ text_conds f @ core_conds f @ id_conds f @ label_conds f @ flag_conds f @
     time_conds f @ schedule_conds now f @ metadata_conds f"

subsection \<open>They render to the clauses of the code\<close>

lemma map_opt_frag: "map g (opt_frag x k) = opt_frag x (\<lambda>v. g (k v))"
  by (cases x) (simp_all add: opt_frag_def)

lemma map_if_frag: "map g (if_frag c fr) = if_frag c (g fr)"
  by (simp add: if_frag_def)

lemma render_contains: "map (cond_frag t) (contains_cond col s) = contains_frag col s"
  by (simp add: contains_cond_def contains_frag_def map_if_frag cond_frag_def)

lemma render_eq: "map (cond_frag t) (eq_cond col x) = opt_frag x (\<lambda>s. (col @ '' = ?'', [ArgStr s]))"
  by (simp add: eq_cond_def map_opt_frag cond_frag_def)

lemma render_in:
  "map (cond_frag t) (in_cond col pos sep vs) = in_frag (col @ (if pos then '' IN'' else '' NOT IN'')) sep vs"
  by (simp add: in_cond_def in_frag_def cond_frag_def)

lemma render_prefix:
  "map (cond_frag t) (prefix_cond col p) = if_frag (p \<noteq> []) (col @ '' LIKE ?'', [ArgStr (p @ ''%'')])"
  by (simp add: prefix_cond_def map_if_frag cond_frag_def)

lemma render_time: "map (cond_frag t) (time_cond col cmpop v) = time_frag col cmpop v"
  by (simp add: time_cond_def time_frag_def map_opt_frag cond_frag_def)

lemma render_flag: "map (cond_frag t) (opt_frag b (CFlag col)) = bool_frag col b"
  by (simp add: bool_frag_def map_opt_frag cond_frag_def)

lemma render_child: "cond_frag t (child_cond p) = child_of_frag t p"
  by (simp add: cond_frag_def child_cond_def child_of_frag_def dotted_child_def)

lemma render_labels_any:
  "map (cond_frag t) (labels_any_cond pos vs) = labels_any_frags (if pos then ''id IN '' else ''id NOT IN '') vs t"
  by (simp add: labels_any_cond_def labels_any_frags_def cond_frag_def)

lemmas renders = render_contains render_eq render_in render_prefix render_time render_flag render_child
  render_labels_any map_opt_frag map_if_frag

lemma render_query: "map (cond_frag t) (query_conds query) = query_frags query"
  by (simp add: query_conds_def query_frags_def Let_def cond_frag_def)

lemma render_text: "map (cond_frag t) (text_conds f) = text_frags f"
  by (simp add: text_conds_def text_frags_def renders)

lemma render_core: "map (cond_frag t) (core_conds f) = core_frags f"
  by (simp add: core_conds_def core_frags_def renders cond_frag_def [of t "CCmp _ _ (ArgInt _)"])

lemma render_id: "map (cond_frag t) (id_conds f) = id_frags f t"
  by (simp add: id_conds_def id_frags_def renders cond_frag_def [of t "CSub _ _"])

lemma render_label: "map (cond_frag t) (label_conds f) = label_frags f t"
  by (simp add: label_conds_def label_frags_def renders labels_frags_def label_match_frags_def
      cond_frag_def [of t "CSub _ _"] comp_def)

lemma render_flags: "map (cond_frag t) (flag_conds f) = flag_frags f"
  by (simp add: flag_conds_def flag_frags_def render_flag render_eq)
    (simp add: renders cond_frag_def)

lemma render_times: "map (cond_frag t) (time_conds f) = time_frags f"
  by (simp add: time_conds_def time_frags_def renders)

lemma render_schedule: "map (cond_frag t) (schedule_conds now f) = schedule_frags now f"
  by (simp add: schedule_conds_def schedule_frags_def renders keyset_cond_def cond_frag_def
      KeysetCreatedAtIDPredicate_def)

lemma render_metadata_fields:
  "metadata_field_frags flds ks = Inr frs \<Longrightarrow>
   frs = map (cond_frag t) (map (\<lambda>k. CKeyEq (ArgStr (JSONMetadataPath k))
     (ArgStr (case map_of flds k of Some v \<Rightarrow> v | None \<Rightarrow> []))) ks)"
  by (induction ks arbitrary: frs)
    (auto simp: check_def bindE_def cond_frag_def split: if_splits sum.splits)

lemma render_metadata:
  "metadata_frags (f_HasMetadataKey f) (f_MetadataFields f) = Inr frs \<Longrightarrow>
   frs = map (cond_frag t) (metadata_conds f)"
  by (auto simp: metadata_frags_def metadata_conds_def check_def bindE_def map_if_frag cond_frag_def
      dest!: render_metadata_fields [where t = t] split: if_splits sum.splits)

lemma BuildIssueFilterClauses_conds:
  assumes "BuildIssueFilterClauses now query f t = Inr (cl, as)"
  shows "cl = map (cond_text t) (filter_conds now query f) \<and> as = concat (map cond_args (filter_conds now query f))"
proof -
  obtain frs where frs: "metadata_frags (f_HasMetadataKey f) (f_MetadataFields f) = Inr frs"
    "cl = map fst (filter_frags now query f t @ frs)" "as = concat (map snd (filter_frags now query f t @ frs))"
    using assms by (auto simp: BuildIssueFilterClauses_def AppendMetadataClauses_def bindE_def Let_def
        split: sum.splits)
  have "filter_frags now query f t @ frs = map (cond_frag t) (filter_conds now query f)"
    using render_metadata [OF frs(1)]
    by (simp add: filter_frags_def filter_conds_def render_query render_text render_core render_id
        render_label render_flags render_times render_schedule)
  then show ?thesis unfolding frs(2, 3) by (simp add: cond_frag_def comp_def)
qed

lemma filter_conds_operands: "list_all operand (filter_conds now query f)"
  by (simp add: filter_conds_def query_conds_def Let_def text_conds_def contains_cond_def core_conds_def
      eq_cond_def in_cond_def id_conds_def prefix_cond_def child_cond_def label_conds_def labels_any_cond_def
      flag_conds_def time_conds_def time_cond_def schedule_conds_def keyset_cond_def metadata_conds_def
      list.pred_map comp_def list.pred_True)

subsection \<open>They mean what the filter promises\<close>

definition whole_bounds :: "IssueFilter \<Rightarrow> IssueFilter" where
  "whole_bounds f = f\<lparr>
     f_CreatedAfter := map_option whole_second (f_CreatedAfter f),
     f_CreatedBefore := map_option whole_second (f_CreatedBefore f),
     f_UpdatedAfter := map_option whole_second (f_UpdatedAfter f),
     f_UpdatedBefore := map_option whole_second (f_UpdatedBefore f),
     f_ClosedAfter := map_option whole_second (f_ClosedAfter f),
     f_ClosedBefore := map_option whole_second (f_ClosedBefore f),
     f_StartedAfter := map_option whole_second (f_StartedAfter f),
     f_StartedBefore := map_option whole_second (f_StartedBefore f)\<rparr>"

definition ref_contains :: "Issue \<Rightarrow> string \<Rightarrow> bool" where
  "ref_contains i s \<longleftrightarrow> (case i_ExternalRef i of None \<Rightarrow> False | Some r \<Rightarrow> text_contains r s)"

text \<open>The free-text search box.\<close>

definition query_matches :: "string \<Rightarrow> Issue \<Rightarrow> bool" where
  "query_matches query i \<longleftrightarrow> query = [] \<or>
     (if LooksLikeIssueID query
      then i_ID i = to_lower query \<or> has_prefix (i_ID i) (to_lower query) \<or>
           text_contains (i_Title i) query \<or> ref_contains i query
      else text_contains (i_Title i) query \<or> str_contains (i_ID i) (to_lower query))"

text \<open>The fields of a filter that the query language does not set.\<close>

definition extra_matches :: "engine \<Rightarrow> gotime \<Rightarrow> IssueFilter \<Rightarrow> Issue \<Rightarrow> bool" where
  "extra_matches en now f i \<longleftrightarrow>
     text_contains (i_Title i) (f_TitleSearch f) \<and>
     (f_ExternalRefContains f \<noteq> [] \<longrightarrow> ref_contains i (f_ExternalRefContains f)) \<and>
     opt_holds (\<lambda>s. i_ExternalRef i = Some s) (f_ExternalRef f) \<and>
     (f_Statuses f \<noteq> [] \<longrightarrow> i_Status i \<in> set (f_Statuses f)) \<and>
     (f_NoParent f \<longrightarrow> \<not> has_parent i) \<and>
     opt_holds (\<lambda>w. i_WispType i = w) (f_WispType f) \<and>
     (f_ExcludeLabels f \<noteq> [] \<longrightarrow> set (f_ExcludeLabels f) \<inter> set (i_Labels i) = {}) \<and>
     (f_LabelPattern f \<noteq> [] \<longrightarrow> list_ex (glob (f_LabelPattern f)) (i_Labels i)) \<and>
     (f_LabelRegex f \<noteq> [] \<longrightarrow> list_ex (en_regexp en (f_LabelRegex f)) (i_Labels i)) \<and>
     opt_holds (\<lambda>s. i_SourceRepo i = s) (f_SourceRepo f) \<and>
     opt_holds (\<lambda>b. i_IsBlocked i = b) (f_IsBlocked f) \<and>
     time_after (map_option whole_second (f_DeferAfter f)) (i_DeferUntil i) \<and>
     time_before (map_option whole_second (f_DeferBefore f)) (i_DeferUntil i) \<and>
     time_after (map_option whole_second (f_DueAfter f)) (i_DueAt i) \<and>
     time_before (map_option whole_second (f_DueBefore f)) (i_DueAt i) \<and>
     opt_holds (\<lambda>t. Before (i_CreatedAt i) t \<or> Equal (i_CreatedAt i) t \<and> f_AfterID f < i_ID i) (f_AfterCreatedAt f) \<and>
     (f_Deferred f \<longrightarrow> i_DeferUntil i \<noteq> None \<or> i_Status i = StatusDeferred) \<and>
     (f_Overdue f \<longrightarrow> time_before (Some (whole_second now)) (i_DueAt i) \<and> i_Status i \<noteq> StatusClosed)"

text \<open>What the JSON functions of the database say of the paths of the metadata keys.\<close>

definition metadata_selected :: "engine \<Rightarrow> IssueFilter \<Rightarrow> Issue \<Rightarrow> bool" where
  "metadata_selected en f i \<longleftrightarrow>
     (f_HasMetadataKey f \<noteq> [] \<longrightarrow> en_has en (i_Metadata i) (JSONMetadataPath (f_HasMetadataKey f))) \<and>
     list_all (\<lambda>(k, v). en_eq en (i_Metadata i) (JSONMetadataPath k) v) (f_MetadataFields f)"

text \<open>
  The reference meaning of a filter: the free-text search, the fields of the query language with the
  meaning it is verified against (time bounds cut to whole seconds), the other fields, and the
  metadata conditions as the database's JSON functions decide them.
\<close>

definition filter_selects :: "engine \<Rightarrow> gotime \<Rightarrow> string \<Rightarrow> IssueFilter \<Rightarrow> Issue \<Rightarrow> bool" where
  "filter_selects en now query f i \<longleftrightarrow>
     query_matches query i \<and> filter_matches ((whole_bounds f)\<lparr>f_HasMetadataKey := [], f_MetadataFields := []\<rparr>) i \<and>
     extra_matches en now f i \<and> metadata_selected en f i"

text \<open>What the translation relies on: texts without LIKE wildcards, an assignee that is a name, a
  label pattern in ASCII, metadata keys of which each occurs once, and time bounds in UTC (a bound is
  formatted with the offset it carries, and what the database makes of an offset is not modelled).\<close>

definition time_bounds :: "IssueFilter \<Rightarrow> gotime list" where
  "time_bounds f = concat (map (\<lambda>v. opt_frag v (\<lambda>t. t))
     [f_CreatedAfter f, f_CreatedBefore f, f_UpdatedAfter f, f_UpdatedBefore f, f_ClosedAfter f, f_ClosedBefore f,
      f_StartedAfter f, f_StartedBefore f, f_DeferAfter f, f_DeferBefore f, f_DueAfter f, f_DueBefore f])"

definition searchable :: "string \<Rightarrow> IssueFilter \<Rightarrow> bool" where
  "searchable query f \<longleftrightarrow>
     list_all plain ([query, f_TitleSearch f, f_TitleContains f, f_DescriptionContains f, f_NotesContains f,
       f_ExternalRefContains f, f_IDPrefix f, f_SpecIDPrefix f] @ opt_frag (f_ParentID f) id) \<and>
     f_Assignee f \<noteq> Some [] \<and> list_all (\<lambda>c. byte_val c < 128) (f_LabelPattern f) \<and>
     distinct (map fst (f_MetadataFields f)) \<and> list_all (\<lambda>t. t_off t = 0) (time_bounds f)"

lemma column_simps [simp]:
  "column db i ''id'' = SqlStr (i_ID i)" "column db i ''title'' = SqlStr (i_Title i)"
  "column db i ''description'' = SqlStr (i_Description i)" "column db i ''notes'' = SqlStr (i_Notes i)"
  "column db i ''status'' = SqlStr (i_Status i)" "column db i ''priority'' = SqlInt (i_Priority i)"
  "column db i ''issue_type'' = SqlStr (i_IssueType i)" "column db i ''spec_id'' = SqlStr (i_SpecID i)"
  "column db i ''assignee'' = (if i_Assignee i = [] \<and> db_nulls db (i_ID i) then SqlNull else SqlStr (i_Assignee i))"
  "column db i ''external_ref'' = (case i_ExternalRef i of None \<Rightarrow> SqlNull | Some s \<Rightarrow> SqlStr s)"
  "column db i ''mol_type'' = SqlStr (i_MolType i)" "column db i ''wisp_type'' = SqlStr (i_WispType i)"
  "column db i ''source_repo'' = SqlStr (i_SourceRepo i)" "column db i ''pinned'' = sql_bool (i_Pinned i)"
  "column db i ''ephemeral'' = sql_bool (i_Ephemeral i)" "column db i ''is_template'' = sql_bool (i_IsTemplate i)"
  "column db i ''is_blocked'' = sql_bool (i_IsBlocked i)"
  "column db i ''created_at'' = SqlTime (t_ns (i_CreatedAt i))" "column db i ''updated_at'' = SqlTime (t_ns (i_UpdatedAt i))"
  "column db i ''closed_at'' = sql_opt_time (i_ClosedAt i)" "column db i ''started_at'' = sql_opt_time (i_StartedAt i)"
  "column db i ''defer_until'' = sql_opt_time (i_DeferUntil i)" "column db i ''due_at'' = sql_opt_time (i_DueAt i)"
  by (simp_all add: column_def column_values_def)

lemma list_all_holds [simp]:
  "list_all P (opt_frag x k) \<longleftrightarrow> opt_holds (\<lambda>v. P (k v)) x" "list_all P (if_frag c y) \<longleftrightarrow> (c \<longrightarrow> P y)"
  by (cases x) (simp_all add: opt_frag_def if_frag_def)

lemma lower_char_wildcard: "c \<notin> {CHR ''%'', CHR ''_'', bslash} \<Longrightarrow> lower_char c \<notin> {CHR ''%'', CHR ''_'', bslash}"
proof (cases "is_upper c")
  case True
  then have "97 \<le> byte_val (lower_char c)" by (simp add: byte_val_lower_char is_upper_def)
  then show ?thesis by auto
qed (simp add: lower_char_id)

lemma plain_to_lower [simp]: "plain s \<Longrightarrow> plain (to_lower s)"
  using lower_char_wildcard by (induction s) (auto simp: to_lower_def)

lemma compare_like: "compare_holds ''LIKE'' (SqlStr s) (SqlStr p) = sql_like p s"
  by (simp add: compare_holds_def)

lemma compare_null [simp]: "\<not> compare_holds cmpop SqlNull a"
  by (simp add: compare_holds_def)

lemma holds_contains:
  assumes "plain s" "column db i col = SqlStr v"
  shows "list_all (holds en db i) (contains_cond col s) \<longleftrightarrow> text_contains v s"
  using assms like_contains [of "to_lower s" "to_lower v"] text_contains_Nil [of v]
  by (auto simp: contains_cond_def compare_like text_contains_def)

lemma holds_ref_contains:
  assumes "plain s"
  shows "list_all (holds en db i) (contains_cond ''external_ref'' s) \<longleftrightarrow> (s \<noteq> [] \<longrightarrow> ref_contains i s)"
  using assms like_contains [of "to_lower s"]
  by (auto simp: contains_cond_def compare_like text_contains_def ref_contains_def split: option.splits)

lemma holds_eq:
  "list_all (holds en db i) (eq_cond col x) \<longleftrightarrow> opt_holds (\<lambda>s. column db i col = SqlStr s) x"
  by (cases x) (auto simp: eq_cond_def compare_holds_def)

lemma holds_in:
  assumes "column db i col = SqlStr s"
  shows "list_all (holds en db i) (in_cond col pos sep vs) \<longleftrightarrow> (vs \<noteq> [] \<longrightarrow> (s \<in> set vs) = pos)"
  using assms by (auto simp: in_cond_def image_iff)

lemma holds_prefix:
  assumes "plain p" "column db i col = SqlStr s"
  shows "list_all (holds en db i) (prefix_cond col p) \<longleftrightarrow> has_prefix s p"
  using assms by (auto simp: prefix_cond_def compare_like like_prefix)

lemma holds_time:
  assumes "column db i col = sql_opt_time a"
  shows "list_all (holds en db i) (time_cond col ''>'' v) \<longleftrightarrow> time_after (map_option whole_second v) a"
    and "list_all (holds en db i) (time_cond col ''<'' v) \<longleftrightarrow> time_before (map_option whole_second v) a"
  using assms by (cases v; cases a; force simp: time_cond_def compare_holds_def sql_opt_time_def
      time_before_def Before_def time_after_def After_def)+

lemma opt_holds_cong: "(\<And>v. x = Some v \<Longrightarrow> P v = Q v) \<Longrightarrow> opt_holds P x = opt_holds Q x"
  by (cases x) simp_all

lemma query_sem:
  assumes "plain query"
  shows "list_all (holds en db i) (query_conds query) \<longleftrightarrow> query_matches query i"
proof -
  have p: "plain (to_lower query)" using assms by simp
  note c = like_contains [OF p] like_prefix [OF p]
  show ?thesis
    using c by (auto simp: query_conds_def query_matches_def Let_def compare_like text_contains_def
        ref_contains_def compare_holds_def [of "''=''"] split: option.splits)
qed

lemma text_sem:
  assumes "searchable query f"
  shows "list_all (holds en db i) (text_conds f) \<longleftrightarrow>
    text_contains (i_Title i) (f_TitleSearch f) \<and> text_contains (i_Title i) (f_TitleContains f) \<and>
    text_contains (i_Description i) (f_DescriptionContains f) \<and> text_contains (i_Notes i) (f_NotesContains f) \<and>
    (f_ExternalRefContains f \<noteq> [] \<longrightarrow> ref_contains i (f_ExternalRefContains f)) \<and>
    opt_holds (\<lambda>s. i_ExternalRef i = Some s) (f_ExternalRef f)"
  using assms unfolding text_conds_def searchable_def
  by (simp add: holds_contains [of _ db i "''title''"] holds_contains [of _ db i "''description''"]
      holds_contains [of _ db i "''notes''"] holds_ref_contains holds_eq)
    (auto intro!: opt_holds_cong split: option.splits)

lemma core_sem:
  assumes "searchable query f"
  shows "list_all (holds en db i) (core_conds f) \<longleftrightarrow>
    opt_holds (\<lambda>s. i_Status i = s) (f_Status f) \<and> (f_Statuses f \<noteq> [] \<longrightarrow> i_Status i \<in> set (f_Statuses f)) \<and>
    i_Status i \<notin> set (f_ExcludeStatus f) \<and> opt_holds (\<lambda>t. i_IssueType i = t) (f_IssueType f) \<and>
    i_IssueType i \<notin> set (f_ExcludeTypes f) \<and> opt_holds (\<lambda>a. i_Assignee i = a) (f_Assignee f) \<and>
    opt_holds (\<lambda>p. i_Priority i = p) (f_Priority f) \<and> opt_holds (\<lambda>p. p \<le> i_Priority i) (f_PriorityMin f) \<and>
    opt_holds (\<lambda>p. i_Priority i \<le> p) (f_PriorityMax f)"
proof -
  have "opt_holds (\<lambda>s. column db i ''assignee'' = SqlStr s) (f_Assignee f) \<longleftrightarrow> opt_holds (\<lambda>a. i_Assignee i = a) (f_Assignee f)"
    using assms by (intro opt_holds_cong) (auto simp: searchable_def)
  moreover have "(f_ExcludeStatus f \<noteq> [] \<longrightarrow> i_Status i \<notin> set (f_ExcludeStatus f)) \<longleftrightarrow> i_Status i \<notin> set (f_ExcludeStatus f)"
    "(f_ExcludeTypes f \<noteq> [] \<longrightarrow> i_IssueType i \<notin> set (f_ExcludeTypes f)) \<longleftrightarrow> i_IssueType i \<notin> set (f_ExcludeTypes f)"
    by auto
  ultimately show ?thesis
    by (simp add: core_conds_def holds_eq holds_in [of db i "''status''"] holds_in [of db i "''issue_type''"]
        compare_holds_def del: column_simps(9))
qed

lemma sub_parent:
  assumes "represents db i"
  shows "i_ID i \<in> set (sub_ids en db ParentChild) \<longleftrightarrow> has_parent i"
    and "i_ID i \<in> set (sub_ids en db (ParentChildOf (ArgStr p))) \<longleftrightarrow>
      list_ex (\<lambda>d. d_Type d = DepParentChild \<and> d_DependsOnID d = p) (i_Dependencies i)"
  using assms by (force simp: represents_def has_parent_def list_ex_iff)+

lemma sub_label:
  assumes "represents db i" "sub \<noteq> ParentChild" "\<And>a. sub \<noteq> ParentChildOf a"
  shows "i_ID i \<in> set (sub_ids en db sub) \<longleftrightarrow> list_ex (label_holds en sub) (i_Labels i)"
proof -
  have "sub_ids en db sub = [i. (i, l) \<leftarrow> db_labels db, label_holds en sub l]"
    using assms(2, 3) by (cases sub) auto
  then show ?thesis using assms(1) by (force simp: represents_def list_ex_iff)
qed

declare sub_ids.simps [simp del]

lemma id_sem:
  assumes "searchable query f" "represents db i"
  shows "list_all (holds en db i) (id_conds f) \<longleftrightarrow>
    (f_IDs f \<noteq> [] \<longrightarrow> i_ID i \<in> set (f_IDs f)) \<and> has_prefix (i_ID i) (f_IDPrefix f) \<and>
    has_prefix (i_SpecID i) (f_SpecIDPrefix f) \<and> opt_holds (child_of i) (f_ParentID f) \<and>
    (f_NoParent f \<longrightarrow> \<not> has_parent i) \<and> opt_holds (\<lambda>m. i_MolType i = m) (f_MolType f) \<and>
    opt_holds (\<lambda>w. i_WispType i = w) (f_WispType f)"
proof -
  have "holds en db i (child_cond p) \<longleftrightarrow> child_of i p" if "f_ParentID f = Some p" for p
  proof -
    have "plain (p @ ''.'')" using assms(1) that by (simp add: searchable_def opt_frag_def)
    from like_prefix [OF this, of "i_ID i"] show ?thesis
      by (simp add: child_cond_def child_of_def sub_parent [OF assms(2)])
  qed
  then have "opt_holds (\<lambda>p. holds en db i (child_cond p)) (f_ParentID f) \<longleftrightarrow> opt_holds (child_of i) (f_ParentID f)"
    by (rule opt_holds_cong)
  then show ?thesis
    using assms(1) by (simp add: id_conds_def holds_eq holds_in [of db i "''id''"] searchable_def
        holds_prefix [of _ db i "''id''"] holds_prefix [of _ db i "''spec_id''"] sub_parent [OF assms(2)])
qed

lemma label_sem:
  assumes "searchable query f" "represents db i"
  shows "list_all (holds en db i) (label_conds f) \<longleftrightarrow>
    set (f_Labels f) \<subseteq> set (i_Labels i) \<and>
    (f_LabelsAny f \<noteq> [] \<longrightarrow> set (f_LabelsAny f) \<inter> set (i_Labels i) \<noteq> {}) \<and>
    (f_ExcludeLabels f \<noteq> [] \<longrightarrow> set (f_ExcludeLabels f) \<inter> set (i_Labels i) = {}) \<and>
    (f_NoLabels f \<longrightarrow> i_Labels i = []) \<and>
    (f_LabelPattern f \<noteq> [] \<longrightarrow> list_ex (glob (f_LabelPattern f)) (i_Labels i)) \<and>
    (f_LabelRegex f \<noteq> [] \<longrightarrow> list_ex (en_regexp en (f_LabelRegex f)) (i_Labels i))"
proof -
  note sub = sub_label [OF assms(2)]
  have ascii: "list_all (\<lambda>c. byte_val c < 128) (f_LabelPattern f)" using assms(1) by (simp add: searchable_def)
  have "list_all (\<lambda>l. holds en db i (CSub True (LabelEq (ArgStr l)))) (f_Labels f) \<longleftrightarrow>
      set (f_Labels f) \<subseteq> set (i_Labels i)"
    by (auto simp: sub list_all_iff list_ex_iff)
  moreover have "list_all (holds en db i) (labels_any_cond pos vs) \<longleftrightarrow>
      (vs \<noteq> [] \<longrightarrow> (set vs \<inter> set (i_Labels i) \<noteq> {}) = pos)" for pos vs
    by (auto simp: labels_any_cond_def sub list_ex_iff image_iff)
  moreover have "holds en db i (CSub False AnyLabel) \<longleftrightarrow> i_Labels i = []"
    by (cases "i_Labels i") (simp_all add: sub)
  moreover have "label_holds en (LabelLike (ArgStr (globToLikePattern (f_LabelPattern f)))) = glob (f_LabelPattern f)"
    by (rule ext) (simp add: globToLikePattern_ascii [OF ascii] like_glob_chars)
  then have "holds en db i (CSub True (LabelLike (ArgStr (globToLikePattern (f_LabelPattern f))))) \<longleftrightarrow>
      list_ex (glob (f_LabelPattern f)) (i_Labels i)"
    by (simp add: sub)
  moreover have "label_holds en (LabelRegexp (ArgStr (f_LabelRegex f))) = en_regexp en (f_LabelRegex f)"
    by (rule ext) simp
  then have "holds en db i (CSub True (LabelRegexp (ArgStr (f_LabelRegex f)))) \<longleftrightarrow>
      list_ex (en_regexp en (f_LabelRegex f)) (i_Labels i)"
    by (simp add: sub)
  ultimately show ?thesis
    unfolding label_conds_def by (simp add: list.pred_map comp_def del: holds.simps(6))
qed

lemma flag_sem:
  "list_all (holds en db i) (flag_conds f) \<longleftrightarrow>
    opt_holds (\<lambda>b. i_Pinned i = b) (f_Pinned f) \<and> opt_holds (\<lambda>s. i_SourceRepo i = s) (f_SourceRepo f) \<and>
    opt_holds (\<lambda>b. i_Ephemeral i = b) (f_Ephemeral f) \<and> opt_holds (\<lambda>b. i_IsTemplate i = b) (f_IsTemplate f) \<and>
    opt_holds (\<lambda>b. i_IsBlocked i = b) (f_IsBlocked f) \<and> (f_EmptyDescription f \<longrightarrow> i_Description i = []) \<and>
    (f_NoAssignee f \<longrightarrow> i_Assignee i = [])"
proof -
  have "holds en db i (CFlag col v) \<longleftrightarrow> b = v" if "column db i col = sql_bool b" for col b v
    using that by (auto simp: sql_bool_def split: if_splits)
  then have flag: "column db i col = sql_bool b \<Longrightarrow>
      opt_holds (\<lambda>v. holds en db i (CFlag col v)) x \<longleftrightarrow> opt_holds (\<lambda>v. b = v) x" for col b x
    by (intro opt_holds_cong) blast
  have "opt_holds (\<lambda>b. holds en db i (CCmp (ECol ''is_blocked'') ''='' (ArgInt (if b then 1 else 0)))) (f_IsBlocked f)
      \<longleftrightarrow> opt_holds (\<lambda>b. i_IsBlocked i = b) (f_IsBlocked f)"
    by (intro opt_holds_cong) (auto simp: compare_holds_def sql_bool_def)
  then show ?thesis
    using flag [of "''pinned''" "i_Pinned i"] flag [of "''ephemeral''" "i_Ephemeral i"]
      flag [of "''is_template''" "i_IsTemplate i"]
    by (simp add: flag_conds_def holds_eq del: holds.simps(1, 2))
qed

lemma time_sem:
  "list_all (holds en db i) (time_conds f) \<longleftrightarrow>
    match_times (whole_bounds f) i \<and>
    time_after (map_option whole_second (f_DeferAfter f)) (i_DeferUntil i) \<and>
    time_before (map_option whole_second (f_DeferBefore f)) (i_DeferUntil i) \<and>
    time_after (map_option whole_second (f_DueAfter f)) (i_DueAt i) \<and>
    time_before (map_option whole_second (f_DueBefore f)) (i_DueAt i)"
proof -
  have "column db i ''created_at'' = sql_opt_time (Some (i_CreatedAt i))"
    "column db i ''updated_at'' = sql_opt_time (Some (i_UpdatedAt i))"
    by (simp_all add: sql_opt_time_def)
  note cols = this column_simps(20-23) [of db i]
  show ?thesis
    by (simp add: time_conds_def match_times_def whole_bounds_def cols [THEN holds_time(1)]
        cols [THEN holds_time(2)])
qed

lemma schedule_sem:
  "list_all (holds en db i) (schedule_conds now f) \<longleftrightarrow>
    opt_holds (\<lambda>t. Before (i_CreatedAt i) t \<or> Equal (i_CreatedAt i) t \<and> f_AfterID f < i_ID i) (f_AfterCreatedAt f) \<and>
    (f_Deferred f \<longrightarrow> i_DeferUntil i \<noteq> None \<or> i_Status i = StatusDeferred) \<and>
    (f_Overdue f \<longrightarrow> time_before (Some (whole_second now)) (i_DueAt i) \<and> i_Status i \<noteq> StatusClosed)"
proof -
  have "holds en db i (keyset_cond t (f_AfterID f)) \<longleftrightarrow>
      Before (i_CreatedAt i) t \<or> Equal (i_CreatedAt i) t \<and> f_AfterID f < i_ID i" for t
    by (auto simp: keyset_cond_def compare_holds_def Before_def Equal_def)
  then show ?thesis
    by (simp add: schedule_conds_def)
      (auto simp: compare_holds_def sql_opt_time_def time_before_def Before_def UTC_def whole_second_def
        split: option.splits)
qed

lemma metadata_sem:
  assumes "distinct (map fst (f_MetadataFields f))"
  shows "list_all (holds en db i) (metadata_conds f) \<longleftrightarrow> metadata_selected en f i"
proof -
  define P where "P k = holds en db i (CKeyEq (ArgStr (JSONMetadataPath k))
    (ArgStr (case map_of (f_MetadataFields f) k of Some v \<Rightarrow> v | None \<Rightarrow> [])))" for k
  have "P k \<longleftrightarrow> en_eq en (i_Metadata i) (JSONMetadataPath k) v" if "(k, v) \<in> set (f_MetadataFields f)" for k v
    using map_of_is_SomeI [OF assms that] by (simp add: P_def)
  then have "list_all P (sort (map fst (f_MetadataFields f))) \<longleftrightarrow>
      list_all (\<lambda>(k, v). en_eq en (i_Metadata i) (JSONMetadataPath k) v) (f_MetadataFields f)"
    by (fastforce simp: list_all_iff)
  then show ?thesis
    unfolding metadata_conds_def metadata_selected_def list_all_append list_all_holds list.pred_map comp_def
      P_def [symmetric] by simp
qed

lemma filter_conds_sem:
  assumes "searchable query f" "represents db i"
  shows "list_all (holds en db i) (filter_conds now query f) \<longleftrightarrow> filter_selects en now query f i"
proof -
  have md: "list_all (holds en db i) (metadata_conds f) \<longleftrightarrow> metadata_selected en f i"
    using assms(1) by (intro metadata_sem) (simp add: searchable_def)
  define g where "g = (whole_bounds f)\<lparr>f_HasMetadataKey := [], f_MetadataFields := []\<rparr>"
  have wb: "match_core g i = match_core f i" "match_text g i = match_text f i"
    "match_labels g i = match_labels f i" "match_metadata g i" "match_times g i = match_times (whole_bounds f) i"
    by (simp_all add: match_core_def match_text_def match_labels_def match_metadata_def match_times_def
        whole_bounds_def g_def)
  have "plain query" using assms(1) by (simp add: searchable_def)
  show ?thesis
    unfolding filter_conds_def list_all_append query_sem [OF \<open>plain query\<close>] text_sem [OF assms(1)] core_sem [OF assms(1)]
      id_sem [OF assms] label_sem [OF assms] flag_sem time_sem schedule_sem md
      filter_selects_def g_def [symmetric] filter_matches_def wb
    unfolding extra_matches_def match_core_def match_text_def match_labels_def
    by (rule iffI; elim conjE; intro conjI TrueI; assumption?) (simp_all add: wb)
qed

section \<open>Properties\<close>

text \<open>
  C21: the condition sent to the database selects exactly the issues the filter describes. The clauses
  and arguments of \<open>BuildIssueFilterClauses\<close> are the renderings of a list of conditions none of which
  is an OR without parentheses, so that joining them with AND reads as their conjunction; and for
  every issue the database represents that conjunction is the free-text search, the meaning of the
  filter the query language is verified against, and its remaining fields, with time bounds cut to
  whole seconds. A metadata condition is what the database's JSON functions answer for the path of the
  key, whatever that is. The texts searched for must not hold LIKE wildcards, the assignee asked for
  must not be empty, a label pattern is ASCII, and time bounds are in UTC.
\<close>

theorem BuildIssueFilterClauses_meaning:
  assumes "BuildIssueFilterClauses now query f tables = Inr (clauses, args)"
    and "searchable query f" "represents db i"
  shows "clauses = map (cond_text tables) (filter_conds now query f) \<and>
    args = concat (map cond_args (filter_conds now query f)) \<and>
    list_all operand (filter_conds now query f) \<and>
    (list_all (holds en db i) (filter_conds now query f) \<longleftrightarrow> filter_selects en now query f i)"
  using BuildIssueFilterClauses_conds [OF assms(1)] filter_conds_operands
    filter_conds_sem [OF assms(2, 3)] by blast

text \<open>A database for the witness; its JSON functions look for the path and the value as texts.\<close>

definition plain_engine :: engine where
  "plain_engine = \<lparr>en_regexp = (\<lambda>p l. str_contains l p), en_has = (\<lambda>md p. str_contains md (drop 2 p)),
     en_eq = (\<lambda>md p v. str_contains md (drop 2 p) \<and> str_contains md v)\<rparr>"

definition sample_db :: sql_db where
  "sample_db = \<lparr>db_labels = [(''bd-1'', ''urgent'')], db_deps = [], db_nulls = (\<lambda>_. True)\<rparr>"

definition sample_row :: Issue where
  "sample_row = zero_issue\<lparr>i_ID := ''bd-1'', i_Status := ''open'', i_Labels := [''urgent'']\<rparr>"

definition sample_search :: IssueFilter where
  "sample_search = zero_filter\<lparr>f_Status := Some ''open'', f_Labels := [''urgent''], f_IDPrefix := ''bd-''\<rparr>"

theorem BuildIssueFilterClauses_meaning_witness:
  "list_all (holds plain_engine sample_db sample_row) (filter_conds zero_time [] sample_search) \<longleftrightarrow>
   filter_selects plain_engine zero_time [] sample_search sample_row"
proof -
  have "BuildIssueFilterClauses zero_time [] sample_search IssuesFilterTables =
      Inr ([''status = ?'', ''id LIKE ?'', ''id IN (SELECT issue_id FROM labels WHERE label = ?)''],
           [ArgStr ''open'', ArgStr ''bd-%'', ArgStr ''urgent''])"
    by code_simp
  moreover have "searchable [] sample_search"
    by (simp add: searchable_def sample_search_def zero_filter_def opt_frag_def time_bounds_def)
  moreover have "represents sample_db sample_row"
    by (simp add: represents_def sample_db_def sample_row_def zero_issue_def)
  ultimately show ?thesis
    using BuildIssueFilterClauses_meaning by blast
qed

text \<open>
  C27: label patterns mean what a shell glob means. Matching with LIKE and the escape character \<open>|\<close>
  against the translated pattern is matching the glob, for every ASCII pattern, with the characters
  that LIKE would treat as wildcards taken literally.
\<close>

theorem globToLikePattern_correct:
  assumes "list_all (\<lambda>c. byte_val c < 128) pattern"
  shows "like (CHR ''|'') (globToLikePattern pattern) label \<longleftrightarrow> glob pattern label"
  using assms by (simp add: globToLikePattern_ascii like_glob_chars)

theorem globToLikePattern_correct_witness:
  "like (CHR ''|'') (globToLikePattern ''50%*'') ''50%-off'' \<and>
   \<not> like (CHR ''|'') (globToLikePattern ''50%*'') ''500-off''"
  using globToLikePattern_correct [of "''50%*''" "''50%-off''"]
    globToLikePattern_correct [of "''50%*''" "''500-off''"] by simp

text \<open>
  A prefix that holds a LIKE wildcard selects too much. The prefix of an ID or a spec is bound as
  a LIKE pattern without escaping, so an underscore stands for any character.
\<close>

theorem prefix_wildcard:
  "\<exists>clauses args i. BuildIssueFilterClauses now [] (zero_filter\<lparr>f_IDPrefix := ''a_''\<rparr>) tables = Inr (clauses, args) \<and>
     list_all (holds en db i) (filter_conds now [] (zero_filter\<lparr>f_IDPrefix := ''a_''\<rparr>)) \<and>
     \<not> has_prefix (i_ID i) ''a_''"
proof (intro exI conjI)
  show "BuildIssueFilterClauses now [] (zero_filter\<lparr>f_IDPrefix := ''a_''\<rparr>) tables = Inr ([''id LIKE ?''], [ArgStr ''a_%''])"
    by (simp add: BuildIssueFilterClauses_def AppendMetadataClauses_def metadata_frags_def check_def
        filter_frags_def query_frags_def text_frags_def contains_frag_def core_frags_def in_frag_def id_frags_def
        label_frags_def labels_frags_def labels_any_frags_def label_match_frags_def flag_frags_def bool_frag_def
        time_frags_def time_frag_def schedule_frags_def zero_filter_def opt_frag_def if_frag_def bindE_def)
  show "list_all (holds en db (zero_issue\<lparr>i_ID := ''ab''\<rparr>)) (filter_conds now [] (zero_filter\<lparr>f_IDPrefix := ''a_''\<rparr>))"
    by (simp add: filter_conds_def query_conds_def text_conds_def contains_cond_def core_conds_def eq_cond_def
        in_cond_def id_conds_def prefix_cond_def label_conds_def labels_any_cond_def flag_conds_def time_conds_def
        time_cond_def schedule_conds_def metadata_conds_def zero_filter_def opt_frag_def if_frag_def compare_like)
  show "\<not> has_prefix (i_ID (zero_issue\<lparr>i_ID := ''ab''\<rparr>)) ''a_''"
    by (simp add: has_prefix_def)
qed

end
