(* ===== verification/Search_Page.thy ===== *)
theory Search_Page
  imports Sql_Sort Sql_Semantics
begin

text \<open>
  Searching both table families and delivering one page, \<open>internal/storage/issueops/search.go\<close>. The
  transaction is a record of functions: what a query returns, how a row is scanned, the bulk loads of
  labels and dependencies, and the probe of the wisps table. Everything the code does with their
  results is modelled: the text and bound of each query, dropping duplicate rows, the two ways of
  fetching wide rows, hydration, the merge that prefers wisps, sorting, trimming and the row cap.
\<close>

section \<open>Bounds\<close>

datatype search_error =
    TableNotExist
  | QueryFailed string
  | ClauseError sql_error
  | ErrTooManyRows int int string

definition EffectiveSearchLimit :: "int \<Rightarrow> int \<Rightarrow> int" where
  "EffectiveSearchLimit limit maxRows =
     (if maxRows > 0 \<and> (limit = 0 \<or> limit > maxRows) then wrap64 (maxRows + 1) else limit)"

definition SearchProbeLimit :: "int \<Rightarrow> int \<Rightarrow> int \<times> int" where
  "SearchProbeLimit limit maxRows =
     (let maxRows' = (if maxRows > 0 \<and> limit = maxRows then wrap64 (maxRows + 1) else maxRows);
          limit' = (if limit > 0 then wrap64 (limit + 1) else limit)
      in (EffectiveSearchLimit limit' maxRows', maxRows'))"

definition EnforceMaxRowsCap :: "nat \<Rightarrow> int \<Rightarrow> string \<Rightarrow> search_error option" where
  "EnforceMaxRowsCap found maxRows src =
     (if maxRows > 0 \<and> int found > maxRows then Some (ErrTooManyRows (int found) maxRows src) else None)"

definition trimToSearchLimit :: "'a list \<Rightarrow> int \<Rightarrow> 'a list" where
  "trimToSearchLimit results limit =
     (if limit > 0 \<and> int (length results) > limit then take (nat limit) results else results)"

definition sortMergedResults ::
    "'a list \<Rightarrow> ('a \<Rightarrow> 'a \<Rightarrow> string \<Rightarrow> bool \<Rightarrow> bool) option \<Rightarrow> string \<Rightarrow> bool \<Rightarrow> 'a list" where
  "sortMergedResults results lt sortBy sortDesc =
     (case lt of
        None \<Rightarrow> results
      | Some lt \<Rightarrow> if length results \<le> 1 then results else SliceStable (\<lambda>a b. lt a b sortBy sortDesc) results)"

definition goSideSortAndTrim :: "'a list \<Rightarrow> ('a \<Rightarrow> string) \<Rightarrow> bool \<Rightarrow> int \<Rightarrow> 'a list" where
  "goSideSortAndTrim results ident sortDesc bound =
     (let results' = (if length results > 1 then SliceStable (\<lambda>a b. LessID (ident a) (ident b) sortDesc) results else results)
      in if bound > 0 \<and> int (length results') > bound then take (nat bound) results' else results')"

section \<open>One table\<close>

text \<open>What the code asks of the transaction. A row is of a type of the driver.\<close>

record 'r tx =
  tx_Query :: "string \<Rightarrow> sql_arg list \<Rightarrow> search_error + 'r list"
  tx_ScanIssue :: "'r \<Rightarrow> search_error + Issue"
  tx_ScanIssueLite :: "'r \<Rightarrow> search_error + Issue"
  tx_ScanID :: "'r \<Rightarrow> search_error + string"
  tx_Labels :: "string \<Rightarrow> string list \<Rightarrow> search_error + (string \<rightharpoonup> string list)"
  tx_Deps :: "string \<Rightarrow> string list \<Rightarrow> search_error + (string \<rightharpoonup> Dependency list)"
  tx_WispsEmpty :: "search_error + bool"

record ('r, 'a) searchProjection =
  pj_columns :: "FilterTables \<Rightarrow> string"
  pj_scan :: "'r \<Rightarrow> search_error + 'a"
  pj_id :: "'a \<Rightarrow> string"
  pj_hydrate :: "(FilterTables \<Rightarrow> 'a list \<Rightarrow> IssueFilter \<Rightarrow> search_error + 'a list) option"
  pj_idShrink :: bool
  pj_joinLeases :: bool
  pj_less :: "('a \<Rightarrow> 'a \<Rightarrow> string \<Rightarrow> bool \<Rightarrow> bool) option"

definition with_labels :: "(string \<rightharpoonup> string list) \<Rightarrow> Issue \<Rightarrow> Issue" where
  "with_labels m i = (case m (i_ID i) of Some ls \<Rightarrow> i\<lparr>i_Labels := ls\<rparr> | None \<Rightarrow> i)"

definition with_deps :: "(string \<rightharpoonup> Dependency list) \<Rightarrow> Issue \<Rightarrow> Issue" where
  "with_deps m i = (case m (i_ID i) of Some ds \<Rightarrow> i\<lparr>i_Dependencies := ds\<rparr> | None \<Rightarrow> i)"

definition hydrateIssueLabelsAndDeps ::
    "'r tx \<Rightarrow> FilterTables \<Rightarrow> Issue list \<Rightarrow> IssueFilter \<Rightarrow> search_error + Issue list" where
  "hydrateIssueLabelsAndDeps tx tables issues f =
     (let ids = map i_ID issues in
      bindE (if f_SkipLabels f then Inr issues
             else bindE (tx_Labels tx (ft_Labels tables) ids) (\<lambda>m. Inr (map (with_labels m) issues)))
        (\<lambda>issues1.
          if f_IncludeDependencies f
          then bindE (tx_Deps tx (ft_Dependencies tables) ids) (\<lambda>m. Inr (map (with_deps m) issues1))
          else Inr issues1))"

text \<open>The scan loop: rows whose ID was seen before are skipped.\<close>

fun scan_rows :: "('r, 'a) searchProjection \<Rightarrow> string list \<Rightarrow> 'r list \<Rightarrow> search_error + 'a list" where
  "scan_rows proj seen [] = Inr []"
| "scan_rows proj seen (r # rs) =
     bindE (pj_scan proj r) (\<lambda>item.
       if pj_id proj item \<in> set seen then scan_rows proj seen rs
       else bindE (scan_rows proj (pj_id proj item # seen) rs) (\<lambda>items. Inr (item # items)))"

text \<open>The text and arguments of the search query.\<close>

definition search_request ::
    "('r, 'a) searchProjection \<Rightarrow> gotime \<Rightarrow> string \<Rightarrow> IssueFilter \<Rightarrow> FilterTables \<Rightarrow> search_error + string \<times> sql_arg list" where
  "search_request proj now query f tables =
     (let plan = BuildLabelDrivenSearch f tables in
      case BuildIssueFilterClauses now query (lp_Filter plan) tables of
        Inl e \<Rightarrow> Inl (ClauseError e)
      | Inr (clauses0, args0) \<Rightarrow>
          (let (clauses, args) = MergeInto plan clauses0 args0;
               whereSQL = (if clauses \<noteq> [] then ''WHERE '' @ join '' AND '' clauses else []);
               eff = EffectiveSearchLimit (f_Limit f) (f_MaxRows f);
               limitSQL = (if eff > 0 \<and> \<not> IsGoSideSort (f_SortBy f) then '' LIMIT '' @ itoa eff else []);
               selectKeyword = (if lp_Distinct plan then ''SELECT DISTINCT '' else ''SELECT '');
               fromSQL = (if pj_joinLeases proj then lp_FromSQL plan @ '' '' @ LeaseJoin (ft_Main tables) else lp_FromSQL plan)
           in Inr (selectKeyword @ pj_columns proj tables @ '' FROM '' @ fromSQL @ '' '' @ whereSQL @ '' '' @
                OrderBy (f_SortBy f) (f_SortDesc f) [] @ '' '' @ limitSQL, args)))"

definition hydrated ::
    "('r, 'a) searchProjection \<Rightarrow> FilterTables \<Rightarrow> IssueFilter \<Rightarrow> 'a list \<Rightarrow> search_error + 'a list" where
  "hydrated proj tables f results =
     (case pj_hydrate proj of
        Some hyd \<Rightarrow> if length results > 0 then hyd tables results f else Inr results
      | None \<Rightarrow> Inr results)"

definition search_direct ::
    "'r tx \<Rightarrow> gotime \<Rightarrow> string \<Rightarrow> IssueFilter \<Rightarrow> FilterTables \<Rightarrow> ('r, 'a) searchProjection \<Rightarrow> search_error + 'a list" where
  "search_direct tx now query f tables proj =
     bindE (search_request proj now query f tables) (\<lambda>(sql, args).
       bindE (tx_Query tx sql args) (\<lambda>rows.
         bindE (scan_rows proj [] rows) (\<lambda>results.
           hydrated proj tables f
             (if IsGoSideSort (f_SortBy f)
              then goSideSortAndTrim results (pj_id proj) (f_SortDesc f)
                     (EffectiveSearchLimit (f_Limit f) (f_MaxRows f))
              else results))))"

definition idProjection :: "'r tx \<Rightarrow> ('r, string) searchProjection" where
  "idProjection tx = \<lparr>pj_columns = (\<lambda>tables. ft_Main tables @ ''.id''), pj_scan = tx_ScanID tx, pj_id = (\<lambda>i. i),
     pj_hydrate = None, pj_idShrink = False, pj_joinLeases = False,
     pj_less = Some (\<lambda>a b sortBy sortDesc. if \<not> IsGoSideSort sortBy then False else LessID a b sortDesc)\<rparr>"

definition fetch_sql :: "('r, 'a) searchProjection \<Rightarrow> FilterTables \<Rightarrow> string list \<Rightarrow> string" where
  "fetch_sql proj tables ids =
     ''SELECT '' @ pj_columns proj tables @ '' FROM '' @
     (if pj_joinLeases proj then ft_Main tables @ '' '' @ LeaseJoin (ft_Main tables) else ft_Main tables) @
     '' WHERE id IN ('' @ placeholders '','' (length ids) @ '')''"

fun scan_all :: "('r, 'a) searchProjection \<Rightarrow> 'r list \<Rightarrow> search_error + 'a list" where
  "scan_all proj [] = Inr []"
| "scan_all proj (r # rs) =
     bindE (pj_scan proj r) (\<lambda>item. bindE (scan_all proj rs) (\<lambda>items. Inr (item # items)))"

text \<open>\<open>itemMap\<close>: a later row replaces an earlier one.\<close>

definition item_map :: "('a \<Rightarrow> string) \<Rightarrow> 'a list \<Rightarrow> (string \<rightharpoonup> 'a)" where
  "item_map ident items = map_of (rev (map (\<lambda>x. (ident x, x)) items))"

definition searchTablePatternBT ::
    "'r tx \<Rightarrow> gotime \<Rightarrow> string \<Rightarrow> IssueFilter \<Rightarrow> FilterTables \<Rightarrow> ('r, 'a) searchProjection \<Rightarrow> search_error + 'a list" where
  "searchTablePatternBT tx now query f tables proj =
     bindE (search_direct tx now query f tables (idProjection tx)) (\<lambda>ids.
       if ids = [] then Inr []
       else bindE (tx_Query tx (fetch_sql proj tables ids) (map ArgStr ids)) (\<lambda>rows.
         bindE (scan_all proj rows) (\<lambda>items.
           hydrated proj tables f (List.map_filter (item_map (pj_id proj) items) ids))))"

definition searchTableInTxT ::
    "'r tx \<Rightarrow> gotime \<Rightarrow> string \<Rightarrow> IssueFilter \<Rightarrow> FilterTables \<Rightarrow> ('r, 'a) searchProjection \<Rightarrow> search_error + 'a list" where
  "searchTableInTxT tx now query f tables proj =
     (if pj_idShrink proj \<and> f_Limit f > 0 \<and> \<not> f_NoIDShrink f
      then searchTablePatternBT tx now query f tables proj
      else search_direct tx now query f tables proj)"

section \<open>Both tables\<close>

text \<open>Trim, then enforce the cap on what is delivered.\<close>

definition deliver :: "IssueFilter \<Rightarrow> 'a list \<Rightarrow> search_error + 'a list" where
  "deliver f results =
     (let page = trimToSearchLimit results (f_Limit f) in
      case EnforceMaxRowsCap (length page) (f_MaxRows f) (f_MaxRowsSource f) of
        Some e \<Rightarrow> Inl e
      | None \<Rightarrow> Inr page)"

text \<open>Wisps replace durable rows with the same ID; the concatenation is sorted again.\<close>

definition merge_wisps :: "('r, 'a) searchProjection \<Rightarrow> IssueFilter \<Rightarrow> 'a list \<Rightarrow> 'a list \<Rightarrow> 'a list" where
  "merge_wisps proj f results wispResults =
     (if length wispResults > 0
      then sortMergedResults
             (filter (\<lambda>r. pj_id proj r \<notin> pj_id proj ` set wispResults) results @ wispResults)
             (pj_less proj) (f_SortBy f) (f_SortDesc f)
      else results)"

definition searchInTx ::
    "'r tx \<Rightarrow> gotime \<Rightarrow> string \<Rightarrow> IssueFilter \<Rightarrow> ('r, 'a) searchProjection \<Rightarrow> search_error + 'a list" where
  "searchInTx tx now query f proj =
     (let wispsFirst =
        (if f_Ephemeral f = Some True then
           (case searchTableInTxT tx now query f WispsFilterTables proj of
              Inl e \<Rightarrow> if e = TableNotExist then None else Some (Inl e)
            | Inr results \<Rightarrow> if length results > 0 then Some (deliver f results) else None)
         else None)
      in case wispsFirst of
        Some r \<Rightarrow> r
      | None \<Rightarrow>
          bindE (searchTableInTxT tx now query f IssuesFilterTables proj) (\<lambda>results.
            if f_SkipWisps f then deliver f results
            else if f_Ephemeral f \<noteq> Some True then
              bindE (tx_WispsEmpty tx) (\<lambda>isEmpty.
                if isEmpty then deliver f results
                else
                  case searchTableInTxT tx now query f WispsFilterTables proj of
                    Inl e \<Rightarrow> if e = TableNotExist then deliver f results else Inl e
                  | Inr wispResults \<Rightarrow> deliver f (merge_wisps proj f results wispResults))
            else deliver f results))"

definition issueProjection :: "'r tx \<Rightarrow> ('r, Issue) searchProjection" where
  "issueProjection tx = \<lparr>pj_columns = (\<lambda>_. IssueSelectColumns), pj_scan = tx_ScanIssue tx, pj_id = i_ID,
     pj_hydrate = Some (hydrateIssueLabelsAndDeps tx), pj_idShrink = True, pj_joinLeases = True,
     pj_less = Some Less\<rparr>"

definition issueLiteProjection :: "'r tx \<Rightarrow> ('r, Issue) searchProjection" where
  "issueLiteProjection tx = \<lparr>pj_columns = (\<lambda>_. IssueSelectColumnsLite), pj_scan = tx_ScanIssueLite tx, pj_id = i_ID,
     pj_hydrate = Some (hydrateIssueLabelsAndDeps tx), pj_idShrink = True, pj_joinLeases = True,
     pj_less = Some Less\<rparr>"

definition SearchIssuesInTx :: "'r tx \<Rightarrow> gotime \<Rightarrow> string \<Rightarrow> IssueFilter \<Rightarrow> search_error + Issue list" where
  "SearchIssuesInTx tx now query f =
     searchInTx tx now query f (if f_Lite f then issueLiteProjection tx else issueProjection tx)"

definition SearchIssueIDsInTx :: "'r tx \<Rightarrow> gotime \<Rightarrow> string \<Rightarrow> IssueFilter \<Rightarrow> search_error + string list" where
  "SearchIssueIDsInTx tx now query f = searchInTx tx now query f (idProjection tx)"

section \<open>Lemmas\<close>

lemma bounded_Nil [simp]: "bounded n [] = []"
  by (simp add: bounded_def)

lemma trim_bounded: "trimToSearchLimit xs n = bounded n xs"
  by (auto simp: trimToSearchLimit_def bounded_def)

lemma SliceStable_short: "length xs \<le> 1 \<Longrightarrow> SliceStable lt xs = xs"
  by (cases xs rule: remdups_adj.cases) auto

lemma goSideSortAndTrim_bounded:
  "goSideSortAndTrim xs ident desc n = bounded n (SliceStable (\<lambda>a b. LessID (ident a) (ident b) desc) xs)"
  using SliceStable_short [of xs] by (auto simp: goSideSortAndTrim_def Let_def bounded_def)

lemma sortMergedResults_Some: "sortMergedResults xs (Some lt) s d = SliceStable (\<lambda>a b. lt a b s d) xs"
  using SliceStable_short [of xs] by (simp add: sortMergedResults_def)

lemma insert_stable_map:
  "insert_stable lt (g x) (map g xs) = map g (insert_stable (\<lambda>a b. lt (g a) (g b)) x xs)"
  by (induction xs) auto

lemma SliceStable_map: "SliceStable lt (map g xs) = map g (SliceStable (\<lambda>a b. lt (g a) (g b)) xs)"
  by (induction xs) (auto simp: insert_stable_map)

text \<open>What the caller is promised: the rows of both tables in order, cut to the limit, unless the
  page is larger than the cap.\<close>

definition page_spec :: "IssueFilter \<Rightarrow> 'a list \<Rightarrow> 'a list option" where
  "page_spec f rows =
     (let page = bounded (f_Limit f) rows in
      if f_MaxRows f > 0 \<and> int (length page) > f_MaxRows f then None else Some page)"

definition delivers :: "IssueFilter \<Rightarrow> search_error + 'a list \<Rightarrow> 'a list \<Rightarrow> bool" where
  "delivers f r rows \<longleftrightarrow>
     (case page_spec f rows of
        Some page \<Rightarrow> r = Inr page
      | None \<Rightarrow> \<exists>found > f_MaxRows f. r = Inl (ErrTooManyRows found (f_MaxRows f) (f_MaxRowsSource f)))"

lemma deliver_delivers: "delivers f (deliver f rows) rows"
  by (auto simp: delivers_def page_spec_def deliver_def trim_bounded EnforceMaxRowsCap_def Let_def
      split: option.splits)

abbreviation search_bound :: "IssueFilter \<Rightarrow> int" where
  "search_bound f \<equiv> EffectiveSearchLimit (f_Limit f) (f_MaxRows f)"

text \<open>Either the bound of a leg is the page's own limit, or it leaves a row too many to notice.\<close>

lemma search_bound_cases:
  assumes "in_int64 (f_MaxRows f)"
  obtains "search_bound f = f_Limit f"
    | "search_bound f \<le> 0" "f_Limit f = 0 \<or> f_MaxRows f < f_Limit f"
    | "search_bound f = f_MaxRows f + 1" "f_MaxRows f > 0" "f_Limit f = 0 \<or> f_MaxRows f < f_Limit f"
proof (cases "f_MaxRows f > 0 \<and> (f_Limit f = 0 \<or> f_Limit f > f_MaxRows f)")
  case True
  show ?thesis
  proof (cases "f_MaxRows f = max_int64")
    case True
    then have "search_bound f \<le> 0 \<or> search_bound f = f_Limit f"
      by (simp add: EffectiveSearchLimit_def wrap64_def max_int64_def)
    with \<open>f_MaxRows f > 0 \<and> _\<close> show ?thesis using that by blast
  next
    case False
    then have "in_int64 (f_MaxRows f + 1)"
      using assms \<open>f_MaxRows f > 0 \<and> _\<close> by (auto simp: int64_defs)
    then have "search_bound f = f_MaxRows f + 1"
      using \<open>f_MaxRows f > 0 \<and> _\<close> by (simp add: EffectiveSearchLimit_def)
    with \<open>f_MaxRows f > 0 \<and> _\<close> show ?thesis using that(3) by blast
  qed
next
  case False
  then have "search_bound f = f_Limit f" by (auto simp: EffectiveSearchLimit_def)
  then show ?thesis by (rule that(1))
qed

lemma deliver_error:
  assumes "f_MaxRows f > 0" "f_Limit f = 0 \<or> f_MaxRows f < f_Limit f" "int (length rows) > f_MaxRows f"
  shows "\<exists>found > f_MaxRows f. deliver f rows = Inl (ErrTooManyRows found (f_MaxRows f) (f_MaxRowsSource f))"
  using assms by (auto simp: deliver_def trim_bounded bounded_def EnforceMaxRowsCap_def Let_def min_def)

lemma page_spec_None:
  assumes "f_MaxRows f > 0" "f_Limit f = 0 \<or> f_MaxRows f < f_Limit f" "int (length rows) > f_MaxRows f"
  shows "page_spec f rows = None"
  using assms by (auto simp: page_spec_def bounded_def Let_def)

context ranking
begin

lemma resort_merge:
  assumes "rankable (xs @ ys)"
  shows "SliceStable lt (SliceStable lt xs @ SliceStable lt ys) = SliceStable lt (xs @ ys)"
proof (rule SliceStable_mset)
  show "rankable (SliceStable lt xs @ SliceStable lt ys)"
    using assms rankable_mset [of "SliceStable lt xs @ SliceStable lt ys" "xs @ ys"] by simp
qed simp

lemma resort: "rankable xs \<Longrightarrow> SliceStable lt (SliceStable lt xs) = SliceStable lt xs"
  using resort_merge [of xs "[]"] by simp

text \<open>The page delivered from two bounded legs is the page of all rows.\<close>

theorem deliver_legs:
  assumes r: "rankable (xs @ ys)" and m: "in_int64 (f_MaxRows f)"
  shows "delivers f (deliver f (SliceStable lt (bounded (search_bound f) (SliceStable lt xs) @
      bounded (search_bound f) (SliceStable lt ys)))) (SliceStable lt (xs @ ys))"
    (is "delivers f (deliver f ?merged) ?all")
  using m
proof (cases rule: search_bound_cases)
  case 1
  have "bounded (f_Limit f) ?merged = bounded (f_Limit f) ?all"
    using top_merge [OF r, of "nat (f_Limit f)"] resort_merge [OF r]
    by (cases "f_Limit f > 0") (auto simp: 1 bounded_def)
  then have "deliver f ?merged = deliver f ?all" by (simp add: deliver_def trim_bounded)
  then show ?thesis by (simp add: deliver_delivers)
next
  case 2
  then show ?thesis using resort_merge [OF r] deliver_delivers [of f ?all] by simp
next
  case 3
  show ?thesis
  proof (cases "int (length xs) \<le> f_MaxRows f \<and> int (length ys) \<le> f_MaxRows f")
    case True
    then have "bounded (search_bound f) (SliceStable lt xs) = SliceStable lt xs"
      "bounded (search_bound f) (SliceStable lt ys) = SliceStable lt ys"
      using 3 by (auto simp: bounded_def)
    then show ?thesis using resort_merge [OF r] deliver_delivers [of f ?all] by simp
  next
    case False
    have "int (length ?merged) > f_MaxRows f"
      using False 3 by (auto simp: bounded_def min_def)
    note err = deliver_error [OF 3(2, 3) this]
    have "int (length ?all) > f_MaxRows f" using False by auto
    from page_spec_None [OF 3(2, 3) this] show ?thesis
      unfolding delivers_def using err by (simp only: option.case)
  qed
qed

corollary deliver_leg:
  assumes "rankable xs" "in_int64 (f_MaxRows f)"
  shows "delivers f (deliver f (bounded (search_bound f) (SliceStable lt xs))) (SliceStable lt xs)"
proof -
  have "SliceStable lt (bounded (search_bound f) (SliceStable lt xs)) = bounded (search_bound f) (SliceStable lt xs)"
  proof (rule SliceStable_id)
    show "sorted_wrt lt (bounded (search_bound f) (SliceStable lt xs))"
      using sorted_SliceStable [OF assms(1)] by (simp add: bounded_def sorted_wrt_take)
    have "rankable (SliceStable lt xs)"
      using assms(1) rankable_mset [of "SliceStable lt xs" xs] by simp
    then show "rankable (bounded (search_bound f) (SliceStable lt xs))"
      by (simp add: bounded_def rankable_take)
  qed
  then show ?thesis using deliver_legs [of xs "[]" f] assms by simp
qed

end

section \<open>One table returns its ranked rows\<close>

lemma scan_rows_ok:
  assumes "map (pj_scan proj) rows = map Inr xs" "distinct (map (pj_id proj) xs)"
    "set (map (pj_id proj) xs) \<inter> set seen = {}"
  shows "scan_rows proj seen rows = Inr xs"
  using assms
proof (induction rows arbitrary: xs seen)
  case (Cons r rows)
  then obtain x xs' where xs: "xs = x # xs'" "pj_scan proj r = Inr x" by (cases xs) auto
  have "scan_rows proj (pj_id proj x # seen) rows = Inr xs'"
    using Cons.prems xs by (intro Cons.IH) auto
  then show ?case using Cons.prems xs by (auto simp: bindE_def)
qed simp

lemma scan_all_ok: "map (pj_scan proj) rows = map Inr xs \<Longrightarrow> scan_all proj rows = Inr xs"
proof (induction rows arbitrary: xs)
  case (Cons r rows)
  then obtain x xs' where "xs = x # xs'" by (cases xs) auto
  with Cons show ?case by (auto simp: bindE_def)
qed simp

lemma item_map_in:
  assumes "inj_on ident (set items)" "x \<in> set items"
  shows "item_map ident items (ident x) = Some x"
proof -
  have "\<exists>y. map_of (rev (map (\<lambda>x. (ident x, x)) items)) (ident x) = Some y"
    using assms(2) weak_map_of_SomeI [of "ident x" x "rev (map (\<lambda>x. (ident x, x)) items)"] by auto
  then obtain y where y: "map_of (rev (map (\<lambda>x. (ident x, x)) items)) (ident x) = Some y" by blast
  then have "(ident x, y) \<in> set (rev (map (\<lambda>x. (ident x, x)) items))" by (rule map_of_SomeD)
  then have "y = x" using assms by (auto dest: inj_onD)
  with y show ?thesis by (simp add: item_map_def)
qed

lemma map_filter_item_map:
  assumes "inj_on ident (set items)" "set xs \<subseteq> set items"
  shows "List.map_filter (item_map ident items) (map ident xs) = xs"
  using assms item_map_in [OF assms(1)] by (induction xs) (auto simp: List.map_filter_simps)

text \<open>
  The answers the loops below are analysed with, \<open>M\<close> being the matching rows of a table. That a
  database which executes the statements of the code gives these answers is shown in the section on
  statements below.
\<close>

definition answer_ok :: "IssueFilter \<Rightarrow> Issue list \<Rightarrow> Issue list \<Rightarrow> bool" where
  "answer_ok f M xs \<longleftrightarrow>
     (if IsGoSideSort (f_SortBy f) then mset xs = mset M
      else xs = bounded (search_bound f) (SliceStable (\<lambda>a b. Less a b (f_SortBy f) (f_SortDesc f)) M))"

definition served ::
    "'r tx \<Rightarrow> gotime \<Rightarrow> string \<Rightarrow> IssueFilter \<Rightarrow> FilterTables \<Rightarrow> Issue list \<Rightarrow>
     (string \<rightharpoonup> string list) \<Rightarrow> (string \<rightharpoonup> Dependency list) \<Rightarrow> bool" where
  "served tx now query f tables M lab dep \<longleftrightarrow>
     (\<exists>sql args rows xs. search_request (issueProjection tx) now query f tables = Inr (sql, args) \<and>
        tx_Query tx sql args = Inr rows \<and> map (tx_ScanIssue tx) rows = map Inr xs \<and> answer_ok f M xs) \<and>
     (\<exists>sql args rows xs. search_request (idProjection tx) now query f tables = Inr (sql, args) \<and>
        tx_Query tx sql args = Inr rows \<and> map (tx_ScanID tx) rows = map (Inr \<circ> i_ID) xs \<and> answer_ok f M xs) \<and>
     (\<forall>ids. ids \<noteq> [] \<and> set ids \<subseteq> i_ID ` set M \<longrightarrow>
        (\<exists>rows xs. tx_Query tx (fetch_sql (issueProjection tx) tables ids) (map ArgStr ids) = Inr rows \<and>
           map (tx_ScanIssue tx) rows = map Inr xs \<and> set xs = {i \<in> set M. i_ID i \<in> set ids})) \<and>
     (\<forall>ids. tx_Labels tx (ft_Labels tables) ids = Inr (lab |` set ids)) \<and>
     (\<forall>ids. tx_Deps tx (ft_Dependencies tables) ids = Inr (dep |` set ids))"

definition hydration :: "IssueFilter \<Rightarrow> (string \<rightharpoonup> string list) \<Rightarrow> (string \<rightharpoonup> Dependency list) \<Rightarrow> Issue \<Rightarrow> Issue" where
  "hydration f lab dep i =
     (let i1 = (if f_SkipLabels f then i else with_labels lab i)
      in if f_IncludeDependencies f then with_deps dep i1 else i1)"

lemma hydration_fields [simp]:
  "i_ID (hydration f lab dep i) = i_ID i" "i_Priority (hydration f lab dep i) = i_Priority i"
  "hydration f lab dep i \<in> rows_ok \<longleftrightarrow> i \<in> rows_ok"
  by (auto simp: hydration_def with_labels_def with_deps_def Let_def rows_ok_def split: option.splits)

lemma Less_fields:
  assumes "i_ID a = i_ID a'" "i_Priority a = i_Priority a'" "i_CreatedAt a = i_CreatedAt a'"
    "i_UpdatedAt a = i_UpdatedAt a'" "i_ClosedAt a = i_ClosedAt a'" "i_Status a = i_Status a'"
    "i_IssueType a = i_IssueType a'" "i_Assignee a = i_Assignee a'" "i_Title a = i_Title a'"
  shows "Less a b s d = Less a' b s d" "Less b a s d = Less b a' s d"
  unfolding Less_def sortKeyCompare_def assms by (rule refl)+

lemma Less_loaded [simp]:
  "Less (x\<lparr>i_Labels := ls\<rparr>) y s d = Less x y s d" "Less x (y\<lparr>i_Labels := ls\<rparr>) s d = Less x y s d"
  "Less (x\<lparr>i_Dependencies := ds\<rparr>) y s d = Less x y s d" "Less x (y\<lparr>i_Dependencies := ds\<rparr>) s d = Less x y s d"
  by (rule Less_fields; simp)+

lemma hydration_Less [simp]:
  "Less (hydration f lab dep a) (hydration f' lab' dep' b) s d = Less a b s d"
proof -
  have "Less (with_labels m x) y s d = Less x y s d" "Less y (with_labels m x) s d = Less y x s d" for m x y
    by (cases "m (i_ID x)"; simp add: with_labels_def)+
  moreover have "Less (with_deps m x) y s d = Less x y s d" "Less y (with_deps m x) s d = Less y x s d" for m x y
    by (cases "m (i_ID x)"; simp add: with_deps_def)+
  ultimately show ?thesis by (simp add: hydration_def Let_def)
qed

lemma hydrate_issues:
  assumes "served tx now query f tables M lab dep"
  shows "hydrated (issueProjection tx) tables f xs = Inr (map (hydration f lab dep) xs)"
proof -
  have tx: "tx_Labels tx (ft_Labels tables) ids = Inr (lab |` set ids)"
    "tx_Deps tx (ft_Dependencies tables) ids = Inr (dep |` set ids)" for ids
    using assms by (simp_all add: served_def)
  have l: "with_labels (lab |` (i_ID ` set xs)) i = with_labels lab i" if "i \<in> set xs" for i
    using that by (simp add: with_labels_def)
  have d: "with_deps (dep |` (i_ID ` set xs)) j = with_deps dep j" if "i_ID j \<in> i_ID ` set xs" for j
    using that by (simp add: with_deps_def)
  have id: "i_ID (with_labels lab i) = i_ID i" for i
    by (cases "lab (i_ID i)") (simp_all add: with_labels_def)
  have "hydration f lab dep = id" if "f_SkipLabels f" "\<not> f_IncludeDependencies f"
    using that by (auto simp: hydration_def)
  then have "hydrateIssueLabelsAndDeps tx tables xs f = Inr (map (hydration f lab dep) xs)"
    by (cases "f_SkipLabels f"; cases "f_IncludeDependencies f")
      (simp_all add: hydrateIssueLabelsAndDeps_def tx bindE_def hydration_def Let_def l d id)
  then show ?thesis by (simp add: hydrated_def issueProjection_def)
qed

lemma answer_ranked:
  assumes "answer_ok f M xs" "issue_rank.rankable M"
  shows "(if IsGoSideSort (f_SortBy f)
      then goSideSortAndTrim xs i_ID (f_SortDesc f) (search_bound f) else xs) =
    bounded (search_bound f) (SliceStable (\<lambda>a b. Less a b (f_SortBy f) (f_SortDesc f)) M)"
proof (cases "IsGoSideSort (f_SortBy f)")
  case True
  then have "SliceStable (\<lambda>a b. Less a b (f_SortBy f) (f_SortDesc f)) M =
      SliceStable (\<lambda>a b. Less a b (f_SortBy f) (f_SortDesc f)) xs"
    using assms by (intro issue_rank.SliceStable_mset) (auto simp: answer_ok_def)
  moreover have "(\<lambda>a b. Less a b (f_SortBy f) (f_SortDesc f)) = (\<lambda>a b. LessID (i_ID a) (i_ID b) (f_SortDesc f))"
    using True by (auto simp: Less_def IsGoSideSort_def)
  ultimately show ?thesis using True by (simp add: goSideSortAndTrim_bounded)
qed (use assms in \<open>simp add: answer_ok_def\<close>)

lemma answer_distinct:
  assumes "answer_ok f M xs" "issue_rank.rankable M"
  shows "distinct (map i_ID xs)" "set xs \<subseteq> set M"
proof -
  have M: "distinct (map i_ID M)" using assms(2) by (simp add: issue_rank.rankable_def)
  show "set xs \<subseteq> set M"
    using assms(1) set_bounded_subset
    by (fastforce simp: answer_ok_def dest: mset_eq_setD split: if_splits)
  have "mset (map i_ID (SliceStable lt M)) = mset (map i_ID M)" for lt
    by simp
  then have "distinct (map i_ID (SliceStable lt M))" for lt
    using M mset_eq_imp_distinct_iff by blast
  moreover have "distinct (map i_ID xs)" if "mset xs = mset M"
    using that M by (metis mset_map mset_eq_imp_distinct_iff)
  ultimately show "distinct (map i_ID xs)"
    using assms(1) by (auto simp: answer_ok_def map_bounded split: if_splits)
qed

abbreviation ranked :: "IssueFilter \<Rightarrow> Issue list \<Rightarrow> Issue list" where
  "ranked f M \<equiv> SliceStable (\<lambda>a b. Less a b (f_SortBy f) (f_SortDesc f)) M"

lemma projections [simp]:
  "pj_id (issueProjection tx) = i_ID" "pj_scan (issueProjection tx) = tx_ScanIssue tx"
  "pj_less (issueProjection tx) = Some Less"
  "pj_id (idProjection tx) = (\<lambda>i. i)" "pj_scan (idProjection tx) = tx_ScanID tx"
  "hydrated (idProjection tx) tables f xs = Inr xs"
  by (simp_all add: issueProjection_def idProjection_def hydrated_def)

lemma ids_distinct: "issue_rank.rankable M \<Longrightarrow> inj_on i_ID (set M)"
  by (simp add: issue_rank.rankable_def distinct_map)

lemma search_direct_issues:
  assumes "served tx now query f tables M lab dep" "issue_rank.rankable M"
  shows "search_direct tx now query f tables (issueProjection tx) =
    Inr (map (hydration f lab dep) (bounded (search_bound f) (ranked f M)))"
proof -
  obtain sql args rows xs where db: "search_request (issueProjection tx) now query f tables = Inr (sql, args)"
    "tx_Query tx sql args = Inr rows" "map (tx_ScanIssue tx) rows = map Inr xs" "answer_ok f M xs"
    using assms(1) unfolding served_def by blast
  have "scan_rows (issueProjection tx) [] rows = Inr xs"
    by (rule scan_rows_ok) (simp_all add: db(3) answer_distinct(1) [OF db(4) assms(2)])
  then show ?thesis
    using answer_ranked [OF db(4) assms(2)]
    by (simp add: search_direct_def db(1, 2) bindE_def hydrate_issues [OF assms(1)] split: if_splits)
qed

lemma search_direct_ids:
  assumes "served tx now query f tables M lab dep" "issue_rank.rankable M"
  shows "search_direct tx now query f tables (idProjection tx) =
    Inr (map i_ID (bounded (search_bound f) (ranked f M)))"
proof -
  obtain sql args rows xs where db: "search_request (idProjection tx) now query f tables = Inr (sql, args)"
    "tx_Query tx sql args = Inr rows" "map (tx_ScanID tx) rows = map (Inr \<circ> i_ID) xs" "answer_ok f M xs"
    using assms(1) unfolding served_def by blast
  have "scan_rows (idProjection tx) [] rows = Inr (map i_ID xs)"
    by (rule scan_rows_ok) (simp_all add: db(3) answer_distinct(1) [OF db(4) assms(2)])
  moreover have "goSideSortAndTrim (map i_ID xs) (\<lambda>i. i) desc n = map i_ID (goSideSortAndTrim xs i_ID desc n)" for desc n
    by (simp add: goSideSortAndTrim_bounded SliceStable_map map_bounded)
  ultimately show ?thesis
    using answer_ranked [OF db(4) assms(2)]
    by (simp add: search_direct_def db(1, 2) bindE_def split: if_splits)
qed

lemma pattern_B_issues:
  assumes s: "served tx now query f tables M lab dep" and r: "issue_rank.rankable M"
  shows "searchTablePatternBT tx now query f tables (issueProjection tx) =
    Inr (map (hydration f lab dep) (bounded (search_bound f) (ranked f M)))"
proof -
  define page where "page = bounded (search_bound f) (ranked f M)"
  have sub: "set page \<subseteq> set M" using set_bounded_subset [of "search_bound f" "ranked f M"] by (simp add: page_def)
  show ?thesis
  proof (cases "page = []")
    case True
    then show ?thesis
      using search_direct_ids [OF s r] by (simp add: searchTablePatternBT_def bindE_def page_def)
  next
    case False
    then have "map i_ID page \<noteq> [] \<and> set (map i_ID page) \<subseteq> i_ID ` set M" using sub by auto
    then obtain rows xs where db: "tx_Query tx (fetch_sql (issueProjection tx) tables (map i_ID page))
        (map ArgStr (map i_ID page)) = Inr rows" "map (tx_ScanIssue tx) rows = map Inr xs"
        "set xs = {i \<in> set M. i_ID i \<in> set (map i_ID page)}"
      using s unfolding served_def by blast
    have "set page \<subseteq> set xs" using sub db(3) by auto
    moreover have "inj_on i_ID (set xs)" using ids_distinct [OF r] db(3) by (auto intro: inj_on_subset)
    ultimately have "List.map_filter (item_map i_ID xs) (map i_ID page) = page" by (rule_tac map_filter_item_map)
    moreover have "scan_all (issueProjection tx) rows = Inr xs"
      by (rule scan_all_ok) (simp add: db(2))
    ultimately show ?thesis
      using search_direct_ids [OF s r] False
      by (simp add: searchTablePatternBT_def bindE_def page_def [symmetric] db(1) [simplified]
          hydrate_issues [OF s])
  qed
qed

lemma search_table_issues:
  assumes "served tx now query f tables M lab dep" "issue_rank.rankable M"
  shows "searchTableInTxT tx now query f tables (issueProjection tx) =
    Inr (map (hydration f lab dep) (bounded (search_bound f) (ranked f M)))"
  using search_direct_issues [OF assms] pattern_B_issues [OF assms] by (simp add: searchTableInTxT_def)

lemma merge_wisps_disjoint:
  assumes "i_ID ` set xs \<inter> i_ID ` set ys = {}" "issue_rank.rankable ys" "sorted_wrt (\<lambda>a b. Less a b (f_SortBy f) (f_SortDesc f)) xs"
    "issue_rank.rankable xs"
  shows "merge_wisps (issueProjection tx) f xs ys = ranked f (xs @ ys)"
proof -
  have "filter (\<lambda>r. i_ID r \<notin> i_ID ` set ys) xs = xs"
    using assms(1) by (auto intro!: filter_True)
  moreover have "ranked f xs = xs" using assms(3, 4) by (rule issue_rank.SliceStable_id)
  ultimately show ?thesis
    by (cases ys) (simp_all add: merge_wisps_def sortMergedResults_Some)
qed

text \<open>The rows a search is about: wisps only for an ephemeral search that finds some, durable rows only
  when it finds none or the caller skips wisps, and otherwise both.\<close>

definition searched_rows :: "IssueFilter \<Rightarrow> 'a list \<Rightarrow> 'a list \<Rightarrow> 'a list" where
  "searched_rows f D W =
     (if f_Ephemeral f = Some True \<and> W \<noteq> [] then W
      else if f_SkipWisps f \<or> f_Ephemeral f = Some True then D else D @ W)"

lemma bounded_empty_iff: "bounded n xs = [] \<longleftrightarrow> xs = []"
  by (auto simp: bounded_def)

lemma SliceStable_empty_iff: "SliceStable lt xs = [] \<longleftrightarrow> xs = []"
  by (metis SliceStable_simps(1) length_0_conv length_SliceStable)

lemma ranked_hydrated:
  "ranked f (map (hydration f lab dep) xs) = map (hydration f lab dep) (ranked f xs)"
  by (simp add: SliceStable_map)

lemma rankable_hydrated:
  "issue_rank.rankable (map (hydration f lab dep) xs) \<longleftrightarrow> issue_rank.rankable xs"
  by (auto simp: issue_rank.rankable_def comp_def)

lemma searchInTx_delivers:
  assumes D: "served tx now query f IssuesFilterTables D lab dep"
    and W: "served tx now query f WispsFilterTables W wlab wdep"
    and r: "issue_rank.rankable (D @ W)" and m: "in_int64 (f_MaxRows f)" and e: "tx_WispsEmpty tx = Inr noWisps" "noWisps \<Longrightarrow> W = []"
  shows "delivers f (searchInTx tx now query f (issueProjection tx))
    (ranked f (searched_rows f (map (hydration f lab dep) D) (map (hydration f wlab wdep) W)))"
proof -
  define D' where "D' = map (hydration f lab dep) D"
  define W' where "W' = map (hydration f wlab wdep) W"
  have rD: "issue_rank.rankable D" "issue_rank.rankable W" using r by (auto dest: issue_rank.rankable_sub)
  have tD: "searchTableInTxT tx now query f IssuesFilterTables (issueProjection tx) =
      Inr (bounded (search_bound f) (ranked f D'))"
    using search_table_issues [OF D rD(1)] by (simp add: D'_def ranked_hydrated map_bounded)
  have tW: "searchTableInTxT tx now query f WispsFilterTables (issueProjection tx) =
      Inr (bounded (search_bound f) (ranked f W'))"
    using search_table_issues [OF W rD(2)] by (simp add: W'_def ranked_hydrated map_bounded)
  have r': "issue_rank.rankable (D' @ W')"
    using r by (auto simp: D'_def W'_def issue_rank.rankable_append rankable_hydrated image_image)
  then have rD': "issue_rank.rankable D'" "issue_rank.rankable W'" by (auto dest: issue_rank.rankable_sub)
  note leg = issue_rank.deliver_leg [OF _ m, where sortBy = "f_SortBy f" and sortDesc = "f_SortDesc f"]
  define xs where "xs = bounded (search_bound f) (ranked f D')"
  define ys where "ys = bounded (search_bound f) (ranked f W')"
  have "merge_wisps (issueProjection tx) f xs ys = ranked f (xs @ ys)"
  proof (rule merge_wisps_disjoint)
    have "issue_rank.rankable (ranked f D' @ ranked f W')"
      using r' issue_rank.rankable_mset [of "ranked f D' @ ranked f W'" "D' @ W'"] by simp
    then have xy: "issue_rank.rankable (xs @ ys)"
      by (simp add: xs_def ys_def bounded_def issue_rank.rankable_takes)
    then show "issue_rank.rankable xs" "issue_rank.rankable ys" "i_ID ` set xs \<inter> i_ID ` set ys = {}"
      by (auto simp: issue_rank.rankable_append)
    show "sorted_wrt (\<lambda>a b. Less a b (f_SortBy f) (f_SortDesc f)) xs"
      using issue_rank.sorted_SliceStable [OF rD'(1)] by (simp add: xs_def bounded_def sorted_wrt_take)
  qed
  then have both: "delivers f (deliver f (merge_wisps (issueProjection tx) f xs ys)) (ranked f (D' @ W'))"
    using issue_rank.deliver_legs [OF r' m] by (simp add: xs_def ys_def)
  have ys: "ys = [] \<longleftrightarrow> W' = []" by (simp add: ys_def bounded_empty_iff SliceStable_empty_iff)
  have e': "noWisps \<Longrightarrow> W' = []" using e(2) by (simp add: W'_def)
  show ?thesis
    unfolding D'_def [symmetric] W'_def [symmetric] searchInTx_def tD tW xs_def [symmetric] ys_def [symmetric] searched_rows_def
    using leg [OF rD'(1)] leg [OF rD'(2)] both ys e'
    by (auto simp: Let_def bindE_def e(1) xs_def [symmetric] ys_def [symmetric])
qed


section \<open>The statements and what a database answers\<close>

text \<open>
  A statement is given by its parts: the columns, the label joins (alias and what is asked of the label),
  whether the lease is joined, and the conditions. Its text and arguments are rendered from the parts,
  and so are the ordering and the limit, so a text of the code that differs from the rendering is a
  statement nothing is known about.
\<close>

record select_stmt =
  ss_Distinct :: bool
  ss_Columns :: string
  ss_Joins :: "(string \<times> sub_cond) list"
  ss_Leases :: bool
  ss_Where :: "sql_cond list"

fun join_cond :: "string \<times> sub_cond \<Rightarrow> string" where
  "join_cond (a, LabelIn sep as) = a @ ''.label IN ('' @ placeholders sep (length as) @ '')''"
| "join_cond (a, _) = a @ ''.label = ?''"

definition select_text :: "FilterTables \<Rightarrow> select_stmt \<Rightarrow> string" where
  "select_text t s =
     (let conds = map join_cond (ss_Joins s) @ map (cond_text t) (ss_Where s);
          joins = map (\<lambda>(a, _). label_join t a) (ss_Joins s) @ (if ss_Leases s then [LeaseJoin (ft_Main t)] else [])
      in (if ss_Distinct s then ''SELECT DISTINCT '' else ''SELECT '') @ ss_Columns s @ '' FROM '' @
         join '' '' (ft_Main t # joins) @ '' '' @ (if conds = [] then [] else ''WHERE '' @ join '' AND '' conds))"

definition select_args :: "select_stmt \<Rightarrow> sql_arg list" where
  "select_args s = concat (map (sub_args \<circ> snd) (ss_Joins s)) @ concat (map cond_args (ss_Where s))"

definition search_text :: "FilterTables \<Rightarrow> select_stmt \<Rightarrow> (order_expr \<times> bool) list \<Rightarrow> int \<Rightarrow> string" where
  "search_text t s order lim =
     select_text t s @ '' '' @ (if order = [] then [] else order_text [] order) @ '' '' @
     (if lim > 0 then '' LIMIT '' @ itoa lim else [])"

text \<open>A row is selected when each join finds a label row and each condition holds.\<close>

definition selects :: "engine \<Rightarrow> sql_db \<Rightarrow> select_stmt \<Rightarrow> Issue \<Rightarrow> bool" where
  "selects en db s i \<longleftrightarrow>
     list_all (\<lambda>(a, sub). holds en db i (CSub True sub)) (ss_Joins s) \<and> list_all (holds en db i) (ss_Where s)"

text \<open>
  What SQL promises of a statement on the table rows \<open>T\<close>: the selected rows, each once unless a join may
  repeat them, in an order that never contradicts the order keys, cut to the limit.
\<close>

definition yields ::
    "engine \<Rightarrow> sql_db \<Rightarrow> select_stmt \<Rightarrow> (order_expr \<times> bool) list \<Rightarrow> int \<Rightarrow> Issue list \<Rightarrow> Issue list \<Rightarrow> bool" where
  "yields en db s order lim T xs \<longleftrightarrow>
     (\<exists>ys. (if ss_Distinct s \<or> ss_Joins s = [] then mset ys = mset (filter (selects en db s) T)
             else set ys = set (filter (selects en db s) T)) \<and>
        sorted_wrt (\<lambda>a b. \<not> keys_before (db_nulls db) order b a) ys \<and> xs = bounded lim ys)"

text \<open>The statements a search stands for.\<close>

definition search_joins :: "IssueFilter \<Rightarrow> (string \<times> sub_cond) list" where
  "search_joins f =
     map (\<lambda>k. (label_alias k, LabelEq (ArgStr (f_Labels f ! k)))) [0..<length (f_Labels f)] @
     (if f_LabelsAny f = [] then [] else [(''label_filter_any'', LabelIn '', '' (map ArgStr (f_LabelsAny f)))])"

definition search_stmt :: "gotime \<Rightarrow> string \<Rightarrow> IssueFilter \<Rightarrow> string \<Rightarrow> bool \<Rightarrow> select_stmt" where
  "search_stmt now query f columns leases =
     \<lparr>ss_Distinct = (f_Labels f \<noteq> [] \<or> f_LabelsAny f \<noteq> []), ss_Columns = columns, ss_Joins = search_joins f,
      ss_Leases = leases, ss_Where = filter_conds now query (f\<lparr>f_Labels := [], f_LabelsAny := []\<rparr>)\<rparr>"

definition fetch_stmt :: "string list \<Rightarrow> select_stmt" where
  "fetch_stmt ids =
     \<lparr>ss_Distinct = False, ss_Columns = IssueSelectColumns, ss_Joins = [], ss_Leases = True,
      ss_Where = [CIn ''id'' True '','' (map ArgStr ids)]\<rparr>"

definition search_order :: "IssueFilter \<Rightarrow> (order_expr \<times> bool) list" where
  "search_order f = (if IsGoSideSort (f_SortBy f) then [] else order_keys (f_SortBy f) (f_SortDesc f))"

definition search_limit :: "IssueFilter \<Rightarrow> int" where
  "search_limit f = (if IsGoSideSort (f_SortBy f) then 0 else search_bound f)"

text \<open>An issue as the tables hold it: the scanned row with its labels and dependencies.\<close>

definition stored :: "(string \<rightharpoonup> string list) \<Rightarrow> (string \<rightharpoonup> Dependency list) \<Rightarrow> Issue \<Rightarrow> Issue" where
  "stored lab dep i = with_deps dep (with_labels lab i)"

text \<open>
  The transaction serves the rows \<open>T\<close> of a table family: it executes the three statements of a search
  on them, and the bulk loads return the labels \<open>lab\<close> and dependencies \<open>dep\<close> that the tables \<open>db\<close> hold.
\<close>

definition serves ::
    "'r tx \<Rightarrow> engine \<Rightarrow> sql_db \<Rightarrow> gotime \<Rightarrow> string \<Rightarrow> IssueFilter \<Rightarrow> FilterTables \<Rightarrow> Issue list \<Rightarrow>
     (string \<rightharpoonup> string list) \<Rightarrow> (string \<rightharpoonup> Dependency list) \<Rightarrow> bool" where
  "serves tx en db now query f tables T lab dep \<longleftrightarrow>
     (let wide = search_stmt now query f IssueSelectColumns True;
          narrow = search_stmt now query f (ft_Main tables @ ''.id'') False;
          order = search_order f; lim = search_limit f in
     (\<exists>rows xs. tx_Query tx (search_text tables wide order lim) (select_args wide) = Inr rows \<and>
        map (tx_ScanIssue tx) rows = map Inr xs \<and> yields en db wide order lim T xs) \<and>
     (\<exists>rows xs. tx_Query tx (search_text tables narrow order lim) (select_args narrow) = Inr rows \<and>
        map (tx_ScanID tx) rows = map (Inr \<circ> i_ID) xs \<and> yields en db narrow order lim T xs)) \<and>
     (\<forall>ids. ids \<noteq> [] \<and> set ids \<subseteq> i_ID ` set T \<longrightarrow>
        (\<exists>rows xs. tx_Query tx (select_text tables (fetch_stmt ids)) (select_args (fetch_stmt ids)) = Inr rows \<and>
           map (tx_ScanIssue tx) rows = map Inr xs \<and> yields en db (fetch_stmt ids) [] 0 T xs)) \<and>
     (\<forall>ids. tx_Labels tx (ft_Labels tables) ids = Inr (lab |` set ids)) \<and>
     (\<forall>ids. tx_Deps tx (ft_Dependencies tables) ids = Inr (dep |` set ids)) \<and>
     list_all (\<lambda>i. represents db (stored lab dep i)) T"

text \<open>Valid metadata keys and no empty label: the filters a search accepts and passes on unchanged.\<close>

definition request_ok :: "IssueFilter \<Rightarrow> bool" where
  "request_ok f \<longleftrightarrow>
     (f_HasMetadataKey f \<noteq> [] \<longrightarrow> ValidateMetadataKey (f_HasMetadataKey f)) \<and>
     list_all (\<lambda>(k, v). ValidateMetadataKey k) (f_MetadataFields f) \<and>
     [] \<notin> set (f_Labels f) \<and> [] \<notin> set (f_LabelsAny f)"

text \<open>The unassigned rows of a table are stored alike, when the search sorts by assignee.\<close>

definition blanks_alike :: "sql_db \<Rightarrow> IssueFilter \<Rightarrow> Issue list \<Rightarrow> bool" where
  "blanks_alike db f T \<longleftrightarrow> list_all (\<lambda>a. list_all (alike_blanks (db_nulls db) (f_SortBy f) a) T) T"

subsection \<open>The code sends these statements\<close>

lemma join_Cons_append: "join sep (x # xs @ ys) = join sep [join sep (x # xs), join sep ys]" if "ys \<noteq> []"
  using that
proof (induction xs arbitrary: x)
  case Nil
  then show ?case by (cases ys) simp_all
next
  case (Cons z zs)
  then show ?case by simp
qed

lemma metadata_frags_succeed:
  assumes "request_ok f"
  shows "\<exists>frs. metadata_frags (f_HasMetadataKey f) (f_MetadataFields f) = Inr frs"
proof -
  have "list_all ValidateMetadataKey ks \<Longrightarrow> \<exists>frs. metadata_field_frags flds ks = Inr frs" for flds ks
    by (induction ks) (auto simp: check_def bindE_def)
  moreover have "list_all ValidateMetadataKey (sort (map fst (f_MetadataFields f)))"
    using assms by (auto simp: request_ok_def list_all_iff)
  ultimately obtain frs where "metadata_field_frags (f_MetadataFields f) (sort (map fst (f_MetadataFields f))) = Inr frs"
    by blast
  then show ?thesis using assms by (auto simp: metadata_frags_def check_def bindE_def request_ok_def)
qed

lemma clauses_succeed:
  assumes "request_ok f"
  shows "BuildIssueFilterClauses now query f t =
    Inr (map (cond_text t) (filter_conds now query f), concat (map cond_args (filter_conds now query f)))"
proof -
  obtain cl as where "BuildIssueFilterClauses now query f t = Inr (cl, as)"
    using metadata_frags_succeed [OF assms]
    by (auto simp: BuildIssueFilterClauses_def AppendMetadataClauses_def bindE_def Let_def)
  then show ?thesis using BuildIssueFilterClauses_conds by blast
qed

lemma label_plan:
  fixes t :: FilterTables
  assumes "request_ok f"
  defines "p \<equiv> BuildLabelDrivenSearch f t"
  shows "lp_Filter p = f\<lparr>f_Labels := [], f_LabelsAny := []\<rparr>"
    "lp_Distinct p = (f_Labels f \<noteq> [] \<or> f_LabelsAny f \<noteq> [])"
    "lp_Where p = map join_cond (search_joins f)"
    "lp_Args p = concat (map (sub_args \<circ> snd) (search_joins f))"
    "lp_FromSQL p = join '' '' (ft_Main t # map (\<lambda>(a, _). label_join t a) (search_joins f))"
proof -
  have c: "CompactNonEmptyStrings (f_Labels f) = f_Labels f" "CompactNonEmptyStrings (f_LabelsAny f) = f_LabelsAny f"
    using assms(1) by (auto simp: CompactNonEmptyStrings_def request_ok_def intro!: filter_True)
  have n: "map (\<lambda>k. ArgStr (f_Labels f ! k)) [0..<length (f_Labels f)] = map ArgStr (f_Labels f)"
    by (rule nth_equalityI) simp_all
  have e: "f\<lparr>f_Labels := [], f_LabelsAny := []\<rparr> = f" if "f_Labels f = []" "f_LabelsAny f = []"
    using that by simp
  have "concat (map (\<lambda>k. [ArgStr (f_Labels f ! k)]) [0..<length (f_Labels f)]) = map ArgStr (f_Labels f)"
    using n by (simp add: concat_map_singleton)
  moreover have "join '' '' (x # xs) = x @ '' '' @ join '' '' xs" if "xs \<noteq> []" for x xs
    using that by (cases xs) simp_all
  ultimately show "lp_Filter p = f\<lparr>f_Labels := [], f_LabelsAny := []\<rparr>"
    "lp_Distinct p = (f_Labels f \<noteq> [] \<or> f_LabelsAny f \<noteq> [])"
    "lp_Where p = map join_cond (search_joins f)"
    "lp_Args p = concat (map (sub_args \<circ> snd) (search_joins f))"
    "lp_FromSQL p = join '' '' (ft_Main t # map (\<lambda>(a, _). label_join t a) (search_joins f))"
    by (auto simp: p_def BuildLabelDrivenSearch_def c Let_def e search_joins_def comp_def)
qed

lemma search_request_text:
  fixes t :: FilterTables and now :: gotime and query :: string and proj :: "('r, 'a) searchProjection"
  assumes "request_ok f"
  defines "st \<equiv> search_stmt now query f (pj_columns proj t) (pj_joinLeases proj)"
  shows "search_request proj now query f t = Inr (search_text t st (search_order f) (search_limit f), select_args st)"
proof -
  note plan = label_plan [OF assms(1), of t]
  define f' where "f' = f\<lparr>f_Labels := [], f_LabelsAny := []\<rparr>"
  have ok: "request_ok f'" using assms(1) by (simp add: request_ok_def f'_def)
  have order: "(if search_order f = [] then [] else order_text [] (search_order f)) = OrderBy (f_SortBy f) (f_SortDesc f) []"
  proof (cases "IsGoSideSort (f_SortBy f)")
    case True
    then show ?thesis by (simp add: search_order_def OrderBy_def OrderByForColumns_def)
  next
    case False
    have "order_keys (f_SortBy f) (f_SortDesc f) \<noteq> []"
      by (simp add: order_keys_def Let_def split: prod.splits)
    then show ?thesis using False order_text_keys [of "f_SortBy f"] by (simp add: search_order_def)
  qed
  have merge: "MergeInto (BuildLabelDrivenSearch f t) whr args =
      (map join_cond (search_joins f) @ whr, concat (map (sub_args \<circ> snd) (search_joins f)) @ args)" for whr args
    by (simp add: MergeInto_def plan)
  show ?thesis
    unfolding search_request_def plan(1, 2, 5) f'_def [symmetric] clauses_succeed [OF ok] Let_def sum.case prod.case merge
    by (simp add: st_def search_text_def order select_text_def select_args_def search_stmt_def f'_def [symmetric]
        join_Cons_append search_limit_def)
qed

lemma fetch_text:
  "fetch_sql (issueProjection tx) t ids = select_text t (fetch_stmt ids)"
  "select_args (fetch_stmt ids) = map ArgStr ids"
  by (simp_all add: fetch_sql_def fetch_stmt_def select_text_def select_args_def issueProjection_def)

subsection \<open>What they select\<close>

lemma holds_loaded [simp]:
  "holds en db (i\<lparr>i_Labels := ls\<rparr>) c = holds en db i c" "holds en db (i\<lparr>i_Dependencies := ds\<rparr>) c = holds en db i c"
proof -
  have col: "column db (i\<lparr>i_Labels := ls\<rparr>) k = column db i k" "column db (i\<lparr>i_Dependencies := ds\<rparr>) k = column db i k" for k
    by (simp_all add: column_def column_values_def)
  have "expr_value db (i\<lparr>i_Labels := ls\<rparr>) e = expr_value db i e" "expr_value db (i\<lparr>i_Dependencies := ds\<rparr>) e = expr_value db i e" for e
    by (cases e; simp add: col)+
  then show "holds en db (i\<lparr>i_Labels := ls\<rparr>) c = holds en db i c" "holds en db (i\<lparr>i_Dependencies := ds\<rparr>) c = holds en db i c"
    by (induction c) (simp_all add: col)
qed

lemma holds_stored: "holds en db (stored lab dep i) = holds en db i"
  by (rule ext; cases "lab (i_ID i)"; cases "dep (i_ID (with_labels lab i))") (simp_all add: stored_def with_deps_def with_labels_def)

lemma label_conds_split:
  "list_all P (label_conds f) \<longleftrightarrow>
   list_all (\<lambda>(a, sub). P (CSub True sub)) (search_joins f) \<and> list_all P (label_conds (f\<lparr>f_Labels := [], f_LabelsAny := []\<rparr>))"
proof -
  have "list_all (\<lambda>(a, sub). P (CSub True sub)) (map (\<lambda>k. (label_alias k, LabelEq (ArgStr (ls ! k)))) [0..<length ls]) \<longleftrightarrow>
      list_all (\<lambda>l. P (CSub True (LabelEq (ArgStr l)))) ls" for ls
    by (simp add: list_all_length)
  then have "list_all (\<lambda>(a, sub). P (CSub True sub)) (search_joins f) \<longleftrightarrow>
      list_all (\<lambda>l. P (CSub True (LabelEq (ArgStr l)))) (f_Labels f) \<and> list_all P (labels_any_cond True (f_LabelsAny f))"
    by (simp add: search_joins_def labels_any_cond_def)
  then show ?thesis by (simp add: label_conds_def labels_any_cond_def list.pred_map comp_def)
qed

lemma search_stmt_selects:
  assumes "searchable query f" "represents db (stored lab dep i)"
  shows "selects en db (search_stmt now query f cols leases) i \<longleftrightarrow> filter_selects en now query f (stored lab dep i)"
proof -
  define f' where "f' = f\<lparr>f_Labels := [], f_LabelsAny := []\<rparr>"
  have same: "text_conds f' = text_conds f" "core_conds f' = core_conds f" "id_conds f' = id_conds f" "flag_conds f' = flag_conds f"
    "time_conds f' = time_conds f" "schedule_conds now f' = schedule_conds now f" "metadata_conds f' = metadata_conds f"
    by (simp_all add: f'_def text_conds_def core_conds_def id_conds_def flag_conds_def time_conds_def schedule_conds_def
        metadata_conds_def)
  have "list_all (holds en db i) (filter_conds now query f) \<longleftrightarrow> selects en db (search_stmt now query f cols leases) i"
    using label_conds_split [of "holds en db i" f]
    by (auto simp: filter_conds_def selects_def search_stmt_def f'_def [symmetric] same)
  then show ?thesis using filter_conds_sem [OF assms, of en now] by (simp add: holds_stored)
qed

lemma fetch_stmt_selects: "selects en db (fetch_stmt ids) i \<longleftrightarrow> i_ID i \<in> set ids"
  by (auto simp: selects_def fetch_stmt_def image_iff)

lemma sorted_by_keys:
  assumes "sorted_wrt (\<lambda>a b. \<not> keys_before (db_nulls db) (order_keys (f_SortBy f) (f_SortDesc f)) b a) ys"
    and "issue_rank.rankable ys" "blanks_alike db f ys" "\<not> IsGoSideSort (f_SortBy f)"
  shows "ys = ranked f ys"
proof -
  have "Less a b (f_SortBy f) (f_SortDesc f)"
    if "\<not> keys_before (db_nulls db) (order_keys (f_SortBy f) (f_SortDesc f)) b a" "a \<in> set ys" "b \<in> set ys" "i_ID a \<noteq> i_ID b" for a b
  proof -
    have "a \<in> rows_ok" "b \<in> rows_ok" "alike_blanks (db_nulls db) (f_SortBy f) a b"
      using that assms(2, 3) by (auto simp: issue_rank.rankable_def blanks_alike_def list_all_iff)
    moreover have "sql_before (db_nulls db) (f_SortBy f) (f_SortDesc f) a b"
      using that(1) sql_before_total [OF that(4), of "db_nulls db" "f_SortBy f" "f_SortDesc f"] by (simp add: sql_before_def)
    ultimately show ?thesis using assms(4) by (simp add: Less_on_rows IsGoSideSort_def)
  qed
  moreover have "sorted_wrt (\<lambda>a b. i_ID a \<noteq> i_ID b) ys"
    using assms(2) by (auto simp: issue_rank.rankable_def distinct_map distinct_conv_nth sorted_wrt_iff_nth_less inj_on_def)
  ultimately have "sorted_wrt (\<lambda>a b. Less a b (f_SortBy f) (f_SortDesc f)) ys"
    using assms(1) by (auto simp: sorted_wrt_iff_nth_less)
  then show ?thesis using issue_rank.SliceStable_id assms(2) by metis
qed

lemma yields_answer:
  assumes "yields en db (search_stmt now query f cols leases) (search_order f) (search_limit f) T xs"
    and "issue_rank.rankable T" "blanks_alike db f T" "searchable query f"
    and "list_all (\<lambda>i. represents db (stored lab dep i)) T"
  shows "answer_ok f (filter (\<lambda>i. filter_selects en now query f (stored lab dep i)) T) xs"
proof -
  define M where "M = filter (\<lambda>i. filter_selects en now query f (stored lab dep i)) T"
  have sel: "filter (selects en db (search_stmt now query f cols leases)) T = M"
    unfolding M_def using assms(4, 5) by (intro filter_cong) (auto simp: search_stmt_selects list_all_iff)
  have "ss_Distinct (search_stmt now query f cols leases) \<or> ss_Joins (search_stmt now query f cols leases) = []"
    by (simp add: search_stmt_def search_joins_def)
  then obtain ys where ys: "mset ys = mset M" "sorted_wrt (\<lambda>a b. \<not> keys_before (db_nulls db) (search_order f) b a) ys"
      "xs = bounded (search_limit f) ys"
    using assms(1) sel by (auto simp: yields_def)
  have sub: "set ys \<subseteq> set T" using mset_eq_setD [OF ys(1)] by (auto simp: M_def)
  have rM: "issue_rank.rankable M"
    using assms(2) by (auto simp: issue_rank.rankable_def M_def distinct_map_filter)
  then have r: "issue_rank.rankable ys" using issue_rank.rankable_mset [OF ys(1)] by simp
  have b: "blanks_alike db f ys" using assms(3) sub by (auto simp: blanks_alike_def list_all_iff)
  show ?thesis
  proof (cases "IsGoSideSort (f_SortBy f)")
    case True
    then show ?thesis using ys by (simp add: answer_ok_def M_def [symmetric] search_limit_def)
  next
    case False
    then have "ys = ranked f ys"
      using ys(2) r b by (intro sorted_by_keys [of db]) (simp_all add: search_order_def)
    also have "\<dots> = ranked f M" using issue_rank.SliceStable_mset [OF ys(1) r] .
    finally show ?thesis using False ys(3) by (simp add: answer_ok_def M_def [symmetric] search_limit_def)
  qed
qed

lemma serves_served:
  assumes s: "serves tx en db now query f tables T lab dep" and r: "issue_rank.rankable T" and b: "blanks_alike db f T"
    and f: "searchable query f" "request_ok f"
  shows "served tx now query f tables (filter (\<lambda>i. filter_selects en now query f (stored lab dep i)) T) lab dep"
proof -
  define M where "M = filter (\<lambda>i. filter_selects en now query f (stored lab dep i)) T"
  have rep: "list_all (\<lambda>i. represents db (stored lab dep i)) T" using s by (simp add: serves_def Let_def)
  note ans = yields_answer [where en = en and now = now, OF _ r b f(1) rep, folded M_def]
  note request = search_request_text [OF f(2), of "issueProjection tx" now query tables]
    search_request_text [OF f(2), of "idProjection tx" now query tables]
  have cols: "pj_columns (issueProjection tx) tables = IssueSelectColumns" "pj_joinLeases (issueProjection tx)"
    "pj_columns (idProjection tx) tables = ft_Main tables @ ''.id''" "\<not> pj_joinLeases (idProjection tx)"
    by (simp_all add: issueProjection_def idProjection_def)
  have fetch: "\<exists>rows xs. tx_Query tx (fetch_sql (issueProjection tx) tables ids) (map ArgStr ids) = Inr rows \<and>
      map (tx_ScanIssue tx) rows = map Inr xs \<and> set xs = {i \<in> set M. i_ID i \<in> set ids}"
    if ids: "ids \<noteq> [] \<and> set ids \<subseteq> i_ID ` set M" for ids
  proof -
    have "set ids \<subseteq> i_ID ` set T" using ids by (auto simp: M_def)
    then obtain rows xs where db: "tx_Query tx (select_text tables (fetch_stmt ids)) (select_args (fetch_stmt ids)) = Inr rows"
      "map (tx_ScanIssue tx) rows = map Inr xs" "yields en db (fetch_stmt ids) [] 0 T xs"
      using s ids unfolding serves_def by blast
    have "mset xs = mset (filter (\<lambda>i. i_ID i \<in> set ids) T)"
    proof -
      have "selects en db (fetch_stmt ids) = (\<lambda>i. i_ID i \<in> set ids)" by (rule ext) (rule fetch_stmt_selects)
      moreover have "ss_Joins (fetch_stmt ids) = []" by (simp add: fetch_stmt_def)
      ultimately show ?thesis using db(3) by (auto simp: yields_def)
    qed
    then have "set xs = {i \<in> set T. i_ID i \<in> set ids}" using mset_eq_setD [of xs "filter (\<lambda>i. i_ID i \<in> set ids) T"] by simp
    moreover have "i \<in> set M" if i: "i \<in> set T" "i_ID i \<in> set ids" for i
    proof -
      obtain j where j: "j \<in> set M" "i_ID j = i_ID i" using i(2) ids by (metis imageE subsetD)
      then have "j = i" using inj_onD [OF ids_distinct [OF r] j(2)] i(1) by (simp add: M_def)
      with j(1) show ?thesis by simp
    qed
    ultimately have "set xs = {i \<in> set M. i_ID i \<in> set ids}" by (auto simp: M_def)
    then show ?thesis using db(1, 2) by (auto simp: fetch_text)
  qed
  let ?wide = "search_stmt now query f IssueSelectColumns True"
  let ?narrow = "search_stmt now query f (ft_Main tables @ ''.id'') False"
  let ?run = "\<lambda>st. tx_Query tx (search_text tables st (search_order f) (search_limit f)) (select_args st)"
  have "search_request (issueProjection tx) now query f tables =
      Inr (search_text tables ?wide (search_order f) (search_limit f), select_args ?wide)"
    "search_request (idProjection tx) now query f tables =
      Inr (search_text tables ?narrow (search_order f) (search_limit f), select_args ?narrow)"
    using request cols by simp_all
  moreover have "\<exists>rows xs. ?run ?wide = Inr rows \<and> map (tx_ScanIssue tx) rows = map Inr xs \<and> answer_ok f M xs"
  proof -
    have "\<exists>rows xs. ?run ?wide = Inr rows \<and> map (tx_ScanIssue tx) rows = map Inr xs \<and>
        yields en db ?wide (search_order f) (search_limit f) T xs"
      using s unfolding serves_def Let_def by (elim conjE)
    then show ?thesis using ans by blast
  qed
  moreover have "\<exists>rows xs. ?run ?narrow = Inr rows \<and> map (tx_ScanID tx) rows = map (Inr \<circ> i_ID) xs \<and> answer_ok f M xs"
  proof -
    have "\<exists>rows xs. ?run ?narrow = Inr rows \<and> map (tx_ScanID tx) rows = map (Inr \<circ> i_ID) xs \<and>
        yields en db ?narrow (search_order f) (search_limit f) T xs"
      using s unfolding serves_def Let_def by (elim conjE)
    then show ?thesis using ans by blast
  qed
  moreover have "\<forall>ids. tx_Labels tx (ft_Labels tables) ids = Inr (lab |` set ids)"
    "\<forall>ids. tx_Deps tx (ft_Dependencies tables) ids = Inr (dep |` set ids)"
    using s by (simp_all add: serves_def Let_def)
  ultimately show ?thesis
    unfolding served_def M_def [symmetric] using fetch by blast
qed

section \<open>Properties\<close>

text \<open>
  C22: a search delivers the page it promises. Suppose the database executes SQL: given the text and
  the arguments of a statement it returns the rows its conditions and label joins select, in an order its
  ORDER BY allows, cut to its LIMIT. Then the full issues a search returns are, for every sort key and
  direction, the first ones of all issues of both tables that the filter describes (\<open>filter_selects\<close>, the
  reference meaning), in the order of \<open>Less\<close>, cut to the limit, with their labels and
  dependencies loaded; when that page is larger than the row cap the search fails with the cap error
  instead. A search for ephemeral issues is about the wisps alone if any match. This holds for
  each route: wide rows fetched directly or by their IDs, keys sorted by the database or in Go, labels
  joined or not, with and without wisps. No ID is in both tables, priorities are valid, the filter has
  valid metadata keys and no empty label, its texts have no LIKE wildcards, its time bounds are in UTC, and
  for a sort by assignee the unassigned rows of a table are stored alike.
\<close>

theorem SearchIssuesInTx_page:
  assumes "serves tx en db now query f IssuesFilterTables D lab dep"
    and "serves tx en wdb now query f WispsFilterTables W wlab wdep"
    and "tx_WispsEmpty tx = Inr (W = [])" and "\<not> f_Lite f" and "in_int64 (f_MaxRows f)"
    and "searchable query f" "request_ok f" "blanks_alike db f D" "blanks_alike wdb f W"
    and "distinct (map i_ID (D @ W))" and "list_all (\<lambda>i. ValidateIssuePriority (i_Priority i) = None) (D @ W)"
  shows "delivers f (SearchIssuesInTx tx now query f) (ranked f (searched_rows f
    (map (hydration f lab dep) (filter (\<lambda>i. filter_selects en now query f (stored lab dep i)) D))
    (map (hydration f wlab wdep) (filter (\<lambda>i. filter_selects en now query f (stored wlab wdep i)) W))))"
proof -
  have r: "issue_rank.rankable (D @ W)"
    using assms(10, 11) unfolding issue_rank.rankable_def by (auto simp: rows_ok_def list_all_iff)
  then have rD: "issue_rank.rankable D" "issue_rank.rankable W" by (auto dest: issue_rank.rankable_sub)
  have "issue_rank.rankable (filter P D @ filter Q W)" for P Q
    using r by (auto simp: issue_rank.rankable_def distinct_map_filter)
  then show ?thesis
    using searchInTx_delivers [OF serves_served [OF assms(1) rD(1) assms(8, 6, 7)]
        serves_served [OF assms(2) rD(2) assms(9, 6, 7)] _ assms(5, 3)] assms(4)
    by (simp add: SearchIssuesInTx_def)
qed

text \<open>A database with two durable issues, one of them open, and an open wisp; its rows are the issues themselves.\<close>

definition open_row :: Issue where
  "open_row = zero_issue\<lparr>i_ID := ''bd-2'', i_Status := ''open'', i_Priority := 1\<rparr>"

definition closed_row :: Issue where
  "closed_row = zero_issue\<lparr>i_ID := ''bd-3'', i_Status := ''closed''\<rparr>"

definition wisp_row :: Issue where
  "wisp_row = zero_issue\<lparr>i_ID := ''bd-1'', i_Status := ''open''\<rparr>"

definition sample_page_filter :: IssueFilter where
  "sample_page_filter = zero_filter\<lparr>f_Limit := 1, f_Status := Some ''open''\<rparr>"

definition sample_sql :: "bool \<Rightarrow> FilterTables \<Rightarrow> string" where
  "sample_sql wide tables = search_text tables
     (search_stmt zero_time [] sample_page_filter (if wide then IssueSelectColumns else ft_Main tables @ ''.id'') wide)
     (search_order sample_page_filter) (search_limit sample_page_filter)"

definition sample_tx :: "Issue tx" where
  "sample_tx = \<lparr>tx_Query = (\<lambda>sql args.
       Inr (if args = [ArgStr ''open''] then
              (if sql = sample_sql True WispsFilterTables \<or> sql = sample_sql False WispsFilterTables then [wisp_row]
               else [open_row])
            else filter (\<lambda>i. ArgStr (i_ID i) \<in> set args) [open_row, closed_row, wisp_row])),
     tx_ScanIssue = Inr, tx_ScanIssueLite = Inr, tx_ScanID = (\<lambda>i. Inr (i_ID i)),
     tx_Labels = (\<lambda>_ _. Inr Map.empty), tx_Deps = (\<lambda>_ _. Inr Map.empty), tx_WispsEmpty = Inr False\<rparr>"

definition sample_tables :: sql_db where
  "sample_tables = \<lparr>db_labels = [], db_deps = [], db_nulls = (\<lambda>_. True)\<rparr>"

lemma sample_conds:
  "filter_conds zero_time [] (sample_page_filter\<lparr>f_Labels := [], f_LabelsAny := []\<rparr>) =
   [CCmp (ECol ''status'') ''='' (ArgStr ''open'')]"
  by (simp add: sample_page_filter_def zero_filter_def filter_conds_def query_conds_def text_conds_def contains_cond_def
      core_conds_def eq_cond_def in_cond_def id_conds_def prefix_cond_def label_conds_def labels_any_cond_def flag_conds_def
      time_conds_def time_cond_def schedule_conds_def metadata_conds_def opt_frag_def if_frag_def)

lemma sample_stmt:
  "search_stmt zero_time [] sample_page_filter cols leases =
   \<lparr>ss_Distinct = False, ss_Columns = cols, ss_Joins = [], ss_Leases = leases,
    ss_Where = [CCmp (ECol ''status'') ''='' (ArgStr ''open'')]\<rparr>"
  unfolding search_stmt_def sample_conds by (simp add: search_joins_def sample_page_filter_def zero_filter_def)

lemma sample_sql_differs: "sample_sql w IssuesFilterTables \<noteq> sample_sql w' WispsFilterTables"
  by (cases w; cases w') (auto simp: sample_sql_def search_text_def select_text_def sample_stmt IssuesFilterTables_def
      WispsFilterTables_def IssueSelectColumns_def IssueBaseColumns_def LeaseJoin_def)

lemma fetch_yields: "yields en db (fetch_stmt ids) [] 0 T (filter (\<lambda>i. i_ID i \<in> set ids) T)"
proof -
  have "sorted_wrt (\<lambda>a b. \<not> keys_before (db_nulls db) [] b a) xs" for xs
    by (induction xs) (simp_all add: keys_before_def)
  moreover have "selects en db (fetch_stmt ids) = (\<lambda>i. i_ID i \<in> set ids)" by (rule ext) (rule fetch_stmt_selects)
  moreover have "ss_Joins (fetch_stmt ids) = []" by (simp add: fetch_stmt_def)
  ultimately show ?thesis by (auto simp: yields_def)
qed

lemma sample_yields:
  assumes "T = [open_row, closed_row] \<and> M = [open_row] \<or> T = [wisp_row] \<and> M = [wisp_row]"
  shows "yields plain_engine sample_tables (search_stmt zero_time [] sample_page_filter cols leases)
    (search_order sample_page_filter) (search_limit sample_page_filter) T M"
proof -
  have "search_limit sample_page_filter = 1"
    by (simp add: search_limit_def IsGoSideSort_def sample_page_filter_def zero_filter_def EffectiveSearchLimit_def)
  then show ?thesis
    using assms by (auto simp: yields_def sample_stmt selects_def compare_holds_def open_row_def closed_row_def wisp_row_def
        bounded_def intro!: exI [of _ M])
qed

lemma sample_serves:
  assumes "T = [open_row, closed_row] \<and> M = [open_row] \<and> t = IssuesFilterTables \<or>
    T = [wisp_row] \<and> M = [wisp_row] \<and> t = WispsFilterTables"
  shows "serves sample_tx plain_engine sample_tables zero_time [] sample_page_filter t T Map.empty Map.empty"
proof -
  have ids: "i_ID open_row = ''bd-2''" "i_ID closed_row = ''bd-3''" "i_ID wisp_row = ''bd-1''"
    by (simp_all add: open_row_def closed_row_def wisp_row_def)
  have q: "tx_Query sample_tx (sample_sql w t) [ArgStr ''open''] = Inr M" for w
    using assms sample_sql_differs by (cases w) (auto simp: sample_tx_def)
  have args: "select_args (search_stmt zero_time [] sample_page_filter cols leases) = [ArgStr ''open'']" for cols leases
    by (simp add: sample_stmt select_args_def)
  have y: "yields plain_engine sample_tables (search_stmt zero_time [] sample_page_filter cols leases)
      (search_order sample_page_filter) (search_limit sample_page_filter) T M" for cols leases
    using assms by (intro sample_yields) blast
  have scan: "map (tx_ScanIssue sample_tx) xs = map Inr xs" "map (tx_ScanID sample_tx) xs = map (Inr \<circ> i_ID) xs" for xs
    by (simp_all add: sample_tx_def)
  have wide: "tx_Query sample_tx (search_text t (search_stmt zero_time [] sample_page_filter IssueSelectColumns True)
      (search_order sample_page_filter) (search_limit sample_page_filter)) [ArgStr ''open''] = Inr M"
    "tx_Query sample_tx (search_text t (search_stmt zero_time [] sample_page_filter (ft_Main t @ ''.id'') False)
      (search_order sample_page_filter) (search_limit sample_page_filter)) [ArgStr ''open''] = Inr M"
    using q [of True] q [of False] by (simp_all add: sample_sql_def)
  have fetch: "\<exists>xs. tx_Query sample_tx sql (select_args (fetch_stmt is)) = Inr xs \<and>
      yields plain_engine sample_tables (fetch_stmt is) [] 0 T xs"
    if "is \<noteq> []" "set is \<subseteq> i_ID ` set T" for sql "is"
  proof -
    have "map ArgStr is \<noteq> [ArgStr ''open'']" using that assms ids by auto
    then have "tx_Query sample_tx sql (select_args (fetch_stmt is)) =
        Inr (filter (\<lambda>i. i_ID i \<in> set is) [open_row, closed_row, wisp_row])"
      by (auto simp: sample_tx_def fetch_text)
    moreover have "filter (\<lambda>i. i_ID i \<in> set is) [open_row, closed_row, wisp_row] = filter (\<lambda>i. i_ID i \<in> set is) T"
      using that assms ids by auto
    moreover have "yields plain_engine sample_tables (fetch_stmt is) [] 0 T (filter (\<lambda>i. i_ID i \<in> set is) T)"
      by (rule fetch_yields)
    ultimately show ?thesis by simp
  qed
  have "tx_Labels sample_tx u i = Inr Map.empty" "tx_Deps sample_tx u i = Inr Map.empty" for u i
    by (simp_all add: sample_tx_def)
  moreover have "list_all (\<lambda>i. represents sample_tables (stored Map.empty Map.empty i)) T"
    using assms by (auto simp: represents_def sample_tables_def stored_def with_labels_def with_deps_def open_row_def
        closed_row_def wisp_row_def zero_issue_def)
  moreover have fetched: "\<exists>rows xs. tx_Query sample_tx (select_text t (fetch_stmt is)) (select_args (fetch_stmt is)) = Inr rows \<and>
      map (tx_ScanIssue sample_tx) rows = map Inr xs \<and> yields plain_engine sample_tables (fetch_stmt is) [] 0 T xs"
    if "is \<noteq> [] \<and> set is \<subseteq> i_ID ` set T" for "is"
    using fetch [of "is" "select_text t (fetch_stmt is)"] that scan by metis
  ultimately show ?thesis
    unfolding serves_def Let_def args restrict_map_empty
    by (intro conjI) (intro exI [of _ M] conjI wide scan y, intro exI [of _ M] conjI wide scan y,
        intro allI impI fetched, simp_all)
qed

theorem SearchIssuesInTx_page_witness:
  "SearchIssuesInTx sample_tx zero_time [] sample_page_filter = Inr [wisp_row]"
proof -
  have s: "searchable [] sample_page_filter" "request_ok sample_page_filter"
    by (simp_all add: searchable_def request_ok_def sample_page_filter_def zero_filter_def opt_frag_def time_bounds_def)
  have b: "blanks_alike db sample_page_filter T" for db T
    by (auto simp: blanks_alike_def alike_blanks_def sample_page_filter_def zero_filter_def list_all_iff)
  have sel: "filter_selects plain_engine zero_time [] sample_page_filter (stored Map.empty Map.empty i) \<longleftrightarrow> i_Status i = ''open''"
    if "represents sample_tables (stored Map.empty Map.empty i)" for i
    using search_stmt_selects [OF s(1) that, of plain_engine zero_time "[]" False]
    by (simp add: sample_stmt selects_def compare_holds_def)
  have "delivers sample_page_filter (SearchIssuesInTx sample_tx zero_time [] sample_page_filter)
      (ranked sample_page_filter (searched_rows sample_page_filter
        (map (hydration sample_page_filter Map.empty Map.empty)
          (filter (\<lambda>i. filter_selects plain_engine zero_time [] sample_page_filter (stored Map.empty Map.empty i)) [open_row, closed_row]))
        (map (hydration sample_page_filter Map.empty Map.empty)
          (filter (\<lambda>i. filter_selects plain_engine zero_time [] sample_page_filter (stored Map.empty Map.empty i)) [wisp_row]))))"
    by (rule SearchIssuesInTx_page [OF sample_serves sample_serves _ _ _ s b b])
      (simp_all add: open_row_def closed_row_def wisp_row_def zero_issue_def ValidateIssuePriority_def
        sample_page_filter_def zero_filter_def int64_defs sample_tx_def)
  moreover have "represents sample_tables (stored Map.empty Map.empty i)" if "i \<in> {open_row, closed_row, wisp_row}" for i
    using that by (auto simp: represents_def sample_tables_def stored_def with_labels_def with_deps_def open_row_def
        closed_row_def wisp_row_def zero_issue_def)
  then have "filter (\<lambda>i. filter_selects plain_engine zero_time [] sample_page_filter (stored Map.empty Map.empty i)) [open_row, closed_row] = [open_row]"
    "filter (\<lambda>i. filter_selects plain_engine zero_time [] sample_page_filter (stored Map.empty Map.empty i)) [wisp_row] = [wisp_row]"
    by (simp_all add: sel) (simp_all add: open_row_def closed_row_def wisp_row_def)
  moreover have "hydration sample_page_filter Map.empty Map.empty i = i" for i
    by (simp add: hydration_def with_labels_def with_deps_def Let_def)
  ultimately have "delivers sample_page_filter (SearchIssuesInTx sample_tx zero_time [] sample_page_filter)
      (ranked sample_page_filter (searched_rows sample_page_filter [open_row] [wisp_row]))"
    by simp
  then show ?thesis
    by (simp add: searched_rows_def delivers_def page_spec_def bounded_def sample_page_filter_def zero_filter_def Less_def
        sort_def_def SortDefs_def sortKeyCompare_def wrap64_def open_row_def wisp_row_def zero_issue_def)
qed

end
