(* ===== verification/Store_State.thy ===== *)
theory Store_State
  imports Dependency_Types Issue_Ids
begin

text \<open>
  The tables the write path of \<open>internal/storage/issueops\<close> works on, as one record, and the event
  journal (\<open>journal.go\<close>). A statement of a transaction is a function on the record; the code runs
  each operation inside a transaction, so an error leaves the record the caller started with. The
  statements themselves are taken to succeed: a failing driver aborts the transaction. The optional
  wisp tables exist; the code treats missing ones as empty.

  A row is an \<open>Issue\<close>; its \<open>i_RowVersion\<close> is the column \<open>row_lock\<close> and \<open>i_IsBlocked\<close> the column
  \<open>is_blocked\<close>. Labels are kept in the row. NULL and the empty text in \<open>assignee\<close> are read alike and
  not told apart. The lease columns of an issue are those of the lease table, joined on reading.
\<close>

section \<open>Tables\<close>

text \<open>Durable issues and wisps have tables of the same shape each.\<close>

datatype plane = Durable | Ephemeral

type_synonym node = "plane \<times> string"

record DepRow =
  dr_IssueID :: string
  dr_OnIssue :: "string option"
  dr_OnWisp :: "string option"
  dr_OnExternal :: "string option"
  dr_Type :: dep_type
  dr_CreatedBy :: string
  dr_Metadata :: string
  dr_ThreadID :: string

text \<open>\<open>DepTargetExpr\<close>: COALESCE of the three typed target columns.\<close>

definition dep_target :: "DepRow \<Rightarrow> string option" where
  "dep_target d =
     (case dr_OnIssue d of Some t \<Rightarrow> Some t | None \<Rightarrow>
      case dr_OnWisp d of Some t \<Rightarrow> Some t | None \<Rightarrow> dr_OnExternal d)"

record LeaseRow =
  l_Holder :: string
  l_GrantedAt :: gotime
  l_ExpiresAt :: gotime
  l_HeartbeatAt :: gotime
  l_GrantedNode :: string

text \<open>Values of audit events: JSON of an issue, JSON of changed fields, or plain text.\<close>

datatype event_value = EventText string | EventIssue Issue | EventFields "(string \<times> string) list"

record EventRow =
  ev_IssueID :: string
  ev_Type :: string
  ev_Actor :: string
  ev_Old :: event_value
  ev_New :: event_value
  ev_Comment :: "string option"

record EventDep =
  ed_Kind :: string
  ed_Target :: string
  ed_Metadata :: string

text \<open>The text a comment carries in the journal; its derived identifier is left out.\<close>

record EventComment =
  ec_Author :: string
  ec_Text :: string
  ec_CreatedAt :: gotime
  ec_Source :: string

datatype EventOp = EventCreate | EventUpdate | EventClose | EventDelete | EventDepAdd | EventDepRemove
  | EventCommentWrite

record JournalRow =
  j_Seq :: int
  j_Op :: EventOp
  j_IssueID :: string
  j_Issue :: "Issue option"
  j_Dep :: "EventDep option"
  j_Comment :: "EventComment option"

record store =
  st_Rows :: "plane \<Rightarrow> string \<Rightarrow> Issue option"
  st_Deps :: "plane \<Rightarrow> DepRow list"
  st_Events :: "plane \<Rightarrow> EventRow list"
  st_Leases :: "string \<Rightarrow> LeaseRow option"
  st_Config :: "string \<Rightarrow> string option"
  st_CustomStatuses :: "CustomStatus list"
  st_JournalOn :: bool
  st_Journal :: "JournalRow list"
  st_Seq :: "int option"

datatype store_error =
    ErrNotFound string
  | FieldError validation_error
  | ErrAlreadyClaimed string string
  | ErrNotClaimable string status
  | ErrNotOwner string string
  | ErrAssigneeMismatch string string string
  | CannotUnclaimClosed string
  | NotAssigned string
  | NoMatchingRow string
  | EmptyExpectedAssignee string
  | ErrVersionMismatch string
  | ErrCloseOpenChildren string nat
  | ErrCloseBlocked string "string list"
  | NullTarget string
  | CascadeTooLarge
  | DependentsOutsideRequest string "string list"
  | FailedToClose string
  | StatusChangedConcurrently string
  | MissingDependencySource string string
  | MissingDependencyTarget string string
  | ErrSelfDependency string
  | ErrDependencyCycle
  | HierarchyConflict string string bool
  | DependencyTypeConflict string string dep_type dep_type
  | JournalSnapshotError EventOp string
  | JournalDuplicateSeq EventOp string

section \<open>Reading rows\<close>

definition row :: "store \<Rightarrow> node \<Rightarrow> Issue option" where
  "row st n = st_Rows st (fst n) (snd n)"

definition set_row :: "node \<Rightarrow> Issue option \<Rightarrow> store \<Rightarrow> store" where
  "set_row n r st = st\<lparr>st_Rows := (\<lambda>pl i. if (pl, i) = n then r else st_Rows st pl i)\<rparr>"

lemma row_set_row [simp]: "row (set_row n r st) m = (if m = n then r else row st m)"
  by (cases m) (simp add: row_def set_row_def)

lemma set_row_other [simp]:
  "st_Deps (set_row n r st) = st_Deps st" "st_Leases (set_row n r st) = st_Leases st"
  "st_Config (set_row n r st) = st_Config st" "st_CustomStatuses (set_row n r st) = st_CustomStatuses st"
  "st_Events (set_row n r st) = st_Events st" "st_JournalOn (set_row n r st) = st_JournalOn st"
  "st_Journal (set_row n r st) = st_Journal st" "st_Seq (set_row n r st) = st_Seq st"
  by (simp_all add: set_row_def)

definition IsActiveWispInTx :: "store \<Rightarrow> string \<Rightarrow> bool" where
  "IsActiveWispInTx st i \<longleftrightarrow> row st (Ephemeral, i) \<noteq> None"

text \<open>\<open>WispTableRouting\<close>: the tables an issue is written to.\<close>

definition WispTableRouting :: "bool \<Rightarrow> plane" where
  "WispTableRouting isWisp = (if isWisp then Ephemeral else Durable)"

definition plane_of :: "store \<Rightarrow> string \<Rightarrow> plane" where
  "plane_of st i = WispTableRouting (IsActiveWispInTx st i)"

text \<open>A row with the lease columns joined.\<close>

definition with_lease :: "LeaseRow option \<Rightarrow> Issue \<Rightarrow> Issue" where
  "with_lease l i =
     i\<lparr>i_LeaseExpiresAt := map_option l_ExpiresAt l, i_HeartbeatAt := map_option l_HeartbeatAt l,
       i_LeaseGrantedNode := (case l of None \<Rightarrow> [] | Some r \<Rightarrow> l_GrantedNode r)\<rparr>"

text \<open>Ordinary reading does not load \<open>is_blocked\<close>.\<close>

definition getIssueFromTableInTx :: "store \<Rightarrow> plane \<Rightarrow> string \<Rightarrow> Issue option" where
  "getIssueFromTableInTx st pl i =
     map_option (\<lambda>r. with_lease (st_Leases st i) (r\<lparr>i_IsBlocked := False\<rparr>)) (row st (pl, i))"

definition GetIssueInTx :: "store \<Rightarrow> string \<Rightarrow> store_error + Issue" where
  "GetIssueInTx st i =
     (case getIssueFromTableInTx st Durable i of
        Some r \<Rightarrow> Inr r
      | None \<Rightarrow> (case getIssueFromTableInTx st Ephemeral i of
          Some r \<Rightarrow> Inr r
        | None \<Rightarrow> Inl (ErrNotFound i)))"

definition GetConfigInTx :: "store \<Rightarrow> string \<Rightarrow> string" where
  "GetConfigInTx st key = (case st_Config st key of None \<Rightarrow> [] | Some v \<Rightarrow> v)"

section \<open>Audit events\<close>

definition RecordFullEventInTable ::
    "store \<Rightarrow> plane \<Rightarrow> string \<Rightarrow> string \<Rightarrow> string \<Rightarrow> event_value \<Rightarrow> event_value \<Rightarrow> store" where
  "RecordFullEventInTable st pl i ty actor old new =
     st\<lparr>st_Events := (st_Events st)(pl := st_Events st pl @
       [\<lparr>ev_IssueID = i, ev_Type = ty, ev_Actor = actor, ev_Old = old, ev_New = new, ev_Comment = None\<rparr>])\<rparr>"

definition RecordEventInTable :: "store \<Rightarrow> plane \<Rightarrow> string \<Rightarrow> string \<Rightarrow> string \<Rightarrow> string \<Rightarrow> store" where
  "RecordEventInTable st pl i ty actor newValue =
     RecordFullEventInTable st pl i ty actor (EventText []) (EventText newValue)"

section \<open>The journal\<close>

definition wireEventOps :: "EventOp list" where
  "wireEventOps = [EventCreate, EventUpdate, EventClose, EventDelete, EventDepAdd, EventDepRemove]"

definition IsWireEventOp :: "EventOp \<Rightarrow> bool" where
  "IsWireEventOp op \<longleftrightarrow> op \<in> set wireEventOps"

definition max_seq :: "JournalRow list \<Rightarrow> int" where
  "max_seq js = (if js = [] then 0 else Max (set (map j_Seq js)))"

text \<open>
  Seeds the counter when it is missing and raises it to the highest number in use. The numbers are
  integers here; the columns are BIGINT, and the two agree as long as the numbers in use are below the
  largest 64-bit integer (\<open>seq_room\<close>): every number computed then fits the column.
\<close>

definition healEventSeqCounter :: "store \<Rightarrow> store" where
  "healEventSeqCounter st =
     (let seeded = (case st_Seq st of None \<Rightarrow> 0 | Some n \<Rightarrow> n)
      in st\<lparr>st_Seq := Some (max seeded (max_seq (st_Journal st)))\<rparr>)"

definition advance_seq :: "store \<Rightarrow> store" where
  "advance_seq st = st\<lparr>st_Seq := map_option (\<lambda>n. n + 1) (st_Seq st)\<rparr>"

definition nextEventSeq :: "store \<Rightarrow> int \<times> store" where
  "nextEventSeq st =
     (let st1 = (if st_Seq st = None then advance_seq (healEventSeqCounter st) else advance_seq st)
      in (case st_Seq st1 of Some n \<Rightarrow> n | None \<Rightarrow> 0, st1))"

text \<open>The insertion itself fails on a duplicate key.\<close>

definition insert_journal ::
    "store \<Rightarrow> int \<Rightarrow> EventOp \<Rightarrow> string \<Rightarrow> Issue option \<Rightarrow> EventDep option \<Rightarrow> EventComment option \<Rightarrow> store option" where
  "insert_journal st seq op i issue dep comment =
     (if seq \<in> j_Seq ` set (st_Journal st) then None
      else Some (st\<lparr>st_Journal := st_Journal st @
        [\<lparr>j_Seq = seq, j_Op = op, j_IssueID = i, j_Issue = issue, j_Dep = dep, j_Comment = comment\<rparr>]\<rparr>))"

definition insertEventRow ::
    "store \<Rightarrow> EventOp \<Rightarrow> string \<Rightarrow> Issue option \<Rightarrow> EventDep option \<Rightarrow> EventComment option \<Rightarrow> store_error + store" where
  "insertEventRow st op i issue dep comment =
     (case nextEventSeq st of (seq, st1) \<Rightarrow>
      case insert_journal st1 seq op i issue dep comment of
        Some st2 \<Rightarrow> Inr st2
      | None \<Rightarrow>
          (case nextEventSeq (healEventSeqCounter st1) of (seq', st3) \<Rightarrow>
           case insert_journal st3 seq' op i issue dep comment of
             Some st4 \<Rightarrow> Inr st4
           | None \<Rightarrow> Inl (JournalDuplicateSeq op i)))"

definition getJournalIssueInTx :: "store \<Rightarrow> string \<Rightarrow> Issue option" where
  "getJournalIssueInTx st i =
     (case row st (Durable, i) of
        Some r \<Rightarrow> Some (with_lease (st_Leases st i) r)
      | None \<Rightarrow> map_option (with_lease (st_Leases st i)) (row st (Ephemeral, i)))"

definition RecordEventInTx :: "store \<Rightarrow> EventOp \<Rightarrow> string \<Rightarrow> store_error + store" where
  "RecordEventInTx st op i =
     (if \<not> st_JournalOn st then Inr st
      else case getJournalIssueInTx st i of
        None \<Rightarrow> Inl (JournalSnapshotError op i)
      | Some r \<Rightarrow> insertEventRow st op i (Some r) None None)"

definition RecordDepEventInTx ::
    "store \<Rightarrow> EventOp \<Rightarrow> string \<Rightarrow> string \<Rightarrow> string \<Rightarrow> string \<Rightarrow> store_error + store" where
  "RecordDepEventInTx st op i kind target metadata =
     (if \<not> st_JournalOn st then Inr st
      else insertEventRow st op i (getJournalIssueInTx st i)
        (Some \<lparr>ed_Kind = kind, ed_Target = target, ed_Metadata = metadata\<rparr>) None)"

definition RecordCommentEventInTx :: "store \<Rightarrow> string \<Rightarrow> EventComment \<Rightarrow> store_error + store" where
  "RecordCommentEventInTx st i comment =
     (if \<not> st_JournalOn st then Inr st
      else case getJournalIssueInTx st i of
        None \<Rightarrow> Inl (JournalSnapshotError EventCommentWrite i)
      | Some r \<Rightarrow> insertEventRow st EventCommentWrite i (Some r) None (Some comment))"

definition RecordDeleteInTx :: "store \<Rightarrow> string \<Rightarrow> store_error + store" where
  "RecordDeleteInTx st i =
     (if \<not> st_JournalOn st then Inr st else insertEventRow st EventDelete i None None None)"

section \<open>What the journal guarantees\<close>

lemma max_seq_ge: "j \<in> set js \<Longrightarrow> j_Seq j \<le> max_seq js"
  by (auto simp: max_seq_def intro!: Max_ge)

text \<open>The journal operations change nothing but the journal and its counter.\<close>

definition journal_only :: "store \<Rightarrow> store \<Rightarrow> bool" where
  "journal_only st st' \<longleftrightarrow> st' = st\<lparr>st_Journal := st_Journal st', st_Seq := st_Seq st'\<rparr>"

lemma journal_only_refl [simp]: "journal_only st st"
  by (simp add: journal_only_def)

lemma journal_only_trans: "journal_only a b \<Longrightarrow> journal_only b c \<Longrightarrow> journal_only a c"
  by (cases a; cases b; cases c) (simp add: journal_only_def)

lemma journal_onlyD:
  assumes "journal_only st st'"
  shows "st_Rows st' = st_Rows st" "st_Deps st' = st_Deps st" "st_Events st' = st_Events st"
    "st_Leases st' = st_Leases st" "st_Config st' = st_Config st"
    "st_CustomStatuses st' = st_CustomStatuses st" "st_JournalOn st' = st_JournalOn st" "row st' = row st"
  using assms by (cases st; cases st'; simp add: journal_only_def row_def fun_eq_iff)+

lemma nextEventSeq_journal:
  "nextEventSeq st = (seq, st') \<Longrightarrow> st_Journal st' = st_Journal st \<and> journal_only st st'"
  by (cases st)
    (auto simp: nextEventSeq_def Let_def advance_seq_def healEventSeqCounter_def journal_only_def split: if_splits)

text \<open>The counter is not behind: it is missing, or at least the highest number in the journal.\<close>

definition seq_ahead :: "store \<Rightarrow> bool" where
  "seq_ahead st \<longleftrightarrow> (case st_Seq st of None \<Rightarrow> True | Some n \<Rightarrow> list_all (\<lambda>j. j_Seq j \<le> n) (st_Journal st))"

lemma heal_ahead: "seq_ahead (healEventSeqCounter st)" "st_Seq (healEventSeqCounter st) \<noteq> None"
  using max_seq_ge [of _ "st_Journal st"]
  by (auto simp: seq_ahead_def healEventSeqCounter_def Let_def list_all_iff le_max_iff_disj)

lemma nextEventSeq_ahead:
  assumes "seq_ahead st" "nextEventSeq st = (seq, st')"
  shows "list_all (\<lambda>j. j_Seq j < seq) (st_Journal st')" "st_Seq st' = Some seq"
  using assms max_seq_ge [of _ "st_Journal st"]
  by (auto simp: nextEventSeq_def seq_ahead_def Let_def advance_seq_def healEventSeqCounter_def list_all_iff
      less_max_iff_disj split: option.splits if_splits) force+

lemma nextEventSeq_fresh:
  assumes "seq_ahead st" "nextEventSeq st = (seq, st')"
  shows "insert_journal st' seq op i issue dep comment \<noteq> None"
  using nextEventSeq_ahead(1) [OF assms] by (auto simp: insert_journal_def list_all_iff)

lemma insert_journal_Some:
  assumes "insert_journal st seq op i issue dep comment = Some st'"
  shows "st_Journal st' = st_Journal st @ [\<lparr>j_Seq = seq, j_Op = op, j_IssueID = i, j_Issue = issue, j_Dep = dep, j_Comment = comment\<rparr>]"
    and "seq \<notin> j_Seq ` set (st_Journal st)" and "journal_only st st'" and "st_Seq st' = st_Seq st"
  using assms by (cases st; auto simp: insert_journal_def journal_only_def split: if_splits)+

lemma insertEventRow_spec:
  obtains st' seq where "insertEventRow st op i issue dep comment = Inr st'" "journal_only st st'"
    "st_Journal st' = st_Journal st @ [\<lparr>j_Seq = seq, j_Op = op, j_IssueID = i, j_Issue = issue, j_Dep = dep, j_Comment = comment\<rparr>]"
    "seq \<notin> j_Seq ` set (st_Journal st)"
    "seq_ahead st \<longrightarrow> list_all (\<lambda>j. j_Seq j < seq) (st_Journal st) \<and> st_Seq st' = Some seq"
proof -
  obtain seq st1 where n1: "nextEventSeq st = (seq, st1)" by fastforce
  note j1 = nextEventSeq_journal [OF n1]
  show thesis
  proof (cases "insert_journal st1 seq op i issue dep comment")
    case (Some st2)
    note s = insert_journal_Some [OF Some]
    show thesis
    proof (rule that)
      show "insertEventRow st op i issue dep comment = Inr st2" by (simp add: insertEventRow_def n1 Some)
      show "journal_only st st2" using j1 s(3) by (blast intro: journal_only_trans)
      show "st_Journal st2 = st_Journal st @ [\<lparr>j_Seq = seq, j_Op = op, j_IssueID = i, j_Issue = issue, j_Dep = dep, j_Comment = comment\<rparr>]"
        "seq \<notin> j_Seq ` set (st_Journal st)" using s(1, 2) j1 by simp_all
      show "seq_ahead st \<longrightarrow> list_all (\<lambda>j. j_Seq j < seq) (st_Journal st) \<and> st_Seq st2 = Some seq"
        using nextEventSeq_ahead [OF _ n1] j1 s(4) by simp
    qed
  next
    case None
    then have behind: "\<not> seq_ahead st" using nextEventSeq_fresh [OF _ n1] by blast
    obtain seq' st3 where n3: "nextEventSeq (healEventSeqCounter st1) = (seq', st3)" by fastforce
    obtain st4 where st4: "insert_journal st3 seq' op i issue dep comment = Some st4"
      using nextEventSeq_fresh [OF heal_ahead(1) n3] by blast
    note s = insert_journal_Some [OF st4] and j3 = nextEventSeq_journal [OF n3]
    have h: "st_Journal (healEventSeqCounter st1) = st_Journal st1" "journal_only st1 (healEventSeqCounter st1)"
      by (cases st1; simp add: healEventSeqCounter_def Let_def journal_only_def)+
    show thesis
    proof (rule that)
      show "insertEventRow st op i issue dep comment = Inr st4"
        by (simp add: insertEventRow_def n1 None n3 st4)
      show "journal_only st st4" using j1 h(2) j3 s(3) by (blast intro: journal_only_trans)
      show "st_Journal st4 = st_Journal st @ [\<lparr>j_Seq = seq', j_Op = op, j_IssueID = i, j_Issue = issue, j_Dep = dep, j_Comment = comment\<rparr>]"
        "seq' \<notin> j_Seq ` set (st_Journal st)" using s(1, 2) j1 h(1) j3 by simp_all
      show "seq_ahead st \<longrightarrow> list_all (\<lambda>j. j_Seq j < seq') (st_Journal st) \<and> st_Seq st4 = Some seq'"
        using behind by simp
    qed
  qed
qed

text \<open>Room for one more number in the 64-bit columns.\<close>

definition seq_room :: "store \<Rightarrow> bool" where
  "seq_room st \<longleftrightarrow> (case st_Seq st of None \<Rightarrow> True | Some n \<Rightarrow> 0 \<le> n \<and> n < max_int64) \<and>
     list_all (\<lambda>j. 0 \<le> j_Seq j \<and> j_Seq j < max_int64) (st_Journal st)"

lemma heal_room:
  assumes "seq_room st"
  shows "seq_room (healEventSeqCounter st)" "\<exists>n. st_Seq (healEventSeqCounter st) = Some n \<and> 0 \<le> n \<and> n < max_int64"
proof -
  have "0 \<le> max_seq (st_Journal st) \<and> max_seq (st_Journal st) < max_int64"
  proof (cases "st_Journal st = []")
    case False
    then have "Max (set (map j_Seq (st_Journal st))) \<in> set (map j_Seq (st_Journal st))" by (intro Max_in) simp_all
    moreover have "0 \<le> n \<and> n < max_int64" if "n \<in> set (map j_Seq (st_Journal st))" for n
      using that assms by (auto simp: seq_room_def list_all_iff)
    ultimately show ?thesis using False unfolding max_seq_def by (simp only: if_False)
  qed (simp add: max_seq_def max_int64_def)
  then show "seq_room (healEventSeqCounter st)" "\<exists>n. st_Seq (healEventSeqCounter st) = Some n \<and> 0 \<le> n \<and> n < max_int64"
    using assms by (auto simp: healEventSeqCounter_def seq_room_def Let_def max_int64_def split: option.splits)
qed

lemma nextEventSeq_room:
  assumes "seq_room st" "nextEventSeq st = (seq, st')"
  shows "0 < seq" "seq \<le> max_int64" "st_Seq st' = Some seq"
proof -
  obtain n where n: "st_Seq st' = Some (n + 1)" "seq = n + 1" "0 \<le> n \<and> n < max_int64"
  proof (cases "st_Seq st")
    case None
    obtain n where "st_Seq (healEventSeqCounter st) = Some n" "0 \<le> n \<and> n < max_int64"
      using heal_room(2) [OF assms(1)] by blast
    with None assms(2) show ?thesis by (intro that [of n]) (auto simp: nextEventSeq_def Let_def advance_seq_def)
  next
    case (Some n)
    with assms show ?thesis by (intro that [of n]) (auto simp: nextEventSeq_def Let_def advance_seq_def seq_room_def)
  qed
  then show "0 < seq" "seq \<le> max_int64" "st_Seq st' = Some seq" by auto
qed

text \<open>Then every number in the journal and the counter fit afterwards.\<close>

lemma insertEventRow_room:
  assumes "seq_room st" "insertEventRow st op i issue dep comment = Inr st'"
  shows "list_all (\<lambda>j. 0 \<le> j_Seq j \<and> j_Seq j \<le> max_int64) (st_Journal st')" "\<exists>n \<le> max_int64. st_Seq st' = Some n"
proof -
  have fits: "list_all (\<lambda>j. 0 \<le> j_Seq j \<and> j_Seq j \<le> max_int64) (st_Journal st3) \<and> (\<exists>n \<le> max_int64. st_Seq st3 = Some n)"
    if "seq_room st1" "nextEventSeq st1 = (seq, st2)" "insert_journal st2 seq op i issue dep comment = Some st3" for st1 st2 st3 seq
    using nextEventSeq_room [OF that(1, 2)] nextEventSeq_journal [OF that(2)] insert_journal_Some(1, 4) [OF that(3)] that(1)
    by (auto simp: seq_room_def list_all_iff)
  obtain seq st1 where n: "nextEventSeq st = (seq, st1)" by fastforce
  have "list_all (\<lambda>j. 0 \<le> j_Seq j \<and> j_Seq j \<le> max_int64) (st_Journal st') \<and> (\<exists>n \<le> max_int64. st_Seq st' = Some n)"
  proof (cases "insert_journal st1 seq op i issue dep comment")
    case (Some st2)
    then show ?thesis using fits [OF assms(1) n Some] assms(2) by (simp add: insertEventRow_def n)
  next
    case None
    then have "seq \<in> j_Seq ` set (st_Journal st1)" by (simp add: insert_journal_def split: if_splits)
    then have "seq_room st1"
      using assms(1) nextEventSeq_room [OF assms(1) n] nextEventSeq_journal [OF n] by (auto simp: seq_room_def list_all_iff)
    then have h: "seq_room (healEventSeqCounter st1)" by (rule heal_room(1))
    obtain seq' st3 where "nextEventSeq (healEventSeqCounter st1) = (seq', st3)" by fastforce
    with None fits [OF h] assms(2) show ?thesis by (auto simp: insertEventRow_def n split: option.splits)
  qed
  then show "list_all (\<lambda>j. 0 \<le> j_Seq j \<and> j_Seq j \<le> max_int64) (st_Journal st')" "\<exists>n \<le> max_int64. st_Seq st' = Some n"
    by blast+
qed

text \<open>
  C18: recording a mutation in the journal never wedges the write: as long as the counter and the
  numbers in the journal are below the largest 64-bit integer, whatever else the counter says (missing, or
  behind the journal), one row with an unused number that fits the column is appended and no other
  table changes. When the counter is not behind the journal, the number is larger than all before it
  and the counter keeps that state, so that the numbers of successive rows increase.
\<close>

theorem insertEventRow_total:
  assumes "seq_room st"
  shows "\<exists>st' seq. insertEventRow st op i issue dep comment = Inr st' \<and> journal_only st st' \<and>
     st_Journal st' = st_Journal st @ [\<lparr>j_Seq = seq, j_Op = op, j_IssueID = i, j_Issue = issue, j_Dep = dep, j_Comment = comment\<rparr>] \<and>
     seq \<le> max_int64 \<and> (\<exists>n \<le> max_int64. st_Seq st' = Some n) \<and>
     (distinct (map j_Seq (st_Journal st)) \<longrightarrow> distinct (map j_Seq (st_Journal st'))) \<and>
     (seq_ahead st \<and> sorted_wrt (<) (map j_Seq (st_Journal st)) \<longrightarrow>
      seq_ahead st' \<and> sorted_wrt (<) (map j_Seq (st_Journal st')))"
proof -
  obtain st' seq where s: "insertEventRow st op i issue dep comment = Inr st'" "journal_only st st'"
    "st_Journal st' = st_Journal st @ [\<lparr>j_Seq = seq, j_Op = op, j_IssueID = i, j_Issue = issue, j_Dep = dep, j_Comment = comment\<rparr>]"
    "seq \<notin> j_Seq ` set (st_Journal st)"
    "seq_ahead st \<longrightarrow> list_all (\<lambda>j. j_Seq j < seq) (st_Journal st) \<and> st_Seq st' = Some seq"
    by (rule insertEventRow_spec [of st op i issue dep comment])
  have "seq_ahead st \<longrightarrow> seq_ahead st' \<and> list_all (\<lambda>j. j_Seq j < seq) (st_Journal st)"
    using s(3, 5) by (auto simp: seq_ahead_def list_all_iff)
  moreover have "seq \<le> max_int64" using insertEventRow_room(1) [OF assms s(1)] s(3) by simp
  ultimately show ?thesis
    using s insertEventRow_room(2) [OF assms s(1)]
    by (intro exI [of _ st'] exI [of _ seq]) (auto simp: sorted_wrt_append list_all_iff)
qed

text \<open>An empty store, with one row in the journal and a counter that fell behind it.\<close>

definition empty_store :: store where
  "empty_store = \<lparr>st_Rows = \<lambda>_ _. None, st_Deps = \<lambda>_. [], st_Events = \<lambda>_. [], st_Leases = \<lambda>_. None,
     st_Config = \<lambda>_. None, st_CustomStatuses = [], st_JournalOn = False, st_Journal = [], st_Seq = Some 0\<rparr>"

definition stale_journal :: store where
  "stale_journal = empty_store\<lparr>st_JournalOn := True,
     st_Journal := [\<lparr>j_Seq = 1, j_Op = EventDelete, j_IssueID = ''bd-1'', j_Issue = None, j_Dep = None, j_Comment = None\<rparr>]\<rparr>"

theorem insertEventRow_total_witness:
  "\<exists>st' seq. insertEventRow stale_journal EventDelete ''bd-2'' None None None = Inr st' \<and>
     st_Journal st' = st_Journal stale_journal @
       [\<lparr>j_Seq = seq, j_Op = EventDelete, j_IssueID = ''bd-2'', j_Issue = None, j_Dep = None, j_Comment = None\<rparr>] \<and>
     distinct (map j_Seq (st_Journal st'))"
proof -
  have "seq_room stale_journal" by (simp add: stale_journal_def empty_store_def seq_room_def max_int64_def)
  moreover have "distinct (map j_Seq (st_Journal stale_journal))" by (simp add: stale_journal_def)
  ultimately show ?thesis
    using insertEventRow_total [of stale_journal EventDelete "''bd-2''" None None None] by blast
qed

lemma RecordEventInTx_Inr:
  assumes "row st (Durable, i) \<noteq> None \<or> row st (Ephemeral, i) \<noteq> None"
  obtains st' where "RecordEventInTx st op i = Inr st'" "journal_only st st'"
proof (cases "st_JournalOn st")
  case True
  from assms obtain r where r: "getJournalIssueInTx st i = Some r"
    by (cases "row st (Durable, i)") (auto simp: getJournalIssueInTx_def)
  obtain st' where "insertEventRow st op i (Some r) None None = Inr st'" "journal_only st st'"
    by (rule insertEventRow_spec [of st op i "Some r" None None])
  then show thesis using True r by (intro that) (simp_all add: RecordEventInTx_def)
next
  case False
  then show thesis by (intro that [of st]) (simp_all add: RecordEventInTx_def)
qed

lemma insertEventRow_only: "insertEventRow st op i issue dep comment = Inr st' \<Longrightarrow> journal_only st st'"
  by (rule insertEventRow_spec [of st op i issue dep comment]) simp

lemma RecordEventInTx_only: "RecordEventInTx st op i = Inr st' \<Longrightarrow> journal_only st st'"
  by (auto simp: RecordEventInTx_def split: if_splits option.splits intro: insertEventRow_only)

lemma RecordDepEventInTx_Inr:
  obtains st' where "RecordDepEventInTx st op i kind target metadata = Inr st'" "journal_only st st'"
  by (cases "st_JournalOn st")
    (auto simp: RecordDepEventInTx_def
      intro: insertEventRow_spec [of st op i "getJournalIssueInTx st i"
        "Some \<lparr>ed_Kind = kind, ed_Target = target, ed_Metadata = metadata\<rparr>" None])

lemma RecordCommentEventInTx_Inr:
  assumes "row st (Durable, i) \<noteq> None \<or> row st (Ephemeral, i) \<noteq> None"
  obtains st' where "RecordCommentEventInTx st i comment = Inr st'" "journal_only st st'"
proof (cases "st_JournalOn st")
  case True
  from assms obtain r where r: "getJournalIssueInTx st i = Some r"
    by (cases "row st (Durable, i)") (auto simp: getJournalIssueInTx_def)
  obtain st' where "insertEventRow st EventCommentWrite i (Some r) None (Some comment) = Inr st'" "journal_only st st'"
    by (rule insertEventRow_spec [of st EventCommentWrite i "Some r" None "Some comment"])
  then show thesis using True r by (intro that) (simp_all add: RecordCommentEventInTx_def)
next
  case False
  then show thesis by (intro that [of st]) (simp_all add: RecordCommentEventInTx_def)
qed


end
