(* ===== verification/Blocking_Graph.thy ===== *)
theory Blocking_Graph
  imports Main
begin

text \<open>
  Maintaining a derived flag over a graph. Every node has a parent set, a reason of its own to be
  flagged (\<open>base\<close>) and may be exempt (not \<open>act\<close>); it is to be flagged when it is not exempt and has a
  reason or a flagged parent. The database is updated in rounds: a round marks the nodes of a batch
  that lack the flag and should have it, then unmarks those that have it and should not.

  The locale \<open>blocking\<close> assumes that the parent relation is well-founded. It shows that rounds over a
  fixed list of batches reach a state they do not change, and that this state agrees with the
  definition on all nodes of the batches. The facts that need no well-foundedness are outside.
\<close>

section \<open>Flags\<close>

definition should :: "('n \<Rightarrow> bool) \<Rightarrow> ('n \<Rightarrow> bool) \<Rightarrow> ('n \<Rightarrow> 'n set) \<Rightarrow> ('n \<Rightarrow> bool) \<Rightarrow> 'n \<Rightarrow> bool" where
  "should act base par b n \<longleftrightarrow> act n \<and> (base n \<or> (\<exists>p\<in>par n. b p))"

definition flags_ok :: "('n \<Rightarrow> bool) \<Rightarrow> ('n \<Rightarrow> bool) \<Rightarrow> ('n \<Rightarrow> 'n set) \<Rightarrow> ('n \<Rightarrow> bool) \<Rightarrow> bool" where
  "flags_ok act base par b \<longleftrightarrow> (\<forall>n. b n \<longleftrightarrow> should act base par b n)"

definition mark :: "('n \<Rightarrow> bool) \<Rightarrow> ('n \<Rightarrow> bool) \<Rightarrow> ('n \<Rightarrow> 'n set) \<Rightarrow> 'n set \<Rightarrow> ('n \<Rightarrow> bool) \<Rightarrow> 'n \<Rightarrow> bool" where
  "mark act base par C b n \<longleftrightarrow> b n \<or> n \<in> C \<and> should act base par b n"

definition unmark :: "('n \<Rightarrow> bool) \<Rightarrow> ('n \<Rightarrow> bool) \<Rightarrow> ('n \<Rightarrow> 'n set) \<Rightarrow> 'n set \<Rightarrow> ('n \<Rightarrow> bool) \<Rightarrow> 'n \<Rightarrow> bool" where
  "unmark act base par C b n \<longleftrightarrow> b n \<and> (n \<in> C \<longrightarrow> should act base par b n)"

definition round where
  "round act base par C b = unmark act base par C (mark act base par C b)"

definition pass where
  "pass act base par Cs b = fold (round act base par) Cs b"

definition mark_pass where
  "mark_pass act base par Cs b = fold (mark act base par) Cs b"

lemmas flag_defs = should_def mark_def unmark_def round_def

lemma should_mono: "(\<And>p. b p \<Longrightarrow> b' p) \<Longrightarrow> should act base par b n \<Longrightarrow> should act base par b' n"
  by (auto simp: should_def)

lemma round_outside: "n \<notin> C \<Longrightarrow> round act base par C b n = b n"
  by (simp add: flag_defs)

lemma pass_outside: "n \<notin> \<Union>(set Cs) \<Longrightarrow> pass act base par Cs b n = b n"
  unfolding pass_def by (induction Cs arbitrary: b) (auto simp: round_outside)

text \<open>A round that changes nothing leaves every node of its batch with the right flag.\<close>

lemma round_fixed:
  assumes "mark act base par C b = b" "unmark act base par C b = b" "n \<in> C"
  shows "b n \<longleftrightarrow> should act base par b n"
  using fun_cong [OF assms(1), of n] fun_cong [OF assms(2), of n] assms(3)
  by (auto simp: mark_def unmark_def)

text \<open>
  A change of the graph is repaired by updating a set that contains every node whose own situation
  changed and is closed under children: outside, nothing a node depends on has moved.
\<close>

lemma flags_ok_repair:
  assumes ok: "flags_ok act' base' par' b0"
    and same: "\<And>n. n \<notin> S \<Longrightarrow> act n = act' n \<and> base n = base' n \<and> par n = par' n"
    and closed: "\<And>n p. p \<in> par n \<Longrightarrow> p \<in> S \<Longrightarrow> n \<in> S"
    and outside: "\<And>n. n \<notin> S \<Longrightarrow> b n = b0 n"
    and inside: "\<And>n. n \<in> S \<Longrightarrow> b n \<longleftrightarrow> should act base par b n"
  shows "flags_ok act base par b"
  unfolding flags_ok_def
proof
  fix n
  show "b n \<longleftrightarrow> should act base par b n"
  proof (cases "n \<in> S")
    case True
    then show ?thesis by (rule inside)
  next
    case False
    then have "p \<notin> S" if "p \<in> par n" for p using closed that by blast
    then have "should act base par b n = should act' base' par' b0 n"
      using same [OF False] outside by (auto simp: should_def)
    then show ?thesis using ok outside [OF False] by (simp add: flags_ok_def)
  qed
qed

section \<open>Marking only\<close>

lemma mark_pass_increasing: "b n \<Longrightarrow> mark_pass act base par Cs b n"
  unfolding mark_pass_def by (induction Cs arbitrary: b) (auto simp: mark_def)

lemma mark_pass_outside: "n \<notin> \<Union>(set Cs) \<Longrightarrow> mark_pass act base par Cs b n = b n"
  unfolding mark_pass_def by (induction Cs arbitrary: b) (auto simp: mark_def)

text \<open>Marks never go too far: a flagged node stays one that should be flagged.\<close>

definition supported where
  "supported act base par b \<longleftrightarrow> (\<forall>n. b n \<longrightarrow> should act base par b n)"

lemma mark_supported:
  assumes "supported act base par b"
  shows "supported act base par (mark act base par C b)"
  unfolding supported_def
proof (intro allI impI)
  fix n
  assume "mark act base par C b n"
  then have "should act base par b n" using assms by (auto simp: mark_def supported_def)
  then show "should act base par (mark act base par C b) n"
    by (rule should_mono [rotated]) (simp add: mark_def)
qed

lemma mark_pass_supported:
  "supported act base par b \<Longrightarrow> supported act base par (mark_pass act base par Cs b)"
  unfolding mark_pass_def by (induction Cs arbitrary: b) (auto intro: mark_supported)

lemma mark_pass_fixed:
  assumes "mark_pass act base par Cs b = b" "C \<in> set Cs" "n \<in> C" "should act base par b n"
  shows "b n"
proof -
  obtain Xs Ys where Cs: "Cs = Xs @ C # Ys" using assms(2) by (auto dest: split_list)
  define c where "c = mark_pass act base par Xs b"
  have "should act base par c n"
    using assms(4) by (rule should_mono [rotated]) (simp add: c_def mark_pass_increasing)
  then have "mark act base par C c n" using assms(3) by (simp add: mark_def)
  then have "mark_pass act base par Cs b n"
    using mark_pass_increasing [of "mark act base par C c" n] by (simp add: Cs c_def mark_pass_def)
  then show ?thesis using assms(1) by simp
qed

section \<open>Well-founded parents\<close>

locale blocking =
  fixes act base :: "'n \<Rightarrow> bool" and par :: "'n \<Rightarrow> 'n set"
  assumes wf_par: "wf {(p, n). p \<in> par n}"
begin

text \<open>The flags that the nodes of \<open>S\<close> settle to when the others stay as they are in \<open>b0\<close>.\<close>

definition settle :: "'n set \<Rightarrow> ('n \<Rightarrow> bool) \<Rightarrow> 'n \<Rightarrow> bool" where
  "settle S b0 = wfrec {(p, n). p \<in> par n}
     (\<lambda>f n. if n \<in> S then act n \<and> (base n \<or> (\<exists>p\<in>par n. f p)) else b0 n)"

lemma settle_eq: "settle S b0 n \<longleftrightarrow> (if n \<in> S then should act base par (settle S b0) n else b0 n)"
proof -
  have "settle S b0 n = (if n \<in> S then act n \<and> (base n \<or> (\<exists>p\<in>par n. cut (settle S b0) {(p, n). p \<in> par n} n p)) else b0 n)"
    unfolding settle_def by (subst wfrec [OF wf_par]) (rule refl)
  moreover have "cut (settle S b0) {(p, n). p \<in> par n} n p = settle S b0 p" if "p \<in> par n" for p
    using that by (simp add: cut_apply)
  ultimately show ?thesis by (simp add: should_def)
qed

text \<open>
  \<open>agree S k b\<close>: nodes of \<open>S\<close> with fewer than \<open>k\<close> generations of ancestors in \<open>S\<close> have settled.
\<close>

fun early :: "'n set \<Rightarrow> nat \<Rightarrow> 'n set" where
  "early S 0 = {}"
| "early S (Suc k) = {n \<in> S. par n \<inter> S \<subseteq> early S k}"

definition agree :: "'n set \<Rightarrow> ('n \<Rightarrow> bool) \<Rightarrow> nat \<Rightarrow> ('n \<Rightarrow> bool) \<Rightarrow> bool" where
  "agree S b0 k b \<longleftrightarrow> (\<forall>n. n \<notin> S \<or> n \<in> early S k \<longrightarrow> b n = settle S b0 n)"

lemma early_mono: "early S k \<subseteq> early S (Suc k)"
  by (induction k) auto

lemma early_mono': "j \<le> k \<Longrightarrow> early S j \<subseteq> early S k"
  by (rule lift_Suc_mono_le [of "early S"]) (rule early_mono)

lemma should_settled:
  assumes "agree S b0 k b" "n \<in> early S (Suc k)"
  shows "should act base par b n \<longleftrightarrow> settle S b0 n"
proof -
  have "b p = settle S b0 p" if "p \<in> par n" for p
    using assms that unfolding agree_def by auto
  then show ?thesis using assms(2) settle_eq [of S b0 n] by (auto simp: should_def)
qed

lemma agree_step:
  assumes "agree S b0 k b" and "C \<subseteq> S"
  shows "agree S b0 k (mark act base par C b)" and "agree S b0 k (unmark act base par C b)"
proof -
  have "should act base par b n = b n" if "n \<in> early S k" for n
    using assms(1) that should_settled [OF assms(1), of n] early_mono [of S k] by (auto simp: agree_def)
  then show "agree S b0 k (mark act base par C b)" "agree S b0 k (unmark act base par C b)"
    using assms unfolding agree_def mark_def unmark_def by blast+
qed

lemma agree_round: "agree S b0 k b \<Longrightarrow> C \<subseteq> S \<Longrightarrow> agree S b0 k (round act base par C b)"
  unfolding round_def by (simp add: agree_step)

lemma agree_pass: "agree S b0 k b \<Longrightarrow> \<Union>(set Cs) \<subseteq> S \<Longrightarrow> agree S b0 k (pass act base par Cs b)"
  unfolding pass_def by (induction Cs arbitrary: b) (auto simp: agree_round)

lemma round_settles:
  assumes "agree S b0 k b" "C \<subseteq> S" "n \<in> C" "n \<in> early S (Suc k)"
  shows "round act base par C b n = settle S b0 n"
proof -
  have m: "agree S b0 k (mark act base par C b)" using assms(1, 2) by (rule agree_step)
  show ?thesis
    using should_settled [OF assms(1, 4)] should_settled [OF m assms(4)] assms(3)
    by (auto simp: round_def mark_def unmark_def)
qed

lemma round_keeps:
  assumes "agree S b0 k b" "C \<subseteq> S" "n \<in> early S (Suc k)" "b n = settle S b0 n"
  shows "round act base par C b n = settle S b0 n"
proof (cases "n \<in> C")
  case True
  then show ?thesis by (rule round_settles [OF assms(1, 2) _ assms(3)])
next
  case False
  then show ?thesis using assms(4) by (simp add: round_outside)
qed

lemma pass_settles:
  assumes "agree S b0 k b" "\<Union>(set Cs) \<subseteq> S" "n \<in> early S (Suc k)"
    and "n \<in> \<Union>(set Cs) \<or> b n = settle S b0 n"
  shows "pass act base par Cs b n = settle S b0 n"
  using assms
proof (induction Cs arbitrary: b)
  case Nil
  then show ?case by (simp add: pass_def)
next
  case (Cons C Cs)
  have "agree S b0 k (round act base par C b)" using Cons.prems by (simp add: agree_round)
  moreover have "n \<in> \<Union>(set Cs) \<or> round act base par C b n = settle S b0 n"
    using Cons.prems round_settles [of S b0 k b C n] round_keeps [of S b0 k b C n] by auto
  ultimately show ?case using Cons by (simp add: pass_def)
qed

lemma pass_agree_Suc:
  assumes "agree S b0 k b" "\<Union>(set Cs) = S"
  shows "agree S b0 (Suc k) (pass act base par Cs b)"
  unfolding agree_def
proof (intro allI impI)
  fix n
  assume "n \<notin> S \<or> n \<in> early S (Suc k)"
  then show "pass act base par Cs b n = settle S b0 n"
    using assms pass_settles [OF assms(1), of Cs n] agree_pass [OF assms(1), of Cs]
    by (auto simp: agree_def)
qed

text \<open>A finite set has no infinite descent, so all its nodes come early.\<close>

lemma early_grows:
  assumes "finite S" "\<not> S \<subseteq> early S k"
  shows "early S k \<subset> early S (Suc k)"
proof -
  obtain x where "x \<in> S - early S k" using assms(2) by blast
  from wfE_min [OF wf_par this] obtain m
    where m: "m \<in> S - early S k" "\<And>p. p \<in> par m \<Longrightarrow> p \<notin> S - early S k"
    by (metis case_prodI mem_Collect_eq)
  then have "m \<in> early S (Suc k)" by auto
  then show ?thesis using m(1) early_mono [of S k] by blast
qed

lemma early_all: "finite S \<Longrightarrow> S \<subseteq> early S (card S)"
proof (rule ccontr)
  assume fin: "finite S" and "\<not> S \<subseteq> early S (card S)"
  then have no: "\<not> S \<subseteq> early S k" if "k \<le> card S" for k
    using that early_mono' by blast
  have sub: "early S k \<subseteq> S" for k by (cases k) auto
  have "k \<le> card (early S k)" if "k \<le> Suc (card S)" for k
    using that
  proof (induction k)
    case (Suc k)
    then have "card (early S k) < card (early S (Suc k))"
      using early_grows [OF fin no, of k] fin sub [of "Suc k"]
      by (intro psubset_card_mono) (auto intro: finite_subset)
    then show ?case using Suc by simp
  qed simp
  from this [of "Suc (card S)"] have "Suc (card S) \<le> card (early S (Suc (card S)))" by blast
  then show False using card_mono [OF fin sub [of "Suc (card S)"]] by simp
qed

text \<open>After as many passes as there are nodes, the flags are those of \<open>settle\<close>, and stay.\<close>

theorem passes_settle:
  assumes "finite S" "\<Union>(set Cs) = S" "card S \<le> k"
  shows "(pass act base par Cs ^^ k) b0 = settle S b0"
proof -
  have "agree S b0 0 b0" by (auto simp: agree_def settle_eq)
  then have ag: "agree S b0 j ((pass act base par Cs ^^ j) b0)" for j
    by (induction j) (simp_all add: pass_agree_Suc [OF _ assms(2)])
  have "S \<subseteq> early S k" using early_all [OF assms(1)] early_mono' [OF assms(3)] by blast
  then show ?thesis using ag [of k] by (auto simp: agree_def)
qed

lemma settle_fixed:
  assumes "finite S" "C \<subseteq> S"
  shows "mark act base par C (settle S b0) = settle S b0 \<and> unmark act base par C (settle S b0) = settle S b0"
proof -
  have "agree S b0 (card S) (settle S b0)" by (simp add: agree_def)
  note ag = agree_step [OF this assms(2)]
  show ?thesis using ag early_all [OF assms(1)] by (auto simp: agree_def)
qed

text \<open>
  Iterating until nothing changes ends, and repairs a change of the graph: with \<open>S\<close> as in
  \<open>flags_ok_repair\<close> the result is right everywhere.
\<close>

theorem settle_repairs:
  assumes "flags_ok act' base' par' b0"
    and "\<And>n. n \<notin> S \<Longrightarrow> act n = act' n \<and> base n = base' n \<and> par n = par' n"
    and "\<And>n p. p \<in> par n \<Longrightarrow> p \<in> S \<Longrightarrow> n \<in> S"
  shows "flags_ok act base par (settle S b0)"
  using assms by (rule flags_ok_repair) (simp_all add: settle_eq [of S b0])

text \<open>Nodes that dropped out: they are not active and carry no flag any more.\<close>

lemma settle_dropped:
  assumes "\<And>n. n \<in> D \<Longrightarrow> \<not> act n \<and> \<not> b0 n" "\<And>n. n \<notin> D \<Longrightarrow> b0 n = b0' n"
  shows "settle S b0 n = settle (S \<union> D) b0' n"
  using wf_par
proof (induction n rule: wf_induct_rule)
  case (less n)
  then have "should act base par (settle S b0) n = should act base par (settle (S \<union> D) b0') n" by (auto simp: should_def)
  moreover have "n \<in> D \<Longrightarrow> \<not> should act base par f n" for f using assms(1) by (simp add: should_def)
  ultimately show ?case
    using assms by (cases "n \<in> D") (auto simp: settle_eq [of S b0 n] settle_eq [of "S \<union> D" b0' n])
qed

text \<open>Only one assignment of flags is right.\<close>

lemma flags_unique:
  assumes "flags_ok act base par b" "flags_ok act base par b'"
  shows "b n = b' n"
  using wf_par
proof (induction n rule: wf_induct_rule)
  case (less n)
  then have "should act base par b n = should act base par b' n" by (auto simp: should_def)
  then show ?case using assms by (simp add: flags_ok_def)
qed

end

end
