(* ===== verification/Blocked_State.thy ===== *)
theory Blocked_State
  imports Store_State Blocking_Graph
begin

text \<open>
  The derived column \<open>is_blocked\<close> and its maintenance (\<open>blocked_state.go\<close>): the conditions of the UPDATE
  statements, the loop that applies them until no row changes, and the sets of rows that a change of a
  status or of an edge can affect. The conditions are over both planes; the statements for issues and
  for wisps differ in the table only. JSON functions of the database are the argument \<open>jt\<close>: the text
  of a top-level key of a JSON value.

  The column is right (\<open>blocked_ok\<close>) when every row has the flag exactly if its condition holds. The
  main lemmas: the loop ends when parent-child edges have no cycle, and after a change of the status
  of one row it makes the column right again on all rows, though it only visits the affected ones.
\<close>

section \<open>Conditions\<close>

type_synonym json_text = "string \<Rightarrow> string \<Rightarrow> string option"

definition live :: "status \<Rightarrow> bool" where
  "live s \<longleftrightarrow> s \<noteq> StatusClosed \<and> s \<noteq> StatusPinned"

definition live_row :: "store \<Rightarrow> node \<Rightarrow> bool" where
  "live_row st n \<longleftrightarrow> (case row st n of None \<Rightarrow> False | Some r \<Rightarrow> live (i_Status r))"

definition closed_row :: "store \<Rightarrow> node \<Rightarrow> bool" where
  "closed_row st n \<longleftrightarrow> (case row st n of None \<Rightarrow> False | Some r \<Rightarrow> i_Status r = StatusClosed)"

definition flagged :: "store \<Rightarrow> node \<Rightarrow> bool" where
  "flagged st n \<longleftrightarrow> (case row st n of None \<Rightarrow> False | Some r \<Rightarrow> i_IsBlocked r)"

text \<open>The typed target columns of an edge.\<close>

definition dep_col :: "plane \<Rightarrow> DepRow \<Rightarrow> string option" where
  "dep_col pl d = (case pl of Durable \<Rightarrow> dr_OnIssue d | Ephemeral \<Rightarrow> dr_OnWisp d)"

definition on_target :: "(node \<Rightarrow> bool) \<Rightarrow> DepRow \<Rightarrow> bool" where
  "on_target P d \<longleftrightarrow>
     (case dr_OnIssue d of None \<Rightarrow> False | Some t \<Rightarrow> P (Durable, t)) \<or>
     (case dr_OnWisp d of None \<Rightarrow> False | Some t \<Rightarrow> P (Ephemeral, t))"

definition same_target :: "DepRow \<Rightarrow> DepRow \<Rightarrow> bool" where
  "same_target d cd \<longleftrightarrow>
     dr_OnIssue d \<noteq> None \<and> dr_OnIssue cd = dr_OnIssue d \<or> dr_OnWisp d \<noteq> None \<and> dr_OnWisp cd = dr_OnWisp d"

text \<open>Some child of the spawner of \<open>d\<close>, in one of the two planes.\<close>

definition some_child :: "store \<Rightarrow> DepRow \<Rightarrow> (node \<Rightarrow> bool) \<Rightarrow> bool" where
  "some_child st d P \<longleftrightarrow>
     list_ex (\<lambda>pl. list_ex (\<lambda>cd. dr_Type cd = DepParentChild \<and> same_target d cd \<and> P (pl, dr_IssueID cd)) (st_Deps st pl))
       [Durable, Ephemeral]"

definition coalesce :: "string option \<Rightarrow> string \<Rightarrow> string" where
  "coalesce v d = (case v of None \<Rightarrow> d | Some s \<Rightarrow> s)"

definition waitsForGateBlockedSQL :: "json_text \<Rightarrow> store \<Rightarrow> DepRow \<Rightarrow> bool" where
  "waitsForGateBlockedSQL jt st d \<longleftrightarrow>
     (some_child st d (live_row st) \<and>
      \<not> (coalesce (jt (dr_Metadata d) ''gate'') ''all-children'' = ''any-children'' \<and>
         some_child st d (closed_row st))) \<or>
     (coalesce (jt (dr_Metadata d) ''also_blocks'') ''false'' = ''true'' \<and> on_target (live_row st) d)"

definition direct_type :: "dep_type \<Rightarrow> bool" where
  "direct_type t \<longleftrightarrow> t = DepBlocks \<or> t = DepConditionalBlocks"

definition blocking_edge :: "json_text \<Rightarrow> store \<Rightarrow> DepRow \<Rightarrow> bool" where
  "blocking_edge jt st d \<longleftrightarrow>
     direct_type (dr_Type d) \<and> on_target (live_row st) d \<or>
     dr_Type d = DepParentChild \<and> on_target (flagged st) d \<or>
     dr_Type d = DepWaitsFor \<and> waitsForGateBlockedSQL jt st d"

definition edges_from :: "store \<Rightarrow> node \<Rightarrow> DepRow list" where
  "edges_from st n = filter (\<lambda>d. dr_IssueID d = snd n) (st_Deps st (fst n))"

definition wants_block :: "json_text \<Rightarrow> store \<Rightarrow> node \<Rightarrow> bool" where
  "wants_block jt st n \<longleftrightarrow> live_row st n \<and> list_ex (blocking_edge jt st) (edges_from st n)"

section \<open>The statements\<close>

definition set_flags :: "plane \<Rightarrow> string list \<Rightarrow> (node \<Rightarrow> bool) \<Rightarrow> bool \<Rightarrow> store \<Rightarrow> store" where
  "set_flags pl ids P v st =
     st\<lparr>st_Rows := (\<lambda>pl' i. if pl' = pl \<and> i \<in> set ids \<and> P (pl, i)
        then map_option (\<lambda>r. r\<lparr>i_IsBlocked := v\<rparr>) (st_Rows st pl' i) else st_Rows st pl' i)\<rparr>"

text \<open>Mark and unmark, with the number of rows changed.\<close>

definition markBlockedTemplate :: "json_text \<Rightarrow> plane \<Rightarrow> string list \<Rightarrow> store \<Rightarrow> nat \<times> store" where
  "markBlockedTemplate jt pl ids st =
     (let P = (\<lambda>n. \<not> flagged st n \<and> wants_block jt st n)
      in (length (filter (\<lambda>i. P (pl, i)) (remdups ids)), set_flags pl ids P True st))"

definition unmarkBlockedTemplate :: "json_text \<Rightarrow> plane \<Rightarrow> string list \<Rightarrow> store \<Rightarrow> nat \<times> store" where
  "unmarkBlockedTemplate jt pl ids st =
     (let P = (\<lambda>n. flagged st n \<and> \<not> wants_block jt st n)
      in (length (filter (\<lambda>i. P (pl, i)) (remdups ids)), set_flags pl ids P False st))"

definition queryBatchSize :: nat where
  "queryBatchSize = 200"

function batches :: "'a list \<Rightarrow> 'a list list" where
  "batches xs = (if xs = [] then [] else take queryBatchSize xs # batches (drop queryBatchSize xs))"
  by pat_completeness auto
termination
  by (relation "measure length") (auto simp: queryBatchSize_def)

declare batches.simps [simp del]

fun mark_unmark_all :: "json_text \<Rightarrow> plane \<Rightarrow> string list list \<Rightarrow> store \<Rightarrow> nat \<times> store" where
  "mark_unmark_all jt pl [] st = (0, st)"
| "mark_unmark_all jt pl (ids # bs) st =
     (case markBlockedTemplate jt pl ids st of (n, st1) \<Rightarrow>
      case unmarkBlockedTemplate jt pl ids st1 of (m, st2) \<Rightarrow>
      case mark_unmark_all jt pl bs st2 of (k, st3) \<Rightarrow> (n + m + k, st3))"

definition runMarkUnmarkBatchedInTx :: "json_text \<Rightarrow> plane \<Rightarrow> string list \<Rightarrow> store \<Rightarrow> nat \<times> store" where
  "runMarkUnmarkBatchedInTx jt pl ids st = mark_unmark_all jt pl (batches ids) st"

fun mark_all :: "json_text \<Rightarrow> plane \<Rightarrow> string list list \<Rightarrow> store \<Rightarrow> nat \<times> store" where
  "mark_all jt pl [] st = (0, st)"
| "mark_all jt pl (ids # bs) st =
     (case markBlockedTemplate jt pl ids st of (n, st1) \<Rightarrow>
      case mark_all jt pl bs st1 of (k, st2) \<Rightarrow> (n + k, st2))"

definition runMarkBatchedInTx :: "json_text \<Rightarrow> plane \<Rightarrow> string list \<Rightarrow> store \<Rightarrow> nat \<times> store" where
  "runMarkBatchedInTx jt pl ids st = mark_all jt pl (batches ids) st"

section \<open>The loops\<close>

record RecomputeIsBlockedResult =
  rb_IssueRowsChanged :: bool
  rb_WispRowsChanged :: bool

partial_function (option) recompute_loop ::
    "json_text \<Rightarrow> string list \<Rightarrow> string list \<Rightarrow> RecomputeIsBlockedResult \<Rightarrow> store \<Rightarrow>
     (RecomputeIsBlockedResult \<times> store) option" where
  "recompute_loop jt issueIDs wispIDs result st =
     (let (n, st1) = runMarkUnmarkBatchedInTx jt Durable issueIDs st;
          (m, st2) = runMarkUnmarkBatchedInTx jt Ephemeral wispIDs st1;
          result' = \<lparr>rb_IssueRowsChanged = (rb_IssueRowsChanged result \<or> n > 0),
                     rb_WispRowsChanged = (rb_WispRowsChanged result \<or> m > 0)\<rparr>
      in if n + m = 0 then Some (result', st2)
         else recompute_loop jt issueIDs wispIDs result' st2)"

partial_function (option) mark_loop ::
    "json_text \<Rightarrow> string list \<Rightarrow> string list \<Rightarrow> store \<Rightarrow> store option" where
  "mark_loop jt issueIDs wispIDs st =
     (let (n, st1) = runMarkBatchedInTx jt Durable issueIDs st;
          (m, st2) = runMarkBatchedInTx jt Ephemeral wispIDs st1
      in if n + m = 0 then Some st2 else mark_loop jt issueIDs wispIDs st2)"

text \<open>The rows whose flag differs from before, issues first, by ID.\<close>

definition captureBlockedJournalSnapshot :: "store \<Rightarrow> node \<Rightarrow> bool option" where
  "captureBlockedJournalSnapshot st n = map_option i_IsBlocked (row st n)"

definition changed_flags :: "(node \<Rightarrow> bool option) \<Rightarrow> store \<Rightarrow> string list \<Rightarrow> string list \<Rightarrow> string list" where
  "changed_flags before st issueIDs wispIDs =
     (let differs = (\<lambda>n. before n \<noteq> None \<and> captureBlockedJournalSnapshot st n \<noteq> None \<and>
                         before n \<noteq> captureBlockedJournalSnapshot st n)
      in filter (\<lambda>i. differs (Durable, i)) (sort (remdups issueIDs)) @
         filter (\<lambda>i. differs (Ephemeral, i)) (sort (remdups wispIDs)))"

fun record_updates :: "store \<Rightarrow> string list \<Rightarrow> store_error + store" where
  "record_updates st [] = Inr st"
| "record_updates st (i # is) = bindE (RecordEventInTx st EventUpdate i) (\<lambda>st'. record_updates st' is)"

definition recordBlockedJournalChanges ::
    "(node \<Rightarrow> bool option) \<Rightarrow> store \<Rightarrow> string list \<Rightarrow> string list \<Rightarrow> store_error + store" where
  "recordBlockedJournalChanges before st issueIDs wispIDs =
     (if st_JournalOn st then record_updates st (changed_flags before st issueIDs wispIDs) else Inr st)"

text \<open>The outer option is None when the loop does not end.\<close>

definition RecomputeIsBlockedInTxWithResult ::
    "json_text \<Rightarrow> store \<Rightarrow> string list \<Rightarrow> string list \<Rightarrow>
     (store_error + RecomputeIsBlockedResult \<times> store) option" where
  "RecomputeIsBlockedInTxWithResult jt st issueIDs wispIDs =
     (let result = \<lparr>rb_IssueRowsChanged = False, rb_WispRowsChanged = False\<rparr> in
      if issueIDs = [] \<and> wispIDs = [] then Some (Inr (result, st))
      else case recompute_loop jt issueIDs wispIDs result st of
        None \<Rightarrow> None
      | Some (result', st') \<Rightarrow>
          Some (bindE (recordBlockedJournalChanges (captureBlockedJournalSnapshot st) st' issueIDs wispIDs)
            (\<lambda>st''. Inr (result', st''))))"

definition MarkIsBlockedInTx ::
    "json_text \<Rightarrow> store \<Rightarrow> string list \<Rightarrow> string list \<Rightarrow> (store_error + store) option" where
  "MarkIsBlockedInTx jt st issueIDs wispIDs =
     (if issueIDs = [] \<and> wispIDs = [] then Some (Inr st)
      else case mark_loop jt issueIDs wispIDs st of
        None \<Rightarrow> None
      | Some st' \<Rightarrow> Some (recordBlockedJournalChanges (captureBlockedJournalSnapshot st) st' issueIDs wispIDs))"

section \<open>Affected rows\<close>

text \<open>The queues and the sets of seen IDs, by plane.\<close>

record affected =
  af_Queue :: "plane \<Rightarrow> string list"
  af_Seen :: "plane \<Rightarrow> string list"

definition add_seen :: "plane \<Rightarrow> string \<Rightarrow> affected \<Rightarrow> affected" where
  "add_seen pl i a =
     (if i \<in> set (af_Seen a pl) then a
      else a\<lparr>af_Queue := (af_Queue a)(pl := af_Queue a pl @ [i]), af_Seen := (af_Seen a)(pl := i # af_Seen a pl)\<rparr>)"

text \<open>One query: the sources of the edges of a plane that satisfy a condition.\<close>

definition load_edges :: "store \<Rightarrow> (DepRow \<Rightarrow> bool) \<Rightarrow> plane \<Rightarrow> affected \<Rightarrow> affected" where
  "load_edges st P pl a = fold (add_seen pl) (map dr_IssueID (filter P (st_Deps st pl))) a"

definition load_both :: "store \<Rightarrow> (DepRow \<Rightarrow> bool) \<Rightarrow> affected \<Rightarrow> affected" where
  "load_both st P a = load_edges st P Ephemeral (load_edges st P Durable a)"

definition loadBlockingDependersForIDsInTx :: "store \<Rightarrow> plane \<Rightarrow> string list \<Rightarrow> affected \<Rightarrow> affected" where
  "loadBlockingDependersForIDsInTx st col ids a =
     fold (\<lambda>i. load_both st (\<lambda>d. dep_col col d = Some i \<and> direct_type (dr_Type d))) ids a"

definition loadWaitersOnSpawnerIDsByColInTx :: "store \<Rightarrow> plane \<Rightarrow> string list \<Rightarrow> affected \<Rightarrow> affected" where
  "loadWaitersOnSpawnerIDsByColInTx st col ids a =
     fold (\<lambda>i. load_both st (\<lambda>d. dr_Type d = DepWaitsFor \<and> dep_col col d = Some i)) ids a"

definition loadWaitersOnSpawnerIDsInTx :: "store \<Rightarrow> string list \<Rightarrow> affected \<Rightarrow> affected" where
  "loadWaitersOnSpawnerIDsInTx st ids a =
     loadWaitersOnSpawnerIDsByColInTx st Ephemeral ids (loadWaitersOnSpawnerIDsByColInTx st Durable ids a)"

definition parent_ids :: "store \<Rightarrow> node \<Rightarrow> plane \<Rightarrow> string list" where
  "parent_ids st n col =
     List.map_filter (dep_col col) (filter (\<lambda>d. dr_Type d = DepParentChild) (edges_from st n))"

definition loadWaitersWhoseSpawnerIsParentOfInTx :: "store \<Rightarrow> node \<Rightarrow> affected \<Rightarrow> affected" where
  "loadWaitersWhoseSpawnerIsParentOfInTx st n a =
     loadWaitersOnSpawnerIDsByColInTx st Ephemeral (parent_ids st n Ephemeral)
       (loadWaitersOnSpawnerIDsByColInTx st Durable (parent_ids st n Durable) a)"

definition appendChildrenInTx :: "store \<Rightarrow> plane \<Rightarrow> plane \<Rightarrow> string list \<Rightarrow> affected \<Rightarrow> affected" where
  "appendChildrenInTx st depTable parentCol ids a =
     fold (\<lambda>i. load_edges st (\<lambda>d. dr_Type d = DepParentChild \<and> dep_col parentCol d = Some i) depTable) ids a"

text \<open>One turn of the loop for a queue: the batch at its head, and the children of the batch.\<close>

definition expand_queue :: "store \<Rightarrow> plane \<Rightarrow> nat \<times> affected \<Rightarrow> nat \<times> affected" where
  "expand_queue st col s =
     (case s of (head, a) \<Rightarrow>
        if head < length (af_Queue a col)
        then let batch = take queryBatchSize (drop head (af_Queue a col))
             in (head + length batch,
                 appendChildrenInTx st Ephemeral col batch (appendChildrenInTx st Durable col batch a))
        else (head, a))"

partial_function (option) expand_loop :: "store \<Rightarrow> nat \<Rightarrow> nat \<Rightarrow> affected \<Rightarrow> affected option" where
  "expand_loop st issueHead wispHead a =
     (if issueHead < length (af_Queue a Durable) \<or> wispHead < length (af_Queue a Ephemeral)
      then let (issueHead', a1) = expand_queue st Durable (issueHead, a);
               (wispHead', a2) = expand_queue st Ephemeral (wispHead, a1)
           in expand_loop st issueHead' wispHead' a2
      else Some a)"

definition expandByParentChildDescendantsInTx :: "store \<Rightarrow> affected \<Rightarrow> (string list \<times> string list) option" where
  "expandByParentChildDescendantsInTx st a =
     map_option (\<lambda>a'. (af_Queue a' Durable, af_Queue a' Ephemeral)) (expand_loop st 0 0 a)"

definition seed :: "plane \<Rightarrow> string \<Rightarrow> affected" where
  "seed pl i = \<lparr>af_Queue = (\<lambda>p. if p = pl then [i] else []), af_Seen = (\<lambda>p. if p = pl then [i] else [])\<rparr>"

definition AffectedByStatusChangeInTx :: "store \<Rightarrow> node \<Rightarrow> (string list \<times> string list) option" where
  "AffectedByStatusChangeInTx st n =
     expandByParentChildDescendantsInTx st
       (loadWaitersOnSpawnerIDsInTx st [snd n]
         (loadWaitersWhoseSpawnerIsParentOfInTx st n
           (loadBlockingDependersForIDsInTx st (fst n) [snd n] (seed (fst n) (snd n)))))"

definition AffectedByDepChangeInTx ::
    "store \<Rightarrow> node \<Rightarrow> string \<Rightarrow> dep_type \<Rightarrow> (string list \<times> string list) option" where
  "AffectedByDepChangeInTx st source target depType =
     (if depType = DepBlocks \<or> depType = DepConditionalBlocks \<or> depType = DepWaitsFor \<or> depType = DepParentChild
      then let a = seed (fst source) (snd source)
           in expandByParentChildDescendantsInTx st
                (if depType = DepParentChild \<and> target \<noteq> [] then loadWaitersOnSpawnerIDsInTx st [target] a else a)
      else Some ([], []))"

definition AffectedByDeletionInTx :: "store \<Rightarrow> string list \<Rightarrow> string list \<Rightarrow> (string list \<times> string list) option" where
  "AffectedByDeletionInTx st deletedIssues deletedWisps =
     (if deletedIssues = [] \<and> deletedWisps = [] then Some ([], [])
      else
        let a0 = \<lparr>af_Queue = (\<lambda>_. []), af_Seen = (\<lambda>pl. case pl of Durable \<Rightarrow> deletedIssues | Ephemeral \<Rightarrow> deletedWisps)\<rparr>;
            a1 = loadBlockingDependersForIDsInTx st Ephemeral deletedWisps
                   (loadBlockingDependersForIDsInTx st Durable deletedIssues a0);
            a2 = loadWaitersOnSpawnerIDsByColInTx st Ephemeral deletedWisps
                   (loadWaitersOnSpawnerIDsByColInTx st Durable deletedIssues a1);
            a3 = fold (\<lambda>i. loadWaitersWhoseSpawnerIsParentOfInTx st (Durable, i)) deletedIssues a2;
            a4 = fold (\<lambda>i. loadWaitersWhoseSpawnerIsParentOfInTx st (Ephemeral, i)) deletedWisps a3;
            a5 = appendChildrenInTx st Ephemeral Durable deletedIssues
                   (appendChildrenInTx st Durable Durable deletedIssues a4);
            a6 = appendChildrenInTx st Ephemeral Ephemeral deletedWisps
                   (appendChildrenInTx st Durable Ephemeral deletedWisps a5)
        in expandByParentChildDescendantsInTx st a6)"

section \<open>Flags only\<close>

text \<open>The statements leave everything but the flags alone.\<close>

definition unflag :: "Issue \<Rightarrow> Issue" where
  "unflag r = r\<lparr>i_IsBlocked := False\<rparr>"

definition flags_only :: "store \<Rightarrow> store \<Rightarrow> bool" where
  "flags_only st st' \<longleftrightarrow>
     st' = st\<lparr>st_Rows := st_Rows st'\<rparr> \<and> (\<forall>n. map_option unflag (row st' n) = map_option unflag (row st n))"

lemma flags_only_refl [simp]: "flags_only st st"
  by (simp add: flags_only_def)

lemma flags_only_trans: "flags_only a b \<Longrightarrow> flags_only b c \<Longrightarrow> flags_only a c"
  by (cases a; cases b; cases c) (simp add: flags_only_def)

lemma flags_onlyD:
  assumes "flags_only st st'"
  shows "st_Deps st' = st_Deps st" "st_Leases st' = st_Leases st" "st_Config st' = st_Config st"
    "st_CustomStatuses st' = st_CustomStatuses st" "st_Events st' = st_Events st"
    "st_JournalOn st' = st_JournalOn st" "st_Journal st' = st_Journal st" "st_Seq st' = st_Seq st"
  using assms by (cases st; cases st'; simp add: flags_only_def)+

lemma flags_only_row:
  assumes "flags_only st st'"
  shows "(\<exists>r. row st n = Some r \<and> row st' n = Some (r\<lparr>i_IsBlocked := flagged st' n\<rparr>)) \<or>
    row st n = None \<and> row st' n = None"
proof -
  have "map_option unflag (row st' n) = map_option unflag (row st n)"
    using assms unfolding flags_only_def by blast
  moreover have "s = r\<lparr>i_IsBlocked := i_IsBlocked s\<rparr>" if "unflag s = unflag r" for r s
    using that by (cases r; cases s) (simp add: unflag_def)
  ultimately show ?thesis
    by (cases "row st n"; cases "row st' n") (auto simp: flagged_def)
qed

lemma flags_only_status:
  assumes "flags_only st st'"
  shows "live_row st' = live_row st" "closed_row st' = closed_row st" "edges_from st' = edges_from st"
proof -
  have "live_row st' n = live_row st n" "closed_row st' n = closed_row st n" for n
    using flags_only_row [OF assms, of n] by (auto simp: live_row_def closed_row_def)
  then show "live_row st' = live_row st" "closed_row st' = closed_row st" by blast+
  show "edges_from st' = edges_from st"
    unfolding edges_from_def [abs_def] flags_onlyD(1) [OF assms] by (rule refl)
qed

text \<open>The graph behind the column.\<close>

definition own_reason :: "json_text \<Rightarrow> store \<Rightarrow> node \<Rightarrow> bool" where
  "own_reason jt st n \<longleftrightarrow>
     list_ex (\<lambda>d. direct_type (dr_Type d) \<and> on_target (live_row st) d \<or>
                  dr_Type d = DepWaitsFor \<and> waitsForGateBlockedSQL jt st d) (edges_from st n)"

definition parents :: "store \<Rightarrow> node \<Rightarrow> node set" where
  "parents st n = {t. \<exists>d\<in>set (edges_from st n). dr_Type d = DepParentChild \<and> dep_col (fst t) d = Some (snd t)}"

definition blocked_ok :: "json_text \<Rightarrow> store \<Rightarrow> bool" where
  "blocked_ok jt st \<longleftrightarrow> (\<forall>n. flagged st n \<longleftrightarrow> wants_block jt st n)"

lemma on_target_iff: "on_target P d \<longleftrightarrow> (\<exists>pl t. dep_col pl d = Some t \<and> P (pl, t))"
proof -
  have "(\<exists>pl. Q pl) \<longleftrightarrow> Q Durable \<or> Q Ephemeral" for Q :: "plane \<Rightarrow> bool"
    by (metis plane.exhaust)
  then show ?thesis by (auto simp: on_target_def dep_col_def split: option.splits)
qed

lemma wants_block_should:
  "wants_block jt st n = should (live_row st) (own_reason jt st) (parents st) (flagged st) n"
  unfolding wants_block_def should_def own_reason_def parents_def blocking_edge_def list_ex_iff
  by (auto simp: on_target_iff) (metis fst_conv snd_conv)+

lemma blocked_ok_flags: "blocked_ok jt st = flags_ok (live_row st) (own_reason jt st) (parents st) (flagged st)"
  by (simp add: blocked_ok_def flags_ok_def wants_block_should)

lemma flags_only_graph:
  assumes "flags_only st st'"
  shows "own_reason jt st' = own_reason jt st" "parents st' = parents st"
  unfolding own_reason_def [abs_def] parents_def [abs_def] waitsForGateBlockedSQL_def some_child_def
    flags_only_status [OF assms] flags_onlyD(1) [OF assms]
  by (rule refl)+

section \<open>Statements as rounds\<close>

lemma row_set_flags:
  "row (set_flags pl ids P v st) n =
     (if fst n = pl \<and> snd n \<in> set ids \<and> P n then map_option (\<lambda>r. r\<lparr>i_IsBlocked := v\<rparr>) (row st n) else row st n)"
  by (cases n) (auto simp: row_def set_flags_def)

lemma flags_only_set_flags: "flags_only st (set_flags pl ids P v st)"
  unfolding flags_only_def
proof
  show "set_flags pl ids P v st = st\<lparr>st_Rows := st_Rows (set_flags pl ids P v st)\<rparr>"
    by (simp add: set_flags_def)
  show "\<forall>n. map_option unflag (row (set_flags pl ids P v st) n) = map_option unflag (row st n)"
    by (simp add: row_set_flags option.map_comp o_def unflag_def [abs_def])
qed

lemma flagged_set_flags:
  "flagged (set_flags pl ids P v st) n =
     (if fst n = pl \<and> snd n \<in> set ids \<and> P n \<and> row st n \<noteq> None then v else flagged st n)"
  by (auto simp: flagged_def row_set_flags split: option.splits)

definition batch_nodes :: "plane \<Rightarrow> string list \<Rightarrow> node set" where
  "batch_nodes pl ids = {pl} \<times> set ids"

lemma batch_nodes_iff [simp]: "n \<in> batch_nodes pl ids \<longleftrightarrow> fst n = pl \<and> snd n \<in> set ids"
  by (cases n) (auto simp: batch_nodes_def)

lemma wants_block_row: "wants_block jt st n \<Longrightarrow> row st n \<noteq> None"
  by (auto simp: wants_block_def live_row_def split: option.splits)

lemma flagged_row: "flagged st n \<Longrightarrow> row st n \<noteq> None"
  by (auto simp: flagged_def split: option.splits)

lemma filter_none: "length (filter P (remdups xs)) = 0 \<longleftrightarrow> (\<forall>x\<in>set xs. \<not> P x)"
  by (simp add: filter_empty_conv)

lemma markBlockedTemplate_mark:
  assumes "markBlockedTemplate jt pl ids st = (k, st')"
  shows "flags_only st st'"
    "flagged st' = mark (live_row st) (own_reason jt st) (parents st) (batch_nodes pl ids) (flagged st)"
    "k = 0 \<longleftrightarrow> flagged st' = flagged st"
proof -
  have k: "k = length (filter (\<lambda>i. \<not> flagged st (pl, i) \<and> wants_block jt st (pl, i)) (remdups ids))"
    and st': "st' = set_flags pl ids (\<lambda>n. \<not> flagged st n \<and> wants_block jt st n) True st"
    using assms by (auto simp: markBlockedTemplate_def Let_def)
  show "flags_only st st'" unfolding st' by (rule flags_only_set_flags)
  show m: "flagged st' = mark (live_row st) (own_reason jt st) (parents st) (batch_nodes pl ids) (flagged st)"
    by (auto simp: st' fun_eq_iff flagged_set_flags mark_def wants_block_should [symmetric]
        dest: wants_block_row)
  show "k = 0 \<longleftrightarrow> flagged st' = flagged st"
    unfolding k filter_none m
    by (auto simp: fun_eq_iff mark_def wants_block_should [symmetric])
qed

lemma unmarkBlockedTemplate_unmark:
  assumes "unmarkBlockedTemplate jt pl ids st = (k, st')"
  shows "flags_only st st'"
    "flagged st' = unmark (live_row st) (own_reason jt st) (parents st) (batch_nodes pl ids) (flagged st)"
    "k = 0 \<longleftrightarrow> flagged st' = flagged st"
proof -
  have k: "k = length (filter (\<lambda>i. flagged st (pl, i) \<and> \<not> wants_block jt st (pl, i)) (remdups ids))"
    and st': "st' = set_flags pl ids (\<lambda>n. flagged st n \<and> \<not> wants_block jt st n) False st"
    using assms by (auto simp: unmarkBlockedTemplate_def Let_def)
  show "flags_only st st'" unfolding st' by (rule flags_only_set_flags)
  show m: "flagged st' = unmark (live_row st) (own_reason jt st) (parents st) (batch_nodes pl ids) (flagged st)"
    by (auto simp: st' fun_eq_iff flagged_set_flags unmark_def wants_block_should [symmetric]
        dest: flagged_row)
  show "k = 0 \<longleftrightarrow> flagged st' = flagged st"
    unfolding k filter_none m
    by (auto simp: fun_eq_iff unmark_def wants_block_should [symmetric])
qed


section \<open>The recompute loop ends and settles\<close>

lemma set_batches: "\<Union>(set ` set (batches xs)) = set xs"
proof (induction xs rule: batches.induct)
  case (1 xs)
  show ?case
  proof (cases "xs = []")
    case False
    then have "\<Union>(set ` set (batches xs)) = set (take queryBatchSize xs) \<union> set (drop queryBatchSize xs)"
      using 1 by (subst batches.simps) simp
    also have "\<dots> = set xs" by (metis append_take_drop_id set_append)
    finally show ?thesis .
  qed (simp add: batches.simps)
qed

definition nodes_of :: "string list \<Rightarrow> string list \<Rightarrow> node set" where
  "nodes_of issueIDs wispIDs = {Durable} \<times> set issueIDs \<union> {Ephemeral} \<times> set wispIDs"

definition round_batches :: "string list \<Rightarrow> string list \<Rightarrow> node set list" where
  "round_batches issueIDs wispIDs =
     map (batch_nodes Durable) (batches issueIDs) @ map (batch_nodes Ephemeral) (batches wispIDs)"

lemma nodes_of_finite [simp]: "finite (nodes_of issueIDs wispIDs)"
  by (simp add: nodes_of_def)

lemma Union_batch_nodes: "\<Union>(set (map (batch_nodes pl) bs)) = {pl} \<times> \<Union>(set ` set bs)"
  by (auto simp: batch_nodes_def)

lemma round_batches_Union: "\<Union>(set (round_batches issueIDs wispIDs)) = nodes_of issueIDs wispIDs"
proof -
  have "\<Union>(set (round_batches issueIDs wispIDs)) =
      \<Union>(set (map (batch_nodes Durable) (batches issueIDs))) \<union> \<Union>(set (map (batch_nodes Ephemeral) (batches wispIDs)))"
    by (simp only: round_batches_def set_append Union_Un_distrib)
  then show ?thesis by (simp only: Union_batch_nodes set_batches nodes_of_def)
qed

lemma mark_unmark_all_pass:
  "mark_unmark_all jt pl bs st = (k, st') \<Longrightarrow>
     flags_only st st' \<and>
     flagged st' = pass (live_row st) (own_reason jt st) (parents st) (map (batch_nodes pl) bs) (flagged st) \<and>
     (k = 0 \<longrightarrow> flagged st' = flagged st) \<and>
     ((\<forall>C\<in>set (map (batch_nodes pl) bs).
        mark (live_row st) (own_reason jt st) (parents st) C (flagged st) = flagged st \<and>
        unmark (live_row st) (own_reason jt st) (parents st) C (flagged st) = flagged st) \<longrightarrow> k = 0)"
proof (induction bs arbitrary: st k)
  case (Cons ids bs)
  obtain n st1 where m: "markBlockedTemplate jt pl ids st = (n, st1)" by fastforce
  obtain l st2 where u: "unmarkBlockedTemplate jt pl ids st1 = (l, st2)" by fastforce
  obtain j where a: "mark_unmark_all jt pl bs st2 = (j, st')" and k: "k = n + l + j"
    using Cons.prems m u by (auto split: prod.splits)
  note M = markBlockedTemplate_mark [OF m] and U = unmarkBlockedTemplate_unmark [OF u]
  note G1 = flags_only_status(1) [OF M(1)] flags_only_graph [OF M(1)]
  have f2: "flags_only st st2" using M(1) U(1) by (rule flags_only_trans)
  note IH = Cons.IH [OF a, unfolded flags_only_status(1) [OF f2] flags_only_graph [OF f2]]
  have r: "flagged st2 = round (live_row st) (own_reason jt st) (parents st) (batch_nodes pl ids) (flagged st)"
    using U(2) M(2) by (simp add: G1 round_def)
  have "flags_only st st'" using f2 IH by (blast intro: flags_only_trans)
  moreover have "flagged st' =
      pass (live_row st) (own_reason jt st) (parents st) (map (batch_nodes pl) (ids # bs)) (flagged st)"
    using IH r by (simp add: pass_def)
  moreover have "k = 0 \<longrightarrow> flagged st' = flagged st"
    using k IH [THEN conjunct2, THEN conjunct2, THEN conjunct1] U(3) M(3) by simp
  moreover have "k = 0" if "\<forall>C\<in>set (map (batch_nodes pl) (ids # bs)).
        mark (live_row st) (own_reason jt st) (parents st) C (flagged st) = flagged st \<and>
        unmark (live_row st) (own_reason jt st) (parents st) C (flagged st) = flagged st"
  proof -
    have "flagged st1 = flagged st" using that M(2) by simp
    moreover from this that have "flagged st2 = flagged st" using U(2) by (simp add: G1)
    ultimately show ?thesis
      using that M(3) U(3) IH [THEN conjunct2, THEN conjunct2, THEN conjunct2] k by simp
  qed
  ultimately show ?case by blast
qed (simp add: pass_def)

lemma pass_append: "pass act base par (Cs @ Ds) b = pass act base par Ds (pass act base par Cs b)"
  by (simp add: pass_def)

text \<open>One turn of the loop.\<close>

lemma recompute_turn:
  assumes "runMarkUnmarkBatchedInTx jt Durable issueIDs st = (n, st1)"
    and "runMarkUnmarkBatchedInTx jt Ephemeral wispIDs st1 = (m, st2)"
  shows "flags_only st st2"
    "flagged st2 = pass (live_row st) (own_reason jt st) (parents st) (round_batches issueIDs wispIDs) (flagged st)"
    "n + m = 0 \<Longrightarrow> flagged st2 = flagged st"
    "(\<And>C. C \<subseteq> nodes_of issueIDs wispIDs \<Longrightarrow>
        mark (live_row st) (own_reason jt st) (parents st) C (flagged st) = flagged st \<and>
        unmark (live_row st) (own_reason jt st) (parents st) C (flagged st) = flagged st) \<Longrightarrow> n + m = 0"
proof -
  note A0 = mark_unmark_all_pass [OF assms(1) [unfolded runMarkUnmarkBatchedInTx_def]]
  note B0 = mark_unmark_all_pass [OF assms(2) [unfolded runMarkUnmarkBatchedInTx_def]]
  note A = A0 [THEN conjunct1] A0 [THEN conjunct2, THEN conjunct1]
  note B = B0 [THEN conjunct1] B0 [THEN conjunct2, THEN conjunct1]
  note G = flags_only_status(1) [OF A(1)] flags_only_graph [OF A(1)]
  show "flags_only st st2" using A(1) B(1) by (rule flags_only_trans)
  show "flagged st2 = pass (live_row st) (own_reason jt st) (parents st) (round_batches issueIDs wispIDs) (flagged st)"
    unfolding B(2) A(2) G round_batches_def pass_append by (rule refl)
  show "n + m = 0 \<Longrightarrow> flagged st2 = flagged st"
    using A0 [THEN conjunct2, THEN conjunct2, THEN conjunct1] B0 [THEN conjunct2, THEN conjunct2, THEN conjunct1]
    by simp
  assume fixed: "\<And>C. C \<subseteq> nodes_of issueIDs wispIDs \<Longrightarrow>
        mark (live_row st) (own_reason jt st) (parents st) C (flagged st) = flagged st \<and>
        unmark (live_row st) (own_reason jt st) (parents st) C (flagged st) = flagged st"
  have sub: "C \<subseteq> nodes_of issueIDs wispIDs" if "C \<in> set (round_batches issueIDs wispIDs)" for C
    using that round_batches_Union [of issueIDs wispIDs] by blast
  have "n = 0"
    by (rule A0 [THEN conjunct2, THEN conjunct2, THEN conjunct2, THEN mp], rule ballI, rule fixed, rule sub)
      (simp add: round_batches_def)
  then have "flagged st1 = flagged st" using A0 by blast
  then have "m = 0"
    by (intro B0 [THEN conjunct2, THEN conjunct2, THEN conjunct2, THEN mp] ballI, unfold G, simp only:)
      (rule fixed, rule sub, simp add: round_batches_def)
  with \<open>n = 0\<close> show "n + m = 0" by simp
qed

definition parent_edges :: "store \<Rightarrow> (node \<times> node) set" where
  "parent_edges st = {(p, n). p \<in> parents st n}"

lemma finite_parent_edges: "finite (parent_edges st)"
proof -
  define D where "D = set (st_Deps st Durable) \<union> set (st_Deps st Ephemeral)"
  have "x \<in> {Durable, Ephemeral}" for x by (cases x) simp_all
  then have planes: "UNIV = {Durable, Ephemeral}" by (rule UNIV_eq_I)
  have D: "set (st_Deps st pl) \<subseteq> D" for pl by (cases pl) (auto simp: D_def)
  have "parent_edges st \<subseteq>
      (UNIV \<times> (\<Union>d\<in>D. set_option (dr_OnIssue d) \<union> set_option (dr_OnWisp d))) \<times> (UNIV \<times> dr_IssueID ` D)"
  proof
    fix e
    assume "e \<in> parent_edges st"
    then obtain p n d where e: "e = (p, n)" "d \<in> set (st_Deps st (fst n))" "dr_IssueID d = snd n"
      "dep_col (fst p) d = Some (snd p)"
      by (auto simp: parent_edges_def parents_def edges_from_def)
    have "d \<in> D" using D e(2) by blast
    moreover have "snd p \<in> set_option (dr_OnIssue d) \<union> set_option (dr_OnWisp d)"
      using e(4) by (cases "fst p") (simp_all add: dep_col_def)
    ultimately show "e \<in> (UNIV \<times> (\<Union>d\<in>D. set_option (dr_OnIssue d) \<union> set_option (dr_OnWisp d))) \<times> (UNIV \<times> dr_IssueID ` D)"
      unfolding e(1) mem_Times_iff fst_conv snd_conv e(3) [symmetric] by blast
  qed
  then show ?thesis
    by (rule finite_subset) (simp add: planes D_def)
qed

text \<open>The contract of \<open>blocking\<close>, with the parents of a store whose parent-child edges have no cycle.\<close>

definition sound_parents :: "store \<Rightarrow> node \<Rightarrow> node set" where
  "sound_parents st n = (if acyclic (parent_edges st) then parents st n else {})"

interpretation block: blocking "live_row st" "own_reason jt st" "sound_parents st" for st jt
proof
  have "{(p, n). p \<in> sound_parents st n} = (if acyclic (parent_edges st) then parent_edges st else {})"
    by (auto simp: sound_parents_def parent_edges_def)
  then show "wf {(p, n). p \<in> sound_parents st n}"
    using finite_acyclic_wf [OF finite_parent_edges] by simp
qed

lemma sound_parents_eq: "acyclic (parent_edges st) \<Longrightarrow> sound_parents st = parents st"
  by (simp add: sound_parents_def fun_eq_iff)


definition settled :: "json_text \<Rightarrow> store \<Rightarrow> string list \<Rightarrow> string list \<Rightarrow> node \<Rightarrow> bool" where
  "settled jt st issueIDs wispIDs =
     blocking.settle (live_row st) (own_reason jt st) (sound_parents st) (nodes_of issueIDs wispIDs) (flagged st)"

definition after_passes :: "json_text \<Rightarrow> store \<Rightarrow> string list \<Rightarrow> string list \<Rightarrow> nat \<Rightarrow> node \<Rightarrow> bool" where
  "after_passes jt st issueIDs wispIDs j =
     (pass (live_row st) (own_reason jt st) (sound_parents st) (round_batches issueIDs wispIDs) ^^ j) (flagged st)"

lemma after_passes_settled:
  "card (nodes_of issueIDs wispIDs) \<le> j \<Longrightarrow> after_passes jt st issueIDs wispIDs j = settled jt st issueIDs wispIDs"
  using block.passes_settle [OF nodes_of_finite round_batches_Union] by (simp add: settled_def after_passes_def)

text \<open>A turn after \<open>j\<close> passes ends the loop, or is another pass.\<close>

lemma recompute_loop_turn:
  assumes ac: "acyclic (parent_edges st0)" and fo: "flags_only st0 st"
    and fl: "flagged st = after_passes jt st0 issueIDs wispIDs j"
  shows "(\<exists>result' st'. recompute_loop jt issueIDs wispIDs result st = Some (result', st') \<and>
      flags_only st0 st' \<and> flagged st' = settled jt st0 issueIDs wispIDs) \<or>
    (\<exists>result' st'. j < card (nodes_of issueIDs wispIDs) \<and> flags_only st0 st' \<and>
      recompute_loop jt issueIDs wispIDs result st = recompute_loop jt issueIDs wispIDs result' st' \<and>
      flagged st' = after_passes jt st0 issueIDs wispIDs (Suc j))"
proof -
  let ?S = "nodes_of issueIDs wispIDs"
  let ?p = "pass (live_row st0) (own_reason jt st0) (sound_parents st0) (round_batches issueIDs wispIDs)"
  obtain n st1 where n: "runMarkUnmarkBatchedInTx jt Durable issueIDs st = (n, st1)" by fastforce
  obtain m st2 where m: "runMarkUnmarkBatchedInTx jt Ephemeral wispIDs st1 = (m, st2)" by fastforce
  note T = recompute_turn [OF n m, unfolded flags_only_status(1) [OF fo] flags_only_graph [OF fo]
      sound_parents_eq [OF ac, symmetric]]
  have only: "flags_only st0 st2" using fo T(1) by (rule flags_only_trans)
  show ?thesis
  proof (cases "n + m = 0")
    case True
    then have fixed: "?p (flagged st) = flagged st" using T(2, 3) by simp
    have "(?p ^^ i) (flagged st) = flagged st" for i by (induction i) (simp_all add: fixed)
    then have "flagged st = after_passes jt st0 issueIDs wispIDs (card ?S + j)"
      unfolding fl after_passes_def by (simp add: funpow_add)
    then have "flagged st2 = settled jt st0 issueIDs wispIDs" using after_passes_settled T(3) True by simp
    then show ?thesis using True n m only by (subst recompute_loop.simps) (simp add: Let_def)
  next
    case False
    have "j < card ?S"
    proof (rule ccontr)
      assume "\<not> j < card ?S"
      then have b: "flagged st = settled jt st0 issueIDs wispIDs" using fl after_passes_settled by simp
      have "n + m = 0"
        by (rule T(4)) (simp only: b settled_def block.settle_fixed [OF nodes_of_finite] simp_thms)
      then show False using False by simp
    qed
    moreover have "flagged st2 = after_passes jt st0 issueIDs wispIDs (Suc j)"
      using T(2) fl by (simp add: after_passes_def)
    moreover have "\<exists>result'. recompute_loop jt issueIDs wispIDs result st = recompute_loop jt issueIDs wispIDs result' st2"
      using False n m by (subst recompute_loop.simps) (auto simp: Let_def)
    ultimately show ?thesis using only by blast
  qed
qed

lemma recompute_loop_settles:
  assumes ac: "acyclic (parent_edges st0)"
  shows "\<exists>result' st'. recompute_loop jt issueIDs wispIDs result st0 = Some (result', st') \<and>
    flags_only st0 st' \<and> flagged st' = settled jt st0 issueIDs wispIDs"
proof -
  let ?N = "card (nodes_of issueIDs wispIDs)"
  have "\<exists>result' st'. recompute_loop jt issueIDs wispIDs result st = Some (result', st') \<and>
      flags_only st0 st' \<and> flagged st' = settled jt st0 issueIDs wispIDs"
    if "?N - j = k" "flags_only st0 st" "flagged st = after_passes jt st0 issueIDs wispIDs j" for j k st result
    using that
  proof (induction k arbitrary: j st result)
    case 0
    then show ?case using recompute_loop_turn [OF ac, of st jt issueIDs wispIDs j result] by auto
  next
    case (Suc k)
    have "?N - Suc j = k" using Suc.prems(1) by simp
    then show ?case
      using recompute_loop_turn [OF ac Suc.prems(2, 3), of result] Suc.IH [of "Suc j"] by metis
  qed
  from this [of 0 ?N st0 result] show ?thesis by (simp add: after_passes_def)
qed

section \<open>The mark loop\<close>

lemma mark_all_pass:
  "mark_all jt pl bs st = (k, st') \<Longrightarrow>
     flags_only st st' \<and>
     flagged st' = mark_pass (live_row st) (own_reason jt st) (parents st) (map (batch_nodes pl) bs) (flagged st) \<and>
     (k = 0 \<longleftrightarrow> flagged st' = flagged st)"
proof (induction bs arbitrary: st k)
  case (Cons ids bs)
  obtain n st1 where m: "markBlockedTemplate jt pl ids st = (n, st1)" by fastforce
  obtain j where a: "mark_all jt pl bs st1 = (j, st')" and k: "k = n + j"
    using Cons.prems m by (auto split: prod.splits)
  note M = markBlockedTemplate_mark [OF m]
  note G = flags_only_status(1) [OF M(1)] flags_only_graph [OF M(1)]
  note IH = Cons.IH [OF a, unfolded G]
  have fl: "flagged st' =
      mark_pass (live_row st) (own_reason jt st) (parents st) (map (batch_nodes pl) (ids # bs)) (flagged st)"
    using IH M(2) by (simp add: mark_pass_def)
  have up: "flagged st x \<Longrightarrow> flagged st1 x" "flagged st1 x \<Longrightarrow> flagged st' x" for x
    using M(2) IH by (auto simp: mark_def mark_pass_increasing)
  have "k = 0 \<longleftrightarrow> flagged st1 = flagged st \<and> flagged st' = flagged st1"
    using k M(3) IH [THEN conjunct2, THEN conjunct2] by auto
  also have "\<dots> \<longleftrightarrow> flagged st' = flagged st"
    using up by (auto simp: fun_eq_iff)
  finally show ?case using fl M(1) IH by (blast intro: flags_only_trans)
qed (simp add: mark_pass_def)

lemma mark_turn:
  assumes "runMarkBatchedInTx jt Durable issueIDs st = (n, st1)"
    and "runMarkBatchedInTx jt Ephemeral wispIDs st1 = (m, st2)"
  shows "flags_only st st2"
    "flagged st2 = mark_pass (live_row st) (own_reason jt st) (parents st) (round_batches issueIDs wispIDs) (flagged st)"
    "n + m = 0 \<longleftrightarrow> flagged st2 = flagged st"
proof -
  note A = mark_all_pass [OF assms(1) [unfolded runMarkBatchedInTx_def]]
  note B = mark_all_pass [OF assms(2) [unfolded runMarkBatchedInTx_def]]
  note A1 = A [THEN conjunct1]
  note G = flags_only_status(1) [OF A1] flags_only_graph [OF A1]
  show "flags_only st st2" using A B by (blast intro: flags_only_trans)
  show fl: "flagged st2 = mark_pass (live_row st) (own_reason jt st) (parents st) (round_batches issueIDs wispIDs) (flagged st)"
    using A [THEN conjunct2, THEN conjunct1] B [THEN conjunct2, THEN conjunct1]
    by (simp add: G round_batches_def mark_pass_def)
  have up: "flagged st x \<Longrightarrow> flagged st1 x" "flagged st1 x \<Longrightarrow> flagged st2 x" for x
    using A B by (auto simp: mark_pass_increasing)
  have "n + m = 0 \<longleftrightarrow> flagged st1 = flagged st \<and> flagged st2 = flagged st1"
    using A [THEN conjunct2, THEN conjunct2] B [THEN conjunct2, THEN conjunct2] by auto
  also have "\<dots> \<longleftrightarrow> flagged st2 = flagged st" using up by (auto simp: fun_eq_iff)
  finally show "n + m = 0 \<longleftrightarrow> flagged st2 = flagged st" .
qed

text \<open>Marking ends because every turn but the last flags one more row of the finite set.\<close>

lemma mark_loop_ends:
  "\<exists>st'. mark_loop jt issueIDs wispIDs st = Some st' \<and> flags_only st st' \<and>
     (\<forall>n. flagged st n \<longrightarrow> flagged st' n) \<and> (\<forall>n. n \<notin> nodes_of issueIDs wispIDs \<longrightarrow> flagged st' n = flagged st n) \<and>
     (\<forall>n\<in>nodes_of issueIDs wispIDs. wants_block jt st' n \<longrightarrow> flagged st' n) \<and>
     ((\<forall>n. flagged st n \<longrightarrow> wants_block jt st n) \<longrightarrow> (\<forall>n. flagged st' n \<longrightarrow> wants_block jt st' n))"
proof (induction "card {x \<in> nodes_of issueIDs wispIDs. \<not> flagged st x}" arbitrary: st rule: less_induct)
  case less
  let ?S = "nodes_of issueIDs wispIDs"
  obtain n st1 where n: "runMarkBatchedInTx jt Durable issueIDs st = (n, st1)" by fastforce
  obtain m st2 where m: "runMarkBatchedInTx jt Ephemeral wispIDs st1 = (m, st2)" by fastforce
  note T = mark_turn [OF n m]
  note G = flags_only_status(1) [OF T(1)] flags_only_graph [OF T(1)]
  have sup: "\<forall>x. flagged st2 x \<longrightarrow> wants_block jt st2 x" if "\<forall>x. flagged st x \<longrightarrow> wants_block jt st x"
  proof -
    have "supported (live_row st) (own_reason jt st) (parents st) (flagged st)"
      using that by (simp add: supported_def wants_block_should)
    then have "supported (live_row st) (own_reason jt st) (parents st) (flagged st2)"
      unfolding T(2) by (rule mark_pass_supported)
    then show ?thesis by (simp add: supported_def wants_block_should G)
  qed
  have up: "flagged st x \<Longrightarrow> flagged st2 x" for x unfolding T(2) by (rule mark_pass_increasing)
  have out: "x \<notin> ?S \<Longrightarrow> flagged st2 x = flagged st x" for x
    unfolding T(2) round_batches_Union [symmetric] by (rule mark_pass_outside)
  show ?case
  proof (cases "n + m = 0")
    case True
    then have same: "flagged st2 = flagged st" using T(3) by simp
    have "flagged st2 x" if x: "x \<in> ?S" and w: "wants_block jt st2 x" for x
    proof -
      obtain C where "C \<in> set (round_batches issueIDs wispIDs)" "x \<in> C"
        using x unfolding round_batches_Union [symmetric] by blast
      moreover have "should (live_row st) (own_reason jt st) (parents st) (flagged st) x"
        using w by (simp add: wants_block_should G same)
      ultimately show ?thesis using mark_pass_fixed T(2) same by metis
    qed
    then show ?thesis using True n m T(1) up out sup by (subst mark_loop.simps) (auto simp: Let_def)
  next
    case False
    then obtain x where x: "flagged st2 x" "\<not> flagged st x" using T(3) up by (auto simp: fun_eq_iff)
    then have "x \<in> ?S" using out by blast
    then have "{x \<in> ?S. \<not> flagged st2 x} \<subset> {x \<in> ?S. \<not> flagged st x}" using x up by auto
    then have "card {x \<in> ?S. \<not> flagged st2 x} < card {x \<in> ?S. \<not> flagged st x}"
      by (rule psubset_card_mono [rotated]) simp
    from less [OF this] obtain st' where IH: "mark_loop jt issueIDs wispIDs st2 = Some st'" "flags_only st2 st'"
      "\<forall>n. flagged st2 n \<longrightarrow> flagged st' n" "\<forall>n. n \<notin> ?S \<longrightarrow> flagged st' n = flagged st2 n"
      "\<forall>n\<in>?S. wants_block jt st' n \<longrightarrow> flagged st' n"
      "(\<forall>n. flagged st2 n \<longrightarrow> wants_block jt st2 n) \<longrightarrow> (\<forall>n. flagged st' n \<longrightarrow> wants_block jt st' n)"
      by blast
    have "mark_loop jt issueIDs wispIDs st = Some st'"
      using False n m IH(1) by (subst mark_loop.simps) (auto simp: Let_def)
    moreover have "flags_only st st'" using T(1) IH(2) by (rule flags_only_trans)
    ultimately show ?thesis using IH(3-6) up out sup by blast
  qed
qed

section \<open>The journal of derived changes\<close>

text \<open>Flags and journal rows are all that maintenance writes.\<close>

definition derived_only :: "store \<Rightarrow> store \<Rightarrow> bool" where
  "derived_only st st' \<longleftrightarrow> (\<exists>mid. flags_only st mid \<and> journal_only mid st')"

lemma journal_only_graph:
  assumes "journal_only st st'"
  shows "live_row st' = live_row st" "closed_row st' = closed_row st" "flagged st' = flagged st"
    "edges_from st' = edges_from st" "own_reason jt st' = own_reason jt st" "parents st' = parents st"
    "wants_block jt st' = wants_block jt st"
proof -
  note J = journal_onlyD(2, 8) [OF assms]
  show c: "live_row st' = live_row st" "closed_row st' = closed_row st" "flagged st' = flagged st"
    "edges_from st' = edges_from st"
    by (simp_all add: live_row_def [abs_def] closed_row_def [abs_def] flagged_def [abs_def] edges_from_def [abs_def] J)
  show o: "own_reason jt st' = own_reason jt st" and p: "parents st' = parents st"
    unfolding own_reason_def [abs_def] parents_def [abs_def] waitsForGateBlockedSQL_def some_child_def c J
    by (rule refl)+
  show "wants_block jt st' = wants_block jt st"
    by (simp add: wants_block_should fun_eq_iff c o p)
qed

lemma record_updates_total:
  "(\<And>i. i \<in> set ids \<Longrightarrow> row st (Durable, i) \<noteq> None \<or> row st (Ephemeral, i) \<noteq> None) \<Longrightarrow>
     \<exists>st'. record_updates st ids = Inr st' \<and> journal_only st st'"
proof (induction ids arbitrary: st)
  case (Cons i ids)
  then obtain st1 where s: "RecordEventInTx st EventUpdate i = Inr st1" "journal_only st st1"
    by (metis RecordEventInTx_Inr list.set_intros(1))
  have "\<exists>st'. record_updates st1 ids = Inr st' \<and> journal_only st1 st'"
    by (rule Cons.IH) (use Cons.prems journal_onlyD(8) [OF s(2)] in auto)
  then show ?case using s by (auto intro: journal_only_trans)
qed simp

lemma recordBlockedJournalChanges_total:
  obtains st' where "recordBlockedJournalChanges before st issueIDs wispIDs = Inr st'" "journal_only st st'"
proof (cases "st_JournalOn st")
  case True
  have "\<exists>st'. record_updates st (changed_flags before st issueIDs wispIDs) = Inr st' \<and> journal_only st st'"
    by (rule record_updates_total)
      (auto simp: changed_flags_def captureBlockedJournalSnapshot_def Let_def)
  then show thesis using True by (auto simp: recordBlockedJournalChanges_def intro: that)
next
  case False
  then show thesis by (intro that [of st]) (simp_all add: recordBlockedJournalChanges_def)
qed

text \<open>Recomputing ends without error whenever parent-child edges have no cycle.\<close>

lemma Recompute_total:
  assumes "acyclic (parent_edges st)"
  obtains result st' where "RecomputeIsBlockedInTxWithResult jt st issueIDs wispIDs = Some (Inr (result, st'))"
    "derived_only st st'" "flagged st' = settled jt st issueIDs wispIDs"
proof (cases "issueIDs = [] \<and> wispIDs = []")
  case True
  have "derived_only st st" unfolding derived_only_def using flags_only_refl journal_only_refl by blast
  moreover have "settled jt st issueIDs wispIDs = flagged st"
    using True block.settle_eq [of st jt "{}" "flagged st"] by (simp add: settled_def nodes_of_def fun_eq_iff)
  ultimately show thesis
    using True by (intro that) (simp_all add: RecomputeIsBlockedInTxWithResult_def Let_def)
next
  case False
  let ?r = "\<lparr>rb_IssueRowsChanged = False, rb_WispRowsChanged = False\<rparr>"
  obtain result st1 where l: "recompute_loop jt issueIDs wispIDs ?r st = Some (result, st1)"
    "flags_only st st1" "flagged st1 = settled jt st issueIDs wispIDs"
    using recompute_loop_settles [OF assms] by blast
  obtain st2 where r: "recordBlockedJournalChanges (captureBlockedJournalSnapshot st) st1 issueIDs wispIDs = Inr st2"
    "journal_only st1 st2"
    by (rule recordBlockedJournalChanges_total)
  show thesis
  proof (rule that)
    show "RecomputeIsBlockedInTxWithResult jt st issueIDs wispIDs = Some (Inr (result, st2))"
      using False l(1) r(1) by (auto simp: RecomputeIsBlockedInTxWithResult_def Let_def)
    show "derived_only st st2" using l(2) r(2) by (auto simp: derived_only_def)
    show "flagged st2 = settled jt st issueIDs wispIDs" using l(3) journal_only_graph(3) [OF r(2)] by simp
  qed
qed


section \<open>The affected rows are enough\<close>

text \<open>How the queues grow: at the end, and by IDs that are also noted as seen.\<close>

definition grows :: "affected \<Rightarrow> affected \<Rightarrow> bool" where
  "grows a a' \<longleftrightarrow> (\<forall>pl. prefix (af_Queue a pl) (af_Queue a' pl) \<and>
     set (af_Seen a pl) \<subseteq> set (af_Seen a' pl) \<and>
     set (af_Seen a' pl) \<subseteq> set (af_Seen a pl) \<union> set (af_Queue a' pl) \<and>
     (set (af_Queue a pl) \<subseteq> set (af_Seen a pl) \<longrightarrow> set (af_Queue a' pl) \<subseteq> set (af_Seen a' pl)))"

lemma grows_refl [simp]: "grows a a"
  by (simp add: grows_def)

lemma grows_trans: "grows a b \<Longrightarrow> grows b c \<Longrightarrow> grows a c"
  unfolding grows_def by (blast intro: prefix_order.trans dest: set_mono_prefix)

lemma add_seen_grows: "grows a (add_seen pl i a)" "i \<in> set (af_Seen (add_seen pl i a) pl)"
  by (auto simp: grows_def add_seen_def)

lemma grows_seen: "grows a a' \<Longrightarrow> i \<in> set (af_Seen a pl) \<Longrightarrow> i \<in> set (af_Seen a' pl)"
  by (auto simp: grows_def)

lemma fold_grows:
  assumes "\<And>x a. x \<in> set xs \<Longrightarrow> grows a (f x a)"
  shows "grows a (fold f xs a)"
  using assms by (induction xs arbitrary: a) (auto intro: grows_trans)

lemma fold_grows_seen:
  assumes "\<And>x a. x \<in> set xs \<Longrightarrow> grows a (f x a)" and "x \<in> set xs" and "\<And>a. i \<in> set (af_Seen (f x a) pl)"
  shows "i \<in> set (af_Seen (fold f xs a) pl)"
proof -
  obtain ys zs where xs: "xs = ys @ x # zs" using assms(2) by (auto dest: split_list)
  then have "grows (f x (fold f ys a)) (fold f zs (f x (fold f ys a)))"
    using assms(1) by (intro fold_grows) auto
  then show ?thesis using grows_seen [OF _ assms(3)] by (simp add: xs)
qed

lemma load_edges_grows:
  "grows a (load_edges st P pl a)"
  "d \<in> set (st_Deps st pl) \<Longrightarrow> P d \<Longrightarrow> dr_IssueID d \<in> set (af_Seen (load_edges st P pl a) pl)"
  unfolding load_edges_def
  by (auto intro: fold_grows fold_grows_seen [where x = "dr_IssueID d"] add_seen_grows)

lemma load_both_grows:
  "grows a (load_both st P a)"
  "d \<in> set (st_Deps st pl) \<Longrightarrow> P d \<Longrightarrow> dr_IssueID d \<in> set (af_Seen (load_both st P a) pl)"
proof -
  show "grows a (load_both st P a)"
    unfolding load_both_def by (blast intro: grows_trans load_edges_grows(1))
  show "d \<in> set (st_Deps st pl) \<Longrightarrow> P d \<Longrightarrow> dr_IssueID d \<in> set (af_Seen (load_both st P a) pl)"
    unfolding load_both_def by (cases pl) (auto intro: load_edges_grows grows_seen)
qed

lemma loadBlockingDependers_grows:
  "grows a (loadBlockingDependersForIDsInTx st col ids a)"
  "i \<in> set ids \<Longrightarrow> d \<in> set (st_Deps st pl) \<Longrightarrow> dep_col col d = Some i \<Longrightarrow> direct_type (dr_Type d) \<Longrightarrow>
     dr_IssueID d \<in> set (af_Seen (loadBlockingDependersForIDsInTx st col ids a) pl)"
  unfolding loadBlockingDependersForIDsInTx_def
  by (auto intro!: fold_grows load_both_grows fold_grows_seen [where x = i])

lemma loadWaitersByCol_grows:
  "grows a (loadWaitersOnSpawnerIDsByColInTx st col ids a)"
  "i \<in> set ids \<Longrightarrow> d \<in> set (st_Deps st pl) \<Longrightarrow> dep_col col d = Some i \<Longrightarrow> dr_Type d = DepWaitsFor \<Longrightarrow>
     dr_IssueID d \<in> set (af_Seen (loadWaitersOnSpawnerIDsByColInTx st col ids a) pl)"
  unfolding loadWaitersOnSpawnerIDsByColInTx_def
  by (auto intro!: fold_grows load_both_grows fold_grows_seen [where x = i])

lemma loadWaiters_grows:
  "grows a (loadWaitersOnSpawnerIDsInTx st ids a)"
  "i \<in> set ids \<Longrightarrow> d \<in> set (st_Deps st pl) \<Longrightarrow> dep_col col d = Some i \<Longrightarrow> dr_Type d = DepWaitsFor \<Longrightarrow>
     dr_IssueID d \<in> set (af_Seen (loadWaitersOnSpawnerIDsInTx st ids a) pl)"
proof -
  show "grows a (loadWaitersOnSpawnerIDsInTx st ids a)"
    unfolding loadWaitersOnSpawnerIDsInTx_def by (blast intro: grows_trans loadWaitersByCol_grows(1))
  show "i \<in> set ids \<Longrightarrow> d \<in> set (st_Deps st pl) \<Longrightarrow> dep_col col d = Some i \<Longrightarrow> dr_Type d = DepWaitsFor \<Longrightarrow>
     dr_IssueID d \<in> set (af_Seen (loadWaitersOnSpawnerIDsInTx st ids a) pl)"
    unfolding loadWaitersOnSpawnerIDsInTx_def
    by (cases col) (auto intro: grows_seen [OF loadWaitersByCol_grows(1)] loadWaitersByCol_grows(2))
qed

lemma parent_ids_iff: "(col, p) \<in> parents st n \<longleftrightarrow> p \<in> set (parent_ids st n col)"
  by (auto simp: parent_ids_def parents_def map_filter_def image_iff)

lemma loadWaitersOfParent_grows:
  "grows a (loadWaitersWhoseSpawnerIsParentOfInTx st n a)"
  "(col, p) \<in> parents st n \<Longrightarrow> d \<in> set (st_Deps st pl) \<Longrightarrow> dep_col col d = Some p \<Longrightarrow> dr_Type d = DepWaitsFor \<Longrightarrow>
     dr_IssueID d \<in> set (af_Seen (loadWaitersWhoseSpawnerIsParentOfInTx st n a) pl)"
proof -
  show "grows a (loadWaitersWhoseSpawnerIsParentOfInTx st n a)"
    unfolding loadWaitersWhoseSpawnerIsParentOfInTx_def by (blast intro: grows_trans loadWaitersByCol_grows(1))
  show "(col, p) \<in> parents st n \<Longrightarrow> d \<in> set (st_Deps st pl) \<Longrightarrow> dep_col col d = Some p \<Longrightarrow> dr_Type d = DepWaitsFor \<Longrightarrow>
     dr_IssueID d \<in> set (af_Seen (loadWaitersWhoseSpawnerIsParentOfInTx st n a) pl)"
    unfolding loadWaitersWhoseSpawnerIsParentOfInTx_def parent_ids_iff
    by (cases col) (auto intro: grows_seen [OF loadWaitersByCol_grows(1)] loadWaitersByCol_grows(2))
qed

lemma appendChildren_grows:
  "grows a (appendChildrenInTx st tab col ids a)"
  "i \<in> set ids \<Longrightarrow> d \<in> set (st_Deps st tab) \<Longrightarrow> dep_col col d = Some i \<Longrightarrow> dr_Type d = DepParentChild \<Longrightarrow>
     dr_IssueID d \<in> set (af_Seen (appendChildrenInTx st tab col ids a) tab)"
  unfolding appendChildrenInTx_def
  by (auto intro!: fold_grows load_edges_grows fold_grows_seen [where x = i])

subsection \<open>The queue loop\<close>

text \<open>Sources of edges that have not been seen, plus the IDs queued: no operation changes the sum.\<close>

definition unseen :: "store \<Rightarrow> affected \<Rightarrow> plane \<Rightarrow> nat" where
  "unseen st a pl = card (dr_IssueID ` set (st_Deps st pl) - set (af_Seen a pl))"

definition budget :: "store \<Rightarrow> affected \<Rightarrow> nat" where
  "budget st a = unseen st a Durable + unseen st a Ephemeral + length (af_Queue a Durable) + length (af_Queue a Ephemeral)"

lemma add_seen_budget:
  assumes "i \<in> dr_IssueID ` set (st_Deps st pl)"
  shows "budget st (add_seen pl i a) = budget st a"
proof (cases "i \<in> set (af_Seen a pl)")
  case False
  define U where "U = dr_IssueID ` set (st_Deps st pl) - set (af_Seen a pl)"
  have "i \<in> U" "finite U" using assms False by (auto simp: U_def)
  then have "card U = Suc (card (U - {i}))" by (rule card.remove [rotated])
  moreover have "dr_IssueID ` set (st_Deps st pl) - insert i (set (af_Seen a pl)) = U - {i}"
    by (auto simp: U_def)
  ultimately show ?thesis
    using False by (cases pl) (simp_all add: budget_def unseen_def add_seen_def U_def)
qed (simp add: add_seen_def)

lemma fold_budget:
  assumes "\<And>x a. x \<in> set xs \<Longrightarrow> budget st (f x a) = budget st a"
  shows "budget st (fold f xs a) = budget st a"
  using assms by (induction xs arbitrary: a) auto

lemma load_edges_budget: "budget st (load_edges st P pl a) = budget st a"
  unfolding load_edges_def by (rule fold_budget) (auto intro: add_seen_budget)

lemma appendChildren_budget: "budget st (appendChildrenInTx st tab col ids a) = budget st a"
  unfolding appendChildrenInTx_def by (rule fold_budget) (rule load_edges_budget)

text \<open>The children of the first \<open>h\<close> IDs of a queue have been seen.\<close>

definition expanded :: "store \<Rightarrow> plane \<Rightarrow> nat \<Rightarrow> affected \<Rightarrow> bool" where
  "expanded st col h a \<longleftrightarrow>
     (\<forall>i\<in>set (take h (af_Queue a col)). \<forall>tab. \<forall>d\<in>set (st_Deps st tab).
        dr_Type d = DepParentChild \<and> dep_col col d = Some i \<longrightarrow> dr_IssueID d \<in> set (af_Seen a tab))"

lemma grows_queue:
  assumes "grows a a'"
  obtains zs where "af_Queue a' pl = af_Queue a pl @ zs"
proof -
  have "prefix (af_Queue a pl) (af_Queue a' pl)" using assms by (simp add: grows_def)
  then show thesis by (auto simp: prefix_def intro: that)
qed

lemma grows_sync:
  assumes "grows a a'" and "\<And>pl. set (af_Seen a pl) = set (af_Queue a pl) \<union> E pl"
  shows "set (af_Seen a' pl) = set (af_Queue a' pl) \<union> E pl"
proof -
  have "set (af_Queue a pl) \<subseteq> set (af_Queue a' pl)"
    by (rule grows_queue [OF assms(1), of pl]) auto
  moreover have "set (af_Seen a' pl) \<subseteq> set (af_Seen a pl) \<union> set (af_Queue a' pl)" "set (af_Seen a pl) \<subseteq> set (af_Seen a' pl)"
    "set (af_Queue a' pl) \<subseteq> set (af_Seen a' pl)"
    using assms(1) [unfolded grows_def, rule_format, of pl] assms(2) [of pl] by blast+
  ultimately show ?thesis using assms(2) [of pl] by blast
qed

lemma expanded_grows: "expanded st col h a \<Longrightarrow> h \<le> length (af_Queue a col) \<Longrightarrow> grows a a' \<Longrightarrow> expanded st col h a'"
proof -
  assume e: "expanded st col h a" and h: "h \<le> length (af_Queue a col)" and g: "grows a a'"
  obtain zs where "af_Queue a' col = af_Queue a col @ zs" by (rule grows_queue [OF g])
  then have "take h (af_Queue a' col) = take h (af_Queue a col)" using h by simp
  then show ?thesis using e grows_seen [OF g] by (simp add: expanded_def)
qed


lemma grows_length: "grows a a' \<Longrightarrow> length (af_Queue a pl) \<le> length (af_Queue a' pl)"
  by (auto simp: grows_def dest: prefix_length_le)

lemma expand_queue_step:
  assumes "expand_queue st col (h, a) = (h', a')" "expanded st col h a" "h \<le> length (af_Queue a col)"
  shows "grows a a'" "expanded st col h' a'" "h \<le> h'" "h' \<le> length (af_Queue a' col)" "budget st a' = budget st a"
    "h < length (af_Queue a col) \<Longrightarrow> h < h'"
proof -
  define batch where "batch = take queryBatchSize (drop h (af_Queue a col))"
  define a1 where "a1 = appendChildrenInTx st Durable col batch a"
  define a2 where "a2 = appendChildrenInTx st Ephemeral col batch a1"
  have "grows a a'" "expanded st col h' a'" "h \<le> h'" "h' \<le> length (af_Queue a' col)"
      "budget st a' = budget st a" "h < length (af_Queue a col) \<Longrightarrow> h < h'"
    if lt: "h < length (af_Queue a col)"
  proof -
    have eq: "h' = h + length batch" "a' = a2"
      using assms(1) lt by (simp_all add: expand_queue_def Let_def batch_def a1_def a2_def)
    have g1: "grows a a1" and g2: "grows a1 a2"
      unfolding a1_def a2_def by (rule appendChildren_grows(1))+
    then show g: "grows a a'" unfolding eq by (rule grows_trans)
    have b: "h + length batch \<le> length (af_Queue a col)" using lt by (simp add: batch_def)
    have tk: "take (h + length batch) (af_Queue a col) = take h (af_Queue a col) @ batch"
      by (simp add: take_add batch_def min_def)
    have kids: "dr_IssueID d \<in> set (af_Seen a2 tab)"
      if "i \<in> set batch" "d \<in> set (st_Deps st tab)" "dr_Type d = DepParentChild" "dep_col col d = Some i" for i tab d
      using that appendChildren_grows(2) [of i batch d st tab col] grows_seen [OF g2]
      by (cases tab) (auto simp: a1_def a2_def)
    have "expanded st col h a2"
      using assms(2, 3) g unfolding eq by (rule expanded_grows)
    moreover obtain zs where "af_Queue a2 col = af_Queue a col @ zs"
      using g unfolding eq by (rule grows_queue)
    then have "take (h + length batch) (af_Queue a2 col) = take h (af_Queue a2 col) @ batch"
      using tk b assms(3) by simp
    ultimately show "expanded st col h' a'"
      unfolding eq expanded_def using kids by auto
    show "h \<le> h'" "h' \<le> length (af_Queue a' col)"
      using b grows_length [OF g, of col] by (simp_all add: eq)
    show "budget st a' = budget st a" by (simp add: eq a1_def a2_def appendChildren_budget)
    show "h < h'" using lt by (simp add: eq batch_def queryBatchSize_def)
  qed
  moreover have "h' = h \<and> a' = a" if "\<not> h < length (af_Queue a col)"
    using assms(1) that by (simp add: expand_queue_def)
  ultimately show "grows a a'" "expanded st col h' a'" "h \<le> h'" "h' \<le> length (af_Queue a' col)"
    "budget st a' = budget st a" "h < length (af_Queue a col) \<Longrightarrow> h < h'"
    using assms(2, 3) by (cases "h < length (af_Queue a col)", auto)+
qed

text \<open>The loop ends, with queues closed under children.\<close>

lemma expand_loop_ends:
  assumes "expanded st Durable h a" "h \<le> length (af_Queue a Durable)"
    and "expanded st Ephemeral w a" "w \<le> length (af_Queue a Ephemeral)"
  shows "\<exists>a'. expand_loop st h w a = Some a' \<and> grows a a' \<and>
    expanded st Durable (length (af_Queue a' Durable)) a' \<and>
    expanded st Ephemeral (length (af_Queue a' Ephemeral)) a'"
  using assms
proof (induction "budget st a - (h + w)" arbitrary: h w a rule: less_induct)
  case less
  show ?case
  proof (cases "h < length (af_Queue a Durable) \<or> w < length (af_Queue a Ephemeral)")
    case True
    obtain h' a1 where d: "expand_queue st Durable (h, a) = (h', a1)" by fastforce
    obtain w' a2 where e: "expand_queue st Ephemeral (w, a1) = (w', a2)" by fastforce
    note D = expand_queue_step [OF d less.prems(1, 2)]
    have w: "expanded st Ephemeral w a1" "w \<le> length (af_Queue a1 Ephemeral)"
      using expanded_grows [OF less.prems(3, 4) D(1)] less.prems(4) grows_length [OF D(1), of Ephemeral] by auto
    note E = expand_queue_step [OF e w]
    have h: "expanded st Durable h' a2" "h' \<le> length (af_Queue a2 Durable)"
      using expanded_grows [OF D(2, 4) E(1)] D(4) grows_length [OF E(1), of Durable] by auto
    have "h + w < h' + w'"
      using True D(3, 6) E(3, 6) grows_length [OF D(1), of Ephemeral] by linarith
    moreover have "h' + w' \<le> budget st a2" using h(2) E(4) by (simp add: budget_def)
    moreover have "budget st a2 = budget st a" using D(5) E(5) by simp
    ultimately have "budget st a2 - (h' + w') < budget st a - (h + w)" by linarith
    from less.hyps [OF this h E(2, 4)] obtain a' where
      IH: "expand_loop st h' w' a2 = Some a'" "grows a2 a'"
        "expanded st Durable (length (af_Queue a' Durable)) a'" "expanded st Ephemeral (length (af_Queue a' Ephemeral)) a'"
      by blast
    have "expand_loop st h w a = Some a'" using True d e IH(1) by (subst expand_loop.simps) auto
    moreover have "grows a a'" using D(1) E(1) IH(2) by (blast intro: grows_trans)
    ultimately show ?thesis using IH by blast
  next
    case False
    then have "h = length (af_Queue a Durable)" "w = length (af_Queue a Ephemeral)"
      using less.prems by simp_all
    then show ?thesis
      using False less.prems by (subst expand_loop.simps) auto
  qed
qed

definition closed_under_children :: "store \<Rightarrow> node set \<Rightarrow> bool" where
  "closed_under_children st S \<longleftrightarrow> (\<forall>n p. p \<in> parents st n \<longrightarrow> p \<in> S \<longrightarrow> n \<in> S)"

text \<open>
  With queues that hold all that was seen but a set whose children were seen, the result together with
  the set holds what was seen and is closed.
\<close>

lemma expand_covers:
  assumes sync: "\<And>pl. set (af_Seen a pl) = set (af_Queue a pl) \<union> E pl"
    and kids: "\<And>col i tab d. i \<in> E col \<Longrightarrow> d \<in> set (st_Deps st tab) \<Longrightarrow> dr_Type d = DepParentChild \<Longrightarrow> dep_col col d = Some i \<Longrightarrow>
      dr_IssueID d \<in> set (af_Seen a tab)"
  obtains issueIDs wispIDs where "expandByParentChildDescendantsInTx st a = Some (issueIDs, wispIDs)"
    "\<And>pl i. i \<in> set (af_Seen a pl) \<Longrightarrow> (pl, i) \<in> nodes_of issueIDs wispIDs \<union> {n. snd n \<in> E (fst n)}"
    "closed_under_children st (nodes_of issueIDs wispIDs \<union> {n. snd n \<in> E (fst n)})"
proof -
  obtain a' where a': "expand_loop st 0 0 a = Some a'" "grows a a'"
    "expanded st Durable (length (af_Queue a' Durable)) a'" "expanded st Ephemeral (length (af_Queue a' Ephemeral)) a'"
    using expand_loop_ends [of st 0 a 0] by (auto simp: expanded_def)
  let ?S = "nodes_of (af_Queue a' Durable) (af_Queue a' Ephemeral) \<union> {n. snd n \<in> E (fst n)}"
  have seen: "set (af_Seen a' pl) = set (af_Queue a' pl) \<union> E pl" for pl
    using a'(2) sync by (rule grows_sync)
  have mem: "(pl, i) \<in> ?S \<longleftrightarrow> i \<in> set (af_Seen a' pl)" for pl i
    by (cases pl) (auto simp: nodes_of_def seen)
  show thesis
  proof (rule that)
    show "expandByParentChildDescendantsInTx st a = Some (af_Queue a' Durable, af_Queue a' Ephemeral)"
      by (simp add: expandByParentChildDescendantsInTx_def a'(1))
    show "(pl, i) \<in> ?S" if "i \<in> set (af_Seen a pl)" for pl i
      unfolding mem using that by (rule grows_seen [OF a'(2)])
    have ex: "expanded st col (length (af_Queue a' col)) a'" for col using a'(3, 4) by (cases col) auto
    show "closed_under_children st ?S"
      unfolding closed_under_children_def
    proof (intro allI impI)
      fix n p
      assume p: "p \<in> parents st n" "p \<in> ?S"
      then obtain d where d: "d \<in> set (st_Deps st (fst n))" "dr_IssueID d = snd n" "dr_Type d = DepParentChild" "dep_col (fst p) d = Some (snd p)"
        by (auto simp: parents_def edges_from_def)
      have "(fst p, snd p) \<in> ?S" using p(2) by simp
      then have "snd p \<in> set (af_Queue a' (fst p)) \<or> snd p \<in> E (fst p)" unfolding mem seen by blast
      then have "snd n \<in> set (af_Seen a' (fst n))"
      proof
        assume "snd p \<in> set (af_Queue a' (fst p))"
        then show ?thesis using d ex [of "fst p"] by (force simp: expanded_def)
      next
        assume "snd p \<in> E (fst p)"
        then show ?thesis using kids [OF _ d(1, 3, 4)] grows_seen [OF a'(2)] d(2) by simp
      qed
      then have "(fst n, snd n) \<in> ?S" unfolding mem .
      then show "n \<in> ?S" by simp
    qed
  qed
qed

lemma expand_closed:
  assumes "\<And>pl. set (af_Seen a pl) = set (af_Queue a pl)"
  obtains issueIDs wispIDs where "expandByParentChildDescendantsInTx st a = Some (issueIDs, wispIDs)"
    "\<And>pl i. i \<in> set (af_Seen a pl) \<Longrightarrow> (pl, i) \<in> nodes_of issueIDs wispIDs"
    "closed_under_children st (nodes_of issueIDs wispIDs)"
  by (rule expand_covers [of a "\<lambda>_. {}" st]) (use assms in auto)

lemma seed_sync: "set (af_Seen (seed pl i) pl') = set (af_Queue (seed pl i) pl')" "i \<in> set (af_Seen (seed pl i) pl)"
  by (simp_all add: seed_def)

lemma AffectedByStatusChange_covers:
  obtains issueIDs wispIDs where "AffectedByStatusChangeInTx st n = Some (issueIDs, wispIDs)"
    "n \<in> nodes_of issueIDs wispIDs" "closed_under_children st (nodes_of issueIDs wispIDs)"
    "\<And>pl d. d \<in> set (st_Deps st pl) \<Longrightarrow> dep_col (fst n) d = Some (snd n) \<Longrightarrow> direct_type (dr_Type d) \<Longrightarrow>
       (pl, dr_IssueID d) \<in> nodes_of issueIDs wispIDs"
    "\<And>pl d p. d \<in> set (st_Deps st pl) \<Longrightarrow> p = n \<or> p \<in> parents st n \<Longrightarrow> dep_col (fst p) d = Some (snd p) \<Longrightarrow>
       dr_Type d = DepWaitsFor \<Longrightarrow> (pl, dr_IssueID d) \<in> nodes_of issueIDs wispIDs"
proof -
  define a0 where "a0 = seed (fst n) (snd n)"
  define a1 where "a1 = loadBlockingDependersForIDsInTx st (fst n) [snd n] a0"
  define a2 where "a2 = loadWaitersWhoseSpawnerIsParentOfInTx st n a1"
  define a3 where "a3 = loadWaitersOnSpawnerIDsInTx st [snd n] a2"
  have g: "grows a0 a1" "grows a1 a2" "grows a2 a3"
    unfolding a1_def a2_def a3_def
    by (rule loadBlockingDependers_grows loadWaitersOfParent_grows loadWaiters_grows)+
  then have g3: "grows a0 a3" "grows a1 a3" by (blast intro: grows_trans)+
  have sync: "set (af_Seen a3 pl) = set (af_Queue a3 pl)" for pl
    using grows_sync [OF g3(1), where E = "\<lambda>_. {}"] seed_sync(1) unfolding a0_def by simp
  obtain issueIDs wispIDs where e: "expandByParentChildDescendantsInTx st a3 = Some (issueIDs, wispIDs)"
    "\<And>pl i. i \<in> set (af_Seen a3 pl) \<Longrightarrow> (pl, i) \<in> nodes_of issueIDs wispIDs"
    "closed_under_children st (nodes_of issueIDs wispIDs)"
    using expand_closed [OF sync] by metis
  show thesis
  proof (rule that)
    show "AffectedByStatusChangeInTx st n = Some (issueIDs, wispIDs)"
      using e(1) by (simp add: AffectedByStatusChangeInTx_def a0_def a1_def a2_def a3_def)
    have "(fst n, snd n) \<in> nodes_of issueIDs wispIDs"
      using e(2) grows_seen [OF g3(1)] seed_sync(2) unfolding a0_def by blast
    then show "n \<in> nodes_of issueIDs wispIDs" by simp
    show "closed_under_children st (nodes_of issueIDs wispIDs)" by (rule e(3))
    show "(pl, dr_IssueID d) \<in> nodes_of issueIDs wispIDs"
      if "d \<in> set (st_Deps st pl)" "dep_col (fst n) d = Some (snd n)" "direct_type (dr_Type d)" for pl d
      using that e(2) grows_seen [OF g3(2)] loadBlockingDependers_grows(2) [of "snd n" "[snd n]"]
      by (simp add: a1_def)
    show "(pl, dr_IssueID d) \<in> nodes_of issueIDs wispIDs"
      if "d \<in> set (st_Deps st pl)" "p = n \<or> p \<in> parents st n" "dep_col (fst p) d = Some (snd p)"
        "dr_Type d = DepWaitsFor" for pl d p
    proof (cases "p = n")
      case True
      then show ?thesis
        using that e(2) loadWaiters_grows(2) [of "snd n" "[snd n]" d st pl "fst n"] by (simp add: a3_def)
    next
      case False
      then have "(fst p, snd p) \<in> parents st n" using that(2) by simp
      then show ?thesis
        using that e(2) grows_seen [OF g(3)] loadWaitersOfParent_grows(2) [of "fst p" "snd p" st n d pl a1]
        by (simp add: a2_def)
    qed
  qed
qed

section \<open>A change of status\<close>

text \<open>What a row's situation depends on, apart from its parents' flags, is the same for rows that are not affected.\<close>

lemma same_target_parent:
  assumes "same_target d cd" "dr_Type cd = DepParentChild" "cd \<in> set (st_Deps st (fst n))" "dr_IssueID cd = snd n"
  obtains p where "p \<in> parents st n" "dep_col (fst p) d = Some (snd p)"
proof -
  from assms(1) obtain col t where "dep_col col d = Some t" "dep_col col cd = Some t"
    unfolding same_target_def by (metis dep_col_def option.exhaust plane.simps(3, 4))
  then show thesis
    using assms(2-4) by (intro that [of "(col, t)"]) (auto simp: parents_def edges_from_def)
qed

lemma on_target_cong: "(\<And>pl t. dep_col pl d = Some t \<Longrightarrow> P (pl, t) = Q (pl, t)) \<Longrightarrow> on_target P d = on_target Q d"
  by (auto simp: on_target_iff)

lemma some_child_cong:
  assumes "st_Deps st' = st_Deps st"
    and "\<And>pl cd. cd \<in> set (st_Deps st pl) \<Longrightarrow> dr_Type cd = DepParentChild \<Longrightarrow> same_target d cd \<Longrightarrow>
      P (pl, dr_IssueID cd) = Q (pl, dr_IssueID cd)"
  shows "some_child st' d P = some_child st d Q"
  using assms by (auto simp: some_child_def list_ex_iff)

lemma own_reason_cong:
  assumes deps: "st_Deps st' = st_Deps st"
    and direct: "\<And>d. d \<in> set (edges_from st m) \<Longrightarrow> direct_type (dr_Type d) \<or> dr_Type d = DepWaitsFor \<Longrightarrow>
      on_target (live_row st') d = on_target (live_row st) d"
    and kids: "\<And>d P pl cd. d \<in> set (edges_from st m) \<Longrightarrow> dr_Type d = DepWaitsFor \<Longrightarrow> cd \<in> set (st_Deps st pl) \<Longrightarrow>
      dr_Type cd = DepParentChild \<Longrightarrow> same_target d cd \<Longrightarrow> row st' (pl, dr_IssueID cd) = row st (pl, dr_IssueID cd)"
  shows "own_reason jt st' m = own_reason jt st m"
proof -
  have "waitsForGateBlockedSQL jt st' d = waitsForGateBlockedSQL jt st d"
    if d: "d \<in> set (edges_from st m)" "dr_Type d = DepWaitsFor" for d
  proof -
    have "some_child st' d (live_row st') = some_child st d (live_row st)"
      "some_child st' d (closed_row st') = some_child st d (closed_row st)"
      using kids [OF d] by (auto intro!: some_child_cong [OF deps] simp: live_row_def closed_row_def)
    then show ?thesis using direct [OF d(1)] d(2) by (simp add: waitsForGateBlockedSQL_def)
  qed
  moreover have "edges_from st' m = edges_from st m" by (simp add: edges_from_def deps)
  ultimately show ?thesis using direct unfolding own_reason_def list_ex_iff by auto
qed

text \<open>
  Recomputing a set that covers a change: outside it no row's situation differs, and it is closed under
  children. Then the column is right afterwards if it was right before.
\<close>

lemma change_repaired:
  assumes ok: "blocked_ok jt st" and ac: "acyclic (parent_edges st1)" and fl: "flagged st1 = flagged st"
    and out: "\<And>m. m \<notin> nodes_of issueIDs wispIDs \<Longrightarrow> live_row st1 m = live_row st m \<and>
      own_reason jt st1 m = own_reason jt st m \<and> parents st1 m = parents st m"
    and closed: "closed_under_children st1 (nodes_of issueIDs wispIDs)"
  obtains result st' where "RecomputeIsBlockedInTxWithResult jt st1 issueIDs wispIDs = Some (Inr (result, st'))"
    "derived_only st1 st'" "blocked_ok jt st'"
proof -
  let ?S = "nodes_of issueIDs wispIDs"
  obtain result st' where R: "RecomputeIsBlockedInTxWithResult jt st1 issueIDs wispIDs = Some (Inr (result, st'))"
    "derived_only st1 st'" "flagged st' = settled jt st1 issueIDs wispIDs"
    by (rule Recompute_total [OF ac])
  have "flags_ok (live_row st1) (own_reason jt st1) (sound_parents st1) (flagged st')"
    unfolding R(3) settled_def
  proof (rule block.settle_repairs [where act' = "live_row st" and base' = "own_reason jt st" and par' = "parents st"])
    show "flags_ok (live_row st) (own_reason jt st) (parents st) (flagged st1)"
      using ok by (simp add: fl blocked_ok_flags)
    show "live_row st1 m = live_row st m \<and> own_reason jt st1 m = own_reason jt st m \<and>
      sound_parents st1 m = parents st m" if "m \<notin> ?S" for m using out [OF that] by (simp add: sound_parents_eq [OF ac])
    show "m \<in> ?S" if "p \<in> sound_parents st1 m" "p \<in> ?S" for m p
      using that closed unfolding sound_parents_eq [OF ac] closed_under_children_def by blast
  qed
  moreover obtain mid where "flags_only st1 mid" "journal_only mid st'" using R(2) by (auto simp: derived_only_def)
  ultimately have "blocked_ok jt st'"
    by (simp add: blocked_ok_flags sound_parents_eq [OF ac] journal_only_graph flags_only_graph flags_only_status)
  with R show thesis by (intro that)
qed

lemma status_change_repaired:
  assumes ok: "blocked_ok jt st" and ac: "acyclic (parent_edges st)"
    and r: "row st n = Some r" and same: "i_IsBlocked r' = i_IsBlocked r"
    and st1: "st_Deps st1 = st_Deps st" "row st1 = (row st)(n \<mapsto> r')"
    and aff: "AffectedByStatusChangeInTx st0 n = Some (issueIDs, wispIDs)" "st_Deps st0 = st_Deps st"
  obtains result st' where "RecomputeIsBlockedInTxWithResult jt st1 issueIDs wispIDs = Some (Inr (result, st'))"
    "derived_only st1 st'" "blocked_ok jt st'"
proof -
  let ?S = "nodes_of issueIDs wispIDs"
  have p0: "parents st0 = parents st" by (simp add: parents_def [abs_def] edges_from_def aff(2))
  have "closed_under_children st0 = closed_under_children st" by (simp add: closed_under_children_def [abs_def] p0)
  note eqs = this p0 aff(2)
  obtain i w where "AffectedByStatusChangeInTx st0 n = Some (i, w)" and C: "n \<in> nodes_of i w"
    "closed_under_children st (nodes_of i w)"
    "\<And>pl d. d \<in> set (st_Deps st pl) \<Longrightarrow> dep_col (fst n) d = Some (snd n) \<Longrightarrow> direct_type (dr_Type d) \<Longrightarrow>
       (pl, dr_IssueID d) \<in> nodes_of i w"
    "\<And>pl d p. d \<in> set (st_Deps st pl) \<Longrightarrow> p = n \<or> p \<in> parents st n \<Longrightarrow> dep_col (fst p) d = Some (snd p) \<Longrightarrow>
       dr_Type d = DepWaitsFor \<Longrightarrow> (pl, dr_IssueID d) \<in> nodes_of i w"
    using AffectedByStatusChange_covers [of st0 n, unfolded eqs] by metis
  then have iw: "i = issueIDs" "w = wispIDs" using aff(1) by simp_all
  note C = C [unfolded iw]
  have par: "parents st1 = parents st" by (simp add: parents_def [abs_def] edges_from_def st1(1))
  have ac1: "acyclic (parent_edges st1)" using ac by (simp add: parent_edges_def par)
  have fl: "flagged st1 = flagged st" using r same by (auto simp: flagged_def fun_eq_iff st1(2))
  have out: "live_row st1 m = live_row st m \<and> own_reason jt st1 m = own_reason jt st m \<and>
      parents st1 m = parents st m" if m: "m \<notin> ?S" for m
  proof (intro conjI)
    have rows: "x \<noteq> n \<Longrightarrow> row st1 x = row st x" for x by (simp add: st1(2))
    show "live_row st1 m = live_row st m" 
    proof -
      have "m \<noteq> n" using C(1) m by blast
      then show ?thesis by (simp add: live_row_def rows)
    qed
    show "parents st1 m = parents st m" by (simp add: par)
    show "own_reason jt st1 m = own_reason jt st m"
    proof (rule own_reason_cong [OF st1(1)])
      fix d
      assume d: "d \<in> set (edges_from st m)" "direct_type (dr_Type d) \<or> dr_Type d = DepWaitsFor"
      have "(pl, t) \<noteq> n" if "dep_col pl d = Some t" for pl t
        using that d m C(3) [of d "fst m"] C(4) [of d "fst m" n] by (auto simp: edges_from_def)
      then show "on_target (live_row st1) d = on_target (live_row st) d"
        by (intro on_target_cong) (auto simp: live_row_def rows)
    next
      fix d P pl cd
      assume d: "d \<in> set (edges_from st m)" "dr_Type d = DepWaitsFor" "cd \<in> set (st_Deps st pl)"
        "dr_Type cd = DepParentChild" "same_target d cd"
      have "(pl, dr_IssueID cd) \<noteq> n"
      proof
        assume "(pl, dr_IssueID cd) = n"
        then have "cd \<in> set (st_Deps st (fst n))" "dr_IssueID cd = snd n" using d(3) by auto
        then obtain p where "p \<in> parents st n" "dep_col (fst p) d = Some (snd p)"
          by (rule same_target_parent [OF d(5, 4)])
        then have "m \<in> ?S" using d(1, 2) C(4) [of d "fst m" p] by (auto simp: edges_from_def)
        then show False using m by simp
      qed
      then show "row st1 (pl, dr_IssueID cd) = row st (pl, dr_IssueID cd)" by (rule rows)
    qed
  qed
  have "closed_under_children st1 ?S" using C(2) by (simp add: closed_under_children_def par)
  then show thesis using change_repaired [OF ok ac1 fl out] that by metis
qed

section \<open>What repairing the flags leaves alone\<close>

lemma derived_onlyD:
  assumes "derived_only st st'"
  shows "st_Deps st' = st_Deps st" "st_Leases st' = st_Leases st" "st_Config st' = st_Config st"
    "st_CustomStatuses st' = st_CustomStatuses st"
proof -
  obtain mid where m: "flags_only st mid" "journal_only mid st'" using assms by (auto simp: derived_only_def)
  show "st_Deps st' = st_Deps st" "st_Leases st' = st_Leases st" "st_Config st' = st_Config st"
    "st_CustomStatuses st' = st_CustomStatuses st"
    by (simp_all add: journal_onlyD [OF m(2)] flags_onlyD [OF m(1)])
qed

lemma derived_only_row:
  assumes "derived_only st st'"
  shows "map_option unflag (row st' n) = map_option unflag (row st n)"
proof -
  obtain mid where m: "flags_only st mid" "journal_only mid st'" using assms by (auto simp: derived_only_def)
  have "map_option unflag (row mid n) = map_option unflag (row st n)" using m(1) unfolding flags_only_def by blast
  then show ?thesis by (simp add: journal_onlyD(8) [OF m(2)])
qed

lemma derived_only_journal: "derived_only st st1 \<Longrightarrow> journal_only st1 st2 \<Longrightarrow> derived_only st st2"
  unfolding derived_only_def by (blast intro: journal_only_trans)

text \<open>The tables the flags have nothing to do with, and rows that differ in their flags at most.\<close>

definition rest_same :: "store \<Rightarrow> store \<Rightarrow> bool" where
  "rest_same st st' \<longleftrightarrow> st_Leases st' = st_Leases st \<and> st_Config st' = st_Config st \<and> st_CustomStatuses st' = st_CustomStatuses st"

definition rows_kept :: "store \<Rightarrow> store \<Rightarrow> bool" where
  "rows_kept st st' \<longleftrightarrow> (\<forall>n. map_option unflag (row st' n) = map_option unflag (row st n)) \<and> rest_same st st'"

lemma rows_kept_trans: "rows_kept a b \<Longrightarrow> rows_kept b c \<Longrightarrow> rows_kept a c"
  unfolding rows_kept_def rest_same_def by metis

lemma rows_keptI: "row st' = row st \<Longrightarrow> rest_same st st' \<Longrightarrow> rows_kept st st'"
  by (simp add: rows_kept_def)

lemma rows_kept_derived: "derived_only st st' \<Longrightarrow> rows_kept st st'"
  unfolding rows_kept_def rest_same_def using derived_onlyD derived_only_row by blast

lemma rows_kept_journal: "journal_only st st' \<Longrightarrow> rows_kept st st'"
  by (rule rows_keptI) (simp_all add: rest_same_def journal_onlyD)

end
