(* ===== verification/Claims.thy ===== *)
theory Claims
  imports Sql_Filter Blocked_State
begin

text \<open>
  Claiming and releasing work (\<open>claim.go\<close>, \<open>lease.go\<close>, \<open>unclaim.go\<close>, \<open>identity.go\<close>, with the custom
  statuses of \<open>config_helpers.go\<close>): the compare-and-swap claim, the lease table beside it, heartbeats,
  the release of a claim and the recovery of stale ones.

  What an operation reads from its surroundings is the record \<open>env\<close>: the clock (one reading per
  operation), the fresh random \<open>row_lock\<close> tokens by issue, the lease duration of the context, the name
  of this replica and the statuses of the configuration file. An UPDATE affects the rows it matches:
  the fresh token makes every matched row a changed one. The diagnostics that reclaiming prints are
  left out.
\<close>

section \<open>Surroundings\<close>

record env =
  en_Now :: gotime
  en_Lock :: "string \<Rightarrow> int"
  en_TTL :: "int option"
  en_Node :: string
  en_YAML :: "string list"

definition DefaultLeaseTTL :: int where
  "DefaultLeaseTTL = 300 * ns_per_sec"

definition leaseTTL :: "env \<Rightarrow> int" where
  "leaseTTL en = (case en_TTL en of Some ttl \<Rightarrow> if ttl > 0 then ttl else DefaultLeaseTTL | None \<Rightarrow> DefaultLeaseTTL)"

section \<open>Identities\<close>

text \<open>The loop over the runes; an invalid byte is written as U+FFFD.\<close>

definition is_separator :: "char \<Rightarrow> bool" where
  "is_separator c \<longleftrightarrow> c = CHR ''.'' \<or> c = CHR ''_'' \<or> c = CHR ''-''"

function canonical_runes :: "bool \<Rightarrow> string \<Rightarrow> string" where
  "canonical_runes inSeparator s =
     (if s = [] then []
      else if is_separator (hd s)
      then (if inSeparator then [] else ''_'') @ canonical_runes True (tl s)
      else (let w = rune_width s in
            (if w = 1 \<and> byte_val (hd s) \<ge> 128 then utf8_encode 65533 else take w s) @ canonical_runes False (drop w s)))"
  by pat_completeness auto
termination
  by (relation "measure (\<lambda>(_, s). length s)") (auto simp: diff_less)

declare canonical_runes.simps [simp del]

definition canonicalActor :: "string \<Rightarrow> string" where
  "canonicalActor s = canonical_runes False s"

definition actorMatches :: "string \<Rightarrow> string \<Rightarrow> bool" where
  "actorMatches a b \<longleftrightarrow> a = b \<or> canonicalActor a = canonicalActor b"

section \<open>Configuration\<close>

definition ParseStatusFallback :: "string list \<Rightarrow> CustomStatus list" where
  "ParseStatusFallback names =
     (case ParseCustomStatusConfig (join '','' names) of
        Inr parsed \<Rightarrow> parsed
      | Inl _ \<Rightarrow> map (\<lambda>n. \<lparr>cs_Name = n, cs_Category = CategoryUnspecified\<rparr>)
          (filter (\<lambda>n. n \<noteq> []) (map trim_space names)))"

text \<open>The table first, then the configuration value, then the file.\<close>

definition ResolveCustomStatusesDetailedInTx :: "env \<Rightarrow> store \<Rightarrow> CustomStatus list" where
  "ResolveCustomStatusesDetailedInTx en st =
     (if st_CustomStatuses st \<noteq> [] then st_CustomStatuses st
      else let value0 = GetConfigInTx st ''status.custom'' in
        if value0 \<noteq> [] then (case ParseCustomStatusConfig value0 of Inr parsed \<Rightarrow> parsed | Inl _ \<Rightarrow> [])
        else if en_YAML en \<noteq> [] then ParseStatusFallback (en_YAML en)
        else [])"

definition ClaimableSourceStatusesInTx :: "env \<Rightarrow> store \<Rightarrow> string list" where
  "ClaimableSourceStatusesInTx en st =
     StatusOpen # map cs_Name (filter (\<lambda>s. cs_Category s = CategoryActive) (ResolveCustomStatusesDetailedInTx en st))"

definition ParseClaimPools :: "string \<Rightarrow> string list" where
  "ParseClaimPools raw = filter (\<lambda>p. p \<noteq> []) (map trim_space (split_byte (CHR '','') raw))"

definition ClaimPoolAliasesInTx :: "store \<Rightarrow> string list" where
  "ClaimPoolAliasesInTx st = ParseClaimPools (GetConfigInTx st ''claim.pools'')"

section \<open>Leases\<close>

definition set_lease :: "string \<Rightarrow> LeaseRow option \<Rightarrow> store \<Rightarrow> store" where
  "set_lease i l st = st\<lparr>st_Leases := (st_Leases st)(i := l)\<rparr>"

definition UpsertLeaseInTx :: "env \<Rightarrow> store \<Rightarrow> string \<Rightarrow> string \<Rightarrow> store" where
  "UpsertLeaseInTx en st i holder =
     set_lease i (Some \<lparr>l_Holder = holder, l_GrantedAt = en_Now en, l_ExpiresAt = time_Add (en_Now en) (leaseTTL en),
       l_HeartbeatAt = en_Now en, l_GrantedNode = en_Node en\<rparr>) st"

definition DeleteLeaseInTx :: "store \<Rightarrow> string \<Rightarrow> store" where
  "DeleteLeaseInTx st i = set_lease i None st"

text \<open>The lease of an imported issue: never over a live local one, and dropped when the stored row is
  no claim by its holder.\<close>

definition restore_lease :: "env \<Rightarrow> store \<Rightarrow> Issue \<Rightarrow> gotime \<Rightarrow> Issue \<Rightarrow> store" where
  "restore_lease en st issue expires r =
     (let i = i_ID issue; now = en_Now en;
          heartbeat = (case i_HeartbeatAt issue of None \<Rightarrow> now | Some h \<Rightarrow> h);
          restored = \<lparr>l_Holder = i_Assignee r, l_GrantedAt = heartbeat, l_ExpiresAt = expires,
            l_HeartbeatAt = heartbeat, l_GrantedNode = i_LeaseGrantedNode issue\<rparr>
      in case st_Leases st i of
           None \<Rightarrow> set_lease i (Some restored) st
         | Some l \<Rightarrow> if \<not> Before (l_ExpiresAt l) now then st else set_lease i (Some restored) st)"

definition reconcile_lease :: "store \<Rightarrow> string \<Rightarrow> store" where
  "reconcile_lease st i =
     (case st_Leases st i of
        None \<Rightarrow> st
      | Some l \<Rightarrow>
          (case row st (Durable, i) of
             Some r \<Rightarrow> if i_Status r = StatusInProgress \<and> i_Assignee r = l_Holder l then st else DeleteLeaseInTx st i
           | None \<Rightarrow> DeleteLeaseInTx st i))"

definition RestoreLeaseOnImportInTx :: "env \<Rightarrow> store \<Rightarrow> Issue \<Rightarrow> bool \<Rightarrow> store_error + store" where
  "RestoreLeaseOnImportInTx en st issue isNew =
     bindE
       (case i_LeaseExpiresAt issue of
          None \<Rightarrow> Inr st
        | Some expires \<Rightarrow>
            (case row st (Durable, i_ID issue) of
               None \<Rightarrow> Inl (ErrNotFound (i_ID issue))
             | Some r \<Rightarrow>
                 Inr (if i_Status r = StatusInProgress \<and> i_Assignee r \<noteq> [] then restore_lease en st issue expires r else st)))
       (\<lambda>st1. Inr (if isNew then st1 else reconcile_lease st1 (i_ID issue)))"

section \<open>Claiming\<close>

abbreviation EventClaimed :: string where "EventClaimed \<equiv> ''claimed''"
abbreviation EventLeaseReclaimed :: string where "EventLeaseReclaimed \<equiv> ''lease_reclaimed''"

text \<open>The state a lost compare-and-swap reports.\<close>

definition readClaimStateInTx :: "store \<Rightarrow> plane \<Rightarrow> string \<Rightarrow> store_error + (string \<times> status)" where
  "readClaimStateInTx st pl i =
     (case row st (pl, i) of None \<Rightarrow> Inl (NoMatchingRow i) | Some r \<Rightarrow> Inr (i_Assignee r, i_Status r))"

definition assignee_ok :: "store \<Rightarrow> string \<Rightarrow> string \<Rightarrow> bool" where
  "assignee_ok st assignee actor \<longleftrightarrow>
     assignee = [] \<or> actorMatches assignee actor \<or> assignee \<in> set (ClaimPoolAliasesInTx st)"

text \<open>The refusal, by the state that was found.\<close>

definition claim_refusal :: "store \<Rightarrow> string \<Rightarrow> string \<Rightarrow> string \<Rightarrow> status \<Rightarrow> store_error" where
  "claim_refusal st i actor assignee s =
     (if assignee \<noteq> [] \<and> \<not> actorMatches assignee actor \<and> assignee \<notin> set (ClaimPoolAliasesInTx st)
      then ErrAlreadyClaimed i assignee else ErrNotClaimable i s)"

definition claimed_row :: "env \<Rightarrow> string \<Rightarrow> string \<Rightarrow> Issue \<Rightarrow> Issue \<Rightarrow> Issue" where
  "claimed_row en i actor oldIssue r =
     r\<lparr>i_Assignee := actor, i_Status := StatusInProgress, i_UpdatedAt := en_Now en,
       i_StartedAt := (if i_StartedAt oldIssue = None then Some (en_Now en) else i_StartedAt r),
       i_RowVersion := en_Lock en i\<rparr>"

definition ClaimIssueInTx :: "env \<Rightarrow> store \<Rightarrow> string \<Rightarrow> string \<Rightarrow> store_error + (Issue \<times> bool) \<times> store" where
  "ClaimIssueInTx en st i actor =
     (case CheckFieldLen ''actor'' actor of
        Some e \<Rightarrow> Inl (FieldError e)
      | None \<Rightarrow>
          let isWisp = IsActiveWispInTx st i; pl = plane_of st i in
          bindE (GetIssueInTx st i) (\<lambda>oldIssue.
            let claimable = ClaimableSourceStatusesInTx en st;
                hit = (case row st (pl, i) of
                    None \<Rightarrow> None
                  | Some r \<Rightarrow> if assignee_ok st (i_Assignee oldIssue) actor \<and> i_RowVersion r = i_RowVersion oldIssue \<and>
                                i_Status r \<in> set claimable
                             then Some r else None)
            in case hit of
              None \<Rightarrow>
                bindE (readClaimStateInTx st pl i) (\<lambda>(assignee, currentStatus).
                  if actorMatches assignee actor \<and> currentStatus = StatusInProgress then Inr ((oldIssue, isWisp), st)
                  else Inl (claim_refusal st i actor assignee currentStatus))
            | Some r \<Rightarrow>
                let st1 = set_row (pl, i) (Some (claimed_row en i actor oldIssue r)) st;
                    st2 = (if isWisp then st1 else UpsertLeaseInTx en st1 i actor);
                    st3 = RecordFullEventInTable st2 pl i EventClaimed actor (EventIssue oldIssue)
                            (EventFields [(''assignee'', actor), (''status'', StatusInProgress)])
                in bindE (RecordEventInTx st3 EventUpdate i) (\<lambda>st4. Inr ((oldIssue, isWisp), st4))))"

text \<open>The first issue of a list of ready ones that can be claimed.\<close>

fun claim_first :: "env \<Rightarrow> store \<Rightarrow> string list \<Rightarrow> string \<Rightarrow> store_error + Issue option \<times> store" where
  "claim_first en st [] actor = Inr (None, st)"
| "claim_first en st (i # is) actor =
     (case ClaimIssueInTx en st i actor of
        Inl (ErrAlreadyClaimed _ _) \<Rightarrow> claim_first en st is actor
      | Inl (ErrNotClaimable _ _) \<Rightarrow> claim_first en st is actor
      | Inl e \<Rightarrow> Inl e
      | Inr (_, st') \<Rightarrow> bindE (GetIssueInTx st' i) (\<lambda>claimed. Inr (Some claimed, st')))"

section \<open>Heartbeats\<close>

definition HeartbeatIssueInTx :: "env \<Rightarrow> store \<Rightarrow> string \<Rightarrow> string \<Rightarrow> store_error + store" where
  "HeartbeatIssueInTx en st i actor =
     (case (case st_Leases st i of Some l \<Rightarrow> if l_Holder l = actor then Some l else None | None \<Rightarrow> None) of
        Some l \<Rightarrow> Inr (set_lease i (Some (l\<lparr>l_ExpiresAt := time_Add (en_Now en) (leaseTTL en), l_HeartbeatAt := en_Now en,
            l_GrantedNode := (if l_GrantedNode l = [] then en_Node en else l_GrantedNode l)\<rparr>)) st)
      | None \<Rightarrow>
          let isWisp = IsActiveWispInTx st i; pl = plane_of st i in
          (case row st (pl, i) of
             None \<Rightarrow> Inl (ErrNotClaimable i [])
           | Some r \<Rightarrow>
               if i_Assignee r \<noteq> [] \<and> \<not> actorMatches (i_Assignee r) actor then Inl (ErrAlreadyClaimed i (i_Assignee r))
               else if \<not> isWisp \<and> actorMatches (i_Assignee r) actor \<and> i_Status r = StatusInProgress
               then Inr (UpsertLeaseInTx en st i actor)
               else Inl (ErrNotClaimable i (i_Status r))))"

section \<open>Releasing\<close>

definition released_row :: "env \<Rightarrow> string \<Rightarrow> Issue \<Rightarrow> Issue" where
  "released_row en i r = r\<lparr>i_Assignee := [], i_Status := StatusOpen, i_UpdatedAt := en_Now en, i_StartedAt := None,
     i_RowVersion := en_Lock en i\<rparr>"

definition finishUnclaimInTx :: "store \<Rightarrow> plane \<Rightarrow> string \<Rightarrow> string \<Rightarrow> Issue \<Rightarrow> store_error + store" where
  "finishUnclaimInTx st pl i actor oldIssue =
     RecordEventInTx (RecordFullEventInTable (DeleteLeaseInTx st i) pl i ''unclaimed'' actor (EventIssue oldIssue)
       (EventFields [(''assignee'', []), (''status'', StatusOpen)])) EventUpdate i"

text \<open>The compare-and-swap shared by the two releases; \<open>mismatch\<close> is the refusal for another holder.\<close>

definition release_cas ::
    "env \<Rightarrow> store \<Rightarrow> string \<Rightarrow> string \<Rightarrow> Issue \<Rightarrow> (string \<Rightarrow> store_error option) \<Rightarrow> store_error + store" where
  "release_cas en st i actor oldIssue mismatch =
     (let pl = plane_of st i in
      case (case row st (pl, i) of
              None \<Rightarrow> None
            | Some r \<Rightarrow> if i_Status r \<in> {StatusOpen, StatusInProgress} \<and> i_RowVersion r = i_RowVersion oldIssue then Some r else None) of
        Some r \<Rightarrow> finishUnclaimInTx (set_row (pl, i) (Some (released_row en i r)) st) pl i actor oldIssue
      | None \<Rightarrow>
          (case GetIssueInTx st i of
             Inl _ \<Rightarrow> Inl (NoMatchingRow i)
           | Inr current \<Rightarrow> (case mismatch (i_Assignee current) of Some e \<Rightarrow> Inl e | None \<Rightarrow> Inl (NoMatchingRow i))))"

definition UnclaimIssueInTx :: "env \<Rightarrow> store \<Rightarrow> string \<Rightarrow> string \<Rightarrow> bool \<Rightarrow> store_error + store" where
  "UnclaimIssueInTx en st i actor force =
     bindE (GetIssueInTx st i) (\<lambda>oldIssue.
       if i_Status oldIssue = StatusClosed then Inl (CannotUnclaimClosed i)
       else if i_Assignee oldIssue = [] then Inl (NotAssigned i)
       else if \<not> force \<and> \<not> actorMatches (i_Assignee oldIssue) actor then Inl (ErrNotOwner i (i_Assignee oldIssue))
       else release_cas en st i actor oldIssue
         (\<lambda>a. if \<not> force \<and> \<not> actorMatches a actor then Some (ErrNotOwner i a) else None))"

definition UnclaimIssueIfAssigneeInTx :: "env \<Rightarrow> store \<Rightarrow> string \<Rightarrow> string \<Rightarrow> string \<Rightarrow> store_error + store" where
  "UnclaimIssueIfAssigneeInTx en st i actor expected =
     (if expected = [] then Inl (EmptyExpectedAssignee i)
      else bindE (GetIssueInTx st i) (\<lambda>oldIssue.
        if i_Status oldIssue = StatusClosed then Inl (CannotUnclaimClosed i)
        else if \<not> actorMatches (i_Assignee oldIssue) expected then Inl (ErrAssigneeMismatch i (i_Assignee oldIssue) expected)
        else release_cas en st i actor oldIssue
          (\<lambda>a. if \<not> actorMatches a expected then Some (ErrAssigneeMismatch i a expected) else None)))"

section \<open>Reclaiming\<close>

text \<open>The meaning of the scope clauses on an issue; a list of blanks only matches nothing.\<close>

definition reclaim_scope :: "ReclaimFilter \<Rightarrow> string \<Rightarrow> Issue \<Rightarrow> bool" where
  "reclaim_scope f i r \<longleftrightarrow>
     (rf_IDs f = [] \<or> i \<in> set (CompactNonEmptyStrings (rf_IDs f))) \<and>
     (rf_Assignees f = [] \<or> i_Assignee r \<in> set (CompactNonEmptyStrings (rf_Assignees f))) \<and>
     (rf_Labels f = [] \<or> CompactNonEmptyStrings (rf_Labels f) \<noteq> [] \<and>
        set (CompactNonEmptyStrings (rf_Labels f)) \<subseteq> set (i_Labels r)) \<and>
     (rf_LabelsAny f = [] \<or> list_ex (\<lambda>l. l \<in> set (i_Labels r)) (CompactNonEmptyStrings (rf_LabelsAny f))) \<and>
     (rf_ExcludeLabels f = [] \<or> CompactNonEmptyStrings (rf_ExcludeLabels f) \<noteq> [] \<and>
        list_all (\<lambda>l. l \<notin> set (i_Labels r)) (CompactNonEmptyStrings (rf_ExcludeLabels f)))"

definition reclaimReplicaSQL :: "ReclaimFilter \<Rightarrow> string \<Rightarrow> LeaseRow \<Rightarrow> bool" where
  "reclaimReplicaSQL f localNode l \<longleftrightarrow>
     rf_AnyReplica f \<or> localNode = [] \<or> l_GrantedNode l = [] \<or> l_GrantedNode l = localNode"

definition stale_lease :: "env \<Rightarrow> ReclaimFilter \<Rightarrow> gotime \<Rightarrow> LeaseRow \<Rightarrow> bool" where
  "stale_lease en f cutoff l \<longleftrightarrow> Before (l_ExpiresAt l) cutoff \<and> reclaimReplicaSQL f (en_Node en) l"

text \<open>The snapshot, in the order in which the database returns the rows of the lease table.\<close>

definition stale_set :: "env \<Rightarrow> store \<Rightarrow> gotime \<Rightarrow> ReclaimFilter \<Rightarrow> string list \<Rightarrow> (string \<times> string) list" where
  "stale_set en st cutoff f order =
     List.map_filter (\<lambda>i.
       case (st_Leases st i, row st (Durable, i)) of
         (Some l, Some r) \<Rightarrow> if i_Status r = StatusInProgress \<and> stale_lease en f cutoff l \<and> reclaim_scope f i r
                            then Some (i, i_Assignee r) else None
       | _ \<Rightarrow> None) order"

definition reclaim_one ::
    "env \<Rightarrow> gotime \<Rightarrow> ReclaimFilter \<Rightarrow> string \<Rightarrow> store \<Rightarrow> string \<times> string \<Rightarrow> store_error + bool \<times> store" where
  "reclaim_one en cutoff f actor st r =
     (case r of (i, owner) \<Rightarrow>
        case st_Leases st i of
          None \<Rightarrow> Inr (False, st)
        | Some l \<Rightarrow>
            if \<not> stale_lease en f cutoff l then Inr (False, st)
            else let st1 = DeleteLeaseInTx st i in
              (case row st1 (Durable, i) of
                 None \<Rightarrow> Inr (False, st1)
               | Some issue \<Rightarrow>
                   if i_Status issue \<noteq> StatusInProgress then Inr (False, st1)
                   else let st2 = set_row (Durable, i) (Some (released_row en i issue)) st1;
                            st3 = RecordFullEventInTable st2 Durable i EventLeaseReclaimed actor (EventText owner) (EventText [])
                        in bindE (RecordEventInTx st3 EventUpdate i) (\<lambda>st4. Inr (True, st4))))"

fun reclaim_all ::
    "env \<Rightarrow> gotime \<Rightarrow> ReclaimFilter \<Rightarrow> string \<Rightarrow> store \<Rightarrow> (string \<times> string) list \<Rightarrow>
     store_error + (string \<times> string) list \<times> store" where
  "reclaim_all en cutoff f actor st [] = Inr ([], st)"
| "reclaim_all en cutoff f actor st (r # rs) =
     bindE (reclaim_one en cutoff f actor st r) (\<lambda>(done, st1).
       bindE (reclaim_all en cutoff f actor st1 rs) (\<lambda>(reclaimed, st2).
         Inr (if done then r # reclaimed else reclaimed, st2)))"

definition ReclaimExpiredLeasesInTx ::
    "env \<Rightarrow> store \<Rightarrow> gotime \<Rightarrow> ReclaimFilter \<Rightarrow> string list \<Rightarrow> string \<Rightarrow> store_error + (string \<times> string) list \<times> store" where
  "ReclaimExpiredLeasesInTx en st cutoff f order actor =
     reclaim_all en cutoff f actor st (stale_set en st cutoff f order)"

section \<open>Spellings of an identity\<close>

lemma actorMatches_iff: "actorMatches a b \<longleftrightarrow> canonicalActor a = canonicalActor b"
  by (auto simp: actorMatches_def)

lemma actorMatches_equiv:
  "actorMatches a a" "actorMatches a b \<Longrightarrow> actorMatches b a" "actorMatches a b \<Longrightarrow> actorMatches b c \<Longrightarrow> actorMatches a c"
  by (simp_all add: actorMatches_iff)

lemma canonical_runes_Nil [simp]: "canonical_runes q [] = []"
  by (simp add: canonical_runes.simps)

lemma canonical_runes_sep: "is_separator c \<Longrightarrow>
    canonical_runes q (c # s) = (if q then [] else ''_'') @ canonical_runes True s"
  by (simp add: canonical_runes.simps)

text \<open>An identity is never spelled away.\<close>

lemma canonicalActor_Nil_iff: "canonicalActor s = [] \<longleftrightarrow> s = []"
proof (cases "s = []")
  case False
  have w: "rune_width s \<noteq> 0" using rune_width_pos [of s] by linarith
  show ?thesis
    using False unfolding canonicalActor_def by (subst canonical_runes.simps) (auto simp: Let_def utf8_encode_def w)
qed (simp add: canonicalActor_def)

lemma actorMatches_Nil [simp]: "actorMatches [] b \<longleftrightarrow> b = []" "actorMatches a [] \<longleftrightarrow> a = []"
  using canonicalActor_Nil_iff [of a] canonicalActor_Nil_iff [of b] canonicalActor_Nil_iff [of "[]"]
  by (auto simp: actorMatches_iff)

text \<open>A separator is no part of a longer rune, so what precedes it is read the same way whatever follows.\<close>

lemma byte_in_append:
  assumes "byte_val c < 128" "128 \<le> lo"
  shows "byte_in (a @ c # s) k lo hi \<longleftrightarrow> byte_in a k lo hi \<or> length a < k \<and> byte_in (a @ c # s) k lo hi"
proof -
  consider "k < length a" | "k = length a" | "length a < k" by linarith
  then show ?thesis using assms by cases (auto simp: byte_in_def nth_append)
qed

lemma rune_width_before_ascii:
  assumes "a \<noteq> []" "byte_val c < 128"
  shows "rune_width (a @ c # s) = rune_width a" "rune_width a \<le> length a"
proof -
  let ?x = "a @ c # s"
  have e1: "byte_in ?x 1 lo hi = byte_in a 1 lo hi" if "128 \<le> lo" for lo hi
    using byte_in_append [OF assms(2) that, of a s 1 hi] assms(1) by (cases a) auto
  have e2: "byte_in a 1 lo hi \<and> byte_in ?x 2 128 191 \<longleftrightarrow> byte_in a 1 lo hi \<and> byte_in a 2 128 191" for lo hi
    using byte_in_append [OF assms(2), of 128 a s 2 191] by (auto simp: byte_in_def)
  have e3: "byte_in a 1 lo hi \<and> byte_in ?x 2 128 191 \<and> byte_in ?x 3 128 191 \<longleftrightarrow>
      byte_in a 1 lo hi \<and> byte_in a 2 128 191 \<and> byte_in a 3 128 191" for lo hi
    using e2 [of lo hi] byte_in_append [OF assms(2), of 128 a s 3 191] by (auto simp: byte_in_def)
  have lo: "128 \<le> (if b = 224 then 160 else if b = 240 then 144 else (128 :: nat))" for b :: nat by simp
  show "rune_width ?x = rune_width a"
    unfolding rune_width_def Let_def hd_append2 [OF assms(1)] e1 [OF lo] e1 [OF order_refl] e2 e3 by (rule refl)
  show "rune_width a \<le> length a"
    using assms(1) by (simp add: rune_width_def Let_def byte_in_def Suc_le_eq)
qed

lemma canonical_before_separator:
  assumes "is_separator c" "is_separator d" "canonical_runes True s = canonical_runes True t"
  shows "canonical_runes q (a @ c # s) = canonical_runes q (a @ d # t)"
proof (induction a arbitrary: q rule: length_induct)
  case (1 a)
  have ascii: "byte_val c < 128" "byte_val d < 128"
    using assms(1, 2) by (auto simp: is_separator_def)
  show ?case
  proof (cases "a = []")
    case True
    then show ?thesis using assms by (simp add: canonical_runes_sep)
  next
    case False
    note w = rune_width_before_ascii [OF False ascii(1)] rune_width_before_ascii [OF False ascii(2)]
    have IH: "canonical_runes q (drop k a @ c # s) = canonical_runes q (drop k a @ d # t)" if "0 < k" for k q
      using 1 False that by (metis diff_less length_drop length_greater_0_conv)
    show ?thesis
    proof (cases "is_separator (hd a)")
      case True
      then show ?thesis
        using False IH [of 1] by (subst (1 2) canonical_runes.simps) (simp add: hd_append drop_Suc tl_append2)
    next
      case False2: False
      then show ?thesis
        using False w IH [of "rune_width a"]
        by (subst (1 2) canonical_runes.simps) (simp add: hd_append Let_def)
    qed
  qed
qed

text \<open>
  The spellings of an identity that differ in their separators only match one another, and matching
  is an equivalence that keeps the absence of an actor apart from every actor.
\<close>

theorem actorMatches_respelled:
  assumes "seps \<noteq> []" "seps' \<noteq> []" "list_all is_separator seps" "list_all is_separator seps'"
  shows "actorMatches (a @ seps @ b) (a @ seps' @ b) \<and> equivp actorMatches \<and> (actorMatches x [] \<longleftrightarrow> x = [])"
proof -
  obtain c cs d ds where s: "seps = c # cs" "seps' = d # ds" using assms(1, 2) by (meson neq_Nil_conv)
  have run: "canonical_runes True (zs @ b) = canonical_runes True b" if "list_all is_separator zs" for zs
    using that by (induction zs) (simp_all add: canonical_runes_sep)
  have "canonical_runes False (a @ c # (cs @ b)) = canonical_runes False (a @ d # (ds @ b))"
    by (rule canonical_before_separator) (use assms(3, 4) run [of cs] run [of ds] s in simp_all)
  then have "actorMatches (a @ seps @ b) (a @ seps' @ b)" by (simp add: actorMatches_iff canonicalActor_def s)
  moreover have "equivp actorMatches"
    by (rule equivpI) (auto simp: reflp_def symp_def transp_def intro: actorMatches_equiv)
  ultimately show ?thesis by simp
qed

theorem actorMatches_respelled_witness: "actorMatches ''gastown.mayor'' ''gastown__mayor''"
  using actorMatches_respelled [of "''.''" "''__''" "''gastown''" "''mayor''"] by (simp add: is_separator_def)


section \<open>The outcome of a claim\<close>

text \<open>An ID that is in one of the two tables at most. Otherwise the code reads one row and writes the other.\<close>

definition single :: "store \<Rightarrow> string \<Rightarrow> bool" where
  "single st i \<longleftrightarrow> row st (Durable, i) = None \<or> row st (Ephemeral, i) = None"

abbreviation home :: "store \<Rightarrow> string \<Rightarrow> node" where
  "home st i \<equiv> (plane_of st i, i)"

lemma GetIssueInTx_home:
  assumes "single st i"
  shows "GetIssueInTx st i =
    (case row st (home st i) of None \<Rightarrow> Inl (ErrNotFound i)
     | Some r \<Rightarrow> Inr (with_lease (st_Leases st i) (r\<lparr>i_IsBlocked := False\<rparr>)))"
  using assms
  by (auto simp: GetIssueInTx_def getIssueFromTableInTx_def single_def plane_of_def WispTableRouting_def IsActiveWispInTx_def
      split: option.splits)

lemma with_lease_simps [simp]:
  "i_Status (with_lease l r) = i_Status r" "i_Assignee (with_lease l r) = i_Assignee r"
  "i_RowVersion (with_lease l r) = i_RowVersion r" "i_StartedAt (with_lease l r) = i_StartedAt r"
  by (simp_all add: with_lease_def)

lemma set_lease_simps [simp]:
  "row (set_lease i l st) = row st" "st_Leases (set_lease i l st) = (st_Leases st)(i := l)" "st_Deps (set_lease i l st) = st_Deps st"
  "st_Config (set_lease i l st) = st_Config st" "st_CustomStatuses (set_lease i l st) = st_CustomStatuses st"
  by (simp_all add: set_lease_def row_def fun_eq_iff)

lemma RecordFullEventInTable_simps [simp]:
  "row (RecordFullEventInTable st pl i ty actor v w) = row st"
  "st_Leases (RecordFullEventInTable st pl i ty actor v w) = st_Leases st"
  "st_Deps (RecordFullEventInTable st pl i ty actor v w) = st_Deps st"
  "st_Config (RecordFullEventInTable st pl i ty actor v w) = st_Config st"
  "st_CustomStatuses (RecordFullEventInTable st pl i ty actor v w) = st_CustomStatuses st"
  by (simp_all add: RecordFullEventInTable_def row_def fun_eq_iff)

text \<open>What the operations below write: one row, the lease of that issue, events and the journal.\<close>

definition writes :: "store \<Rightarrow> store \<Rightarrow> node \<Rightarrow> Issue \<Rightarrow> (string \<Rightarrow> LeaseRow option) \<Rightarrow> bool" where
  "writes st st' n r leases \<longleftrightarrow> row st' = (row st)(n \<mapsto> r) \<and> st_Leases st' = leases \<and> st_Deps st' = st_Deps st \<and>
     st_Config st' = st_Config st \<and> st_CustomStatuses st' = st_CustomStatuses st"

lemma RecordEventInTx_after:
  assumes "row st n = Some r" "snd n = i"
  shows "\<exists>st'. RecordEventInTx st op i = Inr st' \<and> journal_only st st'"
proof -
  have "row st (Durable, i) \<noteq> None \<or> row st (Ephemeral, i) \<noteq> None"
    using assms by (cases n; cases "fst n") auto
  then show ?thesis by (metis RecordEventInTx_Inr)
qed

definition claim_hit :: "env \<Rightarrow> store \<Rightarrow> string \<Rightarrow> Issue \<Rightarrow> bool" where
  "claim_hit en st actor r \<longleftrightarrow> assignee_ok st (i_Assignee r) actor \<and> i_Status r \<in> set (ClaimableSourceStatusesInTx en st)"

lemma ClaimIssueInTx_won:
  assumes "single st i" "row st (home st i) = Some r" "CheckFieldLen ''actor'' actor = None" "claim_hit en st actor r"
  obtains res st' where "ClaimIssueInTx en st i actor = Inr (res, st')"
    "writes st st' (home st i) (claimed_row en i actor (with_lease (st_Leases st i) (r\<lparr>i_IsBlocked := False\<rparr>)) r)
       (if IsActiveWispInTx st i then st_Leases st else (st_Leases st)(i \<mapsto> \<lparr>l_Holder = actor, l_GrantedAt = en_Now en,
          l_ExpiresAt = time_Add (en_Now en) (leaseTTL en), l_HeartbeatAt = en_Now en, l_GrantedNode = en_Node en\<rparr>))"
proof -
  let ?old = "with_lease (st_Leases st i) (r\<lparr>i_IsBlocked := False\<rparr>)"
  define st1 where "st1 = set_row (home st i) (Some (claimed_row en i actor ?old r)) st"
  define st2 where "st2 = (if IsActiveWispInTx st i then st1 else UpsertLeaseInTx en st1 i actor)"
  define st3 where "st3 = RecordFullEventInTable st2 (plane_of st i) i EventClaimed actor (EventIssue ?old)
    (EventFields [(''assignee'', actor), (''status'', StatusInProgress)])"
  have "row st3 (home st i) = Some (claimed_row en i actor ?old r)"
    by (simp add: st3_def st2_def st1_def UpsertLeaseInTx_def)
  then obtain st4 where j: "RecordEventInTx st3 EventUpdate i = Inr st4" "journal_only st3 st4"
    using RecordEventInTx_after by fastforce
  have "ClaimIssueInTx en st i actor = Inr ((?old, IsActiveWispInTx st i), st4)"
    using assms(2-4) j(1)
    by (cases "IsActiveWispInTx st i")
      (simp_all add: ClaimIssueInTx_def Let_def GetIssueInTx_home [OF assms(1)] claim_hit_def st1_def st2_def st3_def)
  moreover have "row st4 = (row st)(home st i \<mapsto> claimed_row en i actor ?old r)"
    by (simp add: journal_onlyD(8) [OF j(2)] st3_def st2_def st1_def UpsertLeaseInTx_def fun_eq_iff)
  ultimately show thesis
    by (intro that) (auto simp: writes_def journal_onlyD [OF j(2)] st3_def st2_def st1_def UpsertLeaseInTx_def)
qed

lemma ClaimIssueInTx_lost:
  assumes "single st i" "row st (home st i) = Some r" "CheckFieldLen ''actor'' actor = None" "\<not> claim_hit en st actor r"
  shows "ClaimIssueInTx en st i actor =
    (if actorMatches (i_Assignee r) actor \<and> i_Status r = StatusInProgress
     then Inr ((with_lease (st_Leases st i) (r\<lparr>i_IsBlocked := False\<rparr>), IsActiveWispInTx st i), st)
     else Inl (claim_refusal st i actor (i_Assignee r) (i_Status r)))"
  using assms(2-4) unfolding claim_hit_def de_Morgan_conj
  by (elim disjE) (simp_all add: ClaimIssueInTx_def Let_def GetIssueInTx_home [OF assms(1)] readClaimStateInTx_def)

lemma ClaimIssueInTx_error:
  assumes "single st i" "CheckFieldLen ''actor'' actor \<noteq> None \<or> row st (home st i) = None"
  shows "\<exists>e. ClaimIssueInTx en st i actor = Inl e"
  using assms(2) by (auto simp: ClaimIssueInTx_def Let_def GetIssueInTx_home [OF assms(1)] split: option.splits)

text \<open>The three outcomes of a claim that returns.\<close>

lemma ClaimIssueInTx_cases:
  assumes "single st i" "ClaimIssueInTx en st i actor = Inr (res, st')"
  obtains (retry) r where "row st (home st i) = Some r" "actorMatches (i_Assignee r) actor" "i_Status r = StatusInProgress"
      "st' = st" "CheckFieldLen ''actor'' actor = None"
    | (won) r leases where "row st (home st i) = Some r" "claim_hit en st actor r" "CheckFieldLen ''actor'' actor = None"
      "writes st st' (home st i) (claimed_row en i actor (with_lease (st_Leases st i) (r\<lparr>i_IsBlocked := False\<rparr>)) r) leases"
      "leases = (if IsActiveWispInTx st i then st_Leases st else (st_Leases st)(i \<mapsto> \<lparr>l_Holder = actor, l_GrantedAt = en_Now en,
          l_ExpiresAt = time_Add (en_Now en) (leaseTTL en), l_HeartbeatAt = en_Now en, l_GrantedNode = en_Node en\<rparr>))"
proof -
  have c: "CheckFieldLen ''actor'' actor = None" "row st (home st i) \<noteq> None"
    using ClaimIssueInTx_error [OF assms(1), of actor en] assms(2) by fastforce+
  then obtain r where r: "row st (home st i) = Some r" by blast
  show thesis
  proof (cases "claim_hit en st actor r")
    case True
    show thesis by (rule ClaimIssueInTx_won [OF assms(1) r c(1) True]) (use assms(2) won [OF r True c(1)] in auto)
  next
    case False
    then show thesis using ClaimIssueInTx_lost [OF assms(1) r c(1) False] assms(2) retry [OF r] c(1) by (auto split: if_splits)
  qed
qed


lemma writes_same_home: "writes st st' (home st i) r' leases \<Longrightarrow> row st (home st i) \<noteq> None \<Longrightarrow> home st' i = home st i"
  by (auto simp: writes_def plane_of_def WispTableRouting_def IsActiveWispInTx_def split: if_splits)

lemma writes_single: "writes st st' (home st i) r' leases \<Longrightarrow> single st i \<Longrightarrow> row st (home st i) \<noteq> None \<Longrightarrow> single st' i"
  by (auto simp: writes_def single_def plane_of_def WispTableRouting_def IsActiveWispInTx_def split: if_splits)

lemma claimed_row_simps [simp]:
  "i_Assignee (claimed_row en i actor old r) = actor" "i_Status (claimed_row en i actor old r) = StatusInProgress"
  "i_IsBlocked (claimed_row en i actor old r) = i_IsBlocked r"
  by (simp_all add: claimed_row_def)

lemma pools_config: "st_Config st' = st_Config st \<Longrightarrow> ClaimPoolAliasesInTx st' = ClaimPoolAliasesInTx st"
  by (simp add: ClaimPoolAliasesInTx_def GetConfigInTx_def)

text \<open>After a successful claim the row is in progress and held by the actor, in some spelling.\<close>

lemma ClaimIssueInTx_holds:
  assumes "single st i" "ClaimIssueInTx en st i actor = Inr (res, st')"
  obtains r where "row st' (home st' i) = Some r" "i_Status r = StatusInProgress" "actorMatches (i_Assignee r) actor"
    "single st' i" "CheckFieldLen ''actor'' actor = None"
  using assms
proof (cases rule: ClaimIssueInTx_cases)
  case (retry r)
  then show thesis using that assms(1) by blast
next
  case (won r leases)
  then show thesis
    using that writes_same_home [OF won(4)] writes_single [OF won(4) assms(1)]
    by (simp add: writes_def actorMatches_equiv(1))
qed

text \<open>
  C4: a claim is exclusive and can be retried. After a successful claim by one actor, a second actor is
  refused with the name of the holder (unless the holder is a pool alias, whose work anyone may take),
  whatever the clock and the configuration of statuses say by then. The first actor may claim again,
  in any spelling of its name, and changes nothing.
\<close>

theorem claim_exclusive:
  assumes "single st i" "ClaimIssueInTx en st i actor = Inr (res, st')" "actor \<noteq> []"
  shows "(\<exists>holder. actorMatches holder actor \<and>
      (\<forall>en' other. rune_count other \<le> MaxFieldLen \<and> \<not> actorMatches actor other \<and> holder \<notin> set (ClaimPoolAliasesInTx st) \<longrightarrow>
         ClaimIssueInTx en' st' i other = Inl (ErrAlreadyClaimed i holder))) \<and>
    (\<forall>en' again. actorMatches again actor \<and> rune_count again \<le> MaxFieldLen \<and>
        StatusInProgress \<notin> set (ClaimableSourceStatusesInTx en' st') \<longrightarrow>
       (\<exists>res'. ClaimIssueInTx en' st' i again = Inr (res', st')))"
proof -
  obtain r where r: "row st' (home st' i) = Some r" "i_Status r = StatusInProgress" "actorMatches (i_Assignee r) actor"
    "single st' i" by (rule ClaimIssueInTx_holds [OF assms(1, 2)])
  have pools: "ClaimPoolAliasesInTx st' = ClaimPoolAliasesInTx st"
    using assms(1, 2) by (cases rule: ClaimIssueInTx_cases) (auto simp: writes_def intro: pools_config)
  have len: "CheckFieldLen ''actor'' a = None" if "rune_count a \<le> MaxFieldLen" for a
    using that by (simp add: CheckFieldLen_def Let_def)
  have "ClaimIssueInTx en' st' i other = Inl (ErrAlreadyClaimed i (i_Assignee r))"
    if o: "rune_count other \<le> MaxFieldLen" "\<not> actorMatches actor other" "i_Assignee r \<notin> set (ClaimPoolAliasesInTx st)" for en' other
  proof -
    have no: "\<not> actorMatches (i_Assignee r) other" "i_Assignee r \<noteq> []"
      using r(3) o(2) assms(3) by (auto simp: actorMatches_iff canonicalActor_Nil_iff) (metis canonicalActor_Nil_iff)
    then have "\<not> claim_hit en' st' other r" using o(3) pools by (simp add: claim_hit_def assignee_ok_def)
    then show ?thesis
      using ClaimIssueInTx_lost [OF r(4, 1) len [OF o(1)]] no o(3) pools by (simp add: claim_refusal_def)
  qed
  moreover have "\<exists>res'. ClaimIssueInTx en' st' i again = Inr (res', st')"
    if a: "actorMatches again actor" "rune_count again \<le> MaxFieldLen" "StatusInProgress \<notin> set (ClaimableSourceStatusesInTx en' st')"
    for en' again
  proof -
    have "\<not> claim_hit en' st' again r" using a(3) r(2) by (simp add: claim_hit_def)
    then show ?thesis
      using ClaimIssueInTx_lost [OF r(4, 1) len [OF a(2)]] r(2, 3) a(1) by (simp add: actorMatches_iff)
  qed
  ultimately show ?thesis using r(3) by blast
qed

section \<open>Leases belong to claims\<close>

text \<open>Every lease is of an issue in progress whose assignee is the holder, in some spelling.\<close>

definition lease_of :: "store \<Rightarrow> string \<Rightarrow> LeaseRow \<Rightarrow> bool" where
  "lease_of st i l \<longleftrightarrow> (\<exists>r. row st (Durable, i) = Some r \<and> i_Status r = StatusInProgress \<and> actorMatches (i_Assignee r) (l_Holder l))"

definition leases_ok :: "store \<Rightarrow> bool" where
  "leases_ok st \<longleftrightarrow> (\<forall>i l. st_Leases st i = Some l \<longrightarrow> lease_of st i l)"

lemma leases_okD: "leases_ok st \<Longrightarrow> st_Leases st i = Some l \<Longrightarrow> lease_of st i l"
  by (simp add: leases_ok_def)

text \<open>A write of a row keeps them when it leaves the other leases alone and the own one fits.\<close>

lemma leases_ok_write:
  assumes "leases_ok st" "\<And>m. m \<noteq> n \<Longrightarrow> row st' m = row st m" "\<And>j. j \<noteq> snd n \<Longrightarrow> st_Leases st' j = st_Leases st j"
    and "\<And>l. st_Leases st' (snd n) = Some l \<Longrightarrow> lease_of st' (snd n) l"
  shows "leases_ok st'"
  unfolding leases_ok_def
proof (intro allI impI)
  fix j l
  assume l: "st_Leases st' j = Some l"
  show "lease_of st' j l"
  proof (cases "j = snd n")
    case False
    then have "st_Leases st j = Some l" "row st' (Durable, j) = row st (Durable, j)"
      using l assms(2) [of "(Durable, j)"] assms(3) by (cases n; auto)+
    then show ?thesis using leases_okD [OF assms(1)] by (simp add: lease_of_def)
  qed (use l assms(4) in blast)
qed

lemma journal_only_leases: "journal_only st st' \<Longrightarrow> leases_ok st' = leases_ok st"
  by (simp add: leases_ok_def lease_of_def journal_onlyD)

lemma ClaimIssueInTx_leases:
  assumes "leases_ok st" "single st i" "ClaimIssueInTx en st i actor = Inr (res, st')"
  shows "leases_ok st'"
  using assms(2, 3)
proof (cases rule: ClaimIssueInTx_cases)
  case (won r leases)
  have pl: "plane_of st i = (if IsActiveWispInTx st i then Ephemeral else Durable)"
    by (simp add: plane_of_def WispTableRouting_def)
  show ?thesis
    by (rule leases_ok_write [OF assms(1), of "home st i"])
      (use won(4, 5) pl leases_okD [OF assms(1), of i] in
        \<open>auto simp: writes_def lease_of_def actorMatches_equiv(1) split: if_splits\<close>)
qed (use assms(1) in simp)


lemma HeartbeatIssueInTx_cases:
  assumes "HeartbeatIssueInTx en st i actor = Inr st'"
  obtains l where "st' = set_lease i (Some l) st" "l_Holder l = actor" "l_ExpiresAt l = time_Add (en_Now en) (leaseTTL en)"
    "(\<exists>l0. st_Leases st i = Some l0 \<and> l_Holder l0 = actor) \<or> lease_of st i l"
proof -
  have D: "\<not> IsActiveWispInTx st i \<Longrightarrow> plane_of st i = Durable" by (simp add: plane_of_def WispTableRouting_def)
  show thesis
    using assms that D
    by (auto simp: HeartbeatIssueInTx_def Let_def UpsertLeaseInTx_def lease_of_def split: option.splits if_splits)
qed

lemma HeartbeatIssueInTx_leases:
  assumes "leases_ok st" "HeartbeatIssueInTx en st i actor = Inr st'"
  shows "leases_ok st'"
proof -
  obtain l where l: "st' = set_lease i (Some l) st" "l_Holder l = actor"
    "(\<exists>l0. st_Leases st i = Some l0 \<and> l_Holder l0 = actor) \<or> lease_of st i l"
    by (rule HeartbeatIssueInTx_cases [OF assms(2)])
  then have "lease_of st i l" using leases_okD [OF assms(1)] unfolding lease_of_def by metis
  then show ?thesis
    by (intro leases_ok_write [OF assms(1), of "(Durable, i)"]) (auto simp: l lease_of_def)
qed

text \<open>A release that returns has cleared the row and dropped the lease.\<close>

lemma release_cas_Inr:
  assumes "release_cas en st i actor old mismatch = Inr st'"
  obtains r where "row st (home st i) = Some r" "i_Status r \<in> {StatusOpen, StatusInProgress}" "i_RowVersion r = i_RowVersion old"
    "writes st st' (home st i) (released_row en i r) ((st_Leases st)(i := None))"
proof -
  obtain r where r: "row st (home st i) = Some r" "i_Status r \<in> {StatusOpen, StatusInProgress}" "i_RowVersion r = i_RowVersion old"
    "finishUnclaimInTx (set_row (home st i) (Some (released_row en i r)) st) (plane_of st i) i actor old = Inr st'"
    using assms by (auto simp: release_cas_def Let_def split: option.splits if_splits sum.splits)
  note j = RecordEventInTx_only [OF r(4) [unfolded finishUnclaimInTx_def]]
  have "row st' = (row st)(home st i \<mapsto> released_row en i r)"
    by (simp add: journal_onlyD(8) [OF j] DeleteLeaseInTx_def fun_eq_iff)
  then show thesis using r(1-3) j by (intro that) (auto simp: writes_def journal_onlyD DeleteLeaseInTx_def)
qed

lemma writes_no_lease:
  assumes "leases_ok st" "writes st st' n r ((st_Leases st)(snd n := None))"
  shows "leases_ok st'"
  by (rule leases_ok_write [OF assms(1), of n]) (use assms(2) in \<open>auto simp: writes_def\<close>)

lemma release_cas_leases:
  assumes "leases_ok st" "release_cas en st i actor old mismatch = Inr st'"
  shows "leases_ok st'"
  by (rule release_cas_Inr [OF assms(2)], rule writes_no_lease [OF assms(1), of _ "home st i"]) simp

lemma UnclaimIssueInTx_cas:
  assumes "UnclaimIssueInTx en st i actor force = Inr st'"
  obtains old mismatch where "GetIssueInTx st i = Inr old" "i_Assignee old \<noteq> []" "force \<or> actorMatches (i_Assignee old) actor"
    "release_cas en st i actor old mismatch = Inr st'"
  using assms by (auto simp: UnclaimIssueInTx_def bindE_eq_Inr_iff split: if_splits)

lemma UnclaimIssueIfAssigneeInTx_cas:
  assumes "UnclaimIssueIfAssigneeInTx en st i actor expected = Inr st'"
  obtains old mismatch where "GetIssueInTx st i = Inr old" "expected \<noteq> []" "actorMatches (i_Assignee old) expected"
    "release_cas en st i actor old mismatch = Inr st'"
  using assms by (auto simp: UnclaimIssueIfAssigneeInTx_def bindE_eq_Inr_iff split: if_splits)

lemma restore_lease_leases:
  assumes "leases_ok st" "row st (Durable, i_ID issue) = Some r" "i_Status r = StatusInProgress"
  shows "leases_ok (restore_lease en st issue expires r)" (is "leases_ok ?st'")
proof -
  have "?st' = st \<or> (\<exists>l. l_Holder l = i_Assignee r \<and> ?st' = set_lease (i_ID issue) (Some l) st)"
  proof -
    define h where "h = (case i_HeartbeatAt issue of None \<Rightarrow> en_Now en | Some h \<Rightarrow> h)"
    define l where "l = \<lparr>l_Holder = i_Assignee r, l_GrantedAt = h, l_ExpiresAt = expires, l_HeartbeatAt = h,
      l_GrantedNode = i_LeaseGrantedNode issue\<rparr>"
    have "l_Holder l = i_Assignee r" by (simp add: l_def)
    moreover have "?st' = st \<or> ?st' = set_lease (i_ID issue) (Some l) st"
      by (simp add: restore_lease_def Let_def l_def h_def split: option.split)
    ultimately show ?thesis by blast
  qed
  moreover have "leases_ok (set_lease (i_ID issue) (Some l) st)" if "l_Holder l = i_Assignee r" for l
    by (rule leases_ok_write [OF assms(1), of "(Durable, i_ID issue)"])
      (use assms(2, 3) that in \<open>auto simp: lease_of_def actorMatches_equiv(1)\<close>)
  ultimately show ?thesis using assms(1) by auto
qed

lemma reconcile_lease_leases:
  assumes "leases_ok st"
  shows "leases_ok (reconcile_lease st i)"
proof -
  have "leases_ok (DeleteLeaseInTx st i)"
    by (rule leases_ok_write [OF assms, of "(Durable, i)"]) (auto simp: DeleteLeaseInTx_def)
  then show ?thesis using assms by (auto simp: reconcile_lease_def split: option.splits)
qed

lemma RestoreLeaseOnImportInTx_leases:
  assumes "leases_ok st" "RestoreLeaseOnImportInTx en st issue isNew = Inr st'"
  shows "leases_ok st'"
  using assms restore_lease_leases reconcile_lease_leases
  by (auto simp: RestoreLeaseOnImportInTx_def split: option.splits if_splits)

section \<open>Reclaiming takes exactly the stale claims\<close>

definition stale_claim :: "env \<Rightarrow> store \<Rightarrow> gotime \<Rightarrow> ReclaimFilter \<Rightarrow> string \<Rightarrow> bool" where
  "stale_claim en st cutoff f i \<longleftrightarrow>
     (\<exists>l r. st_Leases st i = Some l \<and> row st (Durable, i) = Some r \<and> i_Status r = StatusInProgress \<and>
        Before (l_ExpiresAt l) cutoff \<and> reclaimReplicaSQL f (en_Node en) l \<and> reclaim_scope f i r)"

lemma map_filter_fst:
  assumes "\<And>x. map_option fst (g x) = (if P x then Some x else None)"
  shows "map fst (List.map_filter g xs) = filter P xs"
proof (induction xs)
  case (Cons x xs)
  then show ?case using assms [of x] by (cases "g x") (auto simp: map_filter_simps split: if_splits)
qed (simp add: map_filter_simps)

lemma stale_set_ids: "map fst (stale_set en st cutoff f order) = filter (stale_claim en st cutoff f) order"
  unfolding stale_set_def
proof (rule map_filter_fst)
  fix i
  show "map_option fst (case (st_Leases st i, row st (Durable, i)) of
      (Some l, Some r) \<Rightarrow> if i_Status r = StatusInProgress \<and> stale_lease en f cutoff l \<and> reclaim_scope f i r
        then Some (i, i_Assignee r) else None | _ \<Rightarrow> None) = (if stale_claim en st cutoff f i then Some i else None)"
    by (cases "st_Leases st i"; cases "row st (Durable, i)") (simp_all add: stale_claim_def stale_lease_def)
qed

text \<open>What a sweep over a list of claims leaves behind.\<close>

definition swept :: "env \<Rightarrow> store \<Rightarrow> store \<Rightarrow> string set \<Rightarrow> bool" where
  "swept en st st' S \<longleftrightarrow>
     (\<forall>i. st_Leases st' i = (if i \<in> S then None else st_Leases st i)) \<and>
     (\<forall>n. row st' n = (if fst n = Durable \<and> snd n \<in> S then map_option (released_row en (snd n)) (row st n) else row st n)) \<and>
     st_Deps st' = st_Deps st \<and> st_Config st' = st_Config st \<and> st_CustomStatuses st' = st_CustomStatuses st"

lemma reclaim_one_hit:
  assumes "st_Leases st i = Some l" "stale_lease en f cutoff l" "row st (Durable, i) = Some r" "i_Status r = StatusInProgress"
  obtains st' where "reclaim_one en cutoff f actor st (i, owner) = Inr (True, st')" "swept en st st' {i}"
proof -
  define st3 where "st3 = RecordFullEventInTable (set_row (Durable, i) (Some (released_row en i r)) (DeleteLeaseInTx st i)) Durable i
    EventLeaseReclaimed actor (EventText owner) (EventText [])"
  have "row st3 (Durable, i) = Some (released_row en i r)" by (simp add: st3_def)
  then obtain st4 where j: "RecordEventInTx st3 EventUpdate i = Inr st4" "journal_only st3 st4"
    using RecordEventInTx_after [of st3 "(Durable, i)"] by fastforce
  have "reclaim_one en cutoff f actor st (i, owner) = Inr (True, st4)"
    using assms j(1) by (simp add: reclaim_one_def Let_def DeleteLeaseInTx_def st3_def)
  moreover have "swept en st st4 {i}"
    using assms(3) by (auto simp: swept_def journal_onlyD [OF j(2)] st3_def DeleteLeaseInTx_def)
  ultimately show thesis by (rule that)
qed

lemma reclaim_all_hits:
  "distinct (map fst rs) \<Longrightarrow>
   (\<And>i. i \<in> fst ` set rs \<Longrightarrow> \<exists>l r. st_Leases st i = Some l \<and> stale_lease en f cutoff l \<and>
      row st (Durable, i) = Some r \<and> i_Status r = StatusInProgress) \<Longrightarrow>
   \<exists>st'. reclaim_all en cutoff f actor st rs = Inr (rs, st') \<and> swept en st st' (fst ` set rs)"
proof (induction rs arbitrary: st)
  case Nil
  then show ?case by (simp add: swept_def)
next
  case (Cons x rs)
  obtain i owner where x: "x = (i, owner)" by fastforce
  from Cons.prems(2) [of i] x obtain l r where "st_Leases st i = Some l" "stale_lease en f cutoff l"
    "row st (Durable, i) = Some r" "i_Status r = StatusInProgress" by auto
  then obtain st1 where one: "reclaim_one en cutoff f actor st (i, owner) = Inr (True, st1)" "swept en st st1 {i}"
    by (rule reclaim_one_hit)
  have "i \<notin> fst ` set rs" using Cons.prems(1) x by auto
  have same: "st_Leases st1 j = st_Leases st j" "row st1 (Durable, j) = row st (Durable, j)" if "j \<noteq> i" for j
    using one(2) that by (simp_all add: swept_def)
  have "\<exists>l r. st_Leases st1 j = Some l \<and> stale_lease en f cutoff l \<and> row st1 (Durable, j) = Some r \<and> i_Status r = StatusInProgress"
    if "j \<in> fst ` set rs" for j
  proof -
    have "j \<noteq> i" using that \<open>i \<notin> fst ` set rs\<close> by blast
    moreover have "j \<in> fst ` set (x # rs)" using that by simp
    ultimately show ?thesis using Cons.prems(2) [of j] same [of j] by metis
  qed
  moreover have "distinct (map fst rs)" using Cons.prems(1) by simp
  ultimately obtain st2 where rest: "reclaim_all en cutoff f actor st1 rs = Inr (rs, st2)" "swept en st1 st2 (fst ` set rs)"
    using Cons.IH [of st1] by blast
  have "swept en st st2 (fst ` set (x # rs))"
    using one(2) rest(2) \<open>i \<notin> fst ` set rs\<close> unfolding swept_def x by simp
  then show ?case using one(1) rest(1) x by simp
qed

lemma reclaim_sweeps:
  assumes "distinct order"
  obtains reclaimed st' where "ReclaimExpiredLeasesInTx en st cutoff f order actor = Inr (reclaimed, st')"
    "fst ` set reclaimed = {i \<in> set order. stale_claim en st cutoff f i}"
    "swept en st st' {i \<in> set order. stale_claim en st cutoff f i}"
proof -
  let ?rs = "stale_set en st cutoff f order"
  have S: "fst ` set ?rs = {i \<in> set order. stale_claim en st cutoff f i}"
    unfolding list.set_map [symmetric] stale_set_ids by simp
  have "\<exists>l r. st_Leases st i = Some l \<and> stale_lease en f cutoff l \<and> row st (Durable, i) = Some r \<and> i_Status r = StatusInProgress"
    if "i \<in> fst ` set ?rs" for i using that unfolding S by (auto simp: stale_claim_def stale_lease_def)
  then obtain st' where "reclaim_all en cutoff f actor st ?rs = Inr (?rs, st')" "swept en st st' (fst ` set ?rs)"
    using reclaim_all_hits [of ?rs st en f cutoff actor] assms unfolding stale_set_ids by (meson distinct_filter)
  then show thesis by (intro that [of ?rs st']) (simp_all only: ReclaimExpiredLeasesInTx_def S)
qed

text \<open>
  C5: reclaiming reverts exactly the stale claims in its scope. A claim is taken back if its lease
  expired before the cutoff, the guard on the granting replica admits it and the filter selects it;
  then the issue is open and unassigned again and the lease is gone. Every other claim keeps its lease
  and its row, and no wisp and no edge is touched.
\<close>

theorem reclaim_exact:
  assumes "distinct order" "\<And>i. st_Leases st i \<noteq> None \<Longrightarrow> i \<in> set order"
  shows "\<exists>reclaimed st'. ReclaimExpiredLeasesInTx en st cutoff f order actor = Inr (reclaimed, st') \<and>
    fst ` set reclaimed = {i. stale_claim en st cutoff f i} \<and> swept en st st' {i. stale_claim en st cutoff f i}"
proof -
  have "{i \<in> set order. stale_claim en st cutoff f i} = {i. stale_claim en st cutoff f i}"
    using assms(2) by (auto simp: stale_claim_def)
  then show ?thesis using reclaim_sweeps [OF assms(1), of en st cutoff f actor] by metis
qed

section \<open>Examples\<close>

definition clock :: env where
  "clock = \<lparr>en_Now = \<lparr>t_ns = 0, t_off = 0\<rparr>, en_Lock = (\<lambda>_. 7), en_TTL = None, en_Node = ''n1'', en_YAML = []\<rparr>"

definition open_task :: store where
  "open_task = set_row (Durable, ''bd-1'') (Some (zero_issue\<lparr>i_ID := ''bd-1'', i_Status := StatusOpen\<rparr>)) empty_store"

lemma open_task_claimed:
  obtains res st' where "ClaimIssueInTx clock open_task ''bd-1'' ''alice'' = Inr (res, st')" "single open_task ''bd-1''"
    "writes open_task st' (Durable, ''bd-1'') (claimed_row clock ''bd-1'' ''alice''
        (with_lease None (zero_issue\<lparr>i_ID := ''bd-1'', i_Status := StatusOpen, i_IsBlocked := False\<rparr>))
        (zero_issue\<lparr>i_ID := ''bd-1'', i_Status := StatusOpen\<rparr>))
      [''bd-1'' \<mapsto> \<lparr>l_Holder = ''alice'', l_GrantedAt = en_Now clock, l_ExpiresAt = time_Add (en_Now clock) DefaultLeaseTTL,
         l_HeartbeatAt = en_Now clock, l_GrantedNode = ''n1''\<rparr>]"
proof -
  have s: "single open_task ''bd-1''" "\<not> IsActiveWispInTx open_task ''bd-1''"
    by (simp_all add: open_task_def single_def IsActiveWispInTx_def row_def empty_store_def set_row_def)
  then have pl: "plane_of open_task ''bd-1'' = Durable" by (simp add: plane_of_def WispTableRouting_def)
  have r: "row open_task (home open_task ''bd-1'') = Some (zero_issue\<lparr>i_ID := ''bd-1'', i_Status := StatusOpen\<rparr>)"
    unfolding pl by (simp add: open_task_def)
  have hit: "claim_hit clock open_task ''alice'' (zero_issue\<lparr>i_ID := ''bd-1'', i_Status := StatusOpen\<rparr>)"
    by (simp add: claim_hit_def assignee_ok_def ClaimableSourceStatusesInTx_def zero_issue_def)
  have len: "CheckFieldLen ''actor'' ''alice'' = None" by code_simp
  have L: "st_Leases open_task = (\<lambda>_. None)" "leaseTTL clock = DefaultLeaseTTL" "en_Node clock = ''n1''"
    by (simp_all add: open_task_def empty_store_def leaseTTL_def clock_def)
  show thesis
    by (rule ClaimIssueInTx_won [OF s(1) r len hit]) (use that s in \<open>simp add: pl L\<close>)
qed

theorem claim_exclusive_witness:
  "\<exists>res st' holder. ClaimIssueInTx clock open_task ''bd-1'' ''alice'' = Inr (res, st') \<and>
     ClaimIssueInTx clock st' ''bd-1'' ''bob'' = Inl (ErrAlreadyClaimed ''bd-1'' holder)"
proof -
  obtain res st' where c: "ClaimIssueInTx clock open_task ''bd-1'' ''alice'' = Inr (res, st')" "single open_task ''bd-1''"
    by (rule open_task_claimed)
  have "rune_count ''bob'' \<le> MaxFieldLen" "\<not> actorMatches ''alice'' ''bob''" by code_simp+
  moreover have "set (ClaimPoolAliasesInTx open_task) = {}" by code_simp
  ultimately show ?thesis using claim_exclusive [OF c(2, 1)] c(1) by fastforce
qed

text \<open>A claim whose lease ran out, and a sweep of everything.\<close>

definition stale_task :: store where
  "stale_task = set_lease ''bd-1'' (Some \<lparr>l_Holder = ''alice'', l_GrantedAt = en_Now clock, l_ExpiresAt = en_Now clock,
       l_HeartbeatAt = en_Now clock, l_GrantedNode = ''n1''\<rparr>)
     (set_row (Durable, ''bd-1'') (Some (zero_issue\<lparr>i_ID := ''bd-1'', i_Status := StatusInProgress, i_Assignee := ''alice''\<rparr>)) empty_store)"

definition sweep_all :: ReclaimFilter where
  "sweep_all = \<lparr>rf_IDs = [], rf_Assignees = [], rf_Labels = [], rf_LabelsAny = [], rf_ExcludeLabels = [], rf_AnyReplica = False\<rparr>"

theorem reclaim_exact_witness:
  "\<exists>reclaimed st'. ReclaimExpiredLeasesInTx clock stale_task \<lparr>t_ns = 1, t_off = 0\<rparr> sweep_all [''bd-1''] ''reaper'' =
      Inr (reclaimed, st') \<and> fst ` set reclaimed = {''bd-1''} \<and> st_Leases st' ''bd-1'' = None"
proof -
  have "{i. stale_claim clock stale_task \<lparr>t_ns = 1, t_off = 0\<rparr> sweep_all i} = {''bd-1''}"
    by (auto simp: stale_claim_def stale_task_def empty_store_def sweep_all_def Before_def reclaimReplicaSQL_def reclaim_scope_def clock_def
        split: if_splits)
  moreover have "st_Leases stale_task i \<noteq> None \<Longrightarrow> i \<in> set [''bd-1'']" for i
    by (auto simp: stale_task_def empty_store_def split: if_splits)
  ultimately show ?thesis
    using reclaim_exact [of "[''bd-1'']" stale_task clock "\<lparr>t_ns = 1, t_off = 0\<rparr>" sweep_all "''reaper''"] by (force simp: swept_def)
qed

end
