(* ===== verification/Dependency_Edges.thy ===== *)
theory Dependency_Edges
  imports Blocked_State "HOL-Library.While_Combinator"
begin

text \<open>
  Adding and removing dependency edges (\<open>dependencies.go\<close>): routing, validation, the two graph checks
  (no cycle among scheduling edges, no blocking edge along the hierarchy), the write, and the
  maintenance of \<open>is_blocked\<close>. The recursive queries compute reachability, modelled by the worklist
  computation of the library. Coordination cells (random values that make concurrent transactions
  collide and are never read) are left out; the stored creation time of an edge as well.
\<close>

section \<open>Definitions\<close>

datatype DepTargetKind = DepTargetIssue | DepTargetWisp | DepTargetExternal

definition has_external_prefix :: "string \<Rightarrow> bool" where
  "has_external_prefix i \<longleftrightarrow> has_prefix i ''external:''"

definition IsExternalDepTarget :: "string \<Rightarrow> string \<Rightarrow> bool" where
  "IsExternalDepTarget sourceID targetID \<longleftrightarrow>
     has_external_prefix targetID \<or> ExtractPrefix sourceID \<noteq> ExtractPrefix targetID"

definition ClassifyDepTarget :: "store \<Rightarrow> Dependency \<Rightarrow> bool \<Rightarrow> DepTargetKind" where
  "ClassifyDepTarget st dep isCrossPrefix =
     (if isCrossPrefix \<or> IsExternalDepTarget (d_IssueID dep) (d_DependsOnID dep) then DepTargetExternal
      else if IsActiveWispInTx st (d_DependsOnID dep) then DepTargetWisp
      else DepTargetIssue)"

record DepTargetPrecheck =
  pt_IssueType :: string
  pt_Status :: status

record AddDependencyOpts =
  ao_SourceTable :: "plane option"
  ao_TargetTable :: "plane option"
  ao_WriteTable :: "plane option"
  ao_DepTables :: "plane list"
  ao_IsCrossPrefix :: bool
  ao_SkipCycleCheck :: bool
  ao_TargetKind :: "DepTargetKind option"
  ao_PrecheckedTarget :: "DepTargetPrecheck option"
  ao_EmitEvent :: bool

definition cycleDetectionTables :: "plane list" where
  "cycleDetectionTables = [Durable, Ephemeral]"

text \<open>The edges a recursive query walks, from source to target, over the given tables.\<close>

definition edge_pairs :: "store \<Rightarrow> plane list \<Rightarrow> (dep_type \<Rightarrow> bool) \<Rightarrow> (string \<times> string) list" where
  "edge_pairs st tabs P =
     concat (map (\<lambda>pl. List.map_filter (\<lambda>d. if P (dr_Type d)
        then map_option (\<lambda>t. (dr_IssueID d, t)) (dep_target d) else None) (st_Deps st pl)) tabs)"

definition successors :: "(string \<times> string) list \<Rightarrow> string \<Rightarrow> string list" where
  "successors es s = map snd (filter (\<lambda>e. fst e = s) es)"

text \<open>\<open>WITH RECURSIVE ... UNION\<close>: all nodes reachable from a start node, the node itself included.\<close>

definition reachable_from :: "(string \<times> string) list \<Rightarrow> string \<Rightarrow> string set" where
  "reachable_from es s = (case rtrancl_while (\<lambda>_. True) (successors es) s of Some (_, Z) \<Rightarrow> Z | None \<Rightarrow> {})"

definition cycleReachabilityQuery :: "store \<Rightarrow> plane list \<Rightarrow> string \<Rightarrow> string \<Rightarrow> bool" where
  "cycleReachabilityQuery st tabs start goal \<longleftrightarrow> goal \<in> reachable_from (edge_pairs st tabs IsSchedulingEdge) start"

definition WouldCreateSchedulingCycleInTx :: "store \<Rightarrow> string \<Rightarrow> string \<Rightarrow> plane list \<Rightarrow> bool" where
  "WouldCreateSchedulingCycleInTx st issueID dependsOnID tabs =
     cycleReachabilityQuery st (if tabs = [] then cycleDetectionTables else tabs) dependsOnID issueID"

definition CheckDependencyCycleInTx :: "store \<Rightarrow> Dependency \<Rightarrow> plane list \<Rightarrow> store_error option" where
  "CheckDependencyCycleInTx st dep tabs =
     (if d_IssueID dep = d_DependsOnID dep then Some (ErrSelfDependency (d_IssueID dep))
      else if \<not> IsSchedulingEdge (d_Type dep) then None
      else if WouldCreateSchedulingCycleInTx st (d_IssueID dep) (d_DependsOnID dep) tabs then Some ErrDependencyCycle
      else None)"

definition isAncestorInTx :: "store \<Rightarrow> string \<Rightarrow> string \<Rightarrow> plane list \<Rightarrow> bool" where
  "isAncestorInTx st node candidate tabs \<longleftrightarrow>
     candidate \<in> reachable_from (edge_pairs st tabs (\<lambda>t. t = DepParentChild)) node"

definition CheckBlockingHierarchyInTx :: "store \<Rightarrow> Dependency \<Rightarrow> plane list \<Rightarrow> store_error option" where
  "CheckBlockingHierarchyInTx st dep tabs0 =
     (let tabs = (if tabs0 = [] then cycleDetectionTables else tabs0);
          source = d_IssueID dep; target = d_DependsOnID dep in
      if \<not> direct_type (d_Type dep) then None
      else if source = target then None
      else if isAncestorInTx st source target tabs then Some (HierarchyConflict source target True)
      else if isAncestorInTx st target source tabs then Some (HierarchyConflict source target False)
      else None)"

text \<open>The row written for an edge: the target goes into the column of its kind.\<close>

definition new_edge :: "Dependency \<Rightarrow> DepTargetKind \<Rightarrow> string \<Rightarrow> string \<Rightarrow> DepRow" where
  "new_edge dep kind actor metadata =
     \<lparr>dr_IssueID = d_IssueID dep,
      dr_OnIssue = (if kind = DepTargetIssue then Some (d_DependsOnID dep) else None),
      dr_OnWisp = (if kind = DepTargetWisp then Some (d_DependsOnID dep) else None),
      dr_OnExternal = (if kind = DepTargetExternal then Some (d_DependsOnID dep) else None),
      dr_Type = d_Type dep, dr_CreatedBy = actor, dr_Metadata = metadata, dr_ThreadID = d_ThreadID dep\<rparr>"

definition set_deps :: "plane \<Rightarrow> DepRow list \<Rightarrow> store \<Rightarrow> store" where
  "set_deps pl ds st = st\<lparr>st_Deps := (st_Deps st)(pl := ds)\<rparr>"

definition find_edge :: "store \<Rightarrow> plane \<Rightarrow> string \<Rightarrow> string \<Rightarrow> DepRow option" where
  "find_edge st pl source target = List.find (\<lambda>d. dr_IssueID d = source \<and> dep_target d = Some target) (st_Deps st pl)"

text \<open>The direct mark of the source of a new blocking edge.\<close>

definition target_live :: "store \<Rightarrow> DepTargetKind \<Rightarrow> string \<Rightarrow> DepTargetPrecheck option \<Rightarrow> bool" where
  "target_live st kind target pre \<longleftrightarrow>
     (case kind of
        DepTargetExternal \<Rightarrow> False
      | DepTargetIssue \<Rightarrow> (case pre of Some p \<Rightarrow> live (pt_Status p) | None \<Rightarrow> live_row st (Durable, target))
      | DepTargetWisp \<Rightarrow> (case pre of Some p \<Rightarrow> live (pt_Status p) | None \<Rightarrow> live_row st (Ephemeral, target)))"

definition markDirectBlockingDependencySourceInTx ::
    "store \<Rightarrow> node \<Rightarrow> string \<Rightarrow> DepTargetKind \<Rightarrow> DepTargetPrecheck option \<Rightarrow> store" where
  "markDirectBlockingDependencySourceInTx st source target kind pre =
     set_flags (fst source) [snd source] (\<lambda>n. live_row st n \<and> target_live st kind target pre) True st"

definition RemoveSourceFromAffected ::
    "node \<Rightarrow> string list \<times> string list \<Rightarrow> string list \<times> string list" where
  "RemoveSourceFromAffected source ids =
     (case fst source of
        Ephemeral \<Rightarrow> (fst ids, filter (\<lambda>i. i \<noteq> snd source) (snd ids))
      | Durable \<Rightarrow> (filter (\<lambda>i. i \<noteq> snd source) (fst ids), snd ids))"

definition EventDependencyAdded :: string where "EventDependencyAdded = ''dependency_added''"
definition EventDependencyRemoved :: string where "EventDependencyRemoved = ''dependency_removed''"

text \<open>Maintenance after the edge has been written: a mark for edges that can only block more, a
  recomputation for parent-child edges.\<close>

definition maintain_added ::
    "json_text \<Rightarrow> store \<Rightarrow> node \<Rightarrow> Dependency \<Rightarrow> DepTargetKind \<Rightarrow> DepTargetPrecheck option \<Rightarrow>
     (store_error + store) option" where
  "maintain_added jt st source dep kind pre =
     (case AffectedByDepChangeInTx st source (d_DependsOnID dep) (d_Type dep) of
        None \<Rightarrow> None
      | Some affected \<Rightarrow>
          let (st1, affected1) =
                (if direct_type (d_Type dep)
                 then (markDirectBlockingDependencySourceInTx st source (d_DependsOnID dep) kind pre,
                       RemoveSourceFromAffected source affected)
                 else (st, affected))
          in if d_Type dep = DepParentChild
             then map_option (\<lambda>r. bindE r (\<lambda>(_, st2). Inr st2))
                    (RecomputeIsBlockedInTxWithResult jt st1 (fst affected1) (snd affected1))
             else MarkIsBlockedInTx jt st1 (fst affected1) (snd affected1))"

definition target_kind :: "store \<Rightarrow> Dependency \<Rightarrow> AddDependencyOpts \<Rightarrow> DepTargetKind" where
  "target_kind st dep opts =
     (case ao_TargetKind opts of Some k \<Rightarrow> k | None \<Rightarrow> ClassifyDepTarget st dep (ao_IsCrossPrefix opts))"

definition write_plane :: "store \<Rightarrow> Dependency \<Rightarrow> AddDependencyOpts \<Rightarrow> plane" where
  "write_plane st dep opts = (case ao_WriteTable opts of Some t \<Rightarrow> t | None \<Rightarrow> plane_of st (d_IssueID dep))"

text \<open>The checks before the write, in the order of the code.\<close>

definition check_endpoints :: "store \<Rightarrow> Dependency \<Rightarrow> AddDependencyOpts \<Rightarrow> store_error + string" where
  "check_endpoints st dep opts =
     (let source = d_IssueID dep; target = d_DependsOnID dep;
          sourceTable = (case ao_SourceTable opts of Some t \<Rightarrow> t | None \<Rightarrow> plane_of st source);
          local_target = (\<not> has_external_prefix target \<and> \<not> ao_IsCrossPrefix opts);
          targetTable = (case ao_TargetTable opts of Some t \<Rightarrow> t
                         | None \<Rightarrow> if local_target then plane_of st target else Durable)
      in case row st (sourceTable, source) of
        None \<Rightarrow> Inl (MissingDependencySource source target)
      | Some _ \<Rightarrow>
          (case ao_PrecheckedTarget opts of
             Some p \<Rightarrow> Inr (pt_IssueType p)
           | None \<Rightarrow> if local_target
               then (case row st (targetTable, target) of
                       None \<Rightarrow> Inl (MissingDependencyTarget source target)
                     | Some r \<Rightarrow> Inr (i_IssueType r))
               else Inr []))"

definition add_checks :: "store \<Rightarrow> Dependency \<Rightarrow> AddDependencyOpts \<Rightarrow> store_error option" where
  "add_checks st dep opts =
     (let depTables = (if ao_DepTables opts = [] then cycleDetectionTables else ao_DepTables opts) in
      case check_endpoints st dep opts of
        Inl e \<Rightarrow> Some e
      | Inr targetType \<Rightarrow>
      case (if targetType \<noteq> [] then CheckBlockingHierarchyInTx st dep depTables else None) of
        Some e \<Rightarrow> Some e
      | None \<Rightarrow> if ao_SkipCycleCheck opts then None else CheckDependencyCycleInTx st dep depTables)"

text \<open>A second row for the pair: metadata is refreshed when the type is the same.\<close>

definition refresh_edge ::
    "store \<Rightarrow> Dependency \<Rightarrow> plane \<Rightarrow> string \<Rightarrow> DepRow \<Rightarrow> store_error + bool \<times> store" where
  "refresh_edge st dep writeTable metadata old =
     (let source = d_IssueID dep; target = d_DependsOnID dep in
      if dr_Type old = d_Type dep
      then let st1 = set_deps writeTable
                 (map (\<lambda>d. if dr_IssueID d = source \<and> dep_target d = Some target
                    then d\<lparr>dr_Metadata := metadata\<rparr> else d) (st_Deps st writeTable)) st
           in bindE (RecordDepEventInTx st1 EventDepAdd source (d_Type dep) target metadata) (\<lambda>st2. Inr (False, st2))
      else Inl (DependencyTypeConflict source target (dr_Type old) (d_Type dep)))"

text \<open>The insertion, with the audit event when it is asked for.\<close>

definition insert_edge :: "store \<Rightarrow> Dependency \<Rightarrow> string \<Rightarrow> AddDependencyOpts \<Rightarrow> string \<Rightarrow> store" where
  "insert_edge st dep actor opts metadata =
     (let pl = write_plane st dep opts;
          st1 = set_deps pl (st_Deps st pl @ [new_edge dep (target_kind st dep opts) actor metadata]) st
      in if ao_EmitEvent opts
         then RecordEventInTable st1 pl (d_IssueID dep) EventDependencyAdded actor
           (''Added dependency: '' @ d_IssueID dep @ '' '' @ d_Type dep @ '' '' @ d_DependsOnID dep)
         else st1)"

definition addDependencyInTx ::
    "json_text \<Rightarrow> store \<Rightarrow> Dependency \<Rightarrow> string \<Rightarrow> AddDependencyOpts \<Rightarrow> (store_error + bool \<times> store) option" where
  "addDependencyInTx jt st dep actor opts =
     (let source = d_IssueID dep; target = d_DependsOnID dep;
          writeTable = write_plane st dep opts;
          metadata = (if d_Metadata dep = [] then ''{}'' else d_Metadata dep)
      in case add_checks st dep opts of
        Some e \<Rightarrow> Some (Inl e)
      | None \<Rightarrow>
      case find_edge st writeTable source target of
        Some old \<Rightarrow> Some (refresh_edge st dep writeTable metadata old)
      | None \<Rightarrow>
          map_option (\<lambda>r. bindE r (\<lambda>st3.
               bindE (RecordDepEventInTx st3 EventDepAdd source (d_Type dep) target metadata)
                 (\<lambda>st4. Inr (ao_EmitEvent opts, st4))))
            (maintain_added jt (insert_edge st dep actor opts metadata) (writeTable, source) dep
               (target_kind st dep opts) (ao_PrecheckedTarget opts)))"

definition removeDependencyInTx ::
    "json_text \<Rightarrow> store \<Rightarrow> string \<Rightarrow> string \<Rightarrow> string \<Rightarrow> bool \<Rightarrow> (store_error + bool \<times> store) option" where
  "removeDependencyInTx jt st source target actor emitEvent =
     (let pl = plane_of st source in
      case find_edge st pl source target of
        None \<Rightarrow> Some (Inr (False, st))
      | Some old \<Rightarrow>
          let st1 = set_deps pl (filter (\<lambda>d. \<not> (dr_IssueID d = source \<and> dep_target d = Some target)) (st_Deps st pl)) st;
              st2 = (if emitEvent
                     then RecordEventInTable st1 pl source EventDependencyRemoved actor (''Removed dependency on '' @ target)
                     else st1)
          in case AffectedByDepChangeInTx st2 (pl, source) target (dr_Type old) of
               None \<Rightarrow> None
             | Some (issueIDs, wispIDs) \<Rightarrow>
                 map_option (\<lambda>r. bindE r (\<lambda>(_, st3).
                   bindE (RecordDepEventInTx st3 EventDepRemove source (dr_Type old) target (dr_Metadata old))
                     (\<lambda>st4. Inr (emitEvent, st4))))
                   (RecomputeIsBlockedInTxWithResult jt st2 issueIDs wispIDs))"

section \<open>Reachability\<close>

lemma successors_iff: "y \<in> set (successors es x) \<longleftrightarrow> (x, y) \<in> set es"
  by (force simp: successors_def)

text \<open>The recursive query ends and computes the nodes reachable along the edges.\<close>

lemma reachable_from_iff: "t \<in> reachable_from es s \<longleftrightarrow> (s, t) \<in> (set es)\<^sup>*"
proof -
  have R: "{(x, y). y \<in> set (successors es x)} = set es" by (auto simp: successors_iff)
  have "(set es)\<^sup>* `` {s} \<subseteq> insert s (snd ` set es)"
    by (auto elim: rtranclE) (metis image_eqI rtranclE snd_conv)
  then have fin: "finite ({(x, y). y \<in> set (successors es x)}\<^sup>* `` {s})"
    unfolding R by (rule finite_subset) simp
  obtain ws Z where w: "rtrancl_while (\<lambda>_. True) (successors es) s = Some (ws, Z)"
    using rtrancl_while_finite_Some [OF fin, where p = "\<lambda>_. True"] by auto
  then have "Z = (set es)\<^sup>* `` {s}"
    using rtrancl_while_Some [OF w] by (simp add: R split: if_splits)
  then show ?thesis by (simp add: reachable_from_def w)
qed

section \<open>The scheduling graph has no cycle\<close>

definition scheduling :: "store \<Rightarrow> (string \<times> string) set" where
  "scheduling st = set (edge_pairs st cycleDetectionTables IsSchedulingEdge)"

lemma edge_pairs_iff:
  "(s, t) \<in> set (edge_pairs st tabs P) \<longleftrightarrow>
     (\<exists>pl\<in>set tabs. \<exists>d\<in>set (st_Deps st pl). P (dr_Type d) \<and> dr_IssueID d = s \<and> dep_target d = Some t)"
  by (auto simp: edge_pairs_def map_filter_def split: if_splits) force+

lemma scheduling_iff:
  "(s, t) \<in> scheduling st \<longleftrightarrow>
     (\<exists>pl. \<exists>d\<in>set (st_Deps st pl). IsSchedulingEdge (dr_Type d) \<and> dr_IssueID d = s \<and> dep_target d = Some t)"
proof -
  have "(\<exists>pl. Q pl) \<longleftrightarrow> Q Durable \<or> Q Ephemeral" for Q :: "plane \<Rightarrow> bool"
    by (metis plane.exhaust)
  then show ?thesis unfolding scheduling_def edge_pairs_iff cycleDetectionTables_def by simp
qed

text \<open>The constraint \<open>ck_dep_one_target\<close>: an edge has one target.\<close>

definition one_target :: "DepRow \<Rightarrow> bool" where
  "one_target d \<longleftrightarrow>
     (dr_OnIssue d \<noteq> None \<and> dr_OnWisp d = None \<and> dr_OnExternal d = None) \<or>
     (dr_OnIssue d = None \<and> dr_OnWisp d \<noteq> None \<and> dr_OnExternal d = None) \<or>
     (dr_OnIssue d = None \<and> dr_OnWisp d = None \<and> dr_OnExternal d \<noteq> None)"

text \<open>The constraints of the dependency tables: one target, and one row for a source and a target
  (the primary key is a function of the two).\<close>

definition deps_wf :: "store \<Rightarrow> bool" where
  "deps_wf st \<longleftrightarrow> (\<forall>pl. list_all one_target (st_Deps st pl) \<and>
     distinct (map (\<lambda>d. (dr_IssueID d, dep_target d)) (st_Deps st pl)))"

lemma one_target_col: "one_target d \<Longrightarrow> dep_col pl d = Some t \<Longrightarrow> dep_target d = Some t"
  by (auto simp: one_target_def dep_col_def dep_target_def split: plane.splits option.splits)

lemma deps_wf_one: "deps_wf st \<Longrightarrow> d \<in> set (st_Deps st pl) \<Longrightarrow> one_target d"
  by (auto simp: deps_wf_def list_all_iff)

lemma deps_wf_unique:
  assumes "deps_wf st" "d \<in> set (st_Deps st pl)" "e \<in> set (st_Deps st pl)"
    and "dr_IssueID d = dr_IssueID e" "dep_target d = dep_target e"
  shows "d = e"
proof -
  have "inj_on (\<lambda>d. (dr_IssueID d, dep_target d)) (set (st_Deps st pl))"
    using assms(1) by (simp add: deps_wf_def distinct_map)
  then show ?thesis using assms(2-5) by (auto dest: inj_onD)
qed

lemma acyclic_map:
  assumes "acyclic r" and "\<And>x y. (x, y) \<in> s \<Longrightarrow> (f y, f x) \<in> r"
  shows "acyclic s"
proof (rule acyclicI, rule allI, rule notI)
  fix x
  assume "(x, x) \<in> s\<^sup>+"
  moreover have "(f b, f a) \<in> r\<^sup>+" if "(a, b) \<in> s\<^sup>+" for a b
    using that by (induction rule: trancl.induct) (auto dest: assms(2) intro: trancl_into_trancl2)
  ultimately show False using assms(1) unfolding acyclic_def by blast
qed

text \<open>Then the hierarchy has none either, which is what the recomputation of \<open>is_blocked\<close> needs.\<close>

lemma hierarchy_acyclic:
  assumes "deps_wf st" "acyclic (scheduling st)"
  shows "acyclic (parent_edges st)"
proof (rule acyclic_map [OF assms(2), of _ snd])
  fix p n
  assume "(p, n) \<in> parent_edges st"
  then obtain d where d: "d \<in> set (st_Deps st (fst n))" "dr_IssueID d = snd n" "dr_Type d = DepParentChild"
    "dep_col (fst p) d = Some (snd p)"
    by (auto simp: parent_edges_def parents_def edges_from_def)
  then have "dep_target d = Some (snd p)" using one_target_col deps_wf_one [OF assms(1)] by blast
  then show "(snd n, snd p) \<in> scheduling st"
    using d by (auto simp: scheduling_iff IsSchedulingEdge_def)
qed


section \<open>Maintenance after a change of one edge\<close>

text \<open>Two stores with the same rows whose edges differ at one source, type and target only.\<close>

definition differ_at :: "store \<Rightarrow> store \<Rightarrow> node \<Rightarrow> string \<Rightarrow> dep_type \<Rightarrow> bool" where
  "differ_at st st1 source target ty \<longleftrightarrow>
     row st1 = row st \<and>
     (\<forall>pl d. (d \<in> set (st_Deps st1 pl)) \<noteq> (d \<in> set (st_Deps st pl)) \<longrightarrow>
        pl = fst source \<and> dr_IssueID d = snd source \<and> dr_Type d = ty \<and>
        (\<forall>col t. dep_col col d = Some t \<longrightarrow> t = target))"

definition derives :: "dep_type \<Rightarrow> bool" where
  "derives ty \<longleftrightarrow> direct_type ty \<or> ty = DepWaitsFor \<or> ty = DepParentChild"

lemma derive_types [simp]:
  "\<not> direct_type DepWaitsFor" "\<not> direct_type DepParentChild" "DepWaitsFor \<noteq> DepParentChild" "DepParentChild \<noteq> DepWaitsFor"
  by (simp_all add: direct_type_def DepBlocks_def DepConditionalBlocks_def DepWaitsFor_def DepParentChild_def)

lemma differ_rows:
  assumes "differ_at st st1 source target ty"
  shows "live_row st1 = live_row st" "closed_row st1 = closed_row st" "flagged st1 = flagged st"
  using assms by (auto simp: differ_at_def live_row_def closed_row_def flagged_def fun_eq_iff)

lemma differ_edges:
  assumes "differ_at st st1 source target ty" "m \<noteq> source \<or> dr_Type d \<noteq> ty"
  shows "d \<in> set (edges_from st1 m) \<longleftrightarrow> d \<in> set (edges_from st m)"
proof -
  have "(d \<in> set (st_Deps st1 (fst m))) = (d \<in> set (st_Deps st (fst m)))" if "dr_IssueID d = snd m"
    using assms that unfolding differ_at_def by (metis prod.collapse)
  then show ?thesis by (auto simp: edges_from_def)
qed

lemma differ_gate:
  assumes D: "differ_at st st1 source target ty" and "ty = DepParentChild \<Longrightarrow> \<forall>col. dep_col col d \<noteq> Some target"
  shows "waitsForGateBlockedSQL jt st1 d = waitsForGateBlockedSQL jt st d"
proof -
  have "cd \<in> set (st_Deps st1 pl) \<longleftrightarrow> cd \<in> set (st_Deps st pl)"
    if "dr_Type cd = DepParentChild" "same_target d cd" for pl cd
  proof (rule ccontr)
    assume "\<not> ?thesis"
    then have t: "ty = DepParentChild" "\<And>col t. dep_col col cd = Some t \<Longrightarrow> t = target"
      using D that(1) unfolding differ_at_def by metis+
    from that(2) obtain col t where "dep_col col d = Some t" "dep_col col cd = Some t"
      unfolding same_target_def by (metis dep_col_def option.exhaust plane.simps(3, 4))
    then show False using t assms(2) by blast
  qed
  then have "some_child st1 d P = some_child st d P" for P
    unfolding some_child_def list_ex_iff by blast
  then show ?thesis by (simp add: waitsForGateBlockedSQL_def differ_rows [OF D])
qed

lemma differ_graph:
  assumes D: "differ_at st st1 source target ty" and m: "m \<noteq> source \<or> \<not> derives ty"
    and waits: "\<And>d col. ty = DepParentChild \<Longrightarrow> d \<in> set (edges_from st1 m) \<Longrightarrow> dr_Type d = DepWaitsFor \<Longrightarrow>
      dep_col col d \<noteq> Some target"
  shows "own_reason jt st1 m = own_reason jt st m" "parents st1 m = parents st m"
proof -
  have E: "d \<in> set (edges_from st1 m) \<longleftrightarrow> d \<in> set (edges_from st m)" if "derives (dr_Type d)" for d
    by (rule differ_edges [OF D]) (use m that in auto)
  then show "parents st1 m = parents st m" by (auto simp: parents_def derives_def)
  have "waitsForGateBlockedSQL jt st1 d = waitsForGateBlockedSQL jt st d"
    if "d \<in> set (edges_from st1 m)" "dr_Type d = DepWaitsFor" for d
    using differ_gate [OF D] waits that by blast
  then show "own_reason jt st1 m = own_reason jt st m"
    using E unfolding own_reason_def list_ex_iff differ_rows [OF D] derives_def by blast
qed

lemma AffectedByDepChange_covers:
  assumes "target \<noteq> []"
  obtains issueIDs wispIDs where "AffectedByDepChangeInTx st source target ty = Some (issueIDs, wispIDs)"
    "closed_under_children st (nodes_of issueIDs wispIDs)"
    "derives ty \<longrightarrow> source \<in> nodes_of issueIDs wispIDs"
    "\<forall>pl col. \<forall>d\<in>set (st_Deps st pl). ty = DepParentChild \<longrightarrow> dr_Type d = DepWaitsFor \<longrightarrow> dep_col col d = Some target \<longrightarrow>
       (pl, dr_IssueID d) \<in> nodes_of issueIDs wispIDs"
proof (cases "derives ty")
  case True
  define a0 where "a0 = seed (fst source) (snd source)"
  define a1 where "a1 = (if ty = DepParentChild then loadWaitersOnSpawnerIDsInTx st [target] a0 else a0)"
  have g: "grows a0 a1" by (simp add: a1_def loadWaiters_grows(1))
  have sync: "set (af_Seen a1 pl) = set (af_Queue a1 pl)" for pl
    using grows_sync [OF g, where E = "\<lambda>_. {}"] seed_sync(1) unfolding a0_def by simp
  obtain issueIDs wispIDs where e: "expandByParentChildDescendantsInTx st a1 = Some (issueIDs, wispIDs)"
    "\<And>pl i. i \<in> set (af_Seen a1 pl) \<Longrightarrow> (pl, i) \<in> nodes_of issueIDs wispIDs"
    "closed_under_children st (nodes_of issueIDs wispIDs)"
    using expand_closed [OF sync] by metis
  show thesis
  proof (rule that)
    show "AffectedByDepChangeInTx st source target ty = Some (issueIDs, wispIDs)"
      using True e(1) assms
      by (auto simp: AffectedByDepChangeInTx_def derives_def direct_type_def Let_def a0_def [symmetric] a1_def)
    show "closed_under_children st (nodes_of issueIDs wispIDs)" by (rule e(3))
    have "(fst source, snd source) \<in> nodes_of issueIDs wispIDs"
      using e(2) grows_seen [OF g] seed_sync(2) unfolding a0_def by blast
    then show "derives ty \<longrightarrow> source \<in> nodes_of issueIDs wispIDs" by simp
    show "\<forall>pl col. \<forall>d\<in>set (st_Deps st pl). ty = DepParentChild \<longrightarrow> dr_Type d = DepWaitsFor \<longrightarrow> dep_col col d = Some target \<longrightarrow>
       (pl, dr_IssueID d) \<in> nodes_of issueIDs wispIDs"
      using e(2) loadWaiters_grows(2) [of target "[target]"] by (simp add: a1_def)
  qed
next
  case False
  then show thesis
    by (intro that [of "[]" "[]"])
      (auto simp: AffectedByDepChangeInTx_def derives_def direct_type_def closed_under_children_def nodes_of_def)
qed

text \<open>Recomputing the rows affected by the change makes the column right again.\<close>

lemma edge_change_repaired:
  assumes ok: "blocked_ok jt st" and D: "differ_at st st1 source target ty" and ac: "acyclic (parent_edges st1)"
    and ne: "target \<noteq> []" and aff: "AffectedByDepChangeInTx st1 source target ty = Some (issueIDs, wispIDs)"
  obtains result st' where "RecomputeIsBlockedInTxWithResult jt st1 issueIDs wispIDs = Some (Inr (result, st'))"
    "derived_only st1 st'" "blocked_ok jt st'"
proof -
  let ?S = "nodes_of issueIDs wispIDs"
  have C: "closed_under_children st1 ?S" "derives ty \<longrightarrow> source \<in> ?S"
    "\<forall>pl col. \<forall>d\<in>set (st_Deps st1 pl). ty = DepParentChild \<longrightarrow> dr_Type d = DepWaitsFor \<longrightarrow> dep_col col d = Some target \<longrightarrow>
       (pl, dr_IssueID d) \<in> ?S"
    by (rule AffectedByDepChange_covers [OF ne, of st1 source ty]; use aff in simp)+
  have out: "live_row st1 m = live_row st m \<and> own_reason jt st1 m = own_reason jt st m \<and> parents st1 m = parents st m"
    if m: "m \<notin> ?S" for m
  proof -
    have waits: "dep_col col d \<noteq> Some target"
      if "ty = DepParentChild" "d \<in> set (edges_from st1 m)" "dr_Type d = DepWaitsFor" for d col
    proof
      assume "dep_col col d = Some target"
      moreover have "d \<in> set (st_Deps st1 (fst m))" "m = (fst m, dr_IssueID d)"
        using that(2) by (auto simp: edges_from_def)
      ultimately have "m \<in> ?S" using C(3) that by metis
      then show False using m by simp
    qed
    show ?thesis
      using differ_graph [OF D _ waits] differ_rows(1) [OF D] C(2) m by metis
  qed
  show thesis using change_repaired [OF ok ac differ_rows(3) [OF D] out C(1)] that by metis
qed


text \<open>Marking ends, keeps what is flagged and flags every row of the set that is to be.\<close>

lemma MarkIsBlocked_total:
  obtains st' where "MarkIsBlockedInTx jt st issueIDs wispIDs = Some (Inr st')" "derived_only st st'"
    "\<forall>n. flagged st n \<longrightarrow> flagged st' n" "\<forall>n. n \<notin> nodes_of issueIDs wispIDs \<longrightarrow> flagged st' n = flagged st n"
    "\<forall>n\<in>nodes_of issueIDs wispIDs. wants_block jt st' n \<longrightarrow> flagged st' n"
    "(\<forall>n. flagged st n \<longrightarrow> wants_block jt st n) \<longrightarrow> (\<forall>n. flagged st' n \<longrightarrow> wants_block jt st' n)"
proof (cases "issueIDs = [] \<and> wispIDs = []")
  case True
  then show thesis
    by (intro that [of st]) (auto simp: MarkIsBlockedInTx_def nodes_of_def derived_only_def intro: exI [of _ st])
next
  case False
  obtain mid where m: "mark_loop jt issueIDs wispIDs st = Some mid" "flags_only st mid"
    "\<forall>n. flagged st n \<longrightarrow> flagged mid n" "\<forall>n. n \<notin> nodes_of issueIDs wispIDs \<longrightarrow> flagged mid n = flagged st n"
    "\<forall>n\<in>nodes_of issueIDs wispIDs. wants_block jt mid n \<longrightarrow> flagged mid n"
    "(\<forall>n. flagged st n \<longrightarrow> wants_block jt st n) \<longrightarrow> (\<forall>n. flagged mid n \<longrightarrow> wants_block jt mid n)"
    using mark_loop_ends [of jt issueIDs wispIDs st] by blast
  obtain st' where r: "recordBlockedJournalChanges (captureBlockedJournalSnapshot st) mid issueIDs wispIDs = Inr st'"
    "journal_only mid st'" by (rule recordBlockedJournalChanges_total)
  show thesis
  proof (rule that)
    show "MarkIsBlockedInTx jt st issueIDs wispIDs = Some (Inr st')"
      using False m(1) r(1) by (auto simp: MarkIsBlockedInTx_def)
    show "derived_only st st'" using m(2) r(2) by (auto simp: derived_only_def)
  qed (use m(3-6) journal_only_graph [OF r(2)] in simp_all)
qed

lemma derived_only_graph:
  assumes "derived_only st st'"
  shows "live_row st' = live_row st" "own_reason jt st' = own_reason jt st" "parents st' = parents st"
    "st_Deps st' = st_Deps st"
proof -
  obtain mid where "flags_only st mid" "journal_only mid st'" using assms by (auto simp: derived_only_def)
  then show "live_row st' = live_row st" "own_reason jt st' = own_reason jt st" "parents st' = parents st"
    "st_Deps st' = st_Deps st"
    by (simp_all add: journal_only_graph flags_only_status flags_only_graph journal_onlyD flags_onlyD)
qed

text \<open>Nothing is marked when the column is right.\<close>

lemma MarkIsBlocked_ok:
  assumes "blocked_ok jt st"
  obtains st' where "MarkIsBlockedInTx jt st issueIDs wispIDs = Some (Inr st')" "derived_only st st'" "blocked_ok jt st'"
proof -
  obtain n st1 where t1: "runMarkBatchedInTx jt Durable issueIDs st = (n, st1)" by fastforce
  obtain m st2 where t2: "runMarkBatchedInTx jt Ephemeral wispIDs st1 = (m, st2)" by fastforce
  note t = mark_turn [OF t1 t2]
  have "mark (live_row st) (own_reason jt st) (parents st) C (flagged st) = flagged st" for C
    using assms by (auto simp: blocked_ok_flags flags_ok_def mark_def fun_eq_iff)
  then have "mark_pass (live_row st) (own_reason jt st) (parents st) Cs (flagged st) = flagged st" for Cs
    unfolding mark_pass_def by (induction Cs) simp_all
  then have fl: "flagged st2 = flagged st" using t(2) by simp
  then have loop: "mark_loop jt issueIDs wispIDs st = Some st2"
    using t(3) by (subst mark_loop.simps) (simp add: t1 t2)
  obtain st3 where r: "recordBlockedJournalChanges (captureBlockedJournalSnapshot st) st2 issueIDs wispIDs = Inr st3"
    "journal_only st2 st3" by (rule recordBlockedJournalChanges_total)
  obtain st' where M: "MarkIsBlockedInTx jt st issueIDs wispIDs = Some (Inr st')" "derived_only st st'"
    by (rule MarkIsBlocked_total)
  have "flagged st' = flagged st"
    using M(1) loop fl r(1) journal_only_graph(3) [OF r(2)]
    by (auto simp: MarkIsBlockedInTx_def split: if_splits)
  then have "blocked_ok jt st'" using assms by (simp add: blocked_ok_flags derived_only_graph [OF M(2)])
  with M show thesis by (rule that)
qed

text \<open>
  A new edge that can only block more: the source may have been flagged already, and the rows below it
  are marked.
\<close>

lemma edge_added_marked:
  assumes ok: "blocked_ok jt st" and D: "differ_at st st1 source target ty" and ty: "ty \<noteq> DepParentChild"
    and more: "\<And>n. set (edges_from st n) \<subseteq> set (edges_from st1 n)"
    and f2: "flags_only st1 st2" and fl2: "\<And>n. flagged st2 n \<longleftrightarrow> flagged st n \<or> n = source \<and> hit"
    and hit: "hit \<Longrightarrow> wants_block jt st1 source"
    and closed: "closed_under_children st1 (insert source (nodes_of issueIDs wispIDs))"
    and src: "hit \<or> source \<in> nodes_of issueIDs wispIDs"
  obtains st' where "MarkIsBlockedInTx jt st2 issueIDs wispIDs = Some (Inr st')" "derived_only st2 st'" "blocked_ok jt st'"
proof -
  let ?S = "nodes_of issueIDs wispIDs"
  note R = differ_rows [OF D] and F = flags_only_graph [OF f2] flags_only_status [OF f2]
  have gate: "waitsForGateBlockedSQL jt st1 d = waitsForGateBlockedSQL jt st d" for d
    using differ_gate [OF D] ty by blast
  have up: "should (live_row st) (own_reason jt st) (parents st) (flagged st) n \<Longrightarrow>
      should (live_row st1) (own_reason jt st1) (parents st1) (flagged st1) n" for n
    using more [of n] unfolding should_def own_reason_def parents_def list_ex_iff R gate by blast
  have want2: "flagged st2 n \<longrightarrow> wants_block jt st2 n" for n
  proof
    assume "flagged st2 n"
    then have "should (live_row st1) (own_reason jt st1) (parents st1) (flagged st1) n"
      using fl2 [of n] up [of n] ok hit unfolding blocked_ok_def wants_block_should by blast
    then have "should (live_row st1) (own_reason jt st1) (parents st1) (flagged st2) n"
      by (rule should_mono [rotated]) (simp add: fl2 R)
    then show "wants_block jt st2 n" by (simp add: wants_block_should F)
  qed
  obtain st' where M: "MarkIsBlockedInTx jt st2 issueIDs wispIDs = Some (Inr st')" "derived_only st2 st'"
    "\<forall>n. flagged st2 n \<longrightarrow> flagged st' n" "\<forall>n. n \<notin> ?S \<longrightarrow> flagged st' n = flagged st2 n"
    "\<forall>n\<in>?S. wants_block jt st' n \<longrightarrow> flagged st' n"
    "(\<forall>n. flagged st2 n \<longrightarrow> wants_block jt st2 n) \<longrightarrow> (\<forall>n. flagged st' n \<longrightarrow> wants_block jt st' n)"
    by (rule MarkIsBlocked_total)
  have "flagged st' n" if w: "wants_block jt st' n" for n
  proof (cases "n \<in> insert source ?S")
    case True
    then show ?thesis using M(3, 5) fl2 src w by blast
  next
    case False
    then have par: "p \<notin> insert source ?S" if "p \<in> parents st1 n" for p
      using closed that unfolding closed_under_children_def by blast
    have "own_reason jt st1 n = own_reason jt st n" "parents st1 n = parents st n"
      using differ_graph [OF D, of n] False ty by simp_all
    then have "wants_block jt st n"
      using w par M(4) fl2 by (auto simp: wants_block_should should_def derived_only_graph [OF M(2)] F R)
    then show ?thesis using ok M(3) fl2 unfolding blocked_ok_def by blast
  qed
  then have "blocked_ok jt st'" using M(6) want2 unfolding blocked_ok_def by blast
  with M(1, 2) show thesis by (rule that)
qed


lemma derived_only_flags: "flags_only st1 st2 \<Longrightarrow> derived_only st2 st3 \<Longrightarrow> derived_only st1 st3"
  unfolding derived_only_def by (blast intro: flags_only_trans)

lemma new_edge_simps [simp]:
  "dr_IssueID (new_edge dep kind actor md) = d_IssueID dep" "dr_Type (new_edge dep kind actor md) = d_Type dep"
  "dep_target (new_edge dep kind actor md) = Some (d_DependsOnID dep)" "one_target (new_edge dep kind actor md)"
  by (cases kind; simp add: new_edge_def dep_target_def one_target_def)+

lemma on_target_new_edge: "on_target (live_row st) (new_edge dep kind actor md) \<longleftrightarrow> target_live st kind (d_DependsOnID dep) None"
  by (cases kind) (auto simp: new_edge_def on_target_def target_live_def)

text \<open>The store after the insertion of an edge, and what it changes.\<close>

definition with_edge :: "store \<Rightarrow> store \<Rightarrow> plane \<Rightarrow> DepRow \<Rightarrow> bool" where
  "with_edge st st1 pl e \<longleftrightarrow> row st1 = row st \<and> st_Deps st1 = (st_Deps st)(pl := st_Deps st pl @ [e])"

lemma with_edge_differ:
  assumes "with_edge st st1 pl e" "one_target e" "dep_target e = Some t"
  shows "differ_at st st1 (pl, dr_IssueID e) t (dr_Type e)"
  using assms by (auto simp: with_edge_def differ_at_def dest: one_target_col split: if_splits)

lemma with_edge_edges:
  assumes "with_edge st st1 pl e"
  shows "set (edges_from st1 n) = set (edges_from st n) \<union> (if n = (pl, dr_IssueID e) then {e} else {})"
  using assms by (cases n) (auto simp: with_edge_def edges_from_def)

text \<open>An edge that does not block its source changes no condition.\<close>

lemma with_edge_idle:
  assumes ok: "blocked_ok jt st" and W: "with_edge st st1 pl e" and e: "one_target e" "dep_target e = Some t"
    and idle: "\<not> (live_row st1 (pl, dr_IssueID e) \<and> blocking_edge jt st1 e)" and ty: "dr_Type e \<noteq> DepParentChild"
  shows "blocked_ok jt st1"
proof -
  note D = with_edge_differ [OF W e]
  have "blocking_edge jt st1 d = blocking_edge jt st d" for d
    using differ_rows [OF D] differ_gate [OF D] ty by (auto simp: blocking_edge_def)
  then have "wants_block jt st1 n = wants_block jt st n" for n
    using idle differ_rows(1) [OF D] with_edge_edges [OF W, of n]
    by (auto simp: wants_block_def list_ex_iff split: if_splits)
  then show ?thesis using ok by (simp add: blocked_ok_def differ_rows(3) [OF D])
qed

lemma nodes_of_remove:
  "nodes_of (fst (RemoveSourceFromAffected n ids)) (snd (RemoveSourceFromAffected n ids)) = nodes_of (fst ids) (snd ids) - {n}"
  by (cases n; cases "fst n") (auto simp: RemoveSourceFromAffected_def nodes_of_def)

lemma maintain_direct:
  assumes ok: "blocked_ok jt st" and W: "with_edge st st1 pl e" and e: "e = new_edge dep kind actor md"
    and ty: "direct_type (d_Type dep)" and ne: "d_DependsOnID dep \<noteq> []"
    and pre: "target_live st1 kind (d_DependsOnID dep) pre = target_live st1 kind (d_DependsOnID dep) None"
  obtains st' where "maintain_added jt st1 (pl, d_IssueID dep) dep kind pre = Some (Inr st')"
    "derived_only st1 st'" "blocked_ok jt st'"
proof -
  let ?s = "(pl, d_IssueID dep)"
  let ?hit = "live_row st1 ?s \<and> target_live st1 kind (d_DependsOnID dep) None"
  define st2 where "st2 = markDirectBlockingDependencySourceInTx st1 ?s (d_DependsOnID dep) kind pre"
  have D: "differ_at st st1 ?s (d_DependsOnID dep) (d_Type dep)"
    using with_edge_differ [OF W] by (simp add: e)
  have f2: "flags_only st1 st2"
    unfolding st2_def markDirectBlockingDependencySourceInTx_def by (rule flags_only_set_flags)
  have fl2: "flagged st2 n \<longleftrightarrow> flagged st n \<or> n = ?s \<and> ?hit" for n
  proof -
    have "live_row st1 n \<Longrightarrow> row st1 n \<noteq> None" by (auto simp: live_row_def split: option.splits)
    then show ?thesis
      by (cases n) (auto simp: st2_def markDirectBlockingDependencySourceInTx_def flagged_set_flags pre differ_rows(3) [OF D])
  qed
  obtain i w where A: "AffectedByDepChangeInTx st1 ?s (d_DependsOnID dep) (d_Type dep) = Some (i, w)"
    "closed_under_children st1 (nodes_of i w)" "derives (d_Type dep) \<longrightarrow> ?s \<in> nodes_of i w"
    by (rule AffectedByDepChange_covers [OF ne])
  let ?r = "RemoveSourceFromAffected ?s (i, w)"
  have pc: "d_Type dep \<noteq> DepParentChild" using ty by auto
  have M: "maintain_added jt st1 ?s dep kind pre = MarkIsBlockedInTx jt st2 (fst ?r) (snd ?r)"
    using A(1) ty pc by (simp add: maintain_added_def st2_def)
  obtain st' where "MarkIsBlockedInTx jt st2 (fst ?r) (snd ?r) = Some (Inr st')" "derived_only st2 st'" "blocked_ok jt st'"
  proof (cases ?hit)
    case True
    have "e \<in> set (edges_from st1 ?s)" by (simp add: with_edge_edges [OF W] e)
    then have hit: "wants_block jt st1 ?s"
      using True ty by (auto simp: wants_block_def list_ex_iff blocking_edge_def on_target_new_edge e intro!: bexI [of _ e])
    have "insert ?s (nodes_of i w) = nodes_of i w" using A(3) ty by (auto simp: derives_def)
    then have "closed_under_children st1 (insert ?s (nodes_of (fst ?r) (snd ?r)))"
      using A(2) by (simp add: nodes_of_remove)
    then show thesis
      using edge_added_marked [OF ok D pc _ f2 fl2 hit, where issueIDs = "fst ?r" and wispIDs = "snd ?r"]
        with_edge_edges [OF W] True that by blast
  next
    case False
    then have "\<not> (live_row st1 (pl, dr_IssueID e) \<and> blocking_edge jt st1 e)"
      using ty pc by (auto simp: blocking_edge_def on_target_new_edge e)
    then have "blocked_ok jt st1" using with_edge_idle [OF ok W] pc by (simp add: e)
    moreover have "flagged st2 = flagged st1" using False fl2 by (auto simp: differ_rows(3) [OF D])
    ultimately have "blocked_ok jt st2" by (simp add: blocked_ok_flags flags_only_graph [OF f2] flags_only_status [OF f2])
    then show thesis using that by (rule MarkIsBlocked_ok)
  qed
  then show thesis using M derived_only_flags [OF f2] that by metis
qed

lemma maintain_added_ok:
  assumes ok: "blocked_ok jt st" and W: "with_edge st st1 pl e" and e: "e = new_edge dep kind actor md"
    and ne: "d_DependsOnID dep \<noteq> []" and ac: "d_Type dep = DepParentChild \<Longrightarrow> acyclic (parent_edges st1)"
    and pre: "target_live st1 kind (d_DependsOnID dep) pre = target_live st1 kind (d_DependsOnID dep) None"
  obtains st' where "maintain_added jt st1 (pl, d_IssueID dep) dep kind pre = Some (Inr st')"
    "derived_only st1 st'" "blocked_ok jt st'"
proof -
  let ?s = "(pl, d_IssueID dep)"
  have D: "differ_at st st1 ?s (d_DependsOnID dep) (d_Type dep)"
    using with_edge_differ [OF W] by (simp add: e)
  obtain i w where A: "AffectedByDepChangeInTx st1 ?s (d_DependsOnID dep) (d_Type dep) = Some (i, w)"
    "closed_under_children st1 (nodes_of i w)" "derives (d_Type dep) \<longrightarrow> ?s \<in> nodes_of i w"
    by (rule AffectedByDepChange_covers [OF ne])
  consider (direct) "direct_type (d_Type dep)" | (child) "d_Type dep = DepParentChild"
    | (waits) "d_Type dep = DepWaitsFor" | (other) "\<not> derives (d_Type dep)"
    by (auto simp: derives_def)
  then show thesis
  proof cases
    case direct
    then show thesis using maintain_direct [OF ok W e _ ne pre] that by blast
  next
    case child
    obtain result st' where "RecomputeIsBlockedInTxWithResult jt st1 i w = Some (Inr (result, st'))"
      "derived_only st1 st'" "blocked_ok jt st'"
      by (rule edge_change_repaired [OF ok D ac ne A(1)]) (use child in auto)
    then show thesis using A(1) child by (intro that [of st']) (simp_all add: maintain_added_def)
  next
    case waits
    have "insert ?s (nodes_of i w) = nodes_of i w" using A(3) waits by (auto simp: derives_def)
    then obtain st' where "MarkIsBlockedInTx jt st1 i w = Some (Inr st')" "derived_only st1 st'" "blocked_ok jt st'"
      using edge_added_marked [OF ok D _ _ flags_only_refl, where hit = False and issueIDs = i and wispIDs = w]
        with_edge_edges [OF W] A(2, 3) waits differ_rows(3) [OF D] by (auto simp: derives_def)
    then show thesis using A(1) waits by (intro that [of st']) (simp_all add: maintain_added_def)
  next
    case other
    then have "\<not> blocking_edge jt st1 e" by (auto simp: blocking_edge_def derives_def e)
    then have "blocked_ok jt st1" using with_edge_idle [OF ok W] other by (auto simp: derives_def e)
    then obtain st' where "MarkIsBlockedInTx jt st1 i w = Some (Inr st')" "derived_only st1 st'" "blocked_ok jt st'"
      by (rule MarkIsBlocked_ok)
    then show thesis using A(1) other by (intro that [of st']) (auto simp: maintain_added_def derives_def)
  qed
qed


section \<open>Adding an edge\<close>

text \<open>What the cycle check rules out.\<close>

lemma CheckDependencyCycle_None:
  assumes "CheckDependencyCycleInTx st dep cycleDetectionTables = None"
  shows "d_IssueID dep \<noteq> d_DependsOnID dep"
    and "IsSchedulingEdge (d_Type dep) \<Longrightarrow> (d_DependsOnID dep, d_IssueID dep) \<notin> (scheduling st)\<^sup>*"
  using assms
  by (auto simp: CheckDependencyCycleInTx_def WouldCreateSchedulingCycleInTx_def cycleReachabilityQuery_def
      cycleDetectionTables_def reachable_from_iff scheduling_def split: if_splits)

lemma with_edge_acyclic:
  assumes W: "with_edge st st1 pl (new_edge dep kind actor md)" and ac: "acyclic (scheduling st)"
    and c: "CheckDependencyCycleInTx st dep cycleDetectionTables = None"
  shows "acyclic (scheduling st1)"
proof -
  have "scheduling st1 = (if IsSchedulingEdge (d_Type dep) then insert (d_IssueID dep, d_DependsOnID dep) (scheduling st)
      else scheduling st)"
  proof -
    have "d \<in> set (st_Deps st1 q) \<longleftrightarrow> d \<in> set (st_Deps st q) \<or> q = pl \<and> d = new_edge dep kind actor md" for d q
      using W by (auto simp: with_edge_def)
    then have "(a, b) \<in> scheduling st1 \<longleftrightarrow>
        (a, b) \<in> scheduling st \<or> IsSchedulingEdge (d_Type dep) \<and> a = d_IssueID dep \<and> b = d_DependsOnID dep" for a b
      unfolding scheduling_iff Bex_def using new_edge_simps(1-3) [of dep kind actor md] by (metis option.inject)
    then show ?thesis by auto
  qed
  then show ?thesis using ac CheckDependencyCycle_None(2) [OF c] by (auto simp: acyclic_insert)
qed

lemma with_edge_wf:
  assumes "with_edge st st1 pl (new_edge dep kind actor md)" "deps_wf st"
    and "find_edge st pl (d_IssueID dep) (d_DependsOnID dep) = None"
  shows "deps_wf st1"
  using assms by (auto simp: deps_wf_def with_edge_def find_edge_def find_None_iff)

text \<open>Edges that keep source, type and targets, as under a change of metadata.\<close>

definition same_edge :: "DepRow \<Rightarrow> DepRow \<Rightarrow> bool" where
  "same_edge d e \<longleftrightarrow> dr_IssueID e = dr_IssueID d \<and> dr_Type e = dr_Type d \<and> dr_OnIssue e = dr_OnIssue d \<and>
     dr_OnWisp e = dr_OnWisp d \<and> dr_OnExternal e = dr_OnExternal d"

definition remapped :: "store \<Rightarrow> store \<Rightarrow> (plane \<Rightarrow> DepRow \<Rightarrow> DepRow) \<Rightarrow> bool" where
  "remapped st st1 f \<longleftrightarrow> row st1 = row st \<and> (\<forall>pl. st_Deps st1 pl = map (f pl) (st_Deps st pl) \<and>
     (\<forall>d\<in>set (st_Deps st pl). same_edge d (f pl d)))"

lemma same_edge_targets:
  assumes "same_edge d e"
  shows "dep_target e = dep_target d" "one_target e = one_target d" "dep_col pl e = dep_col pl d"
    "on_target P e = on_target P d" "same_target x e = same_target x d" "dr_IssueID e = dr_IssueID d" "dr_Type e = dr_Type d"
  using assms
  unfolding same_edge_def dep_target_def one_target_def dep_col_def on_target_def same_target_def by presburger+

lemma remapped_edge:
  assumes "remapped st st1 f" "d \<in> set (st_Deps st pl)"
  shows "dep_target (f pl d) = dep_target d" "one_target (f pl d) = one_target d" "dep_col col (f pl d) = dep_col col d"
    "on_target P (f pl d) = on_target P d" "same_target x (f pl d) = same_target x d"
    "dr_IssueID (f pl d) = dr_IssueID d" "dr_Type (f pl d) = dr_Type d"
  using assms by (simp_all add: remapped_def same_edge_targets [of d])

lemma remapped_deps: "remapped st st1 f \<Longrightarrow> st_Deps st1 pl = map (f pl) (st_Deps st pl)"
  by (simp add: remapped_def)

lemma remapped_scheduling:
  assumes "remapped st st1 f"
  shows "scheduling st1 = scheduling st"
proof -
  have "(a, b) \<in> scheduling st1 \<longleftrightarrow> (a, b) \<in> scheduling st" for a b
    unfolding scheduling_iff by (simp add: remapped_edge [OF assms] remapped_deps [OF assms] cong: bex_cong)
  then show ?thesis by auto
qed

lemma remapped_wf:
  assumes "remapped st st1 f" "deps_wf st"
  shows "deps_wf st1"
proof -
  have "map (\<lambda>d. (dr_IssueID d, dep_target d)) (st_Deps st1 pl) =
      map (\<lambda>d. (dr_IssueID d, dep_target d)) (st_Deps st pl)" for pl
    by (simp add: remapped_edge [OF assms(1)] remapped_deps [OF assms(1)])
  moreover have "list_all one_target (st_Deps st1 pl)" for pl
    using assms(2) by (simp add: deps_wf_def list_all_iff remapped_edge [OF assms(1)] remapped_deps [OF assms(1)])
  ultimately show ?thesis using assms(2) by (simp add: deps_wf_def)
qed

lemma remapped_blocked_ok:
  assumes R: "remapped st st1 f" and ok: "blocked_ok jt st"
    and w: "\<And>pl d. d \<in> set (st_Deps st pl) \<Longrightarrow> dr_Type d = DepWaitsFor \<Longrightarrow> f pl d = d"
  shows "blocked_ok jt st1"
proof -
  have rows: "live_row st1 = live_row st" "closed_row st1 = closed_row st" "flagged st1 = flagged st"
    using R by (auto simp: remapped_def live_row_def closed_row_def flagged_def fun_eq_iff)
  have "some_child st1 d P = some_child st d P" for d P
    by (simp add: some_child_def list_ex_iff remapped_edge [OF R] remapped_deps [OF R] cong: bex_cong)
  then have gate: "waitsForGateBlockedSQL jt st1 d = waitsForGateBlockedSQL jt st d" for d
    by (simp add: waitsForGateBlockedSQL_def rows)
  have "blocking_edge jt st1 (f pl d) = blocking_edge jt st d" if "d \<in> set (st_Deps st pl)" for pl d
    using w [OF that]
    by (cases "dr_Type d = DepWaitsFor") (simp_all add: blocking_edge_def remapped_edge [OF R that] gate rows)
  then have "wants_block jt st1 n = wants_block jt st n" for n
    by (auto simp: wants_block_def list_ex_iff edges_from_def remapped_edge [OF R] remapped_deps [OF R] rows)
  then show ?thesis using ok by (simp add: blocked_ok_def rows)
qed

lemma with_edge_insert:
  "with_edge st (insert_edge st dep actor opts md) (write_plane st dep opts)
     (new_edge dep (target_kind st dep opts) actor md)"
  by (simp add: with_edge_def insert_edge_def Let_def set_deps_def RecordEventInTable_def RecordFullEventInTable_def
      row_def fun_eq_iff)

lemma refresh_edge_spec:
  assumes wf: "deps_wf st" and find: "find_edge st pl (d_IssueID dep) (d_DependsOnID dep) = Some old"
    and r: "refresh_edge st dep pl md old = Inr (b, st')"
  obtains st1 f where "remapped st st1 f" "journal_only st1 st'"
    "\<And>q d. d \<in> set (st_Deps st q) \<Longrightarrow> dr_Type d \<noteq> d_Type dep \<Longrightarrow> f q d = d" "rest_same st st1"
proof -
  let ?hit = "\<lambda>d. dr_IssueID d = d_IssueID dep \<and> dep_target d = Some (d_DependsOnID dep)"
  define f where "f q d = (if q = pl \<and> ?hit d then d\<lparr>dr_Metadata := md\<rparr> else d)" for q d
  define st1 where "st1 = set_deps pl (map (f pl) (st_Deps st pl)) st"
  have old: "old \<in> set (st_Deps st pl)" "?hit old"
    using find by (auto simp: find_edge_def find_Some_iff)
  have ty: "dr_Type old = d_Type dep" and st': "RecordDepEventInTx st1 EventDepAdd (d_IssueID dep) (d_Type dep) (d_DependsOnID dep) md = Inr st'"
    using r by (auto simp: refresh_edge_def Let_def st1_def f_def [abs_def] bindE_def split: if_splits sum.splits)
  show thesis
  proof (rule that)
    have "map (f q) (st_Deps st q) = st_Deps st q" if "q \<noteq> pl" for q
      using that by (simp add: f_def map_idI)
    then show "remapped st st1 f"
      by (auto simp: remapped_def st1_def set_deps_def row_def fun_eq_iff f_def same_edge_def)
    show "journal_only st1 st'"
      using st' by (auto simp: RecordDepEventInTx_def split: if_splits intro: insertEventRow_only)
    show "f q d = d" if "d \<in> set (st_Deps st q)" "dr_Type d \<noteq> d_Type dep" for q d
      using deps_wf_unique [OF wf _ old(1), of d] that ty old(2) by (auto simp: f_def)
    show "rest_same st st1" by (simp add: rest_same_def st1_def set_deps_def)
  qed
qed

lemma journal_only_deps:
  assumes "journal_only st st'"
  shows "scheduling st' = scheduling st" "deps_wf st' = deps_wf st" "blocked_ok jt st' = blocked_ok jt st"
  using journal_onlyD(2) [OF assms] journal_only_graph [OF assms]
  by (auto simp: scheduling_def edge_pairs_def deps_wf_def blocked_ok_def)

text \<open>What an add must find: the column right, the edges well-formed and without a cycle.\<close>

definition graph_ok :: "json_text \<Rightarrow> store \<Rightarrow> bool" where
  "graph_ok jt st \<longleftrightarrow> blocked_ok jt st \<and> deps_wf st \<and> acyclic (scheduling st)"

lemma addDependency_insert:
  fixes dep :: Dependency
  defines "md \<equiv> if d_Metadata dep = [] then ''{}'' else d_Metadata dep"
  assumes ok: "graph_ok jt st" and o: "\<not> ao_SkipCycleCheck opts" "ao_DepTables opts = []" "ao_PrecheckedTarget opts = None"
    and ne: "d_DependsOnID dep \<noteq> []" and checks: "add_checks st dep opts = None"
    and new: "find_edge st (write_plane st dep opts) (d_IssueID dep) (d_DependsOnID dep) = None"
  obtains st' where "addDependencyInTx jt st dep actor opts = Some (Inr (ao_EmitEvent opts, st'))" "graph_ok jt st'"
    "st_Deps st' = (st_Deps st)(write_plane st dep opts :=
       st_Deps st (write_plane st dep opts) @ [new_edge dep (target_kind st dep opts) actor md])" "rows_kept st st'"
proof -
  let ?pl = "write_plane st dep opts" and ?k = "target_kind st dep opts" and ?st1 = "insert_edge st dep actor opts md"
  note W = with_edge_insert [of st dep actor opts md]
  have c: "CheckDependencyCycleInTx st dep cycleDetectionTables = None"
    using checks o by (auto simp: add_checks_def Let_def split: sum.splits option.splits if_splits)
  have wf1: "deps_wf ?st1" using with_edge_wf [OF W _ new] ok by (simp add: graph_ok_def)
  have ac1: "acyclic (scheduling ?st1)" using with_edge_acyclic [OF W _ c] ok by (simp add: graph_ok_def)
  obtain st3 where m: "maintain_added jt ?st1 (?pl, d_IssueID dep) dep ?k (ao_PrecheckedTarget opts) = Some (Inr st3)"
    "derived_only ?st1 st3" "blocked_ok jt st3"
    by (rule maintain_added_ok [OF _ W refl ne]) (use hierarchy_acyclic [OF wf1 ac1] o ok in \<open>auto simp: graph_ok_def\<close>)
  obtain st4 where j: "RecordDepEventInTx st3 EventDepAdd (d_IssueID dep) (d_Type dep) (d_DependsOnID dep) md = Inr st4"
    "journal_only st3 st4" by (rule RecordDepEventInTx_Inr)
  have d: "st_Deps st3 = st_Deps ?st1" using derived_only_graph(4) [OF m(2)] .
  then have "scheduling st3 = scheduling ?st1" "deps_wf st3"
    using wf1 by (auto simp: scheduling_def edge_pairs_def deps_wf_def)
  then have "graph_ok jt st4" using m(3) ac1 by (simp add: graph_ok_def journal_only_deps [OF j(2)])
  moreover have "addDependencyInTx jt st dep actor opts = Some (Inr (ao_EmitEvent opts, st4))"
    using checks new m(1) j(1) by (simp add: addDependencyInTx_def Let_def md_def)
  moreover have "st_Deps st4 = (st_Deps st)(?pl := st_Deps st ?pl @ [new_edge dep ?k actor md])"
    using W d journal_onlyD(2) [OF j(2)] by (simp add: with_edge_def)
  moreover have "rows_kept st ?st1"
    by (rule rows_keptI) (use W in \<open>simp_all add: with_edge_def rest_same_def insert_edge_def Let_def set_deps_def RecordEventInTable_def
        RecordFullEventInTable_def\<close>)
  then have "rows_kept st st4" using rows_kept_derived [OF m(2)] rows_kept_journal [OF j(2)] rows_kept_trans by blast
  ultimately show thesis using that by blast
qed

text \<open>
  Adding as a whole: it returns, and when it succeeds the graph is in order and the rows are kept. One
  kind of addition is an exception for the flags: a waits-for edge for a pair that has one already.
\<close>

definition refreshes_waits :: "store \<Rightarrow> Dependency \<Rightarrow> AddDependencyOpts \<Rightarrow> bool" where
  "refreshes_waits st dep opts \<longleftrightarrow> d_Type dep = DepWaitsFor \<and>
     find_edge st (write_plane st dep opts) (d_IssueID dep) (d_DependsOnID dep) \<noteq> None"

lemma refresh_edge_ok:
  assumes ok: "graph_ok jt st" and find: "find_edge st pl (d_IssueID dep) (d_DependsOnID dep) = Some old"
    and r: "refresh_edge st dep pl md old = Inr (b, st')"
  shows "deps_wf st'" "acyclic (scheduling st')" "rows_kept st st'" "flagged st' = flagged st"
    "d_Type dep \<noteq> DepWaitsFor \<Longrightarrow> blocked_ok jt st'"
    "d \<in> set (st_Deps st' q) \<Longrightarrow> \<exists>d'\<in>set (st_Deps st q). dr_IssueID d' = dr_IssueID d"
proof -
  have bo: "blocked_ok jt st" and wf: "deps_wf st" and ac: "acyclic (scheduling st)" using ok by (simp_all add: graph_ok_def)
  obtain st1 f where f: "remapped st st1 f" "journal_only st1 st'"
    "\<And>q d. d \<in> set (st_Deps st q) \<Longrightarrow> dr_Type d \<noteq> d_Type dep \<Longrightarrow> f q d = d" "rest_same st st1"
    using refresh_edge_spec [OF wf find r] by metis
  show "deps_wf st'" "acyclic (scheduling st')"
    using remapped_scheduling [OF f(1)] remapped_wf [OF f(1) wf] ac by (simp_all add: journal_only_deps [OF f(2)])
  show "rows_kept st st'"
    by (rule rows_kept_trans [OF rows_keptI rows_kept_journal [OF f(2)]]) (use f(1, 4) in \<open>simp_all add: remapped_def\<close>)
  show "flagged st' = flagged st"
    using f(1) journal_only_graph(3) [OF f(2)] by (auto simp: remapped_def flagged_def fun_eq_iff)
  show "blocked_ok jt st'" if "d_Type dep \<noteq> DepWaitsFor"
  proof -
    have "blocked_ok jt st1" by (rule remapped_blocked_ok [OF f(1) bo]) (use f(3) that in auto)
    then show ?thesis by (simp add: journal_only_deps [OF f(2)])
  qed
  show "\<exists>d'\<in>set (st_Deps st q). dr_IssueID d' = dr_IssueID d" if "d \<in> set (st_Deps st' q)"
    using that by (auto simp: journal_onlyD [OF f(2)] remapped_deps [OF f(1)] remapped_edge [OF f(1)])
qed

lemma addDependency_ok:
  assumes "graph_ok jt st" "\<not> ao_SkipCycleCheck opts" "ao_DepTables opts = []" "ao_PrecheckedTarget opts = None"
    and "d_DependsOnID dep \<noteq> []"
  obtains r where "addDependencyInTx jt st dep actor opts = Some r"
    "\<And>b st'. r = Inr (b, st') \<Longrightarrow> deps_wf st' \<and> acyclic (scheduling st') \<and>
       (if refreshes_waits st dep opts then flagged st' = flagged st else blocked_ok jt st') \<and>
       rows_kept st st' \<and> add_checks st dep opts = None \<and>
       (\<forall>pl. \<forall>d\<in>set (st_Deps st' pl). (\<exists>d'\<in>set (st_Deps st pl). dr_IssueID d' = dr_IssueID d) \<or>
          pl = write_plane st dep opts \<and> dr_IssueID d = d_IssueID dep)"
proof -
  let ?pl = "write_plane st dep opts" and ?md = "if d_Metadata dep = [] then ''{}'' else d_Metadata dep"
  show thesis
  proof (cases "add_checks st dep opts")
    case (Some e)
    then show thesis using that [of "Inl e"] by (simp add: addDependencyInTx_def Let_def)
  next
    case None
    show thesis
    proof (cases "find_edge st ?pl (d_IssueID dep) (d_DependsOnID dep)")
      case (Some old)
      have "addDependencyInTx jt st dep actor opts = Some (refresh_edge st dep ?pl ?md old)"
        using None Some by (simp add: addDependencyInTx_def Let_def)
      then show thesis
        by (rule that) (use refresh_edge_ok [OF assms(1) Some] None Some in \<open>auto simp: refreshes_waits_def\<close>)
    next
      case new: None
      obtain st' where "addDependencyInTx jt st dep actor opts = Some (Inr (ao_EmitEvent opts, st'))" "graph_ok jt st'"
        "st_Deps st' = (st_Deps st)(?pl := st_Deps st ?pl @ [new_edge dep (target_kind st dep opts) actor ?md])" "rows_kept st st'"
        by (rule addDependency_insert [OF assms(1-5) None new])
      then show thesis using None new by (intro that [of "Inr (ao_EmitEvent opts, st')"]) (auto simp: graph_ok_def refreshes_waits_def)
    qed
  qed
qed

text \<open>
  C1: adding a dependency keeps the graph in order. With the cycle check on, the default tables and no
  prechecked target, an addition of an edge to a named target always returns, and when it succeeds the
  scheduling edges (blocks, conditional-blocks, parent-child) still have no cycle, the edges of each table
  are still unique per source and target, and every row still has exactly the \<open>is_blocked\<close> flag its
  situation asks for. One addition is an exception for the flags: a second waits-for edge for a pair has its
  metadata replaced and changes no flag, so the flags stay right exactly if no row's situation changed.
\<close>

theorem addDependencyInTx_graph_ok:
  assumes "graph_ok jt st" "\<not> ao_SkipCycleCheck opts" "ao_DepTables opts = []" "ao_PrecheckedTarget opts = None"
    and "d_DependsOnID dep \<noteq> []"
  shows "\<exists>r. addDependencyInTx jt st dep actor opts = Some r \<and> (\<forall>b st'. r = Inr (b, st') \<longrightarrow>
     acyclic (scheduling st') \<and> deps_wf st' \<and>
     (if d_Type dep = DepWaitsFor \<and> find_edge st (write_plane st dep opts) (d_IssueID dep) (d_DependsOnID dep) \<noteq> None
      then flagged st' = flagged st \<and> (blocked_ok jt st' \<longleftrightarrow> wants_block jt st' = wants_block jt st)
      else blocked_ok jt st'))"
proof -
  obtain r where "addDependencyInTx jt st dep actor opts = Some r" and r: "\<And>b st'. r = Inr (b, st') \<Longrightarrow>
      deps_wf st' \<and> acyclic (scheduling st') \<and> (if refreshes_waits st dep opts then flagged st' = flagged st else blocked_ok jt st')"
    by (rule addDependency_ok [OF assms, of actor]) blast
  moreover have "blocked_ok jt st' \<longleftrightarrow> wants_block jt st' = wants_block jt st" if "flagged st' = flagged st" for st'
    using that assms(1) by (auto simp: graph_ok_def blocked_ok_def fun_eq_iff)
  ultimately show ?thesis
    unfolding refreshes_waits_def [symmetric] by (intro exI [of _ r]) (auto split: if_splits)
qed

section \<open>Removing an edge\<close>

lemma row_set_deps [simp]: "row (set_deps pl ds st) = row st" "st_Deps (set_deps pl ds st) = (st_Deps st)(pl := ds)"
  by (simp_all add: set_deps_def row_def fun_eq_iff)

lemma RecordEventInTable_tables [simp]:
  "st_Deps (RecordEventInTable st pl i ty actor v) = st_Deps st" "row (RecordEventInTable st pl i ty actor v) = row st"
  by (simp_all add: RecordEventInTable_def RecordFullEventInTable_def row_def fun_eq_iff)

text \<open>The store after the deletion of the rows of a pair.\<close>

definition without_edge :: "store \<Rightarrow> store \<Rightarrow> plane \<Rightarrow> string \<Rightarrow> string \<Rightarrow> bool" where
  "without_edge st st1 pl source target \<longleftrightarrow> row st1 = row st \<and>
     st_Deps st1 = (st_Deps st)(pl := filter (\<lambda>d. \<not> (dr_IssueID d = source \<and> dep_target d = Some target)) (st_Deps st pl))"

lemma without_edge_deps: "without_edge st st1 pl source target \<Longrightarrow> set (st_Deps st1 q) \<subseteq> set (st_Deps st q)"
  by (auto simp: without_edge_def)

lemma without_edge_wf:
  assumes "without_edge st st1 pl source target" "deps_wf st"
  shows "deps_wf st1"
  using assms by (auto simp: deps_wf_def without_edge_def list_all_iff distinct_map intro: inj_on_subset)

lemma without_edge_acyclic:
  assumes "without_edge st st1 pl source target" "acyclic (scheduling st)"
  shows "acyclic (scheduling st1)"
proof (rule acyclic_subset [OF assms(2)], rule subrelI)
  show "(a, b) \<in> scheduling st" if "(a, b) \<in> scheduling st1" for a b
    using that without_edge_deps [OF assms(1)] unfolding scheduling_iff by blast
qed

lemma without_edge_differ:
  assumes W: "without_edge st st1 pl source target" and wf: "deps_wf st"
    and find: "find_edge st pl source target = Some old"
  shows "differ_at st st1 (pl, source) target (dr_Type old)"
proof -
  have old: "old \<in> set (st_Deps st pl)" "dr_IssueID old = source" "dep_target old = Some target"
    using find by (auto simp: find_edge_def find_Some_iff)
  have "d = old" if "d \<in> set (st_Deps st pl)" "dr_IssueID d = source" "dep_target d = Some target" for d
    using deps_wf_unique [OF wf that(1) old(1)] that old by simp
  moreover have "t = target" if "dep_col col old = Some t" for col t
    using one_target_col [OF deps_wf_one [OF wf old(1)] that] old(3) by simp
  moreover have "(d \<in> set (st_Deps st1 q)) \<noteq> (d \<in> set (st_Deps st q)) \<longrightarrow>
      q = pl \<and> d \<in> set (st_Deps st pl) \<and> dr_IssueID d = source \<and> dep_target d = Some target" for q d
    using W by (auto simp: without_edge_def split: if_splits)
  ultimately show ?thesis
    using W old(2) unfolding differ_at_def without_edge_def fst_conv snd_conv by metis
qed

lemma removeDependency_ok:
  assumes "graph_ok jt st" "target \<noteq> []"
  obtains b st' where "removeDependencyInTx jt st source target actor emitEvent = Some (Inr (b, st'))" "graph_ok jt st'"
    "find_edge st' (plane_of st source) source target = None" "rows_kept st st'" "\<And>pl. set (st_Deps st' pl) \<subseteq> set (st_Deps st pl)"
proof -
  let ?pl = "plane_of st source"
  have ok: "blocked_ok jt st" and wf: "deps_wf st" and ac: "acyclic (scheduling st)" using assms(1) by (simp_all add: graph_ok_def)
  show thesis
  proof (cases "find_edge st ?pl source target")
    case None
    then show thesis using assms(1) that [of False st] by (simp add: removeDependencyInTx_def Let_def rows_kept_def rest_same_def)
  next
    case (Some old)
    define st2 where "st2 = (let st1 = set_deps ?pl
        (filter (\<lambda>d. \<not> (dr_IssueID d = source \<and> dep_target d = Some target)) (st_Deps st ?pl)) st in
      if emitEvent then RecordEventInTable st1 ?pl source EventDependencyRemoved actor (''Removed dependency on '' @ target) else st1)"
    have W: "without_edge st st2 ?pl source target"
      by (simp add: without_edge_def st2_def Let_def)
    note D = without_edge_differ [OF W wf Some] and wf2 = without_edge_wf [OF W wf] and ac2 = without_edge_acyclic [OF W ac]
    obtain i w where A: "AffectedByDepChangeInTx st2 (?pl, source) target (dr_Type old) = Some (i, w)"
      by (rule AffectedByDepChange_covers [OF assms(2)])
    obtain result st3 where R: "RecomputeIsBlockedInTxWithResult jt st2 i w = Some (Inr (result, st3))"
      "derived_only st2 st3" "blocked_ok jt st3"
      by (rule edge_change_repaired [OF ok D hierarchy_acyclic [OF wf2 ac2] assms(2) A])
    obtain st4 where J: "RecordDepEventInTx st3 EventDepRemove source (dr_Type old) target (dr_Metadata old) = Inr st4"
      "journal_only st3 st4" by (rule RecordDepEventInTx_Inr)
    have d: "st_Deps st3 = st_Deps st2" "st_Deps st4 = st_Deps st2"
      using derived_only_graph(4) [OF R(2)] journal_onlyD(2) [OF J(2)] by simp_all
    have "graph_ok jt st4"
      using R(3) wf2 ac2 d by (simp add: graph_ok_def journal_only_deps [OF J(2)] scheduling_def edge_pairs_def deps_wf_def)
    moreover have "find_edge st4 ?pl source target = None"
      using W by (auto simp: find_edge_def find_None_iff d without_edge_def)
    moreover have "removeDependencyInTx jt st source target actor emitEvent = Some (Inr (emitEvent, st4))"
      using Some A R(1) J(1) by (simp add: removeDependencyInTx_def Let_def st2_def)
    moreover have "rows_kept st st2"
      by (rule rows_keptI) (simp_all add: rest_same_def st2_def Let_def RecordEventInTable_def RecordFullEventInTable_def set_deps_def row_def
          fun_eq_iff)
    then have "rows_kept st st4" using rows_kept_derived [OF R(2)] rows_kept_journal [OF J(2)] rows_kept_trans by blast
    moreover have "set (st_Deps st4 pl) \<subseteq> set (st_Deps st pl)" for pl
      using without_edge_deps [OF W] unfolding d(2) by blast
    ultimately show thesis using that by blast
  qed
qed



text \<open>
  C17: removing a dependency always succeeds, takes the edge out, and leaves a graph in order as it
  found it: the \<open>is_blocked\<close> flags of all rows agree with the remaining edges, though only the rows
  below the source (and the waiters on the target) are recomputed.
\<close>

theorem removeDependencyInTx_graph_ok:
  assumes "graph_ok jt st" "target \<noteq> []"
  shows "\<exists>b st'. removeDependencyInTx jt st source target actor emitEvent = Some (Inr (b, st')) \<and> graph_ok jt st' \<and>
    find_edge st' (plane_of st source) source target = None"
  by (rule removeDependency_ok [OF assms, of source actor emitEvent]) blast

section \<open>Which edges are accepted\<close>

definition hierarchy :: "store \<Rightarrow> (string \<times> string) set" where
  "hierarchy st = set (edge_pairs st cycleDetectionTables (\<lambda>t. t = DepParentChild))"

text \<open>Options that leave every decision to the code.\<close>

definition plain_opts :: "bool \<Rightarrow> AddDependencyOpts" where
  "plain_opts emit = \<lparr>ao_SourceTable = None, ao_TargetTable = None, ao_WriteTable = None, ao_DepTables = [],
     ao_IsCrossPrefix = False, ao_SkipCycleCheck = False, ao_TargetKind = None, ao_PrecheckedTarget = None, ao_EmitEvent = emit\<rparr>"

lemma plain_checks:
  "add_checks st dep (plain_opts emit) = None \<longleftrightarrow>
     row st (plane_of st (d_IssueID dep), d_IssueID dep) \<noteq> None \<and>
     (has_external_prefix (d_DependsOnID dep) \<or>
      (\<exists>r. row st (plane_of st (d_DependsOnID dep), d_DependsOnID dep) = Some r \<and>
         (direct_type (d_Type dep) \<and> i_IssueType r \<noteq> [] \<longrightarrow>
            (d_IssueID dep, d_DependsOnID dep) \<notin> (hierarchy st)\<^sup>* \<and> (d_DependsOnID dep, d_IssueID dep) \<notin> (hierarchy st)\<^sup>*))) \<and>
     d_IssueID dep \<noteq> d_DependsOnID dep \<and>
     (IsSchedulingEdge (d_Type dep) \<longrightarrow> (d_DependsOnID dep, d_IssueID dep) \<notin> (scheduling st)\<^sup>*)"
proof -
  have t: "cycleDetectionTables \<noteq> []" by (simp add: cycleDetectionTables_def)
  have c: "CheckDependencyCycleInTx st dep cycleDetectionTables = None \<longleftrightarrow> d_IssueID dep \<noteq> d_DependsOnID dep \<and>
     (IsSchedulingEdge (d_Type dep) \<longrightarrow> (d_DependsOnID dep, d_IssueID dep) \<notin> (scheduling st)\<^sup>*)"
    by (simp add: CheckDependencyCycleInTx_def WouldCreateSchedulingCycleInTx_def cycleReachabilityQuery_def t
        reachable_from_iff scheduling_def)
  have h: "CheckBlockingHierarchyInTx st dep cycleDetectionTables = None \<longleftrightarrow> d_IssueID dep = d_DependsOnID dep \<or>
     (direct_type (d_Type dep) \<longrightarrow> (d_IssueID dep, d_DependsOnID dep) \<notin> (hierarchy st)\<^sup>* \<and>
        (d_DependsOnID dep, d_IssueID dep) \<notin> (hierarchy st)\<^sup>*)"
    by (simp add: CheckBlockingHierarchyInTx_def Let_def t isAncestorInTx_def reachable_from_iff hierarchy_def)
  show ?thesis
  proof (cases "row st (plane_of st (d_IssueID dep), d_IssueID dep)")
    case source: (Some _)
    show ?thesis
    proof (cases "has_external_prefix (d_DependsOnID dep)")
      case False
      then show ?thesis
        using source h c
        by (cases "row st (plane_of st (d_DependsOnID dep), d_DependsOnID dep)";
            cases "CheckBlockingHierarchyInTx st dep cycleDetectionTables")
          (auto simp: add_checks_def check_endpoints_def plain_opts_def Let_def)
    qed (simp add: add_checks_def check_endpoints_def plain_opts_def Let_def source c)
  qed (simp add: add_checks_def check_endpoints_def plain_opts_def Let_def)
qed

text \<open>
  C16: with default options an edge is accepted exactly if its source exists, its target exists or is
  external, the two differ, a scheduling edge would close no cycle, a blocking edge does not run
  between an issue and one of its ancestors or descendants, and the pair has no edge of another type.
\<close>

theorem addDependencyInTx_accepts_iff:
  assumes "graph_ok jt st" "d_DependsOnID dep \<noteq> []"
  shows "(\<exists>b st'. addDependencyInTx jt st dep actor (plain_opts emit) = Some (Inr (b, st'))) \<longleftrightarrow>
     row st (plane_of st (d_IssueID dep), d_IssueID dep) \<noteq> None \<and>
     (has_external_prefix (d_DependsOnID dep) \<or>
      (\<exists>r. row st (plane_of st (d_DependsOnID dep), d_DependsOnID dep) = Some r \<and>
         (direct_type (d_Type dep) \<and> i_IssueType r \<noteq> [] \<longrightarrow>
            (d_IssueID dep, d_DependsOnID dep) \<notin> (hierarchy st)\<^sup>* \<and> (d_DependsOnID dep, d_IssueID dep) \<notin> (hierarchy st)\<^sup>*))) \<and>
     d_IssueID dep \<noteq> d_DependsOnID dep \<and>
     (IsSchedulingEdge (d_Type dep) \<longrightarrow> (d_DependsOnID dep, d_IssueID dep) \<notin> (scheduling st)\<^sup>*) \<and>
     (\<forall>d. find_edge st (plane_of st (d_IssueID dep)) (d_IssueID dep) (d_DependsOnID dep) = Some d \<longrightarrow> dr_Type d = d_Type dep)"
    (is "?accepted \<longleftrightarrow> ?source \<and> ?target \<and> ?differ \<and> ?cycle \<and> ?pair")
proof -
  let ?o = "plain_opts emit" and ?pl = "plane_of st (d_IssueID dep)"
  have o: "write_plane st dep ?o = ?pl" "\<not> ao_SkipCycleCheck ?o" "ao_DepTables ?o = []" "ao_PrecheckedTarget ?o = None"
    by (simp_all add: write_plane_def plain_opts_def)
  have "?accepted \<longleftrightarrow> add_checks st dep ?o = None \<and> ?pair"
  proof (cases "add_checks st dep ?o")
    case None
    show ?thesis
    proof (cases "find_edge st ?pl (d_IssueID dep) (d_DependsOnID dep)")
      case (Some old)
      have "(\<exists>b st'. refresh_edge st dep ?pl md old = Inr (b, st')) \<longleftrightarrow> dr_Type old = d_Type dep" for md
      proof -
        have "\<exists>st2. RecordDepEventInTx st1 op i kind target md = Inr st2" for st1 op i kind target
          by (rule RecordDepEventInTx_Inr) blast
        then show ?thesis by (auto simp: refresh_edge_def Let_def bindE_eq_Inr_iff)
      qed
      then show ?thesis using None Some by (simp add: addDependencyInTx_def Let_def o(1))
    next
      case new: None
      have ?accepted
        by (rule addDependency_insert [OF assms(1) o(2-4) assms(2) None, of actor]) (use new o(1) in auto)
      then show ?thesis using None new by simp
    qed
  qed (simp add: addDependencyInTx_def Let_def)
  then show ?thesis unfolding plain_checks by blast
qed


section \<open>Examples\<close>

text \<open>A store with durable tasks only: their IDs, statuses and flags, and the edges.\<close>

definition task :: "string \<times> status \<times> bool \<Rightarrow> Issue" where
  "task r = (case r of (i, s, b) \<Rightarrow>
     zero_issue\<lparr>i_ID := i, i_Title := i, i_IssueType := ''task'', i_Status := s, i_IsBlocked := b\<rparr>)"

definition small_store :: "(string \<times> status \<times> bool) list \<Rightarrow> DepRow list \<Rightarrow> store" where
  "small_store rows deps = empty_store\<lparr>
     st_Rows := (\<lambda>pl i. case pl of Durable \<Rightarrow> map_option task (List.find (\<lambda>r. fst r = i) rows) | Ephemeral \<Rightarrow> None),
     st_Deps := (\<lambda>pl. case pl of Durable \<Rightarrow> deps | Ephemeral \<Rightarrow> [])\<rparr>"

definition edge :: "string \<Rightarrow> dep_type \<Rightarrow> string \<Rightarrow> string \<Rightarrow> DepRow" where
  "edge s ty t md = \<lparr>dr_IssueID = s, dr_OnIssue = Some t, dr_OnWisp = None, dr_OnExternal = None, dr_Type = ty,
     dr_CreatedBy = [], dr_Metadata = md, dr_ThreadID = []\<rparr>"

lemma edge_simps [simp]:
  "dep_target (edge s ty t md) = Some t" "dr_IssueID (edge s ty t md) = s" "dr_Type (edge s ty t md) = ty"
  by (simp_all add: edge_def dep_target_def)

definition no_json :: json_text where
  "no_json = (\<lambda>_ _. None)"

lemma small_blocked_ok:
  assumes "list_all (\<lambda>r. flagged (small_store rows deps) (Durable, fst r) = wants_block jt (small_store rows deps) (Durable, fst r)) rows"
  shows "blocked_ok jt (small_store rows deps)"
  unfolding blocked_ok_def
proof
  fix n
  let ?st = "small_store rows deps"
  show "flagged ?st n \<longleftrightarrow> wants_block jt ?st n"
  proof (cases "row ?st n")
    case None
    then show ?thesis using flagged_row wants_block_row by blast
  next
    case (Some r)
    then obtain x i where "n = (Durable, fst x)" "i < length rows" "x = rows ! i"
      by (cases n) (auto simp: row_def small_store_def empty_store_def find_Some_iff split: plane.splits)
    then have "n = (Durable, fst x)" "x \<in> set rows" by simp_all
    then show ?thesis using assms by (simp add: list_all_iff)
  qed
qed

lemma small_acyclic:
  assumes "\<And>s t. (s, t) \<in> set (edge_pairs (small_store rows deps) cycleDetectionTables IsSchedulingEdge) \<Longrightarrow> f t < (f s :: nat)"
  shows "acyclic (scheduling (small_store rows deps))"
  by (rule acyclic_subset [OF wf_acyclic [OF wf_measure [of f], THEN acyclic_converse [THEN iffD2]]])
    (use assms in \<open>auto simp: scheduling_def\<close>)

lemma small_wf:
  assumes "list_all one_target deps" "distinct (map (\<lambda>d. (dr_IssueID d, dep_target d)) deps)"
  shows "deps_wf (small_store rows deps)"
  using assms by (auto simp: deps_wf_def small_store_def empty_store_def split: plane.splits)

text \<open>Two open tasks, the first to be blocked by the second.\<close>

definition two_tasks :: store where
  "two_tasks = small_store [(''bd-1'', StatusOpen, False), (''bd-2'', StatusOpen, False)] []"

definition blocks_1_2 :: Dependency where
  "blocks_1_2 = zero_dependency\<lparr>d_IssueID := ''bd-1'', d_DependsOnID := ''bd-2'', d_Type := DepBlocks\<rparr>"

lemma two_tasks_ok: "graph_ok no_json two_tasks"
proof -
  have "blocked_ok no_json two_tasks"
    unfolding two_tasks_def by (rule small_blocked_ok) code_simp
  moreover have "deps_wf two_tasks" unfolding two_tasks_def by (rule small_wf) simp_all
  moreover have "acyclic (scheduling two_tasks)"
    by (simp add: two_tasks_def small_store_def scheduling_def edge_pairs_def cycleDetectionTables_def map_filter_def acyclic_def)
  ultimately show ?thesis by (simp add: graph_ok_def)
qed

theorem addDependencyInTx_graph_ok_witness:
  "\<exists>r. addDependencyInTx no_json two_tasks blocks_1_2 ''alice'' (plain_opts True) = Some r \<and>
     (\<forall>b st'. r = Inr (b, st') \<longrightarrow> acyclic (scheduling st') \<and> blocked_ok no_json st')"
proof -
  have "d_DependsOnID blocks_1_2 \<noteq> []" "d_Type blocks_1_2 \<noteq> DepWaitsFor"
    by (simp_all add: blocks_1_2_def zero_dependency_def DepBlocks_def DepWaitsFor_def)
  then show ?thesis
    using addDependencyInTx_graph_ok [of no_json two_tasks "plain_opts True" blocks_1_2 "''alice''"] two_tasks_ok
    by (simp add: plain_opts_def) blast
qed

theorem addDependencyInTx_accepts_iff_witness:
  "\<exists>b st'. addDependencyInTx no_json two_tasks blocks_1_2 ''alice'' (plain_opts True) = Some (Inr (b, st'))"
proof -
  have d: "d_IssueID blocks_1_2 = ''bd-1''" "d_DependsOnID blocks_1_2 = ''bd-2''"
    by (simp_all add: blocks_1_2_def zero_dependency_def)
  have pl: "plane_of two_tasks i = Durable" for i
    by (simp add: plane_of_def WispTableRouting_def IsActiveWispInTx_def row_def two_tasks_def small_store_def)
  have r: "row two_tasks (Durable, ''bd-1'') \<noteq> None" "\<exists>r. row two_tasks (Durable, ''bd-2'') = Some r"
    by (simp_all add: row_def two_tasks_def small_store_def)
  have e: "hierarchy two_tasks = {}" "scheduling two_tasks = {}" "find_edge two_tasks Durable s t = None" for s t
    by (simp_all add: two_tasks_def small_store_def hierarchy_def scheduling_def edge_pairs_def cycleDetectionTables_def
        map_filter_def find_edge_def)
  show ?thesis
    using addDependencyInTx_accepts_iff [OF two_tasks_ok, of blocks_1_2 "''alice''" True] r
    by (simp add: d pl e)
qed

text \<open>The same with the edge in place, and its removal.\<close>

definition one_blocked :: store where
  "one_blocked = small_store [(''bd-1'', StatusOpen, True), (''bd-2'', StatusOpen, False)] [edge ''bd-1'' DepBlocks ''bd-2'' ''{}'']"

lemma one_blocked_ok: "graph_ok no_json one_blocked"
proof -
  have "blocked_ok no_json one_blocked"
    unfolding one_blocked_def by (rule small_blocked_ok) code_simp
  moreover have "deps_wf one_blocked"
    unfolding one_blocked_def by (rule small_wf) (simp_all add: edge_def one_target_def)
  moreover have "acyclic (scheduling one_blocked)"
    unfolding one_blocked_def
    by (rule small_acyclic [of _ _ "\<lambda>i. if i = ''bd-1'' then 1 else 0"])
      (simp add: edge_pairs_def cycleDetectionTables_def map_filter_def small_store_def edge_def dep_target_def
        IsSchedulingEdge_def)
  ultimately show ?thesis by (simp add: graph_ok_def)
qed

theorem removeDependencyInTx_graph_ok_witness:
  "\<exists>b st'. removeDependencyInTx no_json one_blocked ''bd-1'' ''bd-2'' ''alice'' True = Some (Inr (b, st')) \<and> graph_ok no_json st' \<and>
    find_edge st' (plane_of one_blocked ''bd-1'') ''bd-1'' ''bd-2'' = None"
  by (rule removeDependencyInTx_graph_ok [OF one_blocked_ok]) simp

section \<open>Two gaps\<close>

lemma find_map: "(\<And>x. P (g x) \<longleftrightarrow> P x) \<Longrightarrow> find P (map g xs) = map_option g (find P xs)"
  by (induction xs) auto

lemma refresh_edge_stores:
  assumes "find_edge st pl (d_IssueID dep) (d_DependsOnID dep) = Some old" "dr_Type old = d_Type dep"
  obtains st' where "refresh_edge st dep pl md old = Inr (False, st')" "row st' = row st"
    "find_edge st' pl (d_IssueID dep) (d_DependsOnID dep) = Some (old\<lparr>dr_Metadata := md\<rparr>)"
proof -
  let ?hit = "\<lambda>d. dr_IssueID d = d_IssueID dep \<and> dep_target d = Some (d_DependsOnID dep)"
  define g where "g d = (if ?hit d then d\<lparr>dr_Metadata := md\<rparr> else d)" for d
  define st1 where "st1 = set_deps pl (map g (st_Deps st pl)) st"
  have hit: "?hit old" using assms(1) by (auto simp: find_edge_def find_Some_iff)
  have g: "dr_IssueID (g d) = dr_IssueID d" "dep_target (g d) = dep_target d" for d
    by (simp_all add: g_def dep_target_def split: option.split)
  obtain st' where st': "RecordDepEventInTx st1 EventDepAdd (d_IssueID dep) (d_Type dep) (d_DependsOnID dep) md = Inr st'"
    "journal_only st1 st'" by (rule RecordDepEventInTx_Inr)
  show thesis
  proof (rule that)
    show "refresh_edge st dep pl md old = Inr (False, st')"
      using assms(2) st'(1) by (simp add: refresh_edge_def Let_def st1_def g_def [abs_def] bindE_def)
    show "row st' = row st"
      using journal_onlyD(1) [OF st'(2)] by (simp add: row_def fun_eq_iff st1_def set_deps_def)
    have "find_edge st' pl (d_IssueID dep) (d_DependsOnID dep) = find ?hit (map g (st_Deps st pl))"
      using journal_onlyD(2) [OF st'(2)] by (simp add: find_edge_def st1_def set_deps_def)
    also have "\<dots> = map_option g (find ?hit (st_Deps st pl))" by (rule find_map) (simp add: g)
    also have "\<dots> = Some (old\<lparr>dr_Metadata := md\<rparr>)" using assms(1) hit by (simp add: find_edge_def g_def)
    finally show "find_edge st' pl (d_IssueID dep) (d_DependsOnID dep) = Some (old\<lparr>dr_Metadata := md\<rparr>)" .
  qed
qed

text \<open>
  C38: adding a waits-for edge again replaces its gate and recomputes nothing. Whenever such an addition
  passes the checks it succeeds, the stored metadata is the new one, and no row changes; so, in a store whose flags
  were right, a row's flag is wrong afterwards exactly if the new gate changes what the row's situation asks for.
\<close>

theorem waits_for_refresh_stale:
  assumes "blocked_ok jt st" "add_checks st dep opts = None" "d_Type dep = DepWaitsFor"
    and "find_edge st (write_plane st dep opts) (d_IssueID dep) (d_DependsOnID dep) = Some old" "dr_Type old = DepWaitsFor"
  shows "\<exists>st'. addDependencyInTx jt st dep actor opts = Some (Inr (False, st')) \<and> row st' = row st \<and>
     find_edge st' (write_plane st dep opts) (d_IssueID dep) (d_DependsOnID dep) =
       Some (old\<lparr>dr_Metadata := (if d_Metadata dep = [] then ''{}'' else d_Metadata dep)\<rparr>) \<and>
     (\<forall>n. flagged st' n \<noteq> wants_block jt st' n \<longleftrightarrow> wants_block jt st' n \<noteq> wants_block jt st n)"
proof -
  have ty: "dr_Type old = d_Type dep" using assms(3, 5) by simp
  obtain st' where st': "refresh_edge st dep (write_plane st dep opts) (if d_Metadata dep = [] then ''{}'' else d_Metadata dep) old =
      Inr (False, st')" "row st' = row st"
    "find_edge st' (write_plane st dep opts) (d_IssueID dep) (d_DependsOnID dep) =
       Some (old\<lparr>dr_Metadata := (if d_Metadata dep = [] then ''{}'' else d_Metadata dep)\<rparr>)"
    by (rule refresh_edge_stores [OF assms(4) ty])
  have "addDependencyInTx jt st dep actor opts = Some (Inr (False, st'))"
    using assms(2, 4) st'(1) by (simp add: addDependencyInTx_def Let_def)
  moreover have "flagged st' n = wants_block jt st n" for n
  proof -
    have "flagged st n = wants_block jt st n" using assms(1) unfolding blocked_ok_def by blast
    then show ?thesis using st'(2) by (simp add: flagged_def)
  qed
  ultimately show ?thesis using st'(2, 3) by (intro exI [of _ st'] conjI allI) auto
qed

text \<open>A waiter on an open spawner with a closed and an open child, and an edge to change its gate.\<close>

definition any_gate :: string where
  \<open>any_gate = ''{"gate":"any-children"}''\<close>

definition gate_json :: json_text where
  "gate_json md key = (if md = any_gate \<and> key = ''gate'' then Some ''any-children'' else None)"

definition waiting :: store where
  "waiting = small_store [(''bd-1'', StatusOpen, False), (''bd-2'', StatusClosed, False), (''bd-3'', StatusOpen, False),
      (''bd-4'', StatusOpen, True)]
     [edge ''bd-2'' DepParentChild ''bd-1'' ''{}'', edge ''bd-3'' DepParentChild ''bd-1'' ''{}'',
      edge ''bd-4'' DepWaitsFor ''bd-1'' ''{}'']"

definition any_waits_4_1 :: Dependency where
  "any_waits_4_1 = zero_dependency\<lparr>d_IssueID := ''bd-4'', d_DependsOnID := ''bd-1'', d_Type := DepWaitsFor, d_Metadata := any_gate\<rparr>"

theorem waits_for_refresh_stale_witness:
  "\<exists>st'. addDependencyInTx gate_json waiting any_waits_4_1 ''alice'' (plain_opts True) = Some (Inr (False, st')) \<and>
      flagged st' (Durable, ''bd-4'') \<and> \<not> wants_block gate_json st' (Durable, ''bd-4'')"
proof -
  define st1 where "st1 = set_deps Durable [edge ''bd-2'' DepParentChild ''bd-1'' ''{}'',
    edge ''bd-3'' DepParentChild ''bd-1'' ''{}'', edge ''bd-4'' DepWaitsFor ''bd-1'' any_gate] waiting"
  have d: "d_IssueID any_waits_4_1 = ''bd-4''" "d_DependsOnID any_waits_4_1 = ''bd-1''" "d_Type any_waits_4_1 = DepWaitsFor"
    "d_Metadata any_waits_4_1 = any_gate" "any_gate \<noteq> []"
    by (simp_all add: any_waits_4_1_def zero_dependency_def any_gate_def)
  have pl: "plane_of waiting i = Durable" for i
    by (simp add: plane_of_def WispTableRouting_def IsActiveWispInTx_def row_def waiting_def small_store_def)
  have w: "write_plane waiting any_waits_4_1 (plain_opts True) = Durable" by (simp add: write_plane_def plain_opts_def pl)
  have "\<not> IsSchedulingEdge DepWaitsFor" "\<not> has_external_prefix ''bd-1''"
    by (simp_all add: IsSchedulingEdge_def has_external_prefix_def has_prefix_def DepWaitsFor_def DepBlocks_def
        DepConditionalBlocks_def DepParentChild_def)
  moreover have "row waiting (Durable, ''bd-4'') \<noteq> None" "\<exists>r. row waiting (Durable, ''bd-1'') = Some r"
    by (simp_all add: row_def waiting_def small_store_def)
  ultimately have c: "add_checks waiting any_waits_4_1 (plain_opts True) = None"
    unfolding plain_checks by (simp add: d pl)
  have f: "find_edge waiting Durable ''bd-4'' ''bd-1'' = Some (edge ''bd-4'' DepWaitsFor ''bd-1'' ''{}'')"
    by (simp add: find_edge_def waiting_def small_store_def edge_def dep_target_def)
  have "refresh_edge waiting any_waits_4_1 Durable any_gate (edge ''bd-4'' DepWaitsFor ''bd-1'' ''{}'') = Inr (False, st1)"
    by (simp add: refresh_edge_def Let_def d st1_def waiting_def small_store_def edge_def dep_target_def empty_store_def
        RecordDepEventInTx_def set_deps_def)
  then have a: "addDependencyInTx gate_json waiting any_waits_4_1 ''alice'' (plain_opts True) = Some (Inr (False, st1))"
    using c f by (simp add: addDependencyInTx_def Let_def w d)
  have b: "blocked_ok gate_json waiting"
    unfolding waiting_def by (rule small_blocked_ok) code_simp
  have e: "dr_Type (edge ''bd-4'' DepWaitsFor ''bd-1'' ''{}'') = DepWaitsFor" by simp
  have "\<forall>n. flagged st1 n \<noteq> wants_block gate_json st1 n \<longleftrightarrow> wants_block gate_json st1 n \<noteq> wants_block gate_json waiting n"
    using waits_for_refresh_stale [OF b c d(3) _ e, of "''alice''"] a by (auto simp: w d f)
  moreover have "wants_block gate_json waiting (Durable, ''bd-4'')" unfolding waiting_def by code_simp
  moreover have "\<not> wants_block gate_json st1 (Durable, ''bd-4'')" unfolding st1_def waiting_def by code_simp
  ultimately show ?thesis using a by blast
qed

text \<open>
  C39: the guard against a blocking edge inside a hierarchy depends on the order of the additions. It is
  checked for blocking edges only. So whenever an issue is blocked by a second one and lies below a third,
  an accepted parent-child edge from the third to the second leaves the blocking edge in place, with
  the blocker now an ancestor of the blocked issue; adding that same blocking edge to the resulting
  store, in other words in the other order, is what the guard refuses.
\<close>

theorem hierarchy_guard_order_dependent:
  assumes "graph_ok jt st" "d_Type dep = DepParentChild" "d_DependsOnID dep \<noteq> []" "add_checks st dep (plain_opts emit) = None"
    and "find_edge st (plane_of st (d_IssueID dep)) (d_IssueID dep) (d_DependsOnID dep) = None"
    and "blk \<in> set (st_Deps st pl)" "direct_type (dr_Type blk)" "dep_target blk = Some (d_DependsOnID dep)"
    and "(dr_IssueID blk, d_IssueID dep) \<in> (hierarchy st)\<^sup>*"
    and "d_IssueID again = dr_IssueID blk" "d_DependsOnID again = d_DependsOnID dep" "d_Type again = dr_Type blk"
  shows "\<exists>st'. addDependencyInTx jt st dep actor (plain_opts emit) = Some (Inr (emit, st')) \<and>
     blk \<in> set (st_Deps st' pl) \<and> (dr_IssueID blk, d_DependsOnID dep) \<in> (hierarchy st')\<^sup>* \<and>
     CheckBlockingHierarchyInTx st' again cycleDetectionTables \<noteq> None"
proof -
  let ?o = "plain_opts emit"
  have o: "\<not> ao_SkipCycleCheck ?o" "ao_DepTables ?o = []" "ao_PrecheckedTarget ?o = None"
    "write_plane st dep ?o = plane_of st (d_IssueID dep)" "ao_EmitEvent ?o = emit"
    by (simp_all add: plain_opts_def write_plane_def)
  have n: "find_edge st (write_plane st dep ?o) (d_IssueID dep) (d_DependsOnID dep) = None" using assms(5) o(4) by simp
  obtain st' where a: "addDependencyInTx jt st dep actor ?o = Some (Inr (ao_EmitEvent ?o, st'))"
    and D: "st_Deps st' = (st_Deps st)(write_plane st dep ?o := st_Deps st (write_plane st dep ?o) @
      [new_edge dep (target_kind st dep ?o) actor (if d_Metadata dep = [] then ''{}'' else d_Metadata dep)])"
    by (rule addDependency_insert [OF assms(1) o(1-3) assms(3, 4) n, of actor]) blast
  have sub: "set (st_Deps st q) \<subseteq> set (st_Deps st' q)" for q by (auto simp: D)
  have planes: "q \<in> set cycleDetectionTables" for q by (cases q) (simp_all add: cycleDetectionTables_def)
  have "hierarchy st \<subseteq> hierarchy st'"
    unfolding hierarchy_def by (rule subrelI) (use sub in \<open>unfold edge_pairs_iff, blast\<close>)
  moreover have "(d_IssueID dep, d_DependsOnID dep) \<in> hierarchy st'"
    unfolding hierarchy_def edge_pairs_iff
    using planes [of "write_plane st dep ?o"] by (intro bexI [of _ "write_plane st dep ?o"]) (simp_all add: D assms(2))
  ultimately have h: "(dr_IssueID blk, d_DependsOnID dep) \<in> (hierarchy st')\<^sup>*"
    using assms(9) by (meson rtrancl_into_rtrancl rtrancl_mono subsetD)
  have "(dr_IssueID blk, d_DependsOnID dep) \<in> scheduling st"
    unfolding scheduling_iff using assms(6-8) by (auto simp: direct_type_def IsSchedulingEdge_def)
  then have "dr_IssueID blk \<noteq> d_DependsOnID dep"
    using assms(1) by (auto simp: graph_ok_def acyclic_def dest: r_into_trancl)
  then have "CheckBlockingHierarchyInTx st' again cycleDetectionTables \<noteq> None"
    using h assms(7, 10-12) planes [of Durable]
    by (auto simp: CheckBlockingHierarchyInTx_def Let_def isAncestorInTx_def reachable_from_iff hierarchy_def)
  then show ?thesis using a h sub assms(6) o(5) by auto
qed

text \<open>A task blocked by a second one and a child of a third, which is then put below the second.\<close>

definition crossing :: store where
  "crossing = small_store [(''bd-1'', StatusOpen, True), (''bd-2'', StatusOpen, False), (''bd-3'', StatusOpen, False)]
     [edge ''bd-1'' DepBlocks ''bd-2'' ''{}'', edge ''bd-1'' DepParentChild ''bd-3'' ''{}'']"

definition child_3_2 :: Dependency where
  "child_3_2 = zero_dependency\<lparr>d_IssueID := ''bd-3'', d_DependsOnID := ''bd-2'', d_Type := DepParentChild\<rparr>"

lemma crossing_ok: "graph_ok no_json crossing"
proof -
  have "blocked_ok no_json crossing"
    unfolding crossing_def by (rule small_blocked_ok) code_simp
  moreover have "deps_wf crossing"
    unfolding crossing_def by (rule small_wf) (simp_all add: edge_def one_target_def dep_target_def)
  moreover have "acyclic (scheduling crossing)"
    unfolding crossing_def
    by (rule small_acyclic [of _ _ "\<lambda>i. if i = ''bd-1'' then 1 else 0"])
      (auto simp: edge_pairs_def cycleDetectionTables_def map_filter_def small_store_def edge_def dep_target_def
        IsSchedulingEdge_def split: if_splits)
  ultimately show ?thesis by (simp add: graph_ok_def)
qed

theorem hierarchy_guard_order_dependent_witness:
  "\<exists>st'. addDependencyInTx no_json crossing child_3_2 ''alice'' (plain_opts True) = Some (Inr (True, st')) \<and>
     (''bd-1'', ''bd-2'') \<in> (hierarchy st')\<^sup>* \<and> CheckBlockingHierarchyInTx st' blocks_1_2 cycleDetectionTables \<noteq> None"
proof -
  have d: "d_IssueID child_3_2 = ''bd-3''" "d_DependsOnID child_3_2 = ''bd-2''" "d_Type child_3_2 = DepParentChild"
    by (simp_all add: child_3_2_def zero_dependency_def)
  have pl: "plane_of crossing i = Durable" for i
    by (simp add: plane_of_def WispTableRouting_def IsActiveWispInTx_def row_def crossing_def small_store_def)
  have S: "scheduling crossing = {(''bd-1'', ''bd-2''), (''bd-1'', ''bd-3'')}" "hierarchy crossing = {(''bd-1'', ''bd-3'')}"
    by (simp_all add: scheduling_def hierarchy_def crossing_def edge_pairs_def cycleDetectionTables_def map_filter_def small_store_def
        edge_def dep_target_def IsSchedulingEdge_def dep_type_defs)
  have "(''bd-2'', ''bd-3'') \<notin> (scheduling crossing)\<^sup>*"
    by (rule notI, erule converse_rtranclE) (simp_all add: S)
  moreover have "row crossing (Durable, ''bd-3'') \<noteq> None" "\<exists>r. row crossing (Durable, ''bd-2'') = Some r"
    by (simp_all add: row_def crossing_def small_store_def)
  ultimately have c: "add_checks crossing child_3_2 (plain_opts True) = None"
    unfolding plain_checks by (simp add: d pl)
  have n: "find_edge crossing Durable ''bd-3'' ''bd-2'' = None"
    by (simp add: find_edge_def crossing_def small_store_def edge_def)
  have b: "edge ''bd-1'' DepBlocks ''bd-2'' ''{}'' \<in> set (st_Deps crossing Durable)"
    by (simp add: crossing_def small_store_def)
  show ?thesis
    using hierarchy_guard_order_dependent [OF crossing_ok d(3) _ c _ b, of blocks_1_2 "''alice''"] n
    by (auto simp: d pl S direct_type_def blocks_1_2_def)
qed

end
