(* ===== verification/Closing.thy ===== *)
theory Closing
  imports Claims Dependency_Edges
begin

text \<open>
  Closing and reopening issues (\<open>close.go\<close>, \<open>reopen.go\<close>, \<open>version.go\<close>, with \<open>IsBlockedInTx\<close> of
  \<open>dependency_queries.go\<close>), the policy a checked close applies, and the sweep that wakes deferred issues
  (\<open>wake_defers.go\<close>).

  A checked close runs in a savepoint, so that a refusal leaves the tables as they were. The primary key
  of an edge is derived from its source and its target; two edges have the same key when they agree on
  both. An operation that contains a loop over the graph has the value \<open>None\<close> when the loop does not end.
\<close>

section \<open>Reading the state of an issue\<close>

text \<open>\<open>NowAuxTime\<close>, \<open>ParseAuxTime\<close> and \<open>UTC_TIMESTAMP()\<close> have whole seconds.\<close>

definition aux_time :: "gotime \<Rightarrow> gotime" where
  "aux_time t = \<lparr>t_ns = t_ns t - t_ns t mod ns_per_sec, t_off = 0\<rparr>"

definition CheckVersionInTx :: "store \<Rightarrow> string \<Rightarrow> int \<Rightarrow> store_error option" where
  "CheckVersionInTx st i expected =
     (case row st (plane_of st i, i) of
        None \<Rightarrow> Some (ErrNotFound i)
      | Some r \<Rightarrow> if i_RowVersion r \<noteq> expected then Some (ErrVersionMismatch i) else None)"

text \<open>Whether the issue is closed, and the table that holds it: the durable one first.\<close>

definition isClosedInTx :: "store \<Rightarrow> string \<Rightarrow> (bool \<times> plane) option" where
  "isClosedInTx st i =
     (case row st (Durable, i) of
        Some r \<Rightarrow> Some (i_Status r = StatusClosed, Durable)
      | None \<Rightarrow> map_option (\<lambda>r. (i_Status r = StatusClosed, Ephemeral)) (row st (Ephemeral, i)))"

definition open_child_edges :: "store \<Rightarrow> plane \<Rightarrow> node \<Rightarrow> DepRow list" where
  "open_child_edges st tab n =
     filter (\<lambda>d. dep_col (fst n) d = Some (snd n) \<and> dr_Type d = DepParentChild \<and>
       (case row st (tab, dr_IssueID d) of None \<Rightarrow> False | Some c \<Rightarrow> i_Status c \<noteq> StatusClosed)) (st_Deps st tab)"

definition edge_key :: "DepRow \<Rightarrow> string \<times> string option" where
  "edge_key d = (dr_IssueID d, dep_target d)"

definition countOpenChildrenForTargetInTx :: "store \<Rightarrow> node \<Rightarrow> nat" where
  "countOpenChildrenForTargetInTx st n =
     length (remdups (map dr_IssueID (open_child_edges st Durable n))) +
     length (remdups (map dr_IssueID (filter (\<lambda>d. edge_key d \<notin> edge_key ` set (st_Deps st Durable))
       (open_child_edges st Ephemeral n))))"

definition dependencyTargetColumnForIDInTx :: "store \<Rightarrow> string \<Rightarrow> plane" where
  "dependencyTargetColumnForIDInTx st i =
     (if row st (Durable, i) \<noteq> None then Durable
      else if row st (Ephemeral, i) \<noteq> None then Ephemeral
      else Durable)"

definition countOpenChildrenInTx :: "store \<Rightarrow> string \<Rightarrow> nat" where
  "countOpenChildrenInTx st i = countOpenChildrenForTargetInTx st (dependencyTargetColumnForIDInTx st i, i)"

text \<open>The status of each ID; the row of the wisp table wins.\<close>

definition loadStatusByIDInTx :: "store \<Rightarrow> string list \<Rightarrow> string \<Rightarrow> status option" where
  "loadStatusByIDInTx st ids i =
     (if i \<notin> set ids then None
      else case row st (Ephemeral, i) of
        Some r \<Rightarrow> Some (i_Status r)
      | None \<Rightarrow> map_option i_Status (row st (Durable, i)))"

definition blocker_edges :: "store \<Rightarrow> string \<Rightarrow> DepRow list" where
  "blocker_edges st i =
     concat (map (\<lambda>tab. filter (\<lambda>d. dr_IssueID d = i \<and> dr_Type d \<in> {DepBlocks, DepWaitsFor, DepConditionalBlocks})
       (st_Deps st tab)) [Durable, Ephemeral])"

definition blocker_text :: "DepRow \<Rightarrow> string \<Rightarrow> string" where
  "blocker_text d t = (if dr_Type d \<noteq> DepBlocks then t @ '' ('' @ dr_Type d @ '')'' else t)"

definition live_blockers :: "store \<Rightarrow> DepRow list \<Rightarrow> string list" where
  "live_blockers st es =
     (let statusByID = loadStatusByIDInTx st (List.map_filter dep_target es)
      in List.map_filter (\<lambda>d. case dep_target d of
           None \<Rightarrow> None
         | Some t \<Rightarrow> (case statusByID t of
             None \<Rightarrow> None
           | Some s \<Rightarrow> if live s then Some (blocker_text d t) else None)) es)"

definition IsBlockedInTx :: "store \<Rightarrow> string \<Rightarrow> store_error + bool \<times> string list" where
  "IsBlockedInTx st i =
     (case (case row st (Durable, i) of Some r \<Rightarrow> Some r | None \<Rightarrow> row st (Ephemeral, i)) of
        None \<Rightarrow> Inr (False, [])
      | Some r \<Rightarrow>
          if \<not> i_IsBlocked r then Inr (False, [])
          else let es = blocker_edges st i in
            if list_ex (\<lambda>d. dep_target d = None) es then Inl (NullTarget i)
            else Inr (True, live_blockers st es))"

section \<open>Closing\<close>

abbreviation EventClosed :: string where "EventClosed \<equiv> ''closed''"
abbreviation EventReopened :: string where "EventReopened \<equiv> ''reopened''"
abbreviation EventCommented :: string where "EventCommented \<equiv> ''commented''"
abbreviation EventStatusChanged :: string where "EventStatusChanged \<equiv> ''status_changed''"

record CloseResult =
  cr_IsWisp :: bool
  cr_AlreadyClosed :: bool
  cr_OpenChildren :: nat
  cr_IssueRowsChanged :: bool

definition close_row :: "env \<Rightarrow> string \<Rightarrow> string \<Rightarrow> string \<Rightarrow> Issue \<Rightarrow> Issue" where
  "close_row en i reason session r =
     r\<lparr>i_Status := StatusClosed, i_ClosedAt := Some (en_Now en), i_UpdatedAt := en_Now en, i_CloseReason := reason,
       i_ClosedBySession := session, i_RowVersion := en_Lock en i\<rparr>"

definition closeIssueInTx ::
    "env \<Rightarrow> json_text \<Rightarrow> store \<Rightarrow> string \<Rightarrow> string \<Rightarrow> string \<Rightarrow> string \<Rightarrow> bool \<Rightarrow> (store_error + CloseResult \<times> store) option" where
  "closeIssueInTx en jt st i reason actor session recordEvent =
     (let isWisp = IsActiveWispInTx st i; pl = plane_of st i in
      case AffectedByStatusChangeInTx st (pl, i) of
        None \<Rightarrow> None
      | Some (issueIDs, wispIDs) \<Rightarrow>
          (case (case row st (pl, i) of Some r \<Rightarrow> if i_Status r \<noteq> StatusClosed then Some r else None | None \<Rightarrow> None) of
             None \<Rightarrow> Some (case row st (pl, i) of
                 None \<Rightarrow> Inl (ErrNotFound i)
               | Some r \<Rightarrow>
                   if i_Status r = StatusClosed
                   then Inr (\<lparr>cr_IsWisp = isWisp, cr_AlreadyClosed = True, cr_OpenChildren = 0, cr_IssueRowsChanged = False\<rparr>, st)
                   else Inl (FailedToClose i))
           | Some r \<Rightarrow>
               let st1 = DeleteLeaseInTx (set_row (pl, i) (Some (close_row en i reason session r)) st) i;
                   st2 = (if recordEvent then RecordEventInTable st1 pl i EventClosed actor reason else st1)
               in map_option (\<lambda>res. bindE res (\<lambda>(recompute, st3).
                    bindE (RecordEventInTx st3 EventClose i) (\<lambda>st4.
                      Inr (\<lparr>cr_IsWisp = isWisp, cr_AlreadyClosed = False, cr_OpenChildren = 0,
                             cr_IssueRowsChanged = (\<not> isWisp \<or> rb_IssueRowsChanged recompute)\<rparr>, st4))))
                  (RecomputeIsBlockedInTxWithResult jt st2 issueIDs wispIDs)))"

definition CloseIssueInTx ::
    "env \<Rightarrow> json_text \<Rightarrow> store \<Rightarrow> string \<Rightarrow> string \<Rightarrow> string \<Rightarrow> string \<Rightarrow> (store_error + CloseResult \<times> store) option" where
  "CloseIssueInTx en jt st i reason actor session = closeIssueInTx en jt st i reason actor session True"

definition CloseIssueWithoutEventInTx ::
    "env \<Rightarrow> json_text \<Rightarrow> store \<Rightarrow> string \<Rightarrow> string \<Rightarrow> string \<Rightarrow> string \<Rightarrow> (store_error + CloseResult \<times> store) option" where
  "CloseIssueWithoutEventInTx en jt st i reason actor session = closeIssueInTx en jt st i reason actor session False"

text \<open>The policy: open children and live direct blockers refuse, unless forced.\<close>

definition enforceClosePolicyForTargetInTx :: "store \<Rightarrow> node \<Rightarrow> bool \<Rightarrow> bool \<Rightarrow> store_error + nat" where
  "enforceClosePolicyForTargetInTx st n force closed =
     (let openChildren = countOpenChildrenForTargetInTx st n in
      if \<not> force \<and> openChildren > 0 then Inl (ErrCloseOpenChildren (snd n) openChildren)
      else if \<not> force \<and> \<not> closed
      then bindE (IsBlockedInTx st (snd n)) (\<lambda>(blocked, blockers).
             if blocked \<and> length blockers > 0 then Inl (ErrCloseBlocked (snd n) blockers) else Inr openChildren)
      else Inr openChildren)"

definition EnforceClosePolicyInTx :: "store \<Rightarrow> string \<Rightarrow> bool \<Rightarrow> store_error + nat" where
  "EnforceClosePolicyInTx st i force =
     (case isClosedInTx st i of
        None \<Rightarrow> Inl (ErrNotFound i)
      | Some (closed, pl) \<Rightarrow> enforceClosePolicyForTargetInTx st (pl, i) force closed)"

definition closeIssueCheckedAfterSavepoint ::
    "env \<Rightarrow> json_text \<Rightarrow> store \<Rightarrow> node \<Rightarrow> string \<Rightarrow> string \<Rightarrow> string \<Rightarrow> bool \<Rightarrow> bool \<Rightarrow> (store_error + CloseResult \<times> store) option" where
  "closeIssueCheckedAfterSavepoint en jt st n reason actor session force closed =
     (case enforceClosePolicyForTargetInTx st n force closed of
        Inl e \<Rightarrow> Some (Inl e)
      | Inr openChildren \<Rightarrow>
          map_option (\<lambda>res. bindE res (\<lambda>(result, st'). Inr (result\<lparr>cr_OpenChildren := openChildren\<rparr>, st')))
            (CloseIssueInTx en jt st (snd n) reason actor session))"

definition CloseIssueCheckedInTx ::
    "env \<Rightarrow> json_text \<Rightarrow> store \<Rightarrow> string \<Rightarrow> string \<Rightarrow> string \<Rightarrow> string \<Rightarrow> bool \<Rightarrow> int option \<Rightarrow>
     (store_error + CloseResult \<times> store) option" where
  "CloseIssueCheckedInTx en jt st i reason actor session force expectedVersion =
     (case (case expectedVersion of None \<Rightarrow> None | Some v \<Rightarrow> CheckVersionInTx st i v) of
        Some e \<Rightarrow> Some (Inl e)
      | None \<Rightarrow>
          (case isClosedInTx st i of
             None \<Rightarrow> Some (Inl (ErrNotFound i))
           | Some (closed, pl) \<Rightarrow> closeIssueCheckedAfterSavepoint en jt st (pl, i) reason actor session force closed))"

section \<open>Reopening\<close>

definition ReopenCategoryInTx :: "env \<Rightarrow> store \<Rightarrow> status \<Rightarrow> StatusCategory" where
  "ReopenCategoryInTx en st s =
     (if Status_IsValid s then BuiltInStatusCategory s
      else case List.find (\<lambda>c. cs_Name c = s) (ResolveCustomStatusesDetailedInTx en st) of
        Some c \<Rightarrow> cs_Category c
      | None \<Rightarrow> CategoryUnspecified)"

text \<open>A comment of the audit trail: an event with the text, and a journal row.\<close>

definition AddCommentEventInTx :: "env \<Rightarrow> store \<Rightarrow> string \<Rightarrow> string \<Rightarrow> string \<Rightarrow> store_error + store" where
  "AddCommentEventInTx en st i actor comment =
     (let pl = plane_of st i;
          st1 = st\<lparr>st_Events := (st_Events st)(pl := st_Events st pl @
            [\<lparr>ev_IssueID = i, ev_Type = EventCommented, ev_Actor = actor, ev_Old = EventText [], ev_New = EventText [],
              ev_Comment = Some comment\<rparr>])\<rparr>
      in RecordCommentEventInTx st1 i \<lparr>ec_Author = actor, ec_Text = comment, ec_CreatedAt = aux_time (en_Now en),
           ec_Source = ''audit''\<rparr>)"

record ReopenResult =
  rr_IsWisp :: bool
  rr_AlreadyOpen :: bool
  rr_Changed :: bool
  rr_IssueRowsChanged :: bool

definition unchanged :: "bool \<Rightarrow> status \<Rightarrow> ReopenResult" where
  "unchanged isWisp s = \<lparr>rr_IsWisp = isWisp, rr_AlreadyOpen = (s = StatusOpen), rr_Changed = False, rr_IssueRowsChanged = False\<rparr>"

definition reopen_row :: "env \<Rightarrow> string \<Rightarrow> Issue \<Rightarrow> Issue" where
  "reopen_row en i r =
     r\<lparr>i_Status := StatusOpen, i_ClosedAt := None, i_CloseReason := [], i_ClosedBySession := [], i_DeferUntil := None,
       i_UpdatedAt := en_Now en, i_RowVersion := en_Lock en i\<rparr>"

text \<open>What follows the update of the row.\<close>

definition finish_reopen ::
    "env \<Rightarrow> json_text \<Rightarrow> store \<Rightarrow> node \<Rightarrow> string \<Rightarrow> string \<Rightarrow> string list \<Rightarrow> string list \<Rightarrow> (store_error + ReopenResult \<times> store) option" where
  "finish_reopen en jt st n reason actor issueIDs wispIDs =
     (let isWisp = (fst n = Ephemeral); i = snd n;
          st1 = RecordEventInTable (DeleteLeaseInTx st i) (fst n) i EventReopened actor reason
      in case (if reason \<noteq> [] then AddCommentEventInTx en st1 i actor reason else Inr st1) of
           Inl e \<Rightarrow> Some (Inl e)
         | Inr st2 \<Rightarrow>
             map_option (\<lambda>res. bindE res (\<lambda>(recompute, st3).
                bindE (RecordEventInTx st3 EventUpdate i) (\<lambda>st4.
                  Inr (\<lparr>rr_IsWisp = isWisp, rr_AlreadyOpen = False, rr_Changed = True,
                         rr_IssueRowsChanged = (\<not> isWisp \<or> rb_IssueRowsChanged recompute)\<rparr>, st4))))
               (RecomputeIsBlockedInTxWithResult jt st2 issueIDs wispIDs))"

text \<open>The status read first is compared again by the update; a miss is tried once more.\<close>

function reopenIssueInTx ::
    "env \<Rightarrow> json_text \<Rightarrow> store \<Rightarrow> string \<Rightarrow> string \<Rightarrow> string \<Rightarrow> bool \<Rightarrow> (store_error + ReopenResult \<times> store) option" where
  "reopenIssueInTx en jt st i reason actor retryOnConditionalMiss =
     (let isWisp = IsActiveWispInTx st i; n = (plane_of st i, i) in
      case row st n of
        None \<Rightarrow> Some (Inl (ErrNotFound i))
      | Some current \<Rightarrow>
          if ReopenCategoryInTx en st (i_Status current) \<noteq> CategoryDone then Some (Inr (unchanged isWisp (i_Status current), st))
          else case AffectedByStatusChangeInTx st n of
            None \<Rightarrow> None
          | Some (issueIDs, wispIDs) \<Rightarrow>
              (case row st n of
                 None \<Rightarrow> Some (Inl (ErrNotFound i))
               | Some r \<Rightarrow>
                   if i_Status r = i_Status current
                   then finish_reopen en jt (set_row n (Some (reopen_row en i r)) st) n reason actor issueIDs wispIDs
                   else if ReopenCategoryInTx en st (i_Status r) \<noteq> CategoryDone then Some (Inr (unchanged isWisp (i_Status r), st))
                   else if retryOnConditionalMiss then reopenIssueInTx en jt st i reason actor False
                   else Some (Inl (StatusChangedConcurrently i))))"
  by pat_completeness auto

termination
  by (relation "measure (\<lambda>(_, _, _, _, _, _, retry). if retry then 1 else 0)") auto

declare reopenIssueInTx.simps [simp del]

definition ReopenIssueInTx ::
    "env \<Rightarrow> json_text \<Rightarrow> store \<Rightarrow> string \<Rightarrow> string \<Rightarrow> string \<Rightarrow> (store_error + ReopenResult \<times> store) option" where
  "ReopenIssueInTx en jt st i reason actor = reopenIssueInTx en jt st i reason actor True"

section \<open>Waking deferred issues\<close>

definition DeferWakeActor :: string where
  "DeferWakeActor = ''bd-defer-wake''"

text \<open>A defer without a date never expires.\<close>

definition expired_defer :: "env \<Rightarrow> Issue \<Rightarrow> bool" where
  "expired_defer en r \<longleftrightarrow> i_Status r = StatusDeferred \<and>
     (case i_DeferUntil r of None \<Rightarrow> False | Some t \<Rightarrow> \<not> After t (aux_time (en_Now en)))"

definition awake_row :: "env \<Rightarrow> string \<Rightarrow> Issue \<Rightarrow> Issue" where
  "awake_row en i r = r\<lparr>i_Status := StatusOpen, i_DeferUntil := None, i_UpdatedAt := en_Now en, i_RowVersion := en_Lock en i\<rparr>"

definition wake_one :: "env \<Rightarrow> plane \<Rightarrow> store \<Rightarrow> string \<Rightarrow> store_error + bool \<times> store" where
  "wake_one en pl st i =
     (case row st (pl, i) of
        None \<Rightarrow> Inr (False, st)
      | Some r \<Rightarrow>
          if \<not> expired_defer en r then Inr (False, st)
          else bindE (RecordEventInTx (RecordFullEventInTable (set_row (pl, i) (Some (awake_row en i r)) st) pl i EventStatusChanged
                 DeferWakeActor (EventText StatusDeferred) (EventText StatusOpen)) EventUpdate i)
               (\<lambda>st'. Inr (True, st')))"

fun wake_all :: "env \<Rightarrow> plane \<Rightarrow> store \<Rightarrow> string list \<Rightarrow> store_error + string list \<times> store" where
  "wake_all en pl st [] = Inr ([], st)"
| "wake_all en pl st (i # is) =
     bindE (wake_one en pl st i) (\<lambda>(done, st1).
       bindE (wake_all en pl st1 is) (\<lambda>(woken, st2). Inr (if done then i # woken else woken, st2)))"

text \<open>The snapshot of the expired ones, in the order in which the database returns the rows of the table.\<close>

definition wakeExpiredDefersInTable :: "env \<Rightarrow> plane \<Rightarrow> store \<Rightarrow> string list \<Rightarrow> store_error + string list \<times> store" where
  "wakeExpiredDefersInTable en pl st order =
     wake_all en pl st (filter (\<lambda>i. case row st (pl, i) of None \<Rightarrow> False | Some r \<Rightarrow> expired_defer en r) order)"

definition WakeExpiredDefersInTx ::
    "env \<Rightarrow> store \<Rightarrow> (plane \<Rightarrow> string list) \<Rightarrow> store_error + (string list \<times> string list) \<times> store" where
  "WakeExpiredDefersInTx en st order =
     bindE (wakeExpiredDefersInTable en Durable st (order Durable)) (\<lambda>(issues, st1).
       bindE (wakeExpiredDefersInTable en Ephemeral st1 (order Ephemeral)) (\<lambda>(wisps, st2). Inr ((issues, wisps), st2)))"

section \<open>A new status\<close>

lemma derived_only_graph_ok:
  assumes "derived_only st st'" "blocked_ok jt st'" "deps_wf st" "acyclic (scheduling st)"
  shows "graph_ok jt st'"
  using assms(2-) derived_onlyD(1) [OF assms(1)] by (simp add: graph_ok_def deps_wf_def scheduling_def edge_pairs_def)

text \<open>
  \<open>restated\<close>: one row is replaced, its lease is dropped, and apart from \<open>is_blocked\<close> flags, events and
  the journal everything else stays.
\<close>

definition restated :: "store \<Rightarrow> store \<Rightarrow> node \<Rightarrow> Issue \<Rightarrow> bool" where
  "restated st st' n r \<longleftrightarrow>
     (\<forall>m. map_option unflag (row st' m) = map_option unflag (((row st)(n \<mapsto> r)) m)) \<and>
     st_Leases st' = (st_Leases st)(snd n := None) \<and> st_Deps st' = st_Deps st \<and>
     st_Config st' = st_Config st \<and> st_CustomStatuses st' = st_CustomStatuses st"

lemma unflag_fields [simp]:
  "i_Status (unflag r) = i_Status r" "i_Assignee (unflag r) = i_Assignee r" "i_ID (unflag r) = i_ID r"
  by (simp_all add: unflag_def)

lemma unflag_eqD: "unflag r = unflag s \<Longrightarrow> i_Status r = i_Status s" "unflag r = unflag s \<Longrightarrow> i_Assignee r = i_Assignee s"
  by (metis unflag_fields)+

lemma new_row_simps [simp]:
  "i_Status (close_row en i reason session r) = StatusClosed" "i_Status (reopen_row en i r) = StatusOpen"
  "i_Status (awake_row en i r) = StatusOpen" "i_IsBlocked (awake_row en i r) = i_IsBlocked r"
  by (simp_all add: close_row_def reopen_row_def awake_row_def)

lemma unflag_status:
  assumes "map_option unflag a = map_option unflag b"
  shows "map_option i_Status a = map_option i_Status b" "map_option i_Assignee a = map_option i_Assignee b" "a = None \<longleftrightarrow> b = None"
proof -
  have "map_option i_Status (map_option unflag a) = map_option i_Status (map_option unflag b)"
    "map_option i_Assignee (map_option unflag a) = map_option i_Assignee (map_option unflag b)" using assms by simp_all
  then show "map_option i_Status a = map_option i_Status b" "map_option i_Assignee a = map_option i_Assignee b"
    by (simp_all add: option.map_comp comp_def)
  show "a = None \<longleftrightarrow> b = None" using assms by (cases a; cases b) simp_all
qed

lemma restated_other:
  assumes "restated st st' n r" "m \<noteq> n"
  shows "map_option i_Status (row st' m) = map_option i_Status (row st m)"
    "map_option i_Assignee (row st' m) = map_option i_Assignee (row st m)" "row st' m = None \<longleftrightarrow> row st m = None"
proof -
  have "map_option unflag (row st' m) = map_option unflag (row st m)"
    using assms unfolding restated_def by (metis fun_upd_other)
  then show "map_option i_Status (row st' m) = map_option i_Status (row st m)"
    "map_option i_Assignee (row st' m) = map_option i_Assignee (row st m)" "row st' m = None \<longleftrightarrow> row st m = None"
    by (fact unflag_status)+
qed

lemma restated_at:
  assumes "restated st st' n r"
  obtains r' where "row st' n = Some r'" "unflag r' = unflag r"
proof -
  have "map_option unflag (row st' n) = map_option unflag (((row st)(n \<mapsto> r)) n)" using assms unfolding restated_def by blast
  then show thesis using that by (cases "row st' n") auto
qed

lemma restated_leases:
  assumes "leases_ok st" "restated st st' n r"
  shows "leases_ok st'"
  unfolding leases_ok_def
proof (intro allI impI)
  fix j l
  assume "st_Leases st' j = Some l"
  then have j: "j \<noteq> snd n" "st_Leases st j = Some l"
    using assms(2) by (auto simp: restated_def split: if_splits)
  then have "(Durable, j) \<noteq> n" by auto
  note o = restated_other(1, 2) [OF assms(2) this]
  obtain r where r: "row st (Durable, j) = Some r" "i_Status r = StatusInProgress" "actorMatches (i_Assignee r) (l_Holder l)"
    using leases_okD [OF assms(1) j(2)] by (auto simp: lease_of_def)
  then obtain r' where "row st' (Durable, j) = Some r'" "i_Status r' = i_Status r" "i_Assignee r' = i_Assignee r"
    using o by auto
  then show "lease_of st' j l" using r by (simp add: lease_of_def)
qed

lemma restated_single:
  assumes "\<And>i. single st i" "restated st st' n r" "row st n \<noteq> None"
  shows "single st' i"
proof -
  have "row st' m = None \<longleftrightarrow> row st m = None" for m
    using restated_other(3) [OF assms(2)] restated_at [OF assms(2)] assms(3) by (cases "m = n") (metis option.distinct(1))+
  then show ?thesis using assms(1) [of i] by (simp add: single_def)
qed

text \<open>A new status in one row, the flags repaired and the journal written.\<close>

lemma restate_repaired:
  assumes ok: "graph_ok jt st" and r: "row st n = Some r" "i_IsBlocked r' = i_IsBlocked r"
    and st1: "st_Deps st1 = st_Deps st" "row st1 = (row st)(n \<mapsto> r')" "st_Leases st1 = (st_Leases st)(snd n := None)"
      "st_Config st1 = st_Config st" "st_CustomStatuses st1 = st_CustomStatuses st"
    and aff: "AffectedByStatusChangeInTx st0 n = Some (issueIDs, wispIDs)" "st_Deps st0 = st_Deps st"
  obtains res st3 st4 where "RecomputeIsBlockedInTxWithResult jt st1 issueIDs wispIDs = Some (Inr (res, st3))"
    "RecordEventInTx st3 op (snd n) = Inr st4" "graph_ok jt st4" "restated st st4 n r'"
proof -
  have b: "blocked_ok jt st" "deps_wf st" "acyclic (scheduling st)" using ok by (simp_all add: graph_ok_def)
  obtain res st3 where R: "RecomputeIsBlockedInTxWithResult jt st1 issueIDs wispIDs = Some (Inr (res, st3))"
    "derived_only st1 st3" "blocked_ok jt st3"
    by (rule status_change_repaired [OF b(1) hierarchy_acyclic [OF b(2, 3)] r st1(1, 2) aff])
  have "row st3 n \<noteq> None" using unflag_status(3) [OF derived_only_row [OF R(2), of n]] st1(2) by simp
  then obtain s where "row st3 n = Some s" by blast
  then obtain st4 where J: "RecordEventInTx st3 op (snd n) = Inr st4" "journal_only st3 st4"
    using RecordEventInTx_after by blast
  note d = derived_only_journal [OF R(2) J(2)]
  have "graph_ok jt st4"
    by (rule derived_only_graph_ok [OF d])
      (use R(3) b(2, 3) st1(1) journal_only_deps(3) [OF J(2)] in \<open>simp_all add: deps_wf_def scheduling_def edge_pairs_def\<close>)
  moreover have "restated st st4 n r'"
    using derived_only_row [OF d] derived_onlyD [OF d] st1 by (simp add: restated_def)
  ultimately show thesis using that [OF R(1) J(1)] by blast
qed

lemma AffectedByStatusChange_total: obtains a b where "AffectedByStatusChangeInTx st n = Some (a, b)"
  by (rule AffectedByStatusChange_covers [of st n]) (use that in blast)

lemma closeIssueInTx_closes:
  assumes "graph_ok jt st" "row st (home st i) = Some r" "i_Status r \<noteq> StatusClosed"
  obtains res st' where "closeIssueInTx en jt st i reason actor session recordEvent = Some (Inr (res, st'))"
    "\<not> cr_AlreadyClosed res" "graph_ok jt st'" "restated st st' (home st i) (close_row en i reason session r)"
proof -
  let ?n = "home st i" and ?r' = "close_row en i reason session r"
  define st1 where "st1 = DeleteLeaseInTx (set_row ?n (Some ?r') st) i"
  define st2 where "st2 = (if recordEvent then RecordEventInTable st1 (plane_of st i) i EventClosed actor reason else st1)"
  obtain a b where aff: "AffectedByStatusChangeInTx st ?n = Some (a, b)" by (rule AffectedByStatusChange_total)
  have w: "st_Deps st2 = st_Deps st" "row st2 = (row st)(?n \<mapsto> ?r')" "st_Leases st2 = (st_Leases st)(snd ?n := None)"
    "st_Config st2 = st_Config st" "st_CustomStatuses st2 = st_CustomStatuses st"
    by (simp_all add: st2_def st1_def DeleteLeaseInTx_def RecordEventInTable_def fun_eq_iff)
  have f: "i_IsBlocked ?r' = i_IsBlocked r" by (simp add: close_row_def)
  obtain res st3 st4 where R: "RecomputeIsBlockedInTxWithResult jt st2 a b = Some (Inr (res, st3))"
    "RecordEventInTx st3 EventClose (snd ?n) = Inr st4" "graph_ok jt st4" "restated st st4 ?n ?r'"
    by (rule restate_repaired [OF assms(1, 2) f w aff refl])
  have "closeIssueInTx en jt st i reason actor session recordEvent =
      map_option (\<lambda>res. bindE res (\<lambda>(recompute, st3).
        bindE (RecordEventInTx st3 EventClose i) (\<lambda>st4.
          Inr (\<lparr>cr_IsWisp = IsActiveWispInTx st i, cr_AlreadyClosed = False, cr_OpenChildren = 0,
             cr_IssueRowsChanged = (\<not> IsActiveWispInTx st i \<or> rb_IssueRowsChanged recompute)\<rparr>, st4))))
        (RecomputeIsBlockedInTxWithResult jt st2 a b)"
    using assms(2, 3) aff by (simp add: closeIssueInTx_def Let_def st2_def st1_def)
  then show thesis using that [OF _ _ R(3, 4)] R(1, 2) by simp
qed

lemma closeIssueInTx_other:
  "row st (home st i) = None \<Longrightarrow> closeIssueInTx en jt st i reason actor session recordEvent = Some (Inl (ErrNotFound i))"
  "row st (home st i) = Some r \<Longrightarrow> i_Status r = StatusClosed \<Longrightarrow>
     \<exists>res. closeIssueInTx en jt st i reason actor session recordEvent = Some (Inr (res, st)) \<and> cr_AlreadyClosed res"
proof -
  obtain a b where "AffectedByStatusChangeInTx st (home st i) = Some (a, b)" by (rule AffectedByStatusChange_total)
  then show "row st (home st i) = None \<Longrightarrow> closeIssueInTx en jt st i reason actor session recordEvent = Some (Inl (ErrNotFound i))"
    "row st (home st i) = Some r \<Longrightarrow> i_Status r = StatusClosed \<Longrightarrow>
     \<exists>res. closeIssueInTx en jt st i reason actor session recordEvent = Some (Inr (res, st)) \<and> cr_AlreadyClosed res"
    by (simp_all add: closeIssueInTx_def Let_def)
qed

section \<open>The policy of a checked close\<close>

text \<open>Every edge starts at a row of its own table, as the foreign keys of the schema demand.\<close>

definition sources_ok :: "store \<Rightarrow> bool" where
  "sources_ok st \<longleftrightarrow> (\<forall>pl. list_all (\<lambda>d. row st (pl, dr_IssueID d) \<noteq> None) (st_Deps st pl))"

lemma sources_okD: "sources_ok st \<Longrightarrow> d \<in> set (st_Deps st pl) \<Longrightarrow> row st (pl, dr_IssueID d) \<noteq> None"
  by (simp add: sources_ok_def list_all_iff)

text \<open>A child that is not closed; a pinned child counts as open.\<close>

definition open_child :: "store \<Rightarrow> node \<Rightarrow> node \<Rightarrow> bool" where
  "open_child st n c \<longleftrightarrow> n \<in> parents st c \<and> (\<exists>r. row st c = Some r \<and> i_Status r \<noteq> StatusClosed)"

text \<open>A direct blocker that is not done: an edge to a live row.\<close>

definition live_blocker :: "store \<Rightarrow> node \<Rightarrow> DepRow \<Rightarrow> bool" where
  "live_blocker st n d \<longleftrightarrow> d \<in> set (edges_from st n) \<and> dr_Type d \<in> {DepBlocks, DepWaitsFor, DepConditionalBlocks} \<and>
     (\<exists>t. dep_target d = Some t \<and> live_row st (home st t))"

lemma home_cases: "row st (pl, i) \<noteq> None \<Longrightarrow> single st i \<Longrightarrow> home st i = (pl, i)"
  by (cases pl) (auto simp: plane_of_def WispTableRouting_def IsActiveWispInTx_def single_def)

lemma home_None: "row st (home st i) = None \<Longrightarrow> row st (Durable, i) = None \<and> row st (Ephemeral, i) = None"
  by (auto simp: plane_of_def WispTableRouting_def IsActiveWispInTx_def split: if_splits)

lemma open_child_iff: "open_child st n (tab, i) \<longleftrightarrow> (\<exists>d\<in>set (open_child_edges st tab n). dr_IssueID d = i)"
  unfolding open_child_def parents_def edges_from_def open_child_edges_def
  by (cases "row st (tab, i)") auto

lemma open_child_edges_iff: "open_child_edges st tab n \<noteq> [] \<longleftrightarrow> (\<exists>i. open_child st n (tab, i))"
  unfolding open_child_iff by (cases "open_child_edges st tab n") auto

lemma no_open_children:
  assumes "\<And>i. single st i" "sources_ok st"
  shows "countOpenChildrenForTargetInTx st n = 0 \<longleftrightarrow> (\<nexists>c. open_child st n c)"
proof -
  have "edge_key d \<notin> edge_key ` set (st_Deps st Durable)" if d: "d \<in> set (st_Deps st Ephemeral)" for d
  proof
    assume "edge_key d \<in> edge_key ` set (st_Deps st Durable)"
    then obtain d' where "d' \<in> set (st_Deps st Durable)" "dr_IssueID d' = dr_IssueID d" by (auto simp: edge_key_def)
    then have "row st (Durable, dr_IssueID d) \<noteq> None" using sources_okD [OF assms(2)] by metis
    then show False using sources_okD [OF assms(2) d] assms(1) [of "dr_IssueID d"] by (auto simp: single_def)
  qed
  then have "filter (\<lambda>d. edge_key d \<notin> edge_key ` set (st_Deps st Durable)) (open_child_edges st Ephemeral n) = open_child_edges st Ephemeral n"
    by (intro filter_True ballI) (simp add: open_child_edges_def)
  moreover have "(\<nexists>c. open_child st n c) \<longleftrightarrow> (\<forall>tab. \<nexists>i. open_child st n (tab, i))" by (metis prod.exhaust)
  moreover have "(\<forall>tab. P tab) \<longleftrightarrow> P Durable \<and> P Ephemeral" for P by (metis plane.exhaust)
  ultimately show ?thesis
    unfolding countOpenChildrenForTargetInTx_def open_child_edges_iff [symmetric] by simp
qed

lemma blocker_edges_home:
  assumes "\<And>i. single st i" "sources_ok st" "row st (home st i) \<noteq> None"
  shows "set (blocker_edges st i) =
    {d \<in> set (edges_from st (home st i)). dr_Type d \<in> {DepBlocks, DepWaitsFor, DepConditionalBlocks}}"
proof -
  have "pl = plane_of st i" if "d \<in> set (st_Deps st pl)" "dr_IssueID d = i" for pl d
    using home_cases [OF sources_okD [OF assms(2) that(1)] assms(1)] that(2) by simp
  moreover have "(\<exists>pl. Q pl) \<longleftrightarrow> Q Durable \<or> Q Ephemeral" for Q :: "plane \<Rightarrow> bool" by (metis plane.exhaust)
  then have "d \<in> set (blocker_edges st i) \<longleftrightarrow> (\<exists>pl. d \<in> set (st_Deps st pl)) \<and> dr_IssueID d = i \<and>
      dr_Type d \<in> {DepBlocks, DepWaitsFor, DepConditionalBlocks}" for d
    by (auto simp: blocker_edges_def)
  ultimately show ?thesis by (auto simp: edges_from_def)
qed

lemma loadStatusByIDInTx_home:
  assumes "\<And>i. single st i" "i \<in> set ids"
  shows "loadStatusByIDInTx st ids i = map_option i_Status (row st (home st i))"
  using assms(1) [of i] assms(2)
  by (auto simp: loadStatusByIDInTx_def plane_of_def WispTableRouting_def IsActiveWispInTx_def single_def split: option.splits)

lemma map_filter_nonempty: "List.map_filter f xs \<noteq> [] \<longleftrightarrow> (\<exists>x\<in>set xs. f x \<noteq> None)"
  by (auto simp: map_filter_def filter_empty_conv)

lemma live_blockers_iff:
  assumes "\<And>i. single st i"
  shows "live_blockers st es \<noteq> [] \<longleftrightarrow> (\<exists>d\<in>set es. \<exists>t. dep_target d = Some t \<and> live_row st (home st t))"
proof -
  have mem: "t \<in> set (List.map_filter dep_target es)" if "d \<in> set es" "dep_target d = Some t" for d t
    using that by (force simp: map_filter_def)
  have "live_blockers st es \<noteq> [] \<longleftrightarrow> (\<exists>d\<in>set es. \<exists>t s. dep_target d = Some t \<and>
      loadStatusByIDInTx st (List.map_filter dep_target es) t = Some s \<and> live s)"
    unfolding live_blockers_def Let_def map_filter_nonempty by (rule bex_cong [OF refl]) (auto split: option.splits)
  moreover have "(\<exists>s. loadStatusByIDInTx st (List.map_filter dep_target es) t = Some s \<and> live s) \<longleftrightarrow> live_row st (home st t)"
    if "d \<in> set es" "dep_target d = Some t" for d t
    using loadStatusByIDInTx_home [OF assms mem [OF that]] by (auto simp: live_row_def split: option.splits)
  ultimately show ?thesis by blast
qed

lemma IsBlockedInTx_home:
  assumes "\<And>i. single st i" "sources_ok st" "deps_wf st" "row st (home st i) \<noteq> None"
  shows "IsBlockedInTx st i =
    (if flagged st (home st i) then Inr (True, live_blockers st (blocker_edges st i)) else Inr (False, []))"
proof -
  obtain r where r: "row st (home st i) = Some r" using assms(4) by blast
  have "(case row st (Durable, i) of Some r \<Rightarrow> Some r | None \<Rightarrow> row st (Ephemeral, i)) = Some r"
    using r assms(1) [of i] by (auto simp: plane_of_def WispTableRouting_def IsActiveWispInTx_def single_def split: option.splits if_splits)
  moreover have "\<not> list_ex (\<lambda>d. dep_target d = None) (blocker_edges st i)"
  proof -
    have "dep_target d \<noteq> None" if "d \<in> set (blocker_edges st i)" for d
    proof -
      have "d \<in> set (st_Deps st (plane_of st i))"
        using that unfolding blocker_edges_home [OF assms(1, 2, 4)] by (simp add: edges_from_def)
      then have "one_target d" by (rule deps_wf_one [OF assms(3)])
      then show ?thesis by (auto simp: one_target_def dep_target_def split: option.splits)
    qed
    then show ?thesis by (auto simp: list_ex_iff)
  qed
  ultimately show ?thesis using r by (simp add: IsBlockedInTx_def Let_def flagged_def)
qed

lemma isClosedInTx_home:
  assumes "single st i" "row st (home st i) = Some r"
  shows "isClosedInTx st i = Some (i_Status r = StatusClosed, plane_of st i)"
  using assms
  by (auto simp: isClosedInTx_def plane_of_def WispTableRouting_def IsActiveWispInTx_def single_def split: option.splits if_splits)

lemma enforceClosePolicy_iff:
  assumes "\<And>i. single st i" "sources_ok st" "deps_wf st" "row st (home st i) = Some r"
  shows "(\<exists>k. enforceClosePolicyForTargetInTx st (home st i) force (i_Status r = StatusClosed) = Inr k) \<longleftrightarrow>
    force \<or> (\<nexists>c. open_child st (home st i) c) \<and>
      (i_Status r = StatusClosed \<or> \<not> flagged st (home st i) \<or> (\<nexists>d. live_blocker st (home st i) d))"
proof -
  let ?n = "home st i"
  have B: "live_blockers st (blocker_edges st i) \<noteq> [] \<longleftrightarrow> (\<exists>d. live_blocker st ?n d)"
    unfolding live_blockers_iff [OF assms(1)] live_blocker_def
    using blocker_edges_home [OF assms(1, 2)] assms(4) by auto
  have I: "IsBlockedInTx st i = (if flagged st ?n then Inr (True, live_blockers st (blocker_edges st i)) else Inr (False, []))"
    using IsBlockedInTx_home [OF assms(1-3)] assms(4) by simp
  show ?thesis
    unfolding no_open_children [OF assms(1, 2), symmetric] B [symmetric]
    by (cases force; cases "i_Status r = StatusClosed"; cases "flagged st ?n")
      (auto simp: enforceClosePolicyForTargetInTx_def Let_def I)
qed

text \<open>
  C3: a checked close is accepted exactly if the issue exists, has the expected version when one is
  given, and, unless forced, has no child that is not closed and, if it is not closed itself, is not held
  by a live blocker. A close always returns. Force bypasses the policy and never the version.
\<close>

theorem CloseIssueCheckedInTx_accepts_iff:
  assumes "graph_ok jt st" "sources_ok st" "\<And>i. single st i"
  shows "\<exists>answer. CloseIssueCheckedInTx en jt st i reason actor session force expected = Some answer \<and>
    ((\<exists>res st'. answer = Inr (res, st')) \<longleftrightarrow>
     (\<exists>r. row st (home st i) = Some r \<and> (\<forall>v. expected = Some v \<longrightarrow> i_RowVersion r = v) \<and>
        (force \<or> (\<nexists>c. open_child st (home st i) c) \<and>
           (i_Status r = StatusClosed \<or> \<not> (flagged st (home st i) \<and> (\<exists>d. live_blocker st (home st i) d))))))"
proof (cases "row st (home st i)")
  case None
  then have "isClosedInTx st i = None" using home_None by (simp add: isClosedInTx_def)
  then show ?thesis using None
    by (auto simp: CloseIssueCheckedInTx_def CheckVersionInTx_def split: option.splits)
next
  case (Some r)
  have wf: "deps_wf st" using assms(1) by (simp add: graph_ok_def)
  have c: "isClosedInTx st i = Some (i_Status r = StatusClosed, plane_of st i)" by (rule isClosedInTx_home [OF assms(3) Some])
  have ver: "(case expected of None \<Rightarrow> None | Some v \<Rightarrow> CheckVersionInTx st i v) = None \<longleftrightarrow> (\<forall>v. expected = Some v \<longrightarrow> i_RowVersion r = v)"
    using Some by (auto simp: CheckVersionInTx_def split: option.splits)
  have fin: "\<exists>res st'. CloseIssueInTx en jt st i reason actor session = Some (Inr (res, st'))"
    using closeIssueInTx_closes [OF assms(1) Some] closeIssueInTx_other(2) [OF Some]
    unfolding CloseIssueInTx_def by (metis (no_types, lifting))
  note P = enforceClosePolicy_iff [OF assms(3, 2) wf Some, of force]
  show ?thesis
  proof (cases "case expected of None \<Rightarrow> None | Some v \<Rightarrow> CheckVersionInTx st i v")
    case (Some e)
    then show ?thesis using ver \<open>row st (home st i) = Some r\<close> by (auto simp: CloseIssueCheckedInTx_def)
  next
    case None
    then have *: "CloseIssueCheckedInTx en jt st i reason actor session force expected =
        closeIssueCheckedAfterSavepoint en jt st (home st i) reason actor session force (i_Status r = StatusClosed)"
      by (simp add: CloseIssueCheckedInTx_def c)
    show ?thesis
    proof (cases "enforceClosePolicyForTargetInTx st (home st i) force (i_Status r = StatusClosed)")
      case (Inl e)
      then show ?thesis using P Some unfolding * by (auto simp: closeIssueCheckedAfterSavepoint_def)
    next
      case (Inr k)
      then show ?thesis using P Some None ver fin unfolding * by (auto simp: closeIssueCheckedAfterSavepoint_def)
    qed
  qed
qed

section \<open>The effect of a reopening\<close>

lemma AddCommentEventInTx_Inr:
  assumes "row st (home st i) \<noteq> None"
  obtains st' where "AddCommentEventInTx en st i actor comment = Inr st'" "row st' = row st" "st_Deps st' = st_Deps st"
    "st_Leases st' = st_Leases st" "st_Config st' = st_Config st" "st_CustomStatuses st' = st_CustomStatuses st"
proof -
  define pl where "pl = plane_of st i"
  define st1 where "st1 = st\<lparr>st_Events := (st_Events st)(pl := st_Events st pl @
    [\<lparr>ev_IssueID = i, ev_Type = EventCommented, ev_Actor = actor, ev_Old = EventText [], ev_New = EventText [],
      ev_Comment = Some comment\<rparr>])\<rparr>"
  have s: "row st1 = row st" "st_Deps st1 = st_Deps st" "st_Leases st1 = st_Leases st" "st_Config st1 = st_Config st"
    "st_CustomStatuses st1 = st_CustomStatuses st" by (simp_all add: st1_def row_def fun_eq_iff)
  have "row st1 (Durable, i) \<noteq> None \<or> row st1 (Ephemeral, i) \<noteq> None"
    using assms unfolding s(1) by (cases "plane_of st i") auto
  then obtain st' where "RecordCommentEventInTx st1 i \<lparr>ec_Author = actor, ec_Text = comment, ec_CreatedAt = aux_time (en_Now en),
      ec_Source = ''audit''\<rparr> = Inr st'" "journal_only st1 st'"
    by (rule RecordCommentEventInTx_Inr)
  then show thesis
    using that [of st'] s by (simp add: AddCommentEventInTx_def Let_def st1_def pl_def journal_onlyD)
qed

lemma reopenIssueInTx_reopens:
  assumes "graph_ok jt st" "row st (home st i) = Some r" "ReopenCategoryInTx en st (i_Status r) = CategoryDone"
  obtains res st' where "reopenIssueInTx en jt st i reason actor retry = Some (Inr (res, st'))" "rr_Changed res"
    "graph_ok jt st'" "restated st st' (home st i) (reopen_row en i r)"
proof -
  let ?n = "home st i" and ?r' = "reopen_row en i r"
  define st1 where "st1 = RecordEventInTable (DeleteLeaseInTx (set_row ?n (Some ?r') st) i) (plane_of st i) i EventReopened actor reason"
  have s1: "st_Deps st1 = st_Deps st" "row st1 = (row st)(?n \<mapsto> ?r')" "st_Leases st1 = (st_Leases st)(i := None)"
    "st_Config st1 = st_Config st" "st_CustomStatuses st1 = st_CustomStatuses st"
    by (simp_all add: st1_def DeleteLeaseInTx_def RecordEventInTable_def fun_eq_iff)
  have "plane_of st1 i = plane_of st i"
    using assms(2) by (auto simp: plane_of_def WispTableRouting_def IsActiveWispInTx_def s1(2) split: if_splits)
  then have h: "row st1 (home st1 i) \<noteq> None" by (simp add: s1(2))
  obtain st2 where c: "(if reason \<noteq> [] then AddCommentEventInTx en st1 i actor reason else Inr st1) = Inr st2"
    and s2: "row st2 = row st1" "st_Deps st2 = st_Deps st1" "st_Leases st2 = st_Leases st1" "st_Config st2 = st_Config st1"
      "st_CustomStatuses st2 = st_CustomStatuses st1"
    by (rule AddCommentEventInTx_Inr [OF h, of en actor reason]) (cases "reason = []"; simp)
  obtain a b where aff: "AffectedByStatusChangeInTx st ?n = Some (a, b)" by (rule AffectedByStatusChange_total)
  have w: "st_Deps st2 = st_Deps st" "row st2 = (row st)(?n \<mapsto> ?r')" "st_Leases st2 = (st_Leases st)(snd ?n := None)"
    "st_Config st2 = st_Config st" "st_CustomStatuses st2 = st_CustomStatuses st" by (simp_all add: s1 s2)
  have f: "i_IsBlocked ?r' = i_IsBlocked r" by (simp add: reopen_row_def)
  obtain res st3 st4 where R: "RecomputeIsBlockedInTxWithResult jt st2 a b = Some (Inr (res, st3))"
    "RecordEventInTx st3 EventUpdate (snd ?n) = Inr st4" "graph_ok jt st4" "restated st st4 ?n ?r'"
    by (rule restate_repaired [OF assms(1, 2) f w aff refl])
  have "reopenIssueInTx en jt st i reason actor retry = finish_reopen en jt (set_row ?n (Some ?r') st) ?n reason actor a b"
    using assms(2, 3) aff by (simp add: reopenIssueInTx.simps Let_def)
  also have "\<dots> = map_option (\<lambda>res. bindE res (\<lambda>(recompute, st3). bindE (RecordEventInTx st3 EventUpdate i) (\<lambda>st4.
      Inr (\<lparr>rr_IsWisp = (plane_of st i = Ephemeral), rr_AlreadyOpen = False, rr_Changed = True,
        rr_IssueRowsChanged = (plane_of st i \<noteq> Ephemeral \<or> rb_IssueRowsChanged recompute)\<rparr>, st4))))
      (RecomputeIsBlockedInTxWithResult jt st2 a b)"
    unfolding finish_reopen_def Let_def fst_conv snd_conv st1_def [symmetric] c by simp
  finally show thesis using that [OF _ _ R(3, 4)] R(1, 2) by simp
qed

lemma reopenIssueInTx_other:
  "row st (home st i) = None \<Longrightarrow> reopenIssueInTx en jt st i reason actor retry = Some (Inl (ErrNotFound i))"
  "row st (home st i) = Some r \<Longrightarrow> ReopenCategoryInTx en st (i_Status r) \<noteq> CategoryDone \<Longrightarrow>
     \<exists>res. reopenIssueInTx en jt st i reason actor retry = Some (Inr (res, st)) \<and> \<not> rr_Changed res"
  by (simp_all add: reopenIssueInTx.simps Let_def unchanged_def)

section \<open>Closing and reopening again\<close>

text \<open>What the flags depend on: the edges and which rows are live or closed.\<close>

lemma same_liveness:
  assumes "st_Deps st' = st_Deps st" "live_row st' = live_row st" "closed_row st' = closed_row st"
  shows "own_reason jt st' = own_reason jt st" "parents st' = parents st" "parent_edges st' = parent_edges st"
proof -
  have e: "edges_from st' = edges_from st" by (simp add: edges_from_def fun_eq_iff assms(1))
  show "own_reason jt st' = own_reason jt st" "parents st' = parents st"
    unfolding own_reason_def [abs_def] parents_def [abs_def] waitsForGateBlockedSQL_def some_child_def e assms by (rule refl)+
  then show "parent_edges st' = parent_edges st" by (simp add: parent_edges_def)
qed

lemma blocked_unique:
  assumes "blocked_ok jt st" "blocked_ok jt st'" "acyclic (parent_edges st)"
    and "st_Deps st' = st_Deps st" "live_row st' = live_row st" "closed_row st' = closed_row st"
  shows "flagged st' = flagged st"
proof
  fix n
  note S = same_liveness [OF assms(4-6)]
  have p: "sound_parents st = parents st" using assms(3) by (simp add: sound_parents_def fun_eq_iff)
  show "flagged st' n = flagged st n"
    by (rule block.flags_unique [of st jt]) (use assms(1, 2) S assms(5) in \<open>simp_all add: blocked_ok_flags p\<close>)
qed

lemma graph_ok_unchanged:
  assumes "graph_ok jt st" "st_Deps st' = st_Deps st"
    and "live_row st' = live_row st" "closed_row st' = closed_row st" "flagged st' = flagged st"
  shows "graph_ok jt st'"
  using assms(1) same_liveness(1, 2) [OF assms(2-4)]
  by (simp add: graph_ok_def blocked_ok_flags assms(3, 5) deps_wf_def scheduling_def edge_pairs_def assms(2))

text \<open>
  C12: closing always returns for an existing issue. Afterwards the issue is closed and holds no lease,
  the flags of all rows agree with the edges and the new statuses, every lease belongs to a claim, and
  apart from flags no other row has changed.
\<close>

theorem closeIssueInTx_effect:
  assumes "graph_ok jt st" "leases_ok st" "\<And>j. single st j" "row st (home st i) \<noteq> None"
  shows "\<exists>res st'. closeIssueInTx en jt st i reason actor session recordEvent = Some (Inr (res, st')) \<and>
    graph_ok jt st' \<and> leases_ok st' \<and> closed_row st' (home st i) \<and> st_Leases st' i = None \<and> st_Deps st' = st_Deps st \<and>
    (\<forall>m. m \<noteq> home st i \<longrightarrow> map_option unflag (row st' m) = map_option unflag (row st m))"
proof -
  obtain r where r: "row st (home st i) = Some r" using assms(4) by blast
  show ?thesis
  proof (cases "i_Status r = StatusClosed")
    case True
    have "st_Leases st i = None"
    proof (rule ccontr)
      assume "st_Leases st i \<noteq> None"
      then obtain l s where "row st (Durable, i) = Some s" "i_Status s = StatusInProgress"
        using leases_okD [OF assms(2)] by (auto simp: lease_of_def)
      then show False using home_cases [of st Durable i] assms(3) r True by simp
    qed
    moreover have "closed_row st (home st i)" using r True by (simp add: closed_row_def)
    ultimately show ?thesis using closeIssueInTx_other(2) [OF r True] assms(1, 2) by metis
  next
    case False
    obtain res st' where c: "closeIssueInTx en jt st i reason actor session recordEvent = Some (Inr (res, st'))"
      "graph_ok jt st'" "restated st st' (home st i) (close_row en i reason session r)"
      by (rule closeIssueInTx_closes [OF assms(1) r False])
    obtain r' where "row st' (home st i) = Some r'" "unflag r' = unflag (close_row en i reason session r)"
      by (rule restated_at [OF c(3)])
    then have "closed_row st' (home st i)" by (simp add: closed_row_def unflag_eqD(1))
    moreover have "\<forall>m. m \<noteq> home st i \<longrightarrow> map_option unflag (row st' m) = map_option unflag (row st m)"
      using c(3) unfolding restated_def by (metis fun_upd_other)
    ultimately show ?thesis using c restated_leases [OF assms(2) c(3)] by (auto simp: restated_def)
  qed
qed

lemma restated_rows:
  assumes "restated st st' n r" "row st n \<noteq> None"
  shows "row st' m = None \<longleftrightarrow> row st m = None" "plane_of st' j = plane_of st j"
proof -
  show e: "row st' m = None \<longleftrightarrow> row st m = None" for m
    using restated_other(3) [OF assms(1)] restated_at [OF assms(1)] assms(2) by (cases "m = n") (metis option.distinct(1))+
  show "plane_of st' j = plane_of st j" by (simp add: plane_of_def IsActiveWispInTx_def e)
qed

lemma row_status_cong:
  assumes "map_option i_Status (row st' n) = map_option i_Status (row st n)"
  shows "live_row st' n = live_row st n" "closed_row st' n = closed_row st n"
  using assms by (cases "row st n"; cases "row st' n"; simp add: live_row_def closed_row_def)+

text \<open>
  C13: reopening undoes what a close did to the rest of the graph. When a live issue is closed and then
  reopened, both succeed, the issue is open, and every row has the flag it had before the close.
\<close>

theorem close_reopen_flags:
  assumes "graph_ok jt st" "row st (home st i) = Some r" "live (i_Status r)"
  shows "\<exists>res st1 res' st2. closeIssueInTx en jt st i reason actor session recordEvent = Some (Inr (res, st1)) \<and>
    ReopenIssueInTx en' jt st1 i reason' actor' = Some (Inr (res', st2)) \<and> rr_Changed res' \<and>
    graph_ok jt st2 \<and> flagged st2 = flagged st \<and> (\<exists>r2. row st2 (home st i) = Some r2 \<and> i_Status r2 = StatusOpen)"
proof -
  let ?n = "home st i"
  have nc: "i_Status r \<noteq> StatusClosed" using assms(3) by (auto simp: live_def)
  obtain res st1 where c: "closeIssueInTx en jt st i reason actor session recordEvent = Some (Inr (res, st1))"
    "graph_ok jt st1" "restated st st1 ?n (close_row en i reason session r)"
    by (rule closeIssueInTx_closes [OF assms(1, 2) nc])
  obtain r1 where r1: "row st1 ?n = Some r1" "unflag r1 = unflag (close_row en i reason session r)" by (rule restated_at [OF c(3)])
  have h: "plane_of st1 i = plane_of st i" using restated_rows(2) [OF c(3)] assms(2) by simp
  have s1: "i_Status r1 = StatusClosed" using unflag_eqD(1) [OF r1(2)] by simp
  have cat: "ReopenCategoryInTx en' st1 (i_Status r1) = CategoryDone"
    by (simp add: s1 ReopenCategoryInTx_def Status_IsValid_def AllStatuses_def BuiltInStatusCategory_def)
  obtain res' st2 where o: "reopenIssueInTx en' jt st1 i reason' actor' True = Some (Inr (res', st2))" "rr_Changed res'"
    "graph_ok jt st2" "restated st1 st2 ?n (reopen_row en' i r1)"
    using reopenIssueInTx_reopens [OF c(2) _ cat] r1(1) h by metis
  obtain r2 where r2: "row st2 ?n = Some r2" "unflag r2 = unflag (reopen_row en' i r1)" by (rule restated_at [OF o(4)])
  have s2: "i_Status r2 = StatusOpen" using unflag_eqD(1) [OF r2(2)] by simp
  have "live_row st2 m = live_row st m \<and> closed_row st2 m = closed_row st m" for m
  proof (cases "m = ?n")
    case True
    then show ?thesis using r2(1) s2 assms(2, 3) nc by (simp add: live_row_def closed_row_def live_def)
  next
    case False
    then show ?thesis using restated_other(1) [OF c(3)] restated_other(1) [OF o(4)] row_status_cong [of st2 m st] by simp
  qed
  then have "live_row st2 = live_row st" "closed_row st2 = closed_row st" by blast+
  moreover have "st_Deps st2 = st_Deps st" using c(3) o(4) by (simp add: restated_def)
  ultimately have "flagged st2 = flagged st"
    using blocked_unique [of jt st st2] assms(1) o(3) hierarchy_acyclic [of st] by (simp add: graph_ok_def)
  then show ?thesis using c(1) o r2(1) s2 by (auto simp: ReopenIssueInTx_def)
qed

section \<open>The sweep of expired defers\<close>

text \<open>Deferred with a date that has passed.\<close>

definition due :: "env \<Rightarrow> store \<Rightarrow> node \<Rightarrow> bool" where
  "due en st n \<longleftrightarrow> (\<exists>r t. row st n = Some r \<and> i_Status r = StatusDeferred \<and> i_DeferUntil r = Some t \<and>
     t_ns t \<le> t_ns (aux_time (en_Now en)))"

lemma due_iff: "due en st n \<longleftrightarrow> (case row st n of None \<Rightarrow> False | Some r \<Rightarrow> expired_defer en r)"
  by (auto simp: due_def expired_defer_def After_def split: option.splits)

definition awoken :: "env \<Rightarrow> store \<Rightarrow> store \<Rightarrow> node set \<Rightarrow> bool" where
  "awoken en st st' S \<longleftrightarrow>
     (\<forall>n. row st' n = (if n \<in> S then map_option (awake_row en (snd n)) (row st n) else row st n)) \<and>
     st_Leases st' = st_Leases st \<and> st_Deps st' = st_Deps st \<and> st_Config st' = st_Config st \<and>
     st_CustomStatuses st' = st_CustomStatuses st"

lemma wake_one_hit:
  assumes "due en st (pl, i)"
  obtains st' where "wake_one en pl st i = Inr (True, st')" "awoken en st st' {(pl, i)}"
proof -
  obtain r where r: "row st (pl, i) = Some r" "expired_defer en r" using assms by (auto simp: due_iff split: option.splits)
  define st1 where "st1 = RecordFullEventInTable (set_row (pl, i) (Some (awake_row en i r)) st) pl i EventStatusChanged
    DeferWakeActor (EventText StatusDeferred) (EventText StatusOpen)"
  have "row st1 (pl, i) = Some (awake_row en i r)" by (simp add: st1_def)
  then obtain st2 where j: "RecordEventInTx st1 EventUpdate i = Inr st2" "journal_only st1 st2"
    using RecordEventInTx_after [of st1 "(pl, i)"] by fastforce
  have "wake_one en pl st i = Inr (True, st2)" using r j(1) by (simp add: wake_one_def st1_def)
  moreover have "awoken en st st2 {(pl, i)}" using r(1) by (auto simp: awoken_def journal_onlyD [OF j(2)] st1_def)
  ultimately show thesis by (rule that)
qed

lemma wake_all_hits:
  "distinct is \<Longrightarrow> (\<And>i. i \<in> set is \<Longrightarrow> due en st (pl, i)) \<Longrightarrow>
   \<exists>st'. wake_all en pl st is = Inr (is, st') \<and> awoken en st st' (Pair pl ` set is)"
proof (induction "is" arbitrary: st)
  case Nil
  then show ?case by (simp add: awoken_def)
next
  case (Cons i "is")
  obtain st1 where one: "wake_one en pl st i = Inr (True, st1)" "awoken en st st1 {(pl, i)}"
    by (rule wake_one_hit [OF Cons.prems(2) [of i]]) simp
  have "due en st1 (pl, j)" if "j \<in> set is" for j
  proof -
    have "j \<noteq> i" using that Cons.prems(1) by auto
    then have "row st1 (pl, j) = row st (pl, j)" using one(2) by (simp add: awoken_def)
    then show ?thesis using Cons.prems(2) [of j] that by (simp add: due_def)
  qed
  then obtain st2 where rest: "wake_all en pl st1 is = Inr (is, st2)" "awoken en st1 st2 (Pair pl ` set is)"
    using Cons.IH [of st1] Cons.prems(1) by auto
  have "awoken en st st2 (Pair pl ` set (i # is))"
    using one(2) rest(2) Cons.prems(1) unfolding awoken_def by auto
  then show ?case using one(1) rest(1) by simp
qed

lemma wakeExpiredDefersInTable_exact:
  assumes "distinct order" "\<And>i. row st (pl, i) \<noteq> None \<Longrightarrow> i \<in> set order"
  obtains ids st' where "wakeExpiredDefersInTable en pl st order = Inr (ids, st')" "set ids = {i. due en st (pl, i)}"
    "awoken en st st' {n. fst n = pl \<and> due en st n}"
proof -
  let ?ids = "filter (\<lambda>i. case row st (pl, i) of None \<Rightarrow> False | Some r \<Rightarrow> expired_defer en r) order"
  have ids: "set ?ids = {i. due en st (pl, i)}" using assms(2) by (fastforce simp: due_iff split: option.splits)
  then have "\<And>i. i \<in> set ?ids \<Longrightarrow> due en st (pl, i)" by blast
  then obtain st' where w: "wake_all en pl st ?ids = Inr (?ids, st')" "awoken en st st' (Pair pl ` set ?ids)"
    using wake_all_hits [of ?ids en st pl] assms(1) by auto
  have "Pair pl ` set ?ids = {n. fst n = pl \<and> due en st n}" unfolding ids by force
  then show thesis using that w ids by (simp add: wakeExpiredDefersInTable_def)
qed

text \<open>
  C15: the sweep of expired defers always succeeds and wakes exactly the issues and wisps that are
  deferred to a date that has passed. They are open and have no date afterwards. Everything else stays:
  a defer without a date, one in the future, every lease and every edge.
\<close>

theorem WakeExpiredDefersInTx_exact:
  assumes "\<And>pl. distinct (order pl)" "\<And>pl i. row st (pl, i) \<noteq> None \<Longrightarrow> i \<in> set (order pl)"
  shows "\<exists>issues wisps st'. WakeExpiredDefersInTx en st order = Inr ((issues, wisps), st') \<and>
    set issues = {i. due en st (Durable, i)} \<and> set wisps = {i. due en st (Ephemeral, i)} \<and> awoken en st st' {n. due en st n}"
proof -
  obtain issues st1 where d: "wakeExpiredDefersInTable en Durable st (order Durable) = Inr (issues, st1)"
    "set issues = {i. due en st (Durable, i)}" "awoken en st st1 {n. fst n = Durable \<and> due en st n}"
    by (rule wakeExpiredDefersInTable_exact [of "order Durable" st Durable en]) (use assms in auto)
  have same: "row st1 (Ephemeral, i) = row st (Ephemeral, i)" "due en st1 (Ephemeral, i) = due en st (Ephemeral, i)" for i
    using d(3) by (simp_all add: awoken_def due_def)
  obtain wisps st2 where e: "wakeExpiredDefersInTable en Ephemeral st1 (order Ephemeral) = Inr (wisps, st2)"
    "set wisps = {i. due en st1 (Ephemeral, i)}" "awoken en st1 st2 {n. fst n = Ephemeral \<and> due en st1 n}"
    by (rule wakeExpiredDefersInTable_exact [of "order Ephemeral" st1 Ephemeral en]) (use assms same in auto)
  have "row st2 n = (if due en st n then map_option (awake_row en (snd n)) (row st n) else row st n)" for n
    using d(3) e(3) same by (cases n; cases "fst n") (simp_all add: awoken_def)
  then have "awoken en st st2 {n. due en st n}" using d(3) e(3) by (simp add: awoken_def)
  then show ?thesis using d e same by (auto simp: WakeExpiredDefersInTx_def)
qed

section \<open>Examples\<close>

lemma small_single: "single (small_store rows deps) i"
  by (simp add: single_def row_def small_store_def)

lemma small_sources:
  assumes "list_all (\<lambda>d. dr_IssueID d \<in> fst ` set rows) deps"
  shows "sources_ok (small_store rows deps)"
proof -
  have "List.find (\<lambda>r. fst r = i) rows \<noteq> None" if "i \<in> fst ` set rows" for i
    using that unfolding find_None_iff image_iff by metis
  then show ?thesis using assms by (auto simp: sources_ok_def list_all_iff row_def small_store_def split: plane.splits)
qed

lemma small_home: "home (small_store rows deps) i = (Durable, i)"
  by (simp add: plane_of_def WispTableRouting_def IsActiveWispInTx_def row_def small_store_def)

lemma one_blocked_facts: "graph_ok no_json one_blocked" "sources_ok one_blocked" "single one_blocked i"
  "home one_blocked i = (Durable, i)" "leases_ok one_blocked"
  "row one_blocked (Durable, ''bd-2'') = Some (task (''bd-2'', StatusOpen, False))"
proof -
  show "graph_ok no_json one_blocked" by (rule one_blocked_ok)
  show "sources_ok one_blocked" "single one_blocked i" "home one_blocked i = (Durable, i)"
    unfolding one_blocked_def by (rule small_sources, code_simp) (rule small_single small_home)+
  show "leases_ok one_blocked" by (simp add: leases_ok_def one_blocked_def small_store_def empty_store_def)
  show "row one_blocked (Durable, ''bd-2'') = Some (task (''bd-2'', StatusOpen, False))"
    by (simp add: one_blocked_def row_def small_store_def)
qed

theorem CloseIssueCheckedInTx_accepts_iff_witness:
  "(\<exists>res st'. CloseIssueCheckedInTx clock no_json one_blocked ''bd-2'' ''done'' ''alice'' ''s1'' False None = Some (Inr (res, st'))) \<and>
   (\<exists>e. CloseIssueCheckedInTx clock no_json one_blocked ''bd-1'' ''done'' ''alice'' ''s1'' False None = Some (Inl e))"
proof -
  note F = one_blocked_facts
  note A = CloseIssueCheckedInTx_accepts_iff [OF F(1, 2) F(3), of clock _ "''done''" "''alice''" "''s1''" False None]
  have oc: "\<not> open_child one_blocked (Durable, i) c" for i c
    by (auto simp: open_child_def parents_def edges_from_def one_blocked_def small_store_def edge_def empty_store_def
        DepBlocks_def DepParentChild_def split: plane.splits)
  have fl: "\<not> flagged one_blocked (Durable, ''bd-2'')" "flagged one_blocked (Durable, ''bd-1'')" by code_simp+
  have lb: "live_blocker one_blocked (Durable, ''bd-1'') (edge ''bd-1'' DepBlocks ''bd-2'' ''{}'')"
    unfolding live_blocker_def F(4) by (simp add: edges_from_def one_blocked_def small_store_def live_row_def row_def task_def live_def)
  have r: "row one_blocked (Durable, ''bd-1'') = Some (task (''bd-1'', StatusOpen, True))"
    "i_Status (task (''bd-1'', StatusOpen, True)) \<noteq> StatusClosed"
    by (simp_all add: one_blocked_def row_def small_store_def task_def)
  have "\<exists>res st'. CloseIssueCheckedInTx clock no_json one_blocked ''bd-2'' ''done'' ''alice'' ''s1'' False None = Some (Inr (res, st'))"
    using A [of "''bd-2''"] oc fl(1) F(6) unfolding F(4) by auto
  moreover obtain a where a: "CloseIssueCheckedInTx clock no_json one_blocked ''bd-1'' ''done'' ''alice'' ''s1'' False None = Some a"
    "\<nexists>res st'. a = Inr (res, st')"
    using A [of "''bd-1''"] fl(2) lb r unfolding F(4) by auto
  moreover have "\<exists>e. a = Inl e" using a(2) by (cases a) auto
  ultimately show ?thesis by blast
qed

theorem closeIssueInTx_effect_witness:
  "\<exists>res st'. closeIssueInTx clock no_json one_blocked ''bd-2'' ''done'' ''alice'' ''s1'' True = Some (Inr (res, st')) \<and>
     closed_row st' (Durable, ''bd-2'') \<and> graph_ok no_json st'"
  using closeIssueInTx_effect [OF one_blocked_facts(1, 5) one_blocked_facts(3), of "''bd-2''" clock "''done''" "''alice''" "''s1''" True]
    one_blocked_facts(4, 6) by auto

theorem close_reopen_flags_witness:
  "\<exists>res st1 res' st2. closeIssueInTx clock no_json one_blocked ''bd-2'' ''done'' ''alice'' ''s1'' True = Some (Inr (res, st1)) \<and>
     ReopenIssueInTx clock no_json st1 ''bd-2'' ''again'' ''bob'' = Some (Inr (res', st2)) \<and> flagged st2 (Durable, ''bd-1'')"
proof -
  have "live (i_Status (task (''bd-2'', StatusOpen, False)))" by (simp add: task_def live_def)
  moreover have "row one_blocked (home one_blocked ''bd-2'') = Some (task (''bd-2'', StatusOpen, False))"
    unfolding one_blocked_facts(4) by (rule one_blocked_facts(6))
  moreover have "flagged one_blocked (Durable, ''bd-1'')" by code_simp
  ultimately show ?thesis
    using close_reopen_flags [OF one_blocked_facts(1), of "''bd-2''" _ clock "''done''" "''alice''" "''s1''" True clock "''again''" "''bob''"]
    by metis
qed

definition sleeping :: store where
  "sleeping = set_row (Durable, ''bd-1'') (Some (zero_issue\<lparr>i_ID := ''bd-1'', i_Status := StatusDeferred,
     i_DeferUntil := Some \<lparr>t_ns = 0, t_off = 0\<rparr>\<rparr>)) empty_store"

theorem WakeExpiredDefersInTx_exact_witness:
  "\<exists>issues wisps st'. WakeExpiredDefersInTx clock sleeping (\<lambda>_. [''bd-1'']) = Inr ((issues, wisps), st') \<and> set issues = {''bd-1''}"
proof -
  have r: "row sleeping n = (if n = (Durable, ''bd-1'') then Some (zero_issue\<lparr>i_ID := ''bd-1'', i_Status := StatusDeferred,
     i_DeferUntil := Some \<lparr>t_ns = 0, t_off = 0\<rparr>\<rparr>) else None)" for n
    by (simp add: sleeping_def) (simp add: row_def empty_store_def)
  have "{i. due clock sleeping (Durable, i)} = {''bd-1''}" by (auto simp: due_def r aux_time_def clock_def split: if_splits)
  moreover have "\<And>pl i. row sleeping (pl, i) \<noteq> None \<Longrightarrow> i \<in> set [''bd-1'']" by (simp add: r split: if_splits)
  ultimately show ?thesis using WakeExpiredDefersInTx_exact [of "\<lambda>_. [''bd-1'']" sleeping clock] by auto
qed

end
