(* ===== verification/Deletion.thy ===== *)
theory Deletion
  imports Closing "HOL-Library.Product_Lexorder"
begin

text \<open>
  Deleting issues (\<open>delete.go\<close>, the journal of removed edges in \<open>journal_dependencies.go\<close>, the guard
  \<open>ExternalDependentsBySourceInTx\<close> of \<open>delete_role.go\<close>): one issue, a list of issues, and the cascade over
  everything that depends on them.

  The foreign keys of the schema are part of the model: deleting a row deletes its events and the edges
  that start at it or point to it, except that an edge from a durable issue to a wisp has no foreign key
  and is deleted by the code. Lists bound to an IN clause are split into batches by the code; where the
  answers of the batches are united the model takes them together.
\<close>

section \<open>Edges that go with an issue, in the journal\<close>

record journalDependencyEdge =
  je_source :: string
  je_target :: string
  je_kind :: string
  je_metadata :: string

text \<open>Rows that agree on source, target and kind come in an order the code leaves open.\<close>

definition sortedDependencyEdges :: "journalDependencyEdge list \<Rightarrow> journalDependencyEdge list" where
  "sortedDependencyEdges es = sort_key (\<lambda>e. (je_source e, je_target e, je_kind e)) (remdups es)"

definition target_in :: "string list \<Rightarrow> DepRow \<Rightarrow> bool" where
  "target_in ids d \<longleftrightarrow> (case dep_target d of None \<Rightarrow> False | Some t \<Rightarrow> t \<in> set ids)"

definition dependencyEdgesInTableForIssueIDsInTx ::
    "store \<Rightarrow> plane \<Rightarrow> string list \<Rightarrow> store_error + journalDependencyEdge list" where
  "dependencyEdgesInTableForIssueIDsInTx st pl ids =
     (let rows = filter (\<lambda>d. dr_IssueID d \<in> set ids \<or> target_in ids d) (st_Deps st pl) in
      case List.find (\<lambda>d. dep_target d = None) rows of
        Some d \<Rightarrow> Inl (NullTarget (dr_IssueID d))
      | None \<Rightarrow> Inr (sortedDependencyEdges (map (\<lambda>d.
          \<lparr>je_source = dr_IssueID d, je_target = the (dep_target d), je_kind = dr_Type d, je_metadata = dr_Metadata d\<rparr>) rows)))"

definition dependencyEdgesForIssueIDsInTx :: "store \<Rightarrow> string list \<Rightarrow> store_error + journalDependencyEdge list" where
  "dependencyEdgesForIssueIDsInTx st ids =
     bindE (dependencyEdgesInTableForIssueIDsInTx st Durable ids) (\<lambda>es.
       bindE (dependencyEdgesInTableForIssueIDsInTx st Ephemeral ids) (\<lambda>ws. Inr (sortedDependencyEdges (es @ ws))))"

fun recordDependencyRemovalsInTx :: "store \<Rightarrow> journalDependencyEdge list \<Rightarrow> store_error + store" where
  "recordDependencyRemovalsInTx st [] = Inr st"
| "recordDependencyRemovalsInTx st (e # es) =
     bindE (RecordDepEventInTx st EventDepRemove (je_source e) (je_kind e) (je_target e) (je_metadata e))
       (\<lambda>st'. recordDependencyRemovalsInTx st' es)"

definition RecordDependencyRemovalsForIssuesInTx :: "store \<Rightarrow> string list \<Rightarrow> store_error + store" where
  "RecordDependencyRemovalsForIssuesInTx st ids =
     (if \<not> st_JournalOn st \<or> ids = [] then Inr st
      else bindE (dependencyEdgesForIssueIDsInTx st ids) (recordDependencyRemovalsInTx st))"

section \<open>Deleting a row\<close>

text \<open>The tables whose target columns have foreign keys.\<close>

definition cascades :: "node \<Rightarrow> plane \<Rightarrow> DepRow \<Rightarrow> bool" where
  "cascades n tab d \<longleftrightarrow>
     tab = fst n \<and> dr_IssueID d = snd n \<or>
     (case fst n of Durable \<Rightarrow> dr_OnIssue d = Some (snd n) | Ephemeral \<Rightarrow> tab = Ephemeral \<and> dr_OnWisp d = Some (snd n))"

definition delete_row :: "node \<Rightarrow> store \<Rightarrow> store" where
  "delete_row n st =
     (set_row n None st)\<lparr>st_Deps := (\<lambda>tab. filter (\<lambda>d. \<not> cascades n tab d) (st_Deps st tab)),
       st_Events := (st_Events st)(fst n := filter (\<lambda>e. ev_IssueID e \<noteq> snd n) (st_Events st (fst n)))\<rparr>"

definition DeleteWispFromDependenciesInTx :: "store \<Rightarrow> string \<Rightarrow> store" where
  "DeleteWispFromDependenciesInTx st wispID =
     set_deps Durable (filter (\<lambda>d. dr_OnWisp d \<noteq> Some wispID) (st_Deps st Durable)) st"

definition deleteIssueRowInTx :: "store \<Rightarrow> string \<Rightarrow> bool \<Rightarrow> store_error + store" where
  "deleteIssueRowInTx st i isWisp =
     (let n = (WispTableRouting isWisp, i) in
      case row st n of
        None \<Rightarrow> Inl (ErrNotFound i)
      | Some _ \<Rightarrow> bindE (RecordDeleteInTx (delete_row n st) i) (\<lambda>st1.
          Inr (if isWisp then DeleteWispFromDependenciesInTx st1 i else DeleteLeaseInTx st1 i)))"

definition RecomputeIsBlockedInTx :: "json_text \<Rightarrow> store \<Rightarrow> string list \<Rightarrow> string list \<Rightarrow> (store_error + store) option" where
  "RecomputeIsBlockedInTx jt st issueIDs wispIDs =
     map_option (\<lambda>r. bindE r (\<lambda>(_, st'). Inr st')) (RecomputeIsBlockedInTxWithResult jt st issueIDs wispIDs)"

definition DeleteIssueInTx :: "json_text \<Rightarrow> store \<Rightarrow> string \<Rightarrow> (store_error + store) option" where
  "DeleteIssueInTx jt st i =
     (let isWisp = IsActiveWispInTx st i in
      case (if isWisp then AffectedByDeletionInTx st [] [i] else AffectedByDeletionInTx st [i] []) of
        None \<Rightarrow> None
      | Some (issueIDs, wispIDs) \<Rightarrow>
          (case bindE (RecordDependencyRemovalsForIssuesInTx st [i]) (\<lambda>st1. deleteIssueRowInTx st1 i isWisp) of
             Inl e \<Rightarrow> Some (Inl e)
           | Inr st2 \<Rightarrow> RecomputeIsBlockedInTx jt st2 issueIDs wispIDs))"

section \<open>What a cascade deletes\<close>

definition deleteBatchSize :: nat where
  "deleteBatchSize = 50"

definition maxRecursiveResults :: nat where
  "maxRecursiveResults = 10000"

definition add_dependent :: "string \<Rightarrow> string list \<times> string list \<Rightarrow> string list \<times> string list" where
  "add_dependent dep s =
     (case s of (result, toProcess) \<Rightarrow>
        if dep \<in> set result then (result, toProcess) else (result @ [dep], toProcess @ [dep]))"

text \<open>One turn: the dependents of a batch, from both tables.\<close>

definition dependents_of :: "store \<Rightarrow> string list \<Rightarrow> string list" where
  "dependents_of st batch = concat (map (\<lambda>tab. map dr_IssueID (filter (target_in batch) (st_Deps st tab))) [Durable, Ephemeral])"

definition process_batch :: "store \<Rightarrow> string list \<times> string list \<Rightarrow> string list \<times> string list" where
  "process_batch st s =
     (case s of (result, toProcess) \<Rightarrow>
        fold add_dependent (dependents_of st (take deleteBatchSize toProcess)) (result, drop deleteBatchSize toProcess))"

partial_function (option) find_dependents :: "store \<Rightarrow> string list \<Rightarrow> string list \<Rightarrow> (store_error + string list) option" where
  "find_dependents st result toProcess =
     (if toProcess = [] then Some (Inr result)
      else if length result > maxRecursiveResults then Some (Inl CascadeTooLarge)
      else let (result', toProcess') = process_batch st (result, toProcess) in find_dependents st result' toProcess')"

definition FindAllDependentsInTx :: "store \<Rightarrow> string list \<Rightarrow> (store_error + string list) option" where
  "FindAllDependentsInTx st ids = find_dependents st (remdups ids) ids"

section \<open>Deleting a set\<close>

record DeletionSet =
  ds_WispIDs :: "string list"
  ds_RegularIDs :: "string list"
  ds_All :: "string list"

record DeleteIssuesResult =
  di_DeletedCount :: nat
  di_DependenciesCount :: nat
  di_LabelsCount :: nat
  di_EventsCount :: nat
  di_OrphanedIssues :: "string list"

definition PartitionWispIDsInTx :: "store \<Rightarrow> string list \<Rightarrow> string list \<times> string list" where
  "PartitionWispIDsInTx st ids = (filter (IsActiveWispInTx st) ids, filter (\<lambda>i. \<not> IsActiveWispInTx st i) ids)"

definition ResolveDeletionSetInTx :: "store \<Rightarrow> string list \<Rightarrow> bool \<Rightarrow> (store_error + DeletionSet) option" where
  "ResolveDeletionSetInTx st ids cascade =
     map_option (\<lambda>found. bindE found (\<lambda>all.
         let (wisps, regular) = PartitionWispIDsInTx st all in Inr \<lparr>ds_WispIDs = wisps, ds_RegularIDs = regular, ds_All = all\<rparr>))
       (if cascade then map_option (\<lambda>r. bindE r (\<lambda>closure. Inr (sort closure))) (FindAllDependentsInTx st ids) else Some (Inr ids))"

function delete_batches :: "'a list \<Rightarrow> 'a list list" where
  "delete_batches xs = (if xs = [] then [] else take deleteBatchSize xs # delete_batches (drop deleteBatchSize xs))"
  by pat_completeness auto
termination
  by (relation "measure length") (auto simp: deleteBatchSize_def)

declare delete_batches.simps [simp del]

text \<open>The rows of an auxiliary table, by issue; a row is counted once per batch that names its issue.\<close>

definition CountRowsForIssueIDsInTx :: "(string \<Rightarrow> nat) \<Rightarrow> string list \<Rightarrow> nat" where
  "CountRowsForIssueIDsInTx rows ids = sum_list (map (\<lambda>b. sum_list (map rows (remdups b))) (delete_batches ids))"

definition dep_rows :: "store \<Rightarrow> plane \<Rightarrow> string \<Rightarrow> nat" where
  "dep_rows st pl i = length (filter (\<lambda>d. dr_IssueID d = i) (st_Deps st pl))"

definition label_rows :: "store \<Rightarrow> plane \<Rightarrow> string \<Rightarrow> nat" where
  "label_rows st pl i = (case row st (pl, i) of None \<Rightarrow> 0 | Some r \<Rightarrow> length (i_Labels r))"

definition event_rows :: "store \<Rightarrow> plane \<Rightarrow> string \<Rightarrow> nat" where
  "event_rows st pl i = length (filter (\<lambda>e. ev_IssueID e = i) (st_Events st pl))"

definition inbound_rows :: "store \<Rightarrow> string list \<Rightarrow> nat" where
  "inbound_rows st all =
     sum_list (map (\<lambda>b. length (filter (\<lambda>i. i \<notin> set all) (dependents_of st b))) (delete_batches all))"

definition ExistingIssueIDsInTableInTx :: "store \<Rightarrow> plane \<Rightarrow> string list \<Rightarrow> string list" where
  "ExistingIssueIDsInTableInTx st pl ids = filter (\<lambda>i. row st (pl, i) \<noteq> None) ids"

definition journalableDeletesInTx :: "store \<Rightarrow> plane \<Rightarrow> string list \<Rightarrow> string list" where
  "journalableDeletesInTx st pl ids = (if \<not> st_JournalOn st \<or> ids = [] then [] else ExistingIssueIDsInTableInTx st pl ids)"

fun delete_wisps :: "store \<Rightarrow> string list \<Rightarrow> store_error + store" where
  "delete_wisps st [] = Inr st"
| "delete_wisps st (i # is) = bindE (deleteIssueRowInTx st i True) (\<lambda>st'. delete_wisps st' is)"

text \<open>A batch of durable issues: the rows that exist, and the leases of all.\<close>

definition delete_issues :: "store \<Rightarrow> string list \<Rightarrow> nat \<times> store" where
  "delete_issues st batch =
     (let existing = ExistingIssueIDsInTableInTx st Durable (remdups batch);
          st1 = fold (\<lambda>i. delete_row (Durable, i)) existing st
      in (length existing, fold (\<lambda>i st. DeleteLeaseInTx st i) batch st1))"

fun delete_issue_batches :: "store \<Rightarrow> string list list \<Rightarrow> nat \<times> store" where
  "delete_issue_batches st [] = (0, st)"
| "delete_issue_batches st (b # bs) =
     (let (k, st1) = delete_issues st b; (m, st2) = delete_issue_batches st1 bs in (k + m, st2))"

fun record_deletes :: "store \<Rightarrow> string list \<Rightarrow> store_error + store" where
  "record_deletes st [] = Inr st"
| "record_deletes st (i # is) = bindE (RecordDeleteInTx st i) (\<lambda>st'. record_deletes st' is)"

definition deletion_counts :: "store \<Rightarrow> DeletionSet \<Rightarrow> DeleteIssuesResult" where
  "deletion_counts st ds =
     (let both = (\<lambda>rows. CountRowsForIssueIDsInTx (rows st Durable) (ds_RegularIDs ds) +
                       CountRowsForIssueIDsInTx (rows st Ephemeral) (ds_WispIDs ds))
      in \<lparr>di_DeletedCount = length (ds_RegularIDs ds) + length (ds_WispIDs ds),
          di_DependenciesCount = both dep_rows + inbound_rows st (ds_All ds), di_LabelsCount = both label_rows,
          di_EventsCount = both event_rows, di_OrphanedIssues = []\<rparr>)"

definition DeleteResolvedSetInTx ::
    "json_text \<Rightarrow> store \<Rightarrow> DeletionSet \<Rightarrow> bool \<Rightarrow> (store_error + DeleteIssuesResult \<times> store) option" where
  "DeleteResolvedSetInTx jt st ds dryRun =
     (if ds_All ds = []
      then Some (Inr (\<lparr>di_DeletedCount = 0, di_DependenciesCount = 0, di_LabelsCount = 0, di_EventsCount = 0, di_OrphanedIssues = []\<rparr>, st))
      else let result = deletion_counts st ds in
        if dryRun then Some (Inr (result, st))
        else case AffectedByDeletionInTx st (ds_RegularIDs ds) (ds_WispIDs ds) of
          None \<Rightarrow> None
        | Some (issueIDs, wispIDs) \<Rightarrow>
            let journaled = journalableDeletesInTx st Durable (ds_RegularIDs ds) in
            (case bindE (RecordDependencyRemovalsForIssuesInTx st (ds_All ds)) (\<lambda>st1. delete_wisps st1 (ds_WispIDs ds)) of
               Inl e \<Rightarrow> Some (Inl e)
             | Inr st2 \<Rightarrow>
                 let (k, st3) = delete_issue_batches st2 (delete_batches (ds_RegularIDs ds)) in
                 (case record_deletes st3 journaled of
                    Inl e \<Rightarrow> Some (Inl e)
                  | Inr st4 \<Rightarrow>
                      map_option (\<lambda>r. bindE r (\<lambda>st5. Inr (result\<lparr>di_DeletedCount := k + length (ds_WispIDs ds)\<rparr>, st5)))
                        (RecomputeIsBlockedInTx jt st4 issueIDs wispIDs))))"

text \<open>The direct dependents of an ID that are not in the request.\<close>

definition ExternalDependentsBySourceInTx :: "store \<Rightarrow> string list \<Rightarrow> string list \<Rightarrow> string \<Rightarrow> string list" where
  "ExternalDependentsBySourceInTx st ids idSet i =
     (if i \<in> set ids then sort (remdups (filter (\<lambda>s. s \<notin> set idSet) (dependents_of st [i]))) else [])"

definition guard_dependents :: "store \<Rightarrow> DeletionSet \<Rightarrow> string list \<Rightarrow> bool \<Rightarrow> bool \<Rightarrow> store_error + string list" where
  "guard_dependents st ds ids cascade force =
     (if cascade then Inr []
      else let external = ExternalDependentsBySourceInTx st (ds_RegularIDs ds) ids in
        if \<not> force
        then (case List.find (\<lambda>i. external i \<noteq> []) (ds_RegularIDs ds) of
                Some i \<Rightarrow> Inl (DependentsOutsideRequest i (external i))
              | None \<Rightarrow> Inr [])
        else Inr (sort (remdups (concat (map external (ds_RegularIDs ds))))))"

definition DeleteIssuesInTx ::
    "json_text \<Rightarrow> store \<Rightarrow> string list \<Rightarrow> bool \<Rightarrow> bool \<Rightarrow> bool \<Rightarrow> (store_error + DeleteIssuesResult \<times> store) option" where
  "DeleteIssuesInTx jt st ids cascade force dryRun =
     (if ids = []
      then Some (Inr (\<lparr>di_DeletedCount = 0, di_DependenciesCount = 0, di_LabelsCount = 0, di_EventsCount = 0, di_OrphanedIssues = []\<rparr>, st))
      else case ResolveDeletionSetInTx st ids cascade of
        None \<Rightarrow> None
      | Some (Inl e) \<Rightarrow> Some (Inl e)
      | Some (Inr ds) \<Rightarrow>
          (case guard_dependents st ds ids cascade force of
             Inl e \<Rightarrow> Some (Inl e)
           | Inr orphaned \<Rightarrow>
               map_option (\<lambda>r. bindE r (\<lambda>(result, st'). Inr (result\<lparr>di_OrphanedIssues := orphaned\<rparr>, st')))
                 (DeleteResolvedSetInTx jt st ds dryRun)))"

section \<open>The cascade reaches exactly the dependents\<close>

text \<open>From an ID to the sources of the edges that point to it.\<close>

definition dependent_edges :: "store \<Rightarrow> (string \<times> string) set" where
  "dependent_edges st = {(t, s). \<exists>tab. \<exists>d\<in>set (st_Deps st tab). dep_target d = Some t \<and> dr_IssueID d = s}"

definition all_dependents :: "store \<Rightarrow> string list \<Rightarrow> string set" where
  "all_dependents st ids = (dependent_edges st)\<^sup>* `` set ids"

lemma ex_plane: "(\<exists>pl. P pl) \<longleftrightarrow> P Durable \<or> P Ephemeral"
  by (metis plane.exhaust)

lemma set_dependents_of: "set (dependents_of st b) = dependent_edges st `` set b"
  by (auto simp: dependents_of_def dependent_edges_def ex_plane target_in_def split: option.splits)

lemma finite_all_dependents: "finite (all_dependents st ids)"
proof -
  define src where "src = dr_IssueID ` (set (st_Deps st Durable) \<union> set (st_Deps st Ephemeral))"
  have "(dependent_edges st)\<^sup>* `` set ids \<subseteq> set ids \<union> src"
  proof
    fix x
    assume "x \<in> (dependent_edges st)\<^sup>* `` set ids"
    then obtain i where i: "i \<in> set ids" "(i, x) \<in> (dependent_edges st)\<^sup>*" by blast
    from i(2) show "x \<in> set ids \<union> src"
      by (cases rule: rtranclE) (use i(1) in \<open>auto simp: dependent_edges_def ex_plane src_def\<close>)
  qed
  then show ?thesis unfolding all_dependents_def by (rule finite_subset) (simp add: src_def)
qed

lemma all_dependents_step: "x \<in> all_dependents st ids \<Longrightarrow> (x, y) \<in> dependent_edges st \<Longrightarrow> y \<in> all_dependents st ids"
  unfolding all_dependents_def by (blast intro: rtrancl_into_rtrancl)

text \<open>What was found so far, what of it is still to be expanded.\<close>

definition traversal :: "store \<Rightarrow> string list \<Rightarrow> string list \<Rightarrow> string list \<Rightarrow> bool" where
  "traversal st ids result todo \<longleftrightarrow> distinct result \<and> set ids \<subseteq> set result \<and> set todo \<subseteq> set result \<and>
     set result \<subseteq> all_dependents st ids \<and> dependent_edges st `` (set result - set todo) \<subseteq> set result"

lemma add_dependent_simps:
  "add_dependent x (r, t) = (if x \<in> set r then (r, t) else (r @ [x], t @ [x]))"
  by (simp add: add_dependent_def)

lemma fold_add_dependent:
  assumes "fold add_dependent xs (r, t) = (r', t')" "distinct r" "set t \<subseteq> set r"
  shows "distinct r' \<and> set r' = set r \<union> set xs \<and> set t' = set t \<union> (set r' - set r) \<and> length r' + length t = length r + length t'"
  using assms
proof (induction xs arbitrary: r t)
  case (Cons x xs)
  show ?case
  proof (cases "x \<in> set r")
    case True
    then show ?thesis using Cons.IH [of r t] Cons.prems by (auto simp: add_dependent_simps)
  next
    case False
    then have "fold add_dependent xs (r @ [x], t @ [x]) = (r', t')" using Cons.prems(1) by (simp add: add_dependent_simps)
    then have "distinct r' \<and> set r' = set (r @ [x]) \<union> set xs \<and> set t' = set (t @ [x]) \<union> (set r' - set (r @ [x])) \<and>
        length r' + length (t @ [x]) = length (r @ [x]) + length t'"
      using Cons.prems False by (intro Cons.IH) auto
    then show ?thesis using False by auto
  qed
qed auto

lemma traversal_turn:
  assumes "traversal st ids result todo" "process_batch st (result, todo) = (result', todo')" "todo \<noteq> []"
  shows "traversal st ids result' todo'" "set result \<subseteq> set result'"
    "2 * card (all_dependents st ids) - 2 * length result' + length todo' < 2 * card (all_dependents st ids) - 2 * length result + length todo"
    "set result' \<subseteq> set result \<union> set todo'"
proof -
  let ?b = "take deleteBatchSize todo" and ?rest = "drop deleteBatchSize todo"
  note T = assms(1) [unfolded traversal_def]
  have "set todo = set ?b \<union> set ?rest" by (metis append_take_drop_id set_append)
  then have todo: "set ?b \<subseteq> set todo" "set ?rest \<subseteq> set todo" "set todo \<subseteq> set ?b \<union> set ?rest" by auto
  have f: "fold add_dependent (dependents_of st ?b) (result, ?rest) = (result', todo')"
    using assms(2) by (simp add: process_batch_def)
  have F: "distinct result'" "set result' = set result \<union> dependent_edges st `` set ?b" "set todo' = set ?rest \<union> (set result' - set result)"
    "length result' + length ?rest = length result + length todo'"
    using fold_add_dependent [OF f _ subset_trans [OF todo(2)]] T unfolding set_dependents_of by blast+
  show sub: "set result \<subseteq> set result'" using F(2) by blast
  show "set result' \<subseteq> set result \<union> set todo'" using F(3) by blast
  have "set result' \<subseteq> all_dependents st ids" using F(2) T todo(1) all_dependents_step by blast
  moreover have "dependent_edges st `` (set result' - set todo') \<subseteq> set result'"
  proof -
    have "set result' - set todo' \<subseteq> (set result - set todo) \<union> set ?b" using F(3) todo(3) by blast
    then show ?thesis using T F(2) by blast
  qed
  ultimately show tr: "traversal st ids result' todo'" using T F(1-3) todo(2) unfolding traversal_def by blast
  have "length result' \<le> card (all_dependents st ids)"
    using tr card_mono [OF finite_all_dependents] by (metis distinct_card traversal_def)
  moreover have "length result \<le> length result'"
    using T F(1) sub by (metis card_mono distinct_card finite_set)
  moreover have "length ?rest < length todo" using assms(3) by (simp add: deleteBatchSize_def)
  ultimately show "2 * card (all_dependents st ids) - 2 * length result' + length todo' <
      2 * card (all_dependents st ids) - 2 * length result + length todo" using F(4) by linarith
qed

lemma traversal_end:
  assumes "traversal st ids result []"
  shows "set result = all_dependents st ids"
proof -
  have "(dependent_edges st)\<^sup>* `` set ids \<subseteq> set result"
    using assms Image_closed_trancl [of "dependent_edges st" "set result"] unfolding traversal_def by auto
  then show ?thesis using assms by (auto simp: traversal_def all_dependents_def)
qed

lemma find_dependents_result:
  assumes "traversal st ids result todo" "todo = [] \<longrightarrow> length result \<le> maxRecursiveResults"
  shows "(card (all_dependents st ids) \<le> maxRecursiveResults \<longrightarrow>
      (\<exists>r. find_dependents st result todo = Some (Inr r) \<and> distinct r \<and> set r = all_dependents st ids)) \<and>
    (card (all_dependents st ids) > maxRecursiveResults \<longrightarrow> find_dependents st result todo = Some (Inl CascadeTooLarge))"
  using assms
proof (induction "2 * card (all_dependents st ids) - 2 * length result + length todo" arbitrary: result todo rule: less_induct)
  case less
  have len: "length result \<le> card (all_dependents st ids)"
    using less.prems(1) card_mono [OF finite_all_dependents] by (metis distinct_card traversal_def)
  show ?case
  proof (cases "todo = [] \<or> length result > maxRecursiveResults")
    case True
    then consider "todo = []" "length result \<le> maxRecursiveResults" | "todo \<noteq> []" "length result > maxRecursiveResults"
      using less.prems(2) by blast
    then show ?thesis
    proof cases
      case 1
      have "traversal st ids result []" using less.prems(1) unfolding 1(1) .
      then have "set result = all_dependents st ids" "distinct result"
        by (rule traversal_end) (simp add: \<open>traversal st ids result []\<close> [unfolded traversal_def])
      moreover have "find_dependents st result todo = Some (Inr result)" by (subst find_dependents.simps) (simp add: 1)
      ultimately show ?thesis using 1 distinct_card [of result] by auto
    next
      case 2
      then have "find_dependents st result todo = Some (Inl CascadeTooLarge)" by (subst find_dependents.simps) simp
      then show ?thesis using len 2 by auto
    qed
  next
    case False
    obtain result' todo' where p: "process_batch st (result, todo) = (result', todo')" by fastforce
    note t = traversal_turn [OF less.prems(1) p]
    have eq: "find_dependents st result todo = find_dependents st result' todo'"
      by (subst find_dependents.simps) (use False p in simp)
    have "length result' \<le> maxRecursiveResults" if "todo' = []"
      using t(4) that False card_mono [of "set result" "set result'"] less.prems(1) t(1)
      by (simp add: traversal_def distinct_card)
    then show ?thesis unfolding eq using less.hyps [OF t(3, 1)] False by blast
  qed
qed

lemma FindAllDependentsInTx_result:
  "card (all_dependents st ids) \<le> maxRecursiveResults \<Longrightarrow>
     \<exists>r. FindAllDependentsInTx st ids = Some (Inr r) \<and> distinct r \<and> set r = all_dependents st ids"
  "card (all_dependents st ids) > maxRecursiveResults \<Longrightarrow> FindAllDependentsInTx st ids = Some (Inl CascadeTooLarge)"
proof -
  have "set ids \<subseteq> all_dependents st ids" by (auto simp: all_dependents_def)
  then have "traversal st ids (remdups ids) ids" by (auto simp: traversal_def)
  note f = find_dependents_result [OF this]
  show "card (all_dependents st ids) \<le> maxRecursiveResults \<Longrightarrow>
     \<exists>r. FindAllDependentsInTx st ids = Some (Inr r) \<and> distinct r \<and> set r = all_dependents st ids"
    "card (all_dependents st ids) > maxRecursiveResults \<Longrightarrow> FindAllDependentsInTx st ids = Some (Inl CascadeTooLarge)"
    using f by (auto simp: FindAllDependentsInTx_def)
qed


section \<open>Rows affected by a deletion\<close>

text \<open>The loads of \<open>AffectedByDeletionInTx\<close>, one after the other.\<close>

definition deletion_seed :: "store \<Rightarrow> string list \<Rightarrow> string list \<Rightarrow> affected" where
  "deletion_seed st issues wisps =
     appendChildrenInTx st Ephemeral Ephemeral wisps (appendChildrenInTx st Durable Ephemeral wisps
       (appendChildrenInTx st Ephemeral Durable issues (appendChildrenInTx st Durable Durable issues
         (fold (\<lambda>i. loadWaitersWhoseSpawnerIsParentOfInTx st (Ephemeral, i)) wisps
           (fold (\<lambda>i. loadWaitersWhoseSpawnerIsParentOfInTx st (Durable, i)) issues
             (loadWaitersOnSpawnerIDsByColInTx st Ephemeral wisps (loadWaitersOnSpawnerIDsByColInTx st Durable issues
               (loadBlockingDependersForIDsInTx st Ephemeral wisps (loadBlockingDependersForIDsInTx st Durable issues
                 \<lparr>af_Queue = (\<lambda>_. []), af_Seen = (\<lambda>pl. case pl of Durable \<Rightarrow> issues | Ephemeral \<Rightarrow> wisps)\<rparr>)))))))))"

lemma AffectedByDeletionInTx_seed:
  "AffectedByDeletionInTx st issues wisps =
     (if issues = [] \<and> wisps = [] then Some ([], []) else expandByParentChildDescendantsInTx st (deletion_seed st issues wisps))"
  by (simp add: AffectedByDeletionInTx_def deletion_seed_def Let_def)

lemma waiters_fold_grows:
  "grows a (fold (\<lambda>i. loadWaitersWhoseSpawnerIsParentOfInTx st (pl, i)) ids a)"
  "i \<in> set ids \<Longrightarrow> p \<in> parents st (pl, i) \<Longrightarrow> d \<in> set (st_Deps st tab) \<Longrightarrow> dep_col (fst p) d = Some (snd p) \<Longrightarrow> dr_Type d = DepWaitsFor \<Longrightarrow>
     dr_IssueID d \<in> set (af_Seen (fold (\<lambda>i. loadWaitersWhoseSpawnerIsParentOfInTx st (pl, i)) ids a) tab)"
proof -
  show "grows a (fold (\<lambda>i. loadWaitersWhoseSpawnerIsParentOfInTx st (pl, i)) ids a)"
    by (rule fold_grows) (rule loadWaitersOfParent_grows)
  show "dr_IssueID d \<in> set (af_Seen (fold (\<lambda>i. loadWaitersWhoseSpawnerIsParentOfInTx st (pl, i)) ids a) tab)"
    if "i \<in> set ids" "p \<in> parents st (pl, i)" "d \<in> set (st_Deps st tab)" "dep_col (fst p) d = Some (snd p)" "dr_Type d = DepWaitsFor"
    using that loadWaitersOfParent_grows(2) [of "fst p" "snd p" st "(pl, i)" d tab]
    by (intro fold_grows_seen [where x = i]) (auto intro: loadWaitersOfParent_grows)
qed

text \<open>What the seed has seen: everything that mentions a deleted row.\<close>

lemma deletion_seed_seen:
  fixes st issues wisps
  defines "seen \<equiv> \<lambda>pl i. i \<in> set (af_Seen (deletion_seed st issues wisps) pl)"
  assumes "d \<in> set (st_Deps st tab)" "n \<in> nodes_of issues wisps"
  shows "dep_col (fst n) d = Some (snd n) \<Longrightarrow> direct_type (dr_Type d) \<or> dr_Type d = DepWaitsFor \<or> dr_Type d = DepParentChild \<Longrightarrow> seen tab (dr_IssueID d)"
    and "p \<in> parents st n \<Longrightarrow> dep_col (fst p) d = Some (snd p) \<Longrightarrow> dr_Type d = DepWaitsFor \<Longrightarrow> seen tab (dr_IssueID d)"
proof -
  define a0 where "a0 = \<lparr>af_Queue = (\<lambda>_. []), af_Seen = (\<lambda>pl. case pl of Durable \<Rightarrow> issues | Ephemeral \<Rightarrow> wisps)\<rparr>"
  define a1 where "a1 = loadBlockingDependersForIDsInTx st Durable issues a0"
  define a2 where "a2 = loadBlockingDependersForIDsInTx st Ephemeral wisps a1"
  define a3 where "a3 = loadWaitersOnSpawnerIDsByColInTx st Durable issues a2"
  define a4 where "a4 = loadWaitersOnSpawnerIDsByColInTx st Ephemeral wisps a3"
  define a5 where "a5 = fold (\<lambda>i. loadWaitersWhoseSpawnerIsParentOfInTx st (Durable, i)) issues a4"
  define a6 where "a6 = fold (\<lambda>i. loadWaitersWhoseSpawnerIsParentOfInTx st (Ephemeral, i)) wisps a5"
  define a7 where "a7 = appendChildrenInTx st Durable Durable issues a6"
  define a8 where "a8 = appendChildrenInTx st Ephemeral Durable issues a7"
  define a9 where "a9 = appendChildrenInTx st Durable Ephemeral wisps a8"
  define a10 where "a10 = appendChildrenInTx st Ephemeral Ephemeral wisps a9"
  note A = a1_def a2_def a3_def a4_def a5_def a6_def a7_def a8_def a9_def a10_def
  have g: "grows a1 a2" "grows a2 a3" "grows a3 a4" "grows a4 a5" "grows a5 a6" "grows a6 a7" "grows a7 a8" "grows a8 a9" "grows a9 a10"
    unfolding A by (rule loadBlockingDependers_grows loadWaitersByCol_grows waiters_fold_grows appendChildren_grows)+
  note t9 = g(9) and t8 = grows_trans [OF g(8) g(9)]
  note t7 = grows_trans [OF g(7) t8]
  note t6 = grows_trans [OF g(6) t7]
  note t5 = grows_trans [OF g(5) t6]
  note t4 = grows_trans [OF g(4) t5]
  note t3 = grows_trans [OF g(3) t4]
  note t2 = grows_trans [OF g(2) t3]
  note t1 = grows_trans [OF g(1) t2]
  have seen: "seen = (\<lambda>pl i. i \<in> set (af_Seen a10 pl))" by (simp add: seen_def deletion_seed_def A a0_def)
  have n: "fst n = Durable \<and> snd n \<in> set issues \<or> fst n = Ephemeral \<and> snd n \<in> set wisps"
    using assms(3) by (auto simp: nodes_of_def)
  show "seen tab (dr_IssueID d)" if c: "dep_col (fst n) d = Some (snd n)" and "direct_type (dr_Type d) \<or> dr_Type d = DepWaitsFor \<or> dr_Type d = DepParentChild"
    using that(2)
  proof (elim disjE)
    assume "direct_type (dr_Type d)"
    then show ?thesis
      using n c assms(2) grows_seen [OF t1] grows_seen [OF t2] loadBlockingDependers_grows(2) [of "snd n" _ d st tab] unfolding seen a1_def a2_def by metis
  next
    assume "dr_Type d = DepWaitsFor"
    then show ?thesis
      using n c assms(2) grows_seen [OF t3] grows_seen [OF t4] loadWaitersByCol_grows(2) [of "snd n" _ d st tab] unfolding seen a3_def a4_def by metis
  next
    assume "dr_Type d = DepParentChild"
    then show ?thesis
      using n c assms(2) grows_seen [OF t7] grows_seen [OF t8] grows_seen [OF t9] appendChildren_grows(2) [of "snd n" _ d st tab]
      unfolding seen a7_def a8_def a9_def a10_def by (cases tab) metis+
  qed
  show "seen tab (dr_IssueID d)" if "p \<in> parents st n" "dep_col (fst p) d = Some (snd p)" "dr_Type d = DepWaitsFor"
    using that n assms(2) grows_seen [OF t5] grows_seen [OF t6] waiters_fold_grows(2) [of "snd n" _ p st "fst n" d tab]
    unfolding seen a5_def a6_def by (metis prod.collapse)
qed


lemma deletion_seed_sync:
  "set (af_Seen (deletion_seed st issues wisps) pl) = set (af_Queue (deletion_seed st issues wisps) pl) \<union> {i. (pl, i) \<in> nodes_of issues wisps}"
proof (rule grows_sync)
  show "grows \<lparr>af_Queue = (\<lambda>_. []), af_Seen = (\<lambda>pl. case pl of Durable \<Rightarrow> issues | Ephemeral \<Rightarrow> wisps)\<rparr> (deletion_seed st issues wisps)"
    unfolding deletion_seed_def
    by (rule grows_refl grows_trans [OF _ loadBlockingDependers_grows(1)] grows_trans [OF _ loadWaitersByCol_grows(1)]
        grows_trans [OF _ waiters_fold_grows(1)] grows_trans [OF _ appendChildren_grows(1)])+
qed (auto simp: nodes_of_def split: plane.splits)

lemma AffectedByDeletion_covers:
  fixes st issues wisps
  defines "A \<equiv> nodes_of issues wisps"
  obtains issueIDs wispIDs where "AffectedByDeletionInTx st issues wisps = Some (issueIDs, wispIDs)"
    "closed_under_children st (nodes_of issueIDs wispIDs \<union> A)"
    "\<And>tab d n. d \<in> set (st_Deps st tab) \<Longrightarrow> n \<in> A \<Longrightarrow> dep_col (fst n) d = Some (snd n) \<Longrightarrow>
       direct_type (dr_Type d) \<or> dr_Type d = DepWaitsFor \<or> dr_Type d = DepParentChild \<Longrightarrow> (tab, dr_IssueID d) \<in> nodes_of issueIDs wispIDs \<union> A"
    "\<And>tab d n p. d \<in> set (st_Deps st tab) \<Longrightarrow> n \<in> A \<Longrightarrow> p \<in> parents st n \<Longrightarrow> dep_col (fst p) d = Some (snd p) \<Longrightarrow>
       dr_Type d = DepWaitsFor \<Longrightarrow> (tab, dr_IssueID d) \<in> nodes_of issueIDs wispIDs \<union> A"
proof (cases "issues = [] \<and> wisps = []")
  case True
  have "A = {}" "AffectedByDeletionInTx st issues wisps = Some ([], [])"
    using True by (simp_all add: AffectedByDeletionInTx_seed A_def nodes_of_def)
  then show thesis by (intro that [of "[]" "[]"]) (simp_all add: closed_under_children_def nodes_of_def)
next
  case False
  have A: "{n. snd n \<in> {i. (fst n, i) \<in> nodes_of issues wisps}} = A" by (simp add: A_def)
  note sees = deletion_seed_seen [of _ st _ _ issues wisps]
  obtain issueIDs wispIDs where e: "expandByParentChildDescendantsInTx st (deletion_seed st issues wisps) = Some (issueIDs, wispIDs)"
    "\<And>pl i. i \<in> set (af_Seen (deletion_seed st issues wisps) pl) \<Longrightarrow> (pl, i) \<in> nodes_of issueIDs wispIDs \<union> A"
    "closed_under_children st (nodes_of issueIDs wispIDs \<union> A)"
    by (rule expand_covers [OF deletion_seed_sync [of st issues wisps], of st, unfolded A]) (use sees(1) in force)+
  show thesis
  proof (rule that)
    show "AffectedByDeletionInTx st issues wisps = Some (issueIDs, wispIDs)" using False e(1) by (auto simp: AffectedByDeletionInTx_seed)
    show "closed_under_children st (nodes_of issueIDs wispIDs \<union> A)" by (rule e(3))
  qed (rule e(2), use sees A_def in blast)+
qed

section \<open>Rows and edges that went\<close>

definition touches :: "node set \<Rightarrow> plane \<Rightarrow> DepRow \<Rightarrow> bool" where
  "touches D tab d \<longleftrightarrow> (tab, dr_IssueID d) \<in> D \<or> (\<exists>pl t. dep_col pl d = Some t \<and> (pl, t) \<in> D)"

definition pruned :: "node set \<Rightarrow> store \<Rightarrow> store \<Rightarrow> bool" where
  "pruned D st st' \<longleftrightarrow> (\<forall>n. row st' n = (if n \<in> D then None else row st n)) \<and>
     (\<forall>tab. st_Deps st' tab = filter (\<lambda>d. \<not> touches D tab d) (st_Deps st tab)) \<and>
     (\<forall>i. st_Leases st' i = (if (Durable, i) \<in> D then None else st_Leases st i)) \<and>
     st_Config st' = st_Config st \<and> st_CustomStatuses st' = st_CustomStatuses st"

lemma touches_Un: "touches (D \<union> E) tab d \<longleftrightarrow> touches D tab d \<or> touches E tab d"
  by (auto simp: touches_def)

lemma pruned_refl [simp]: "pruned {} st st"
  by (simp add: pruned_def touches_def)

lemma pruned_trans:
  assumes "pruned D a b" "pruned E b c"
  shows "pruned (D \<union> E) a c"
  unfolding pruned_def
proof (intro conjI allI)
  show "row c n = (if n \<in> D \<union> E then None else row a n)" for n
    using assms unfolding pruned_def by (metis Un_iff)
  show "st_Deps c tab = filter (\<lambda>d. \<not> touches (D \<union> E) tab d) (st_Deps a tab)" for tab
    using assms by (auto simp: pruned_def touches_Un intro: filter_cong)
qed (use assms in \<open>auto simp: pruned_def\<close>)

lemma pruned_journal:
  "pruned D a b \<Longrightarrow> journal_only b c \<Longrightarrow> pruned D a c"
  "journal_only a b \<Longrightarrow> pruned D b c \<Longrightarrow> pruned D a c"
  by (simp_all add: pruned_def journal_onlyD)

lemma pruned_parents: "pruned D st st' \<Longrightarrow> parents st' n \<subseteq> parents st n"
  by (auto simp: parents_def edges_from_def pruned_def)

text \<open>Away from the deleted rows and those that mention them, nothing a flag depends on has changed.\<close>

lemma pruned_edges_from:
  assumes "pruned D st st'" "m \<notin> D"
  shows "d \<in> set (edges_from st' m) \<longleftrightarrow> d \<in> set (edges_from st m) \<and> \<not> touches D (fst m) d"
  using assms by (auto simp: pruned_def edges_from_def)

lemma pruned_on_target:
  assumes "pruned D st st'" "\<not> touches D tab d"
  shows "on_target (live_row st') d = on_target (live_row st) d"
  by (rule on_target_cong) (use assms in \<open>auto simp: pruned_def live_row_def touches_def\<close>)

lemma pruned_some_child:
  assumes P: "pruned D st st'" and wf: "deps_wf st" and d: "\<not> touches D tab d"
    and kids: "\<And>n p. n \<in> D \<Longrightarrow> p \<in> parents st n \<Longrightarrow> dep_col (fst p) d \<noteq> Some (snd p)"
    and Q: "\<And>n. n \<notin> D \<Longrightarrow> Q' n = Q n"
  shows "some_child st' d Q' = some_child st d Q"
proof -
  have keep: "\<not> touches D pl cd \<and> (pl, dr_IssueID cd) \<notin> D"
    if cd: "cd \<in> set (st_Deps st pl)" "dr_Type cd = DepParentChild" "same_target d cd" for pl cd
  proof -
    obtain p where p: "p \<in> parents st (pl, dr_IssueID cd)" "dep_col (fst p) d = Some (snd p)"
      by (rule same_target_parent [OF cd(3, 2), of st "(pl, dr_IssueID cd)"]) (use cd(1) in simp_all)
    then have src: "(pl, dr_IssueID cd) \<notin> D" using kids by blast
    have "(c, t) \<notin> D" if "dep_col c cd = Some t" for c t
    proof -
      from cd(3) obtain col s where s: "dep_col col d = Some s" "dep_col col cd = Some s"
        unfolding same_target_def by (metis dep_col_def option.exhaust plane.simps(3, 4))
      have "one_target cd" by (rule deps_wf_one [OF wf cd(1)])
      then have "c = col" using that s(2) by (auto simp: one_target_def dep_col_def split: plane.splits)
      then show ?thesis using that s d by (auto simp: touches_def)
    qed
    then show ?thesis using src by (auto simp: touches_def)
  qed
  have "set (st_Deps st' pl) = {cd \<in> set (st_Deps st pl). \<not> touches D pl cd}" for pl using P by (auto simp: pruned_def)
  then show ?thesis using keep Q by (auto simp: some_child_def list_ex_iff)
qed

lemma pruned_own_reason:
  assumes P: "pruned D st st'" and wf: "deps_wf st" and m: "m \<notin> D"
    and out: "\<And>d. d \<in> set (edges_from st m) \<Longrightarrow> direct_type (dr_Type d) \<or> dr_Type d = DepWaitsFor \<Longrightarrow> \<not> touches D (fst m) d"
    and kids: "\<And>d n p. d \<in> set (edges_from st m) \<Longrightarrow> dr_Type d = DepWaitsFor \<Longrightarrow> n \<in> D \<Longrightarrow> p \<in> parents st n \<Longrightarrow> dep_col (fst p) d \<noteq> Some (snd p)"
  shows "own_reason jt st' m = own_reason jt st m"
proof -
  have rows: "live_row st' n = live_row st n" "closed_row st' n = closed_row st n" if "n \<notin> D" for n
    using P that unfolding pruned_def live_row_def closed_row_def by metis+
  have t: "on_target (live_row st') d = on_target (live_row st) d"
    if "d \<in> set (edges_from st m)" "direct_type (dr_Type d) \<or> dr_Type d = DepWaitsFor" for d
    by (rule pruned_on_target [OF P out [OF that]])
  moreover have "waitsForGateBlockedSQL jt st' d = waitsForGateBlockedSQL jt st d" if d: "d \<in> set (edges_from st m)" "dr_Type d = DepWaitsFor" for d
  proof -
    have "\<not> touches D (fst m) d" using out d by blast
    note c = pruned_some_child [OF P wf this kids [OF d]]
    show ?thesis using c [OF _ _ rows(1)] c [OF _ _ rows(2)] t [OF d(1)] d(2) by (simp add: waitsForGateBlockedSQL_def)
  qed
  ultimately show ?thesis
    using out pruned_edges_from [OF P m] unfolding own_reason_def list_ex_iff Bex_def by metis
qed

lemma pruned_wf:
  assumes "pruned D st st'" "deps_wf st"
  shows "deps_wf st'"
  using assms by (auto simp: deps_wf_def pruned_def list_all_iff distinct_map intro: inj_on_subset)

lemma pruned_scheduling:
  assumes "pruned D st st'"
  shows "scheduling st' \<subseteq> scheduling st"
  using assms by (fastforce simp: scheduling_iff pruned_def)

text \<open>A row is not concerned when it is in no set that covers the deleted rows and those that mention them.\<close>

lemma pruned_outside:
  assumes P: "pruned D st st1" and wf: "deps_wf st" and "D \<subseteq> C" and m: "m \<notin> C"
    and C: "\<And>tab d n. d \<in> set (st_Deps st tab) \<Longrightarrow> n \<in> D \<Longrightarrow> dep_col (fst n) d = Some (snd n) \<Longrightarrow>
       direct_type (dr_Type d) \<or> dr_Type d = DepWaitsFor \<or> dr_Type d = DepParentChild \<Longrightarrow> (tab, dr_IssueID d) \<in> C"
    "\<And>tab d n p. d \<in> set (st_Deps st tab) \<Longrightarrow> n \<in> D \<Longrightarrow> p \<in> parents st n \<Longrightarrow> dep_col (fst p) d = Some (snd p) \<Longrightarrow>
       dr_Type d = DepWaitsFor \<Longrightarrow> (tab, dr_IssueID d) \<in> C"
  shows "live_row st1 m = live_row st m \<and> own_reason jt st1 m = own_reason jt st m \<and> parents st1 m = parents st m"
proof (intro conjI)
  have mD: "m \<notin> D" using m assms(3) by blast
  show "live_row st1 m = live_row st m" using P mD unfolding pruned_def live_row_def by metis
  have out: "\<not> touches D (fst m) d"
    if "d \<in> set (edges_from st m)" "direct_type (dr_Type d) \<or> dr_Type d = DepWaitsFor \<or> dr_Type d = DepParentChild" for d
    using that m mD C(1) [of d "fst m"] unfolding touches_def edges_from_def by fastforce
  show "own_reason jt st1 m = own_reason jt st m"
  proof (rule pruned_own_reason [OF P wf mD])
    show "dep_col (fst p) d \<noteq> Some (snd p)" if "d \<in> set (edges_from st m)" "dr_Type d = DepWaitsFor" "n \<in> D" "p \<in> parents st n" for d n p
      using that m C(2) [of d "fst m" n p] by (auto simp: edges_from_def)
  qed (use out in blast)
  show "parents st1 m = parents st m"
    using out pruned_edges_from [OF P mD] unfolding parents_def by blast
qed

text \<open>
  Deleting rows and repairing what \<open>AffectedByDeletionInTx\<close> found before makes the flags right. Of the
  IDs to delete some may not have had rows.
\<close>

lemma deletion_repaired:
  assumes ok: "graph_ok jt st" and P: "pruned D st st1"
    and D: "D \<subseteq> nodes_of issues wisps" "\<And>n. n \<in> nodes_of issues wisps \<Longrightarrow> row st1 n = None"
    and aff: "AffectedByDeletionInTx st issues wisps = Some (issueIDs, wispIDs)"
  obtains st' where "RecomputeIsBlockedInTx jt st1 issueIDs wispIDs = Some (Inr st')" "derived_only st1 st'" "graph_ok jt st'"
proof -
  let ?A = "nodes_of issues wisps" and ?S = "nodes_of issueIDs wispIDs"
  have wf: "deps_wf st" and bl: "blocked_ok jt st" and acs: "acyclic (scheduling st)" using ok by (simp_all add: graph_ok_def)
  have wf1: "deps_wf st1" and acs1: "acyclic (scheduling st1)"
    using pruned_wf [OF P wf] acyclic_subset [OF acs pruned_scheduling [OF P]] by auto
  note ac = hierarchy_acyclic [OF wf1 acs1]
  obtain i w where "AffectedByDeletionInTx st issues wisps = Some (i, w)" and C: "closed_under_children st (nodes_of i w \<union> ?A)"
    "\<And>tab d n. d \<in> set (st_Deps st tab) \<Longrightarrow> n \<in> ?A \<Longrightarrow> dep_col (fst n) d = Some (snd n) \<Longrightarrow>
       direct_type (dr_Type d) \<or> dr_Type d = DepWaitsFor \<or> dr_Type d = DepParentChild \<Longrightarrow> (tab, dr_IssueID d) \<in> nodes_of i w \<union> ?A"
    "\<And>tab d n p. d \<in> set (st_Deps st tab) \<Longrightarrow> n \<in> ?A \<Longrightarrow> p \<in> parents st n \<Longrightarrow> dep_col (fst p) d = Some (snd p) \<Longrightarrow>
       dr_Type d = DepWaitsFor \<Longrightarrow> (tab, dr_IssueID d) \<in> nodes_of i w \<union> ?A"
    by (rule AffectedByDeletion_covers [of st issues wisps]) blast
  then have iw: "i = issueIDs" "w = wispIDs" using aff by simp_all
  note C = C [unfolded iw]
  obtain result st' where R: "RecomputeIsBlockedInTxWithResult jt st1 issueIDs wispIDs = Some (Inr (result, st'))"
    "derived_only st1 st'" "flagged st' = settled jt st1 issueIDs wispIDs"
    by (rule Recompute_total [OF ac])
  have rows: "row st1 n = row st n" if "n \<notin> ?A" for n using P D(1) that unfolding pruned_def by (metis subsetD)
  have "settled jt st1 issueIDs wispIDs n = blocking.settle (live_row st1) (own_reason jt st1) (sound_parents st1) (?S \<union> ?A) (flagged st) n" for n
    unfolding settled_def
    by (rule block.settle_dropped) (simp_all add: D(2) rows live_row_def flagged_def)
  then have fl: "flagged st' = blocking.settle (live_row st1) (own_reason jt st1) (sound_parents st1) (?S \<union> ?A) (flagged st)"
    using R(3) by auto
  have "flags_ok (live_row st1) (own_reason jt st1) (sound_parents st1) (flagged st')"
    unfolding fl
  proof (rule block.settle_repairs [where act' = "live_row st" and base' = "own_reason jt st" and par' = "parents st"])
    show "flags_ok (live_row st) (own_reason jt st) (parents st) (flagged st)"
      using bl by (simp add: blocked_ok_flags)
    show "m \<in> ?S \<union> ?A" if "p \<in> sound_parents st1 m" "p \<in> ?S \<union> ?A" for m p
      using that C(1) pruned_parents [OF P] unfolding sound_parents_eq [OF ac] closed_under_children_def by blast
    show "live_row st1 m = live_row st m \<and> own_reason jt st1 m = own_reason jt st m \<and> sound_parents st1 m = parents st m"
      if m: "m \<notin> ?S \<union> ?A" for m
      unfolding sound_parents_eq [OF ac] by (rule pruned_outside [OF P wf _ m]) (use D(1) C(2, 3) in blast)+
  qed
  moreover obtain mid where mid: "flags_only st1 mid" "journal_only mid st'" using R(2) by (auto simp: derived_only_def)
  ultimately have "blocked_ok jt st'"
    by (simp add: blocked_ok_flags sound_parents_eq [OF ac] journal_only_graph [OF mid(2)] flags_only_graph [OF mid(1)] flags_only_status [OF mid(1)])
  moreover have "deps_wf st'" "scheduling st' = scheduling st1"
    using wf1 by (simp_all add: deps_wf_def scheduling_def edge_pairs_def derived_onlyD(1) [OF R(2)])
  ultimately have "graph_ok jt st'" using acs1 by (simp add: graph_ok_def)
  then show thesis using R(1, 2) by (intro that) (simp_all add: RecomputeIsBlockedInTx_def)
qed


section \<open>The statements\<close>

lemma cascades_touches:
  "cascades (Durable, i) tab d \<longleftrightarrow> touches {(Durable, i)} tab d"
  "cascades (Ephemeral, i) tab d \<or> tab = Durable \<and> dr_OnWisp d = Some i \<longleftrightarrow> touches {(Ephemeral, i)} tab d"
  by (cases tab; auto simp: cascades_def touches_def dep_col_def split: plane.splits)+

lemma deleteIssueRowInTx_result:
  assumes "row st (WispTableRouting isWisp, i) \<noteq> None"
  obtains st' where "deleteIssueRowInTx st i isWisp = Inr st'" "pruned {(WispTableRouting isWisp, i)} st st'"
proof -
  let ?n = "(WispTableRouting isWisp, i)"
  obtain st1 where j: "RecordDeleteInTx (delete_row ?n st) i = Inr st1" "journal_only (delete_row ?n st) st1"
    by (cases "st_JournalOn (delete_row ?n st)")
      (auto simp: RecordDeleteInTx_def intro: insertEventRow_spec [of "delete_row ?n st" EventDelete i None None None])
  define st' where "st' = (if isWisp then DeleteWispFromDependenciesInTx st1 i else DeleteLeaseInTx st1 i)"
  have "deleteIssueRowInTx st i isWisp = Inr st'" using assms j(1) by (auto simp: deleteIssueRowInTx_def Let_def st'_def)
  moreover have "pruned {?n} st st'"
  proof (cases isWisp)
    case True
    have "st_Deps st' tab = filter (\<lambda>d. \<not> touches {(Ephemeral, i)} tab d) (st_Deps st tab)" for tab
      unfolding cascades_touches(2) [symmetric]
      by (simp add: st'_def True DeleteWispFromDependenciesInTx_def set_deps_def journal_onlyD [OF j(2)] delete_row_def WispTableRouting_def)
    then show ?thesis
      using True journal_onlyD [OF j(2)]
      by (auto simp: pruned_def st'_def DeleteWispFromDependenciesInTx_def set_deps_def delete_row_def WispTableRouting_def row_def set_row_def)
  next
    case False
    have "st_Deps st' tab = filter (\<lambda>d. \<not> touches {(Durable, i)} tab d) (st_Deps st tab)" for tab
      unfolding cascades_touches(1) [symmetric]
      by (simp add: st'_def False DeleteLeaseInTx_def set_lease_def journal_onlyD [OF j(2)] delete_row_def WispTableRouting_def)
    then show ?thesis
      using False journal_onlyD [OF j(2)]
      by (auto simp: pruned_def st'_def DeleteLeaseInTx_def set_lease_def delete_row_def WispTableRouting_def row_def set_row_def)
  qed
  ultimately show thesis by (rule that)
qed

lemma recordDependencyRemovalsInTx_total: "\<exists>st'. recordDependencyRemovalsInTx st es = Inr st' \<and> journal_only st st'"
proof (induction es arbitrary: st)
  case (Cons e es)
  obtain st1 where "RecordDepEventInTx st EventDepRemove (je_source e) (je_kind e) (je_target e) (je_metadata e) = Inr st1" "journal_only st st1"
    by (rule RecordDepEventInTx_Inr)
  then show ?case using Cons [of st1] by (auto intro: journal_only_trans)
qed simp

lemma removals_recorded:
  assumes "deps_wf st"
  obtains st' where "RecordDependencyRemovalsForIssuesInTx st ids = Inr st'" "journal_only st st'"
proof -
  have t: "dep_target d \<noteq> None" if "d \<in> set (st_Deps st pl)" for pl d
    using deps_wf_one [OF assms that] by (auto simp: one_target_def dep_target_def split: option.splits)
  have "\<exists>es. dependencyEdgesInTableForIssueIDsInTx st pl ids = Inr es" for pl
    using t unfolding dependencyEdgesInTableForIssueIDsInTx_def Let_def
    by (auto split: option.splits simp: find_Some_iff dest!: nth_mem)
  then obtain es ws where "dependencyEdgesInTableForIssueIDsInTx st Durable ids = Inr es"
    "dependencyEdgesInTableForIssueIDsInTx st Ephemeral ids = Inr ws" by meson
  then have "\<exists>es. dependencyEdgesForIssueIDsInTx st ids = Inr es" by (simp add: dependencyEdgesForIssueIDsInTx_def)
  then have "\<exists>st'. RecordDependencyRemovalsForIssuesInTx st ids = Inr st' \<and> journal_only st st'"
    using recordDependencyRemovalsInTx_total [of st] by (auto simp: RecordDependencyRemovalsForIssuesInTx_def)
  then show thesis using that by blast
qed


text \<open>Rows and their edges and leases are gone, and the flags of the others repaired.\<close>

definition removed :: "node set \<Rightarrow> store \<Rightarrow> store \<Rightarrow> bool" where
  "removed D st st' \<longleftrightarrow> (\<exists>st1. pruned D st st1 \<and> derived_only st1 st')"

lemma removedD:
  assumes "removed D st st'"
  shows "map_option unflag (row st' n) = (if n \<in> D then None else map_option unflag (row st n))"
    "st_Deps st' tab = filter (\<lambda>d. \<not> touches D tab d) (st_Deps st tab)"
    "st_Leases st' i = (if (Durable, i) \<in> D then None else st_Leases st i)"
    "st_Config st' = st_Config st" "st_CustomStatuses st' = st_CustomStatuses st"
proof -
  obtain st1 where s: "pruned D st st1" "derived_only st1 st'" using assms by (auto simp: removed_def)
  show "map_option unflag (row st' n) = (if n \<in> D then None else map_option unflag (row st n))"
    using derived_only_row [OF s(2), of n] s(1) unfolding pruned_def by (metis option.map_disc_iff)
  show "st_Deps st' tab = filter (\<lambda>d. \<not> touches D tab d) (st_Deps st tab)"
    "st_Leases st' i = (if (Durable, i) \<in> D then None else st_Leases st i)"
    "st_Config st' = st_Config st" "st_CustomStatuses st' = st_CustomStatuses st"
    using s(1) by (simp_all add: derived_onlyD [OF s(2)] pruned_def)
qed

lemma DeleteIssueInTx_absent:
  assumes "graph_ok jt st" "row st (home st i) = None"
  shows "DeleteIssueInTx jt st i = Some (Inl (ErrNotFound i))"
proof -
  have d: "deps_wf st" using assms(1) by (simp add: graph_ok_def)
  obtain a where "(if IsActiveWispInTx st i then AffectedByDeletionInTx st [] [i] else AffectedByDeletionInTx st [i] []) = Some a"
    using AffectedByDeletion_covers [of st "[]" "[i]"] AffectedByDeletion_covers [of st "[i]" "[]"] by (metis (full_types))
  moreover obtain st1 where "RecordDependencyRemovalsForIssuesInTx st [i] = Inr st1" "journal_only st st1"
    by (rule removals_recorded [OF d])
  ultimately show ?thesis
    using assms(2) by (cases a) (simp add: DeleteIssueInTx_def deleteIssueRowInTx_def Let_def plane_of_def journal_onlyD)
qed

lemma DeleteIssueInTx_present:
  assumes ok: "graph_ok jt st" and r: "row st (home st i) \<noteq> None"
  obtains st' where "DeleteIssueInTx jt st i = Some (Inr st')" "graph_ok jt st'" "removed {home st i} st st'"
proof -
  have d: "deps_wf st" using ok by (simp add: graph_ok_def)
  define issues wisps where "issues = (if IsActiveWispInTx st i then [] else [i])" and "wisps = (if IsActiveWispInTx st i then [i] else [])"
  have n: "nodes_of issues wisps = {home st i}" by (simp add: issues_def wisps_def nodes_of_def plane_of_def WispTableRouting_def)
  obtain es ws where a: "AffectedByDeletionInTx st issues wisps = Some (es, ws)" by (rule AffectedByDeletion_covers)
  obtain st1 where j: "RecordDependencyRemovalsForIssuesInTx st [i] = Inr st1" "journal_only st st1"
    by (rule removals_recorded [OF d])
  obtain st2 where s: "deleteIssueRowInTx st1 i (IsActiveWispInTx st i) = Inr st2" "pruned {home st i} st1 st2"
    by (rule deleteIssueRowInTx_result [of st1 "IsActiveWispInTx st i" i]) (use r in \<open>simp_all add: journal_onlyD [OF j(2)] plane_of_def\<close>)
  note P = pruned_journal(2) [OF j(2) s(2)]
  obtain st' where R: "RecomputeIsBlockedInTx jt st2 es ws = Some (Inr st')" "derived_only st2 st'" "graph_ok jt st'"
    by (rule deletion_repaired [OF ok P _ _ a]) (use P in \<open>auto simp: n pruned_def\<close>)
  have "DeleteIssueInTx jt st i = Some (Inr st')"
    using a j(1) s(1) R(1) by (simp add: DeleteIssueInTx_def Let_def issues_def wisps_def split: if_splits)
  then show thesis using R(2, 3) P by (intro that) (auto simp: removed_def)
qed

section \<open>Deleting many\<close>

lemma delete_wisps_result:
  "distinct ids \<Longrightarrow> (\<And>i. i \<in> set ids \<Longrightarrow> row st (Ephemeral, i) \<noteq> None) \<Longrightarrow>
     \<exists>st'. delete_wisps st ids = Inr st' \<and> pruned ({Ephemeral} \<times> set ids) st st'"
proof (induction ids arbitrary: st)
  case (Cons i ids)
  obtain st1 where s: "deleteIssueRowInTx st i True = Inr st1" "pruned {(Ephemeral, i)} st st1"
    by (rule deleteIssueRowInTx_result [of st True i]) (use Cons.prems in \<open>simp_all add: WispTableRouting_def\<close>)
  have "\<exists>st'. delete_wisps st1 ids = Inr st' \<and> pruned ({Ephemeral} \<times> set ids) st1 st'"
    by (rule Cons.IH) (use Cons.prems s(2) in \<open>auto simp: pruned_def\<close>)
  moreover have "{(Ephemeral, i)} \<union> {Ephemeral} \<times> set ids = {Ephemeral} \<times> set (i # ids)" by auto
  ultimately show ?case using s pruned_trans [OF s(2)] by fastforce
qed simp

text \<open>A wisp named twice is not found the second time.\<close>

lemma delete_wisps_fails:
  "\<not> (distinct ids \<and> (\<forall>i\<in>set ids. row st (Ephemeral, i) \<noteq> None)) \<Longrightarrow> \<exists>i\<in>set ids. delete_wisps st ids = Inl (ErrNotFound i)"
proof (induction ids arbitrary: st)
  case (Cons i ids)
  show ?case
  proof (cases "row st (Ephemeral, i)")
    case None
    then show ?thesis by (simp add: deleteIssueRowInTx_def WispTableRouting_def)
  next
    case (Some r)
    obtain st1 where s: "deleteIssueRowInTx st i True = Inr st1" "pruned {(Ephemeral, i)} st st1"
      by (rule deleteIssueRowInTx_result [of st True i]) (use Some in \<open>simp_all add: WispTableRouting_def\<close>)
    have "\<exists>i\<in>set ids. delete_wisps st1 ids = Inl (ErrNotFound i)"
      by (rule Cons.IH) (use Cons.prems s(2) Some in \<open>auto simp: pruned_def\<close>)
    then show ?thesis using s(1) by auto
  qed
qed simp

lemma record_deletes_total: "\<exists>st'. record_deletes st ids = Inr st' \<and> journal_only st st'"
proof (induction ids arbitrary: st)
  case (Cons i ids)
  obtain st1 where "RecordDeleteInTx st i = Inr st1" "journal_only st st1"
    by (cases "st_JournalOn st") (auto simp: RecordDeleteInTx_def intro: insertEventRow_spec [of st EventDelete i None None None])
  then show ?case using Cons [of st1] by (auto intro: journal_only_trans)
qed simp


lemma pruned_leases:
  assumes "pruned D st st'" "leases_ok st"
  shows "leases_ok st'"
  unfolding leases_ok_def
proof (intro allI impI)
  fix i l
  assume "st_Leases st' i = Some l"
  then have "st_Leases st i = Some l" "row st' (Durable, i) = row st (Durable, i)" using assms(1) by (auto simp: pruned_def split: if_splits)
  then show "lease_of st' i l" using leases_okD [OF assms(2)] by (simp add: lease_of_def)
qed

lemma delete_row_facts:
  "row (delete_row n st) m = (if m = n then None else row st m)" "st_Leases (delete_row n st) = st_Leases st"
  "st_Config (delete_row n st) = st_Config st" "st_CustomStatuses (delete_row n st) = st_CustomStatuses st"
  "st_Deps (delete_row (Durable, i) st) tab = filter (\<lambda>d. \<not> touches {(Durable, i)} tab d) (st_Deps st tab)"
  by (cases m; simp add: delete_row_def row_def set_row_def cascades_touches)+

lemma fold_delete_row:
  "\<exists>st'. fold (\<lambda>i. delete_row (Durable, i)) ids st = st' \<and> (\<forall>n. row st' n = (if n \<in> {Durable} \<times> set ids then None else row st n)) \<and>
     (\<forall>tab. st_Deps st' tab = filter (\<lambda>d. \<not> touches ({Durable} \<times> set ids) tab d) (st_Deps st tab)) \<and>
     st_Leases st' = st_Leases st \<and> st_Config st' = st_Config st \<and> st_CustomStatuses st' = st_CustomStatuses st"
proof (induction ids arbitrary: st)
  case Nil
  show ?case by (simp add: touches_def)
next
  case (Cons i ids)
  have D: "{Durable} \<times> set (i # ids) = {(Durable, i)} \<union> {Durable} \<times> set ids" by auto
  show ?case
    using Cons [of "delete_row (Durable, i) st"] unfolding D touches_Un
    by (auto simp: delete_row_facts conj_commute)
qed

lemma fold_DeleteLease: "fold (\<lambda>i st. DeleteLeaseInTx st i) ids st = st\<lparr>st_Leases := (\<lambda>i. if i \<in> set ids then None else st_Leases st i)\<rparr>"
proof (induction ids arbitrary: st)
  case (Cons i ids)
  then show ?case by (cases st) (auto simp: DeleteLeaseInTx_def set_lease_def fun_eq_iff)
qed simp

definition existing :: "store \<Rightarrow> string list \<Rightarrow> node set" where
  "existing st ids = {Durable} \<times> {i \<in> set ids. row st (Durable, i) \<noteq> None}"

lemma delete_issues_result:
  assumes "leases_ok st" "delete_issues st batch = (k, st')"
  shows "pruned (existing st batch) st st'" "k = card (existing st batch)"
proof -
  let ?ex = "ExistingIssueIDsInTableInTx st Durable (remdups batch)"
  have ex: "existing st batch = {Durable} \<times> set ?ex" "distinct ?ex" by (auto simp: existing_def ExistingIssueIDsInTableInTx_def)
  obtain st1 where s: "fold (\<lambda>i. delete_row (Durable, i)) ?ex st = st1"
    "\<And>n. row st1 n = (if n \<in> existing st batch then None else row st n)"
    "\<And>tab. st_Deps st1 tab = filter (\<lambda>d. \<not> touches (existing st batch) tab d) (st_Deps st tab)"
    "st_Leases st1 = st_Leases st" "st_Config st1 = st_Config st" "st_CustomStatuses st1 = st_CustomStatuses st"
    using fold_delete_row [of ?ex st] unfolding ex(1) by metis
  have st': "st' = st1\<lparr>st_Leases := (\<lambda>i. if i \<in> set batch then None else st_Leases st1 i)\<rparr>" and k: "k = length ?ex"
    using assms(2) s(1) by (auto simp: delete_issues_def Let_def fold_DeleteLease)
  have "st_Leases st i = None" if "row st (Durable, i) = None" for i
    using leases_okD [OF assms(1), of i] that by (cases "st_Leases st i") (auto simp: lease_of_def)
  then show "pruned (existing st batch) st st'"
    using s by (auto simp: pruned_def st' row_def existing_def)
  show "k = card (existing st batch)" using ex by (simp add: k card_cartesian_product distinct_card)
qed

lemma delete_issue_batches_result:
  "leases_ok st \<Longrightarrow> delete_issue_batches st bs = (k, st') \<Longrightarrow> pruned (existing st (concat bs)) st st' \<and> k = card (existing st (concat bs))"
proof (induction bs arbitrary: st k)
  case Nil
  then show ?case by (simp add: existing_def)
next
  case (Cons b bs)
  obtain j st1 where b: "delete_issues st b = (j, st1)" by fastforce
  obtain m where bs: "delete_issue_batches st1 bs = (m, st')" "k = j + m"
    using Cons.prems(2) b by (auto split: prod.splits)
  note D = delete_issues_result [OF Cons.prems(1) b]
  have E: "pruned (existing st1 (concat bs)) st1 st' \<and> m = card (existing st1 (concat bs))"
    by (rule Cons.IH [OF pruned_leases [OF D(1) Cons.prems(1)] bs(1)])
  have "row st1 (Durable, i) = (if (Durable, i) \<in> existing st b then None else row st (Durable, i))" for i
    using D(1) by (simp add: pruned_def)
  then have split: "existing st (concat (b # bs)) = existing st b \<union> existing st1 (concat bs)" "existing st b \<inter> existing st1 (concat bs) = {}"
    by (auto simp: existing_def split: if_splits)
  have "finite (existing s ids)" for s ids by (simp add: existing_def)
  then show ?case using D E bs(2) split pruned_trans [OF D(1)] by (auto simp: card_Un_disjoint)
qed


lemma concat_delete_batches: "concat (delete_batches xs) = xs"
proof (induction xs rule: delete_batches.induct)
  case (1 xs)
  then show ?case by (subst delete_batches.simps) simp
qed

text \<open>The rows that IDs stand for.\<close>

definition homes :: "store \<Rightarrow> string set \<Rightarrow> node set" where
  "homes st ids = {home st i |i. i \<in> ids \<and> row st (home st i) \<noteq> None}"

definition split_set :: "store \<Rightarrow> DeletionSet \<Rightarrow> bool" where
  "split_set st ds \<longleftrightarrow> PartitionWispIDsInTx st (ds_All ds) = (ds_WispIDs ds, ds_RegularIDs ds)"

lemma split_set_homes:
  assumes "split_set st ds"
  shows "homes st (set (ds_All ds)) = {Ephemeral} \<times> set (ds_WispIDs ds) \<union> existing st (ds_RegularIDs ds)"
    "\<And>i. i \<in> set (ds_WispIDs ds) \<Longrightarrow> row st (Ephemeral, i) \<noteq> None"
proof -
  have w: "ds_WispIDs ds = filter (IsActiveWispInTx st) (ds_All ds)" "ds_RegularIDs ds = filter (\<lambda>i. \<not> IsActiveWispInTx st i) (ds_All ds)"
    using assms by (auto simp: split_set_def PartitionWispIDsInTx_def)
  show "homes st (set (ds_All ds)) = {Ephemeral} \<times> set (ds_WispIDs ds) \<union> existing st (ds_RegularIDs ds)"
    by (fastforce simp: homes_def existing_def w plane_of_def WispTableRouting_def IsActiveWispInTx_def split: if_splits)
  show "\<And>i. i \<in> set (ds_WispIDs ds) \<Longrightarrow> row st (Ephemeral, i) \<noteq> None" by (simp add: w IsActiveWispInTx_def)
qed

lemma removed_refl: "removed {} st st"
  unfolding removed_def derived_only_def using pruned_refl flags_only_refl journal_only_refl by blast

lemma DeleteResolvedSetInTx_result:
  assumes ok: "graph_ok jt st" "leases_ok st" and ds: "split_set st ds" "distinct (ds_WispIDs ds)"
  obtains res st' where "DeleteResolvedSetInTx jt st ds False = Some (Inr (res, st'))" "graph_ok jt st'"
    "removed (homes st (set (ds_All ds))) st st'" "di_DeletedCount res = card (homes st (set (ds_All ds)))"
proof (cases "ds_All ds = []")
  case True
  then show thesis
    using ok removed_refl by (intro that) (auto simp: DeleteResolvedSetInTx_def homes_def)
next
  case False
  let ?reg = "ds_RegularIDs ds" and ?wisps = "ds_WispIDs ds" and ?D = "homes st (set (ds_All ds))"
  have d: "deps_wf st" using ok(1) by (simp add: graph_ok_def)
  note H = split_set_homes [OF ds(1)]
  obtain es ws where a: "AffectedByDeletionInTx st ?reg ?wisps = Some (es, ws)" by (rule AffectedByDeletion_covers)
  obtain st1 where j: "RecordDependencyRemovalsForIssuesInTx st (ds_All ds) = Inr st1" "journal_only st st1"
    by (rule removals_recorded [OF d])
  obtain st2 where w: "delete_wisps st1 ?wisps = Inr st2" "pruned ({Ephemeral} \<times> set ?wisps) st1 st2"
    using delete_wisps_result [OF ds(2), of st1] H(2) by (auto simp: journal_onlyD [OF j(2)])
  note w2 = pruned_journal(2) [OF j(2) w(2)]
  obtain k st3 where b: "delete_issue_batches st2 (delete_batches ?reg) = (k, st3)" by fastforce
  have "existing st2 ?reg = existing st ?reg" using w2 by (auto simp: existing_def pruned_def)
  then have B: "pruned (existing st ?reg) st2 st3" "k = card (existing st ?reg)"
    using delete_issue_batches_result [OF pruned_leases [OF w2 ok(2)] b] by (simp_all add: concat_delete_batches)
  obtain st4 where r: "record_deletes st3 (journalableDeletesInTx st Durable ?reg) = Inr st4" "journal_only st3 st4"
    using record_deletes_total by metis
  have P: "pruned ?D st st4"
    unfolding H(1) by (rule pruned_journal(1) [OF pruned_trans [OF w2 B(1)] r(2)])
  obtain st' where R: "RecomputeIsBlockedInTx jt st4 es ws = Some (Inr st')" "derived_only st4 st'" "graph_ok jt st'"
  proof (rule deletion_repaired [OF ok(1) P _ _ a])
    show "?D \<subseteq> nodes_of ?reg ?wisps" unfolding H(1) by (auto simp: nodes_of_def existing_def)
    show "row st4 n = None" if "n \<in> nodes_of ?reg ?wisps" for n
      using that P unfolding pruned_def by (auto simp: H(1) nodes_of_def existing_def)
  qed
  have card: "card ?D = k + length ?wisps"
    unfolding H(1) B(2) using distinct_card [OF ds(2)]
    by (subst card_Un_disjoint) (auto simp: existing_def card_cartesian_product)
  show thesis
  proof (rule that)
    show "DeleteResolvedSetInTx jt st ds False =
        Some (Inr ((deletion_counts st ds)\<lparr>di_DeletedCount := k + length ?wisps\<rparr>, st'))"
      using False by (simp add: DeleteResolvedSetInTx_def Let_def a j(1) w(1) b r(1) R(1))
  qed (use R P card in \<open>auto simp: removed_def\<close>)
qed


lemma removed_leases:
  assumes "removed D st st'" "leases_ok st"
  shows "leases_ok st'"
proof -
  obtain st1 where s: "pruned D st st1" "derived_only st1 st'" using assms(1) by (auto simp: removed_def)
  have "lease_of st' i l" if "lease_of st1 i l" for i l
    using that unflag_status [OF derived_only_row [OF s(2), of "(Durable, i)"]] by (auto simp: lease_of_def)
  then show ?thesis
    using pruned_leases [OF s(1) assms(2)] unfolding leases_ok_def derived_onlyD(2) [OF s(2)] by blast
qed

lemma removed_None: "removed D st st' \<Longrightarrow> row st' n = None \<longleftrightarrow> n \<in> D \<or> row st n = None"
  using removedD(1) [of D st st' n] by (auto split: if_splits)

lemma removed_sources:
  assumes "removed D st st'" "sources_ok st"
  shows "sources_ok st'"
  using sources_okD [OF assms(2)]
  by (auto simp: sources_ok_def list_all_iff removedD(2) [OF assms(1)] removed_None [OF assms(1)] touches_def simp del: not_None_eq)

lemma removed_single: "removed D st st' \<Longrightarrow> single st i \<Longrightarrow> single st' i"
  by (auto simp: single_def removed_None)

section \<open>One issue, many issues\<close>

text \<open>
  C10: deleting an issue that does not exist is an error and nothing else. Deleting one that exists
  always returns; its row, its edges in either direction and its lease are gone, all other rows, edges and
  leases are as before but for the flags, and every flag is right again.
\<close>

theorem DeleteIssueInTx_effect:
  assumes "graph_ok jt st" "leases_ok st"
  shows "(row st (home st i) = None \<longrightarrow> DeleteIssueInTx jt st i = Some (Inl (ErrNotFound i))) \<and>
    (row st (home st i) \<noteq> None \<longrightarrow> (\<exists>st'. DeleteIssueInTx jt st i = Some (Inr st') \<and> removed {home st i} st st' \<and>
      blocked_ok jt st' \<and> graph_ok jt st' \<and> leases_ok st'))"
proof (cases "row st (home st i) = None")
  case True
  then show ?thesis using DeleteIssueInTx_absent [OF assms(1)] by simp
next
  case False
  obtain st' where "DeleteIssueInTx jt st i = Some (Inr st')" "graph_ok jt st'" "removed {home st i} st st'"
    by (rule DeleteIssueInTx_present [OF assms(1) False])
  then show ?thesis using removed_leases assms(2) False by (auto simp: graph_ok_def)
qed

theorem DeleteIssueInTx_effect_witness:
  "\<exists>st'. DeleteIssueInTx no_json one_blocked ''bd-2'' = Some (Inr st') \<and> removed {(Durable, ''bd-2'')} one_blocked st' \<and> blocked_ok no_json st'"
  using DeleteIssueInTx_effect [OF one_blocked_facts(1, 5), of "''bd-2''"] one_blocked_facts(4, 6) by auto

lemma homes_touch:
  assumes "sources_ok st" "\<And>i. single st i" "d \<in> set (st_Deps st tab)" "dr_IssueID d \<in> S"
  shows "touches (homes st S) tab d"
proof -
  have r: "row st (tab, dr_IssueID d) \<noteq> None" by (rule sources_okD [OF assms(1, 3)])
  then have "home st (dr_IssueID d) = (tab, dr_IssueID d)"
    using assms(2) [of "dr_IssueID d"] by (cases tab) (auto simp: single_def plane_of_def WispTableRouting_def IsActiveWispInTx_def)
  then show ?thesis using r assms(4) by (force simp: touches_def homes_def)
qed

lemma resolve_cascade:
  assumes "card (all_dependents st ids) \<le> maxRecursiveResults"
  obtains ds where "ResolveDeletionSetInTx st ids True = Some (Inr ds)" "split_set st ds" "distinct (ds_WispIDs ds)"
    "set (ds_All ds) = all_dependents st ids"
proof -
  obtain r where r: "FindAllDependentsInTx st ids = Some (Inr r)" "distinct r" "set r = all_dependents st ids"
    using FindAllDependentsInTx_result(1) [OF assms] by blast
  show thesis
    by (rule that [of "\<lparr>ds_WispIDs = filter (IsActiveWispInTx st) (sort r), ds_RegularIDs = filter (\<lambda>i. \<not> IsActiveWispInTx st i) (sort r), ds_All = sort r\<rparr>"])
      (simp_all add: ResolveDeletionSetInTx_def r PartitionWispIDsInTx_def split_set_def)
qed

lemma resolve_plain:
  obtains ds where "ResolveDeletionSetInTx st ids False = Some (Inr ds)" "split_set st ds" "ds_All ds = ids"
    "ds_WispIDs ds = filter (IsActiveWispInTx st) ids" "ds_RegularIDs ds = filter (\<lambda>i. \<not> IsActiveWispInTx st i) ids"
  by (rule that [of "\<lparr>ds_WispIDs = filter (IsActiveWispInTx st) ids, ds_RegularIDs = filter (\<lambda>i. \<not> IsActiveWispInTx st i) ids, ds_All = ids\<rparr>"])
    (simp_all add: ResolveDeletionSetInTx_def PartitionWispIDsInTx_def split_set_def)

text \<open>
  C6: a cascading delete removes exactly the rows of the named IDs and of everything that depends on them,
  directly or not, in both planes, and reports their number. No edge to any of them is left, so nothing
  that stays depended on what went. It always returns; with more than 10000 IDs to delete it refuses and
  changes nothing.
\<close>

theorem DeleteIssuesInTx_cascade:
  assumes "graph_ok jt st" "leases_ok st" "sources_ok st" "\<And>i. single st i" "ids \<noteq> []"
  shows "(card (all_dependents st ids) > maxRecursiveResults \<longrightarrow> DeleteIssuesInTx jt st ids True force False = Some (Inl CascadeTooLarge)) \<and>
    (card (all_dependents st ids) \<le> maxRecursiveResults \<longrightarrow>
      (\<exists>res st'. DeleteIssuesInTx jt st ids True force False = Some (Inr (res, st')) \<and> removed (homes st (all_dependents st ids)) st st' \<and>
        di_DeletedCount res = card (homes st (all_dependents st ids)) \<and> graph_ok jt st' \<and> leases_ok st' \<and>
        (\<forall>tab. \<forall>d\<in>set (st_Deps st' tab). dep_target d \<notin> Some ` all_dependents st ids)))"
proof (cases "card (all_dependents st ids) \<le> maxRecursiveResults")
  case False
  then have "ResolveDeletionSetInTx st ids True = Some (Inl CascadeTooLarge)"
    using FindAllDependentsInTx_result(2) [of st ids] by (simp add: ResolveDeletionSetInTx_def)
  then show ?thesis using False assms(5) by (simp add: DeleteIssuesInTx_def)
next
  case True
  obtain ds where ds: "ResolveDeletionSetInTx st ids True = Some (Inr ds)" "split_set st ds" "distinct (ds_WispIDs ds)"
    "set (ds_All ds) = all_dependents st ids" by (rule resolve_cascade [OF True])
  obtain res st' where R: "DeleteResolvedSetInTx jt st ds False = Some (Inr (res, st'))" "graph_ok jt st'"
    "removed (homes st (all_dependents st ids)) st st'" "di_DeletedCount res = card (homes st (all_dependents st ids))"
    using DeleteResolvedSetInTx_result [OF assms(1, 2) ds(2, 3)] unfolding ds(4) by metis
  have "dep_target d \<notin> Some ` all_dependents st ids" if "d \<in> set (st_Deps st' tab)" for tab d
  proof
    assume "dep_target d \<in> Some ` all_dependents st ids"
    then obtain t where t: "t \<in> all_dependents st ids" "dep_target d = Some t" by auto
    have d: "d \<in> set (st_Deps st tab)" "\<not> touches (homes st (all_dependents st ids)) tab d"
      using that by (simp_all add: removedD(2) [OF R(3)])
    then have "(t, dr_IssueID d) \<in> dependent_edges st" using t(2) by (auto simp: dependent_edges_def)
    then show False using homes_touch [OF assms(3, 4) d(1) all_dependents_step [OF t(1)]] d(2) by blast
  qed
  then show ?thesis
    using True R removed_leases [OF R(3) assms(2)] assms(5) by (auto simp: DeleteIssuesInTx_def ds(1) guard_dependents_def)
qed


lemma one_blocked_dependents: "dependent_edges one_blocked = {(''bd-2'', ''bd-1'')}" "all_dependents one_blocked [''bd-2''] = {''bd-1'', ''bd-2''}"
proof -
  show e: "dependent_edges one_blocked = {(''bd-2'', ''bd-1'')}"
    by (auto simp: dependent_edges_def ex_plane one_blocked_def small_store_def)
  have "{(''bd-2'', ''bd-1'')}\<^sup>* `` {''bd-1'', ''bd-2''} = {''bd-1'', ''bd-2''}" by (rule Image_closed_trancl) auto
  then show "all_dependents one_blocked [''bd-2''] = {''bd-1'', ''bd-2''}" unfolding all_dependents_def e by auto
qed

theorem DeleteIssuesInTx_cascade_witness:
  "\<exists>res st'. DeleteIssuesInTx no_json one_blocked [''bd-2''] True False False = Some (Inr (res, st')) \<and>
     removed (homes one_blocked {''bd-1'', ''bd-2''}) one_blocked st' \<and> blocked_ok no_json st'"
proof -
  have "card (all_dependents one_blocked [''bd-2'']) \<le> maxRecursiveResults" by (simp add: one_blocked_dependents(2) maxRecursiveResults_def)
  then show ?thesis
    using DeleteIssuesInTx_cascade [OF one_blocked_facts(1, 5, 2, 3), of "[''bd-2'']" False] by (auto simp: one_blocked_dependents(2) graph_ok_def)
qed

text \<open>The dependents outside a request, of its durable IDs.\<close>

definition outside_dependents :: "store \<Rightarrow> string list \<Rightarrow> string set" where
  "outside_dependents st ids = {s. \<exists>i\<in>set ids. \<not> IsActiveWispInTx st i \<and> (i, s) \<in> dependent_edges st \<and> s \<notin> set ids}"

lemma external_set:
  "set (ExternalDependentsBySourceInTx st reg ids i) = (if i \<in> set reg then {s. (i, s) \<in> dependent_edges st \<and> s \<notin> set ids} else {})"
  by (auto simp: ExternalDependentsBySourceInTx_def set_dependents_of)

lemma guard_refuses:
  assumes "ds_RegularIDs ds = filter (\<lambda>i. \<not> IsActiveWispInTx st i) ids" "outside_dependents st ids \<noteq> {}"
  obtains i deps where "guard_dependents st ds ids False False = Inl (DependentsOutsideRequest i deps)" "i \<in> set ids" "deps \<noteq> []"
    "set deps = {s. (i, s) \<in> dependent_edges st \<and> s \<notin> set ids}"
proof -
  let ?ext = "ExternalDependentsBySourceInTx st (ds_RegularIDs ds) ids"
  obtain j s where j: "j \<in> set (ds_RegularIDs ds)" "s \<in> set (?ext j)"
    using assms by (auto simp: outside_dependents_def external_set)
  then have "?ext j \<noteq> []" by auto
  then have "List.find (\<lambda>i. ?ext i \<noteq> []) (ds_RegularIDs ds) \<noteq> None" using j(1) by (auto simp: find_None_iff)
  then obtain i where "List.find (\<lambda>i. ?ext i \<noteq> []) (ds_RegularIDs ds) = Some i" by blast
  moreover from this have "i \<in> set (ds_RegularIDs ds)" "?ext i \<noteq> []" by (auto simp: find_Some_iff)
  ultimately show thesis
    using assms(1) external_set [of st "ds_RegularIDs ds" ids i]
    by (intro that [of i "?ext i"]) (simp_all add: guard_dependents_def Let_def)
qed

lemma guard_accepts:
  assumes "ds_RegularIDs ds = filter (\<lambda>i. \<not> IsActiveWispInTx st i) ids" "force \<or> outside_dependents st ids = {}"
  obtains orphaned where "guard_dependents st ds ids False force = Inr orphaned" "set orphaned = outside_dependents st ids"
proof -
  let ?ext = "ExternalDependentsBySourceInTx st (ds_RegularIDs ds) ids"
  have u: "(\<Union>i\<in>set (ds_RegularIDs ds). set (?ext i)) = outside_dependents st ids"
    by (auto simp: external_set assms(1) outside_dependents_def)
  show thesis
  proof (cases force)
    case True
    then have "guard_dependents st ds ids False force = Inr (sort (remdups (concat (map ?ext (ds_RegularIDs ds)))))"
      by (simp add: guard_dependents_def Let_def)
    moreover have "set (sort (remdups (concat (map ?ext (ds_RegularIDs ds))))) = outside_dependents st ids"
      unfolding u [symmetric] by (simp only: set_sort set_remdups set_concat set_map image_image)
    ultimately show thesis by (rule that)
  next
    case False
    then have "\<forall>i\<in>set (ds_RegularIDs ds). ?ext i = []" using u assms(2) by auto
    then have "List.find (\<lambda>i. ?ext i \<noteq> []) (ds_RegularIDs ds) = None" by (simp add: find_None_iff)
    then show thesis using False assms(2) by (intro that [of "[]"]) (simp_all add: guard_dependents_def Let_def)
  qed
qed

text \<open>
  C11: deleting a list of distinct IDs without cascade is refused, naming an ID and its dependents, when
  something outside the list depends on one of its durable issues. Otherwise, or when forced, exactly the
  listed rows that exist are removed, with all edges from and to them, and the result names exactly the IDs
  outside the list that depend on one of its durable issues. The guard is about durable issues only, as the code says:
  what depends on a listed wisp neither refuses the deletion nor is named, though its edge is removed too.
\<close>

theorem DeleteIssuesInTx_listed:
  assumes "graph_ok jt st" "leases_ok st" "distinct ids" "ids \<noteq> []"
  shows "(\<not> force \<and> outside_dependents st ids \<noteq> {} \<longrightarrow>
      (\<exists>i deps. DeleteIssuesInTx jt st ids False force False = Some (Inl (DependentsOutsideRequest i deps)) \<and> i \<in> set ids \<and>
         deps \<noteq> [] \<and> set deps = {s. (i, s) \<in> dependent_edges st \<and> s \<notin> set ids})) \<and>
    (force \<or> outside_dependents st ids = {} \<longrightarrow>
      (\<exists>res st'. DeleteIssuesInTx jt st ids False force False = Some (Inr (res, st')) \<and> removed (homes st (set ids)) st st' \<and>
        di_DeletedCount res = card (homes st (set ids)) \<and> set (di_OrphanedIssues res) = outside_dependents st ids \<and>
        graph_ok jt st' \<and> leases_ok st'))"
proof -
  obtain ds where ds: "ResolveDeletionSetInTx st ids False = Some (Inr ds)" "split_set st ds" "ds_All ds = ids"
    "ds_WispIDs ds = filter (IsActiveWispInTx st) ids" "ds_RegularIDs ds = filter (\<lambda>i. \<not> IsActiveWispInTx st i) ids"
    by (rule resolve_plain)
  show ?thesis
  proof (cases "\<not> force \<and> outside_dependents st ids \<noteq> {}")
    case True
    then have "outside_dependents st ids \<noteq> {}" by simp
    then obtain i deps where "guard_dependents st ds ids False False = Inl (DependentsOutsideRequest i deps)" "i \<in> set ids" "deps \<noteq> []"
      "set deps = {s. (i, s) \<in> dependent_edges st \<and> s \<notin> set ids}" by (rule guard_refuses [OF ds(5)])
    then show ?thesis using True assms(4) by (auto simp: DeleteIssuesInTx_def ds(1))
  next
    case False
    then have "force \<or> outside_dependents st ids = {}" by simp
    then obtain orphaned where g: "guard_dependents st ds ids False force = Inr orphaned" "set orphaned = outside_dependents st ids"
      by (rule guard_accepts [OF ds(5)])
    have "distinct (ds_WispIDs ds)" using assms(3) by (simp add: ds(4))
    then obtain res st' where R: "DeleteResolvedSetInTx jt st ds False = Some (Inr (res, st'))" "graph_ok jt st'"
      "removed (homes st (set ids)) st st'" "di_DeletedCount res = card (homes st (set ids))"
      using DeleteResolvedSetInTx_result [OF assms(1, 2) ds(2)] unfolding ds(3) by metis
    have "DeleteIssuesInTx jt st ids False force False = Some (Inr (res\<lparr>di_OrphanedIssues := orphaned\<rparr>, st'))"
      using assms(4) by (simp add: DeleteIssuesInTx_def ds(1) g(1) R(1))
    then show ?thesis using False g(2) R removed_leases [OF R(3) assms(2)] by auto
  qed
qed

theorem DeleteIssuesInTx_listed_witness:
  "(\<exists>i deps. DeleteIssuesInTx no_json one_blocked [''bd-2''] False False False = Some (Inl (DependentsOutsideRequest i deps))) \<and>
   (\<exists>res st'. DeleteIssuesInTx no_json one_blocked [''bd-2''] False True False = Some (Inr (res, st')) \<and> set (di_OrphanedIssues res) = {''bd-1''})"
proof -
  have "IsActiveWispInTx one_blocked ''bd-2'' = False"
    using one_blocked_facts(4) [of "''bd-2''"] by (auto simp: plane_of_def WispTableRouting_def split: if_splits)
  then have "outside_dependents one_blocked [''bd-2''] = {''bd-1''}" by (auto simp: outside_dependents_def one_blocked_dependents(1))
  then show ?thesis
    using DeleteIssuesInTx_listed [OF one_blocked_facts(1, 5), of "[''bd-2'']" False]
      DeleteIssuesInTx_listed [OF one_blocked_facts(1, 5), of "[''bd-2'']" True] by auto
qed


section \<open>Any deletion that succeeds\<close>

lemma ResolveDeletionSetInTx_split: "ResolveDeletionSetInTx st ids cascade = Some (Inr ds) \<Longrightarrow> split_set st ds"
  by (auto simp: ResolveDeletionSetInTx_def split_set_def PartitionWispIDsInTx_def bindE_eq_Inr_iff split: if_splits)

text \<open>A set that names a wisp twice is refused, so that a deletion that succeeds removed what was named.\<close>

lemma DeleteResolvedSetInTx_Inr:
  assumes ok: "graph_ok jt st" "leases_ok st" and ds: "split_set st ds"
    and res: "DeleteResolvedSetInTx jt st ds dryRun = Some (Inr (res, st'))"
  shows "st' = st \<or> graph_ok jt st' \<and> removed (homes st (set (ds_All ds))) st st'"
proof (cases "ds_All ds = [] \<or> dryRun")
  case True
  then show ?thesis using res by (auto simp: DeleteResolvedSetInTx_def split: if_splits)
next
  case False
  have "distinct (ds_WispIDs ds)"
  proof (rule ccontr)
    assume dup: "\<not> distinct (ds_WispIDs ds)"
    have d: "deps_wf st" using ok(1) by (simp add: graph_ok_def)
    obtain st1 where "RecordDependencyRemovalsForIssuesInTx st (ds_All ds) = Inr st1" by (rule removals_recorded [OF d])
    moreover obtain i where "delete_wisps st1 (ds_WispIDs ds) = Inl (ErrNotFound i)" using delete_wisps_fails dup by meson
    ultimately show False using res False by (auto simp: DeleteResolvedSetInTx_def split: option.splits)
  qed
  then obtain res2 st2 where "DeleteResolvedSetInTx jt st ds False = Some (Inr (res2, st2))" "graph_ok jt st2"
    "removed (homes st (set (ds_All ds))) st st2" by (rule DeleteResolvedSetInTx_result [OF ok ds])
  then show ?thesis using res False by simp
qed

lemma DeleteIssuesInTx_Inr:
  assumes "graph_ok jt st" "leases_ok st" "DeleteIssuesInTx jt st ids cascade force dryRun = Some (Inr (res, st'))"
  shows "st' = st \<or> graph_ok jt st' \<and> (\<exists>D. removed D st st')"
proof (cases "ids = []")
  case True
  then show ?thesis using assms(3) by (simp add: DeleteIssuesInTx_def)
next
  case False
  then obtain ds res' where "ResolveDeletionSetInTx st ids cascade = Some (Inr ds)" "DeleteResolvedSetInTx jt st ds dryRun = Some (Inr (res', st'))"
    using assms(3) by (auto simp: DeleteIssuesInTx_def bindE_eq_Inr_iff split: option.splits sum.splits)
  then show ?thesis using DeleteResolvedSetInTx_Inr [OF assms(1, 2) ResolveDeletionSetInTx_split] by blast
qed


end
