(* ===== verification/Updating.thy ===== *)
theory Updating
  imports Closing
begin

text \<open>
  The generic update of an issue (\<open>update.go\<close>, with the metadata edits of \<open>storage/metadata.go\<close> and the
  scalar checks of \<open>aggregate.go\<close>): a map from field names to values of any Go type. Edits that merge
  into the stored value are resolved against the row first; values the row has already are dropped; a
  status that crosses into the done category answers to the close policy; closing columns, the start
  time, the pin and the lease follow the status; flags are recomputed when liveness changes.

  The map is a list of its entries in the order a loop over it visits them. What is not this program's
  is the record \<open>update_env\<close>: how the database converts a value of another type than the column's, the
  printed and the encoded form of a value, the schema for metadata in the configuration file. The custom
  issue types in force are taken as given.
\<close>

section \<open>Values and errors\<close>

text \<open>The Go types that reach the code; \<open>VOther\<close> is any other.\<close>

datatype uvalue =
    VNil
  | VString string
  | VStatus status
  | VIssueType issue_type
  | VWispType wisp_type
  | VMolType mol_type
  | VInt int
  | VIntPtr "int option"
  | VStringPtr "string option"
  | VTime gotime
  | VTimePtr "gotime option"
  | VBool bool
  | VStrings "string list"
  | VList "uvalue list"
  | VBytes string
  | VRaw string
  | VRawMap "(string \<times> string) list"
  | VOther nat

type_synonym updates = "(string \<times> uvalue) list"

datatype update_error =
    StoreError store_error
  | MetadataType
  | MetadataInvalid
  | NotAnObject
  | BadMetadataEdit string
  | BadEditKey string
  | BadEditValue string
  | ReplaceAndEdit
  | SchemaViolated
  | ReplaceAndAppend
  | AppendNotText
  | NotStrings string
  | ClearsClosedAt string status
  | StampsClosedAt string status
  | StatusType
  | BadIssueType
  | InvalidField string
  | UnknownColumn string
  | NullColumn string
  | Unconvertible string

record update_env =
  ue_CustomTypes :: "string list"
  ue_Schema :: "string \<Rightarrow> bool"
  ue_Convert :: "string \<Rightarrow> uvalue \<Rightarrow> uvalue option"
  ue_Print :: "uvalue \<Rightarrow> string"
  ue_Encode :: "uvalue \<Rightarrow> string"

definition storeE :: "store_error + 'a \<Rightarrow> update_error + 'a" where
  "storeE r = (case r of Inl e \<Rightarrow> Inl (StoreError e) | Inr x \<Rightarrow> Inr x)"

section \<open>Metadata\<close>

definition NormalizeMetadataValue :: "uvalue \<Rightarrow> update_error + string" where
  "NormalizeMetadataValue v =
     (let valid = (\<lambda>s. if json_valid s then Inr s else Inl MetadataInvalid) in
      case v of VString s \<Rightarrow> valid s | VBytes s \<Rightarrow> valid s | VRaw s \<Rightarrow> valid s | _ \<Rightarrow> Inl MetadataType)"

text \<open>The stored object: absent, blank and null are the empty one.\<close>

definition existing_object :: "string \<Rightarrow> update_error + (string \<times> string) list" where
  "existing_object existing =
     (let trimmed = trim_space existing in
      if length existing > 0 \<and> trimmed \<noteq> [] \<and> trimmed \<noteq> ''null''
      then (case json_members existing of None \<Rightarrow> Inl NotAnObject | Some ms \<Rightarrow> Inr ms) else Inr [])"

definition MergeMetadataJSON :: "string \<Rightarrow> string \<Rightarrow> update_error + string" where
  "MergeMetadataJSON existing incoming =
     bindE (existing_object existing) (\<lambda>base.
       case json_members incoming of
         None \<Rightarrow> Inl NotAnObject
       | Some overlay \<Rightarrow> Inr (marshal_raw_map (Some (base @ overlay))))"

definition MetadataEditValue :: "string \<Rightarrow> string" where
  "MetadataEditValue s = encode_string s"

definition cut_equals :: "string \<Rightarrow> (string \<times> string) option" where
  "cut_equals kv =
     (let k = takeWhile (\<lambda>c. c \<noteq> CHR ''='') kv in
      if length k < length kv then Some (k, drop (Suc (length k)) kv) else None)"

fun set_edits :: "(string \<times> string) list \<Rightarrow> string list \<Rightarrow> update_error + (string \<times> string) list" where
  "set_edits data [] = Inr data"
| "set_edits data (kv # kvs) =
     (case cut_equals kv of
        None \<Rightarrow> Inl (BadMetadataEdit kv)
      | Some (k, v) \<Rightarrow>
          check (k = []) (BadMetadataEdit kv)
            (check (\<not> ValidateMetadataKey k) (BadEditKey k) (set_edits (data @ [(k, MetadataEditValue v)]) kvs)))"

fun unset_edits :: "(string \<times> string) list \<Rightarrow> string list \<Rightarrow> update_error + (string \<times> string) list" where
  "unset_edits data [] = Inr data"
| "unset_edits data (k # ks) =
     check (\<not> ValidateMetadataKey k) (BadEditKey k) (unset_edits (filter (\<lambda>e. fst e \<noteq> k) data) ks)"

definition ApplyMetadataEdits :: "string \<Rightarrow> string list \<Rightarrow> string list \<Rightarrow> update_error + string" where
  "ApplyMetadataEdits existing setFlags unsetFlags =
     bindE (existing_object existing) (\<lambda>data0. bindE (set_edits data0 setFlags) (\<lambda>data1.
       bindE (unset_edits data1 unsetFlags) (\<lambda>data. Inr (marshal_raw_map (Some data)))))"

fun set_typed :: "(string \<times> string) list \<Rightarrow> (string \<times> string) list \<Rightarrow> update_error + (string \<times> string) list" where
  "set_typed data [] = Inr data"
| "set_typed data ((k, v) # kvs) =
     check (\<not> ValidateMetadataKey k) (BadEditKey k)
       (check (\<not> json_valid v) (BadEditValue k) (set_typed (data @ [(k, v)]) kvs))"

definition applyTypedMetadataEdits :: "string \<Rightarrow> (string \<times> string) list \<Rightarrow> string list \<Rightarrow> update_error + string" where
  "applyTypedMetadataEdits existing sets unset =
     bindE (existing_object existing) (\<lambda>data0. bindE (set_typed data0 (sort_key fst sets)) (\<lambda>data1.
       bindE (unset_edits data1 unset) (\<lambda>data. Inr (marshal_raw_map (Some data)))))"

section \<open>Operations that merge\<close>

abbreviation OpMergeMetadata :: string where "OpMergeMetadata \<equiv> ''_merge_metadata''"
abbreviation OpSetMetadata :: string where "OpSetMetadata \<equiv> ''_set_metadata''"
abbreviation OpUnsetMetadata :: string where "OpUnsetMetadata \<equiv> ''_unset_metadata''"
abbreviation OpAppendNotes :: string where "OpAppendNotes \<equiv> ''append_notes''"
abbreviation OpForceClosePolicy :: string where "OpForceClosePolicy \<equiv> ''_force_close_policy''"

definition PopForceClosePolicy :: "updates \<Rightarrow> bool \<times> updates" where
  "PopForceClosePolicy u =
     (case map_of u OpForceClosePolicy of
        Some (VBool force) \<Rightarrow> (force, filter (\<lambda>e. fst e \<noteq> OpForceClosePolicy) u)
      | _ \<Rightarrow> (False, u))"

definition isMergeOpKey :: "string \<Rightarrow> bool" where
  "isMergeOpKey k \<longleftrightarrow> k \<in> set [OpMergeMetadata, OpSetMetadata, OpUnsetMetadata, OpAppendNotes]"

definition HasMergeOps :: "updates \<Rightarrow> bool" where
  "HasMergeOps u \<longleftrightarrow>
     list_ex (\<lambda>op. map_of u op \<noteq> None) [OpMergeMetadata, OpSetMetadata, OpUnsetMetadata, OpAppendNotes]"

fun strings_of :: "uvalue list \<Rightarrow> string list option" where
  "strings_of [] = Some []"
| "strings_of (VString s # vs) = map_option (\<lambda>ss. s # ss) (strings_of vs)"
| "strings_of (_ # vs) = None"

definition mergeOpStrings :: "string \<Rightarrow> uvalue option \<Rightarrow> update_error + string list" where
  "mergeOpStrings op value0 =
     (case value0 of
        None \<Rightarrow> Inr []
      | Some (VStrings ss) \<Rightarrow> Inr ss
      | Some (VList vs) \<Rightarrow> (case strings_of vs of Some ss \<Rightarrow> Inr ss | None \<Rightarrow> Inl (NotStrings op))
      | Some _ \<Rightarrow> Inl (NotStrings op))"

definition edit_metadata :: "string \<Rightarrow> updates \<Rightarrow> update_error + string" where
  "edit_metadata current u =
     bindE (mergeOpStrings OpUnsetMetadata (map_of u OpUnsetMetadata)) (\<lambda>unset.
       case map_of u OpSetMetadata of
         Some (VRawMap sets) \<Rightarrow> applyTypedMetadataEdits current sets unset
       | sv \<Rightarrow> bindE (mergeOpStrings OpSetMetadata sv) (\<lambda>sets. ApplyMetadataEdits current sets unset))"

definition resolveMetadataMergeOps :: "update_env \<Rightarrow> Issue \<Rightarrow> updates \<Rightarrow> updates \<Rightarrow> update_error + updates" where
  "resolveMetadataMergeOps ue old u resolved =
     (let merge = map_of u OpMergeMetadata; edits = map_of u OpSetMetadata \<noteq> None \<or> map_of u OpUnsetMetadata \<noteq> None in
      if merge = None \<and> \<not> edits then Inr resolved
      else check (map_of resolved ''metadata'' \<noteq> None) ReplaceAndEdit
        (bindE (case merge of None \<Rightarrow> Inr (i_Metadata old)
                | Some v \<Rightarrow> bindE (NormalizeMetadataValue v) (MergeMetadataJSON (i_Metadata old))) (\<lambda>current.
          bindE (if edits then edit_metadata current u else Inr current) (\<lambda>merged.
            check (\<not> ue_Schema ue merged) SchemaViolated (Inr (resolved @ [(''metadata'', VRaw merged)]))))))"

definition resolveNotesAppendOp :: "Issue \<Rightarrow> updates \<Rightarrow> updates \<Rightarrow> update_error + updates" where
  "resolveNotesAppendOp old u resolved =
     (case map_of u OpAppendNotes of
        None \<Rightarrow> Inr resolved
      | Some raw \<Rightarrow>
          check (map_of resolved ''notes'' \<noteq> None) ReplaceAndAppend
            (case raw of
               VString added \<Rightarrow>
                 let combined = (if i_Notes old \<noteq> [] then i_Notes old @ [CHR 0x0A] else []) @ added
                 in Inr (resolved @ [(''notes'', VString combined)])
             | _ \<Rightarrow> Inl AppendNotText))"

definition ResolveMergeOps :: "update_env \<Rightarrow> Issue \<Rightarrow> updates \<Rightarrow> update_error + updates" where
  "ResolveMergeOps ue old u =
     (if \<not> HasMergeOps u then Inr u
      else bindE (resolveMetadataMergeOps ue old u (filter (\<lambda>e. \<not> isMergeOpKey (fst e)) u)) (resolveNotesAppendOp old u))"

section \<open>Columns\<close>

text \<open>
  A column with its reading and its writing: texts (with the Go type the field has in the struct, and
  whether NULL is allowed), numbers, times, truth values, the list of waiters and the metadata.
\<close>

datatype text_kind = PlainText | StatusText | IssueTypeText | WispTypeText | MolTypeText

datatype column =
    TextColumn text_kind bool "Issue \<Rightarrow> string" "(string \<Rightarrow> string) \<Rightarrow> Issue \<Rightarrow> Issue"
  | IntColumn "Issue \<Rightarrow> int" "(int \<Rightarrow> int) \<Rightarrow> Issue \<Rightarrow> Issue"
  | IntPtrColumn "Issue \<Rightarrow> int option" "(int option \<Rightarrow> int option) \<Rightarrow> Issue \<Rightarrow> Issue"
  | TextPtrColumn "Issue \<Rightarrow> string option" "(string option \<Rightarrow> string option) \<Rightarrow> Issue \<Rightarrow> Issue"
  | TimeColumn "Issue \<Rightarrow> gotime option" "(gotime option \<Rightarrow> gotime option) \<Rightarrow> Issue \<Rightarrow> Issue"
  | BoolColumn "Issue \<Rightarrow> bool" "(bool \<Rightarrow> bool) \<Rightarrow> Issue \<Rightarrow> Issue"
  | WaitersColumn
  | MetadataColumn

definition columns :: "(string \<times> column) list" where
  "columns =
     [(''title'', TextColumn PlainText False i_Title i_Title_update),
      (''description'', TextColumn PlainText False i_Description i_Description_update),
      (''design'', TextColumn PlainText False i_Design i_Design_update),
      (''acceptance_criteria'', TextColumn PlainText False i_AcceptanceCriteria i_AcceptanceCriteria_update),
      (''notes'', TextColumn PlainText False i_Notes i_Notes_update),
      (''spec_id'', TextColumn PlainText True i_SpecID i_SpecID_update),
      (''await_id'', TextColumn PlainText True i_AwaitID i_AwaitID_update),
      (''status'', TextColumn StatusText False i_Status i_Status_update),
      (''priority'', IntColumn i_Priority i_Priority_update),
      (''issue_type'', TextColumn IssueTypeText False i_IssueType i_IssueType_update),
      (''assignee'', TextColumn PlainText True i_Assignee i_Assignee_update),
      (''owner'', TextColumn PlainText True i_Owner i_Owner_update),
      (''estimated_minutes'', IntPtrColumn i_EstimatedMinutes i_EstimatedMinutes_update),
      (''external_ref'', TextPtrColumn i_ExternalRef i_ExternalRef_update),
      (''started_at'', TimeColumn i_StartedAt i_StartedAt_update),
      (''closed_at'', TimeColumn i_ClosedAt i_ClosedAt_update),
      (''due_at'', TimeColumn i_DueAt i_DueAt_update),
      (''defer_until'', TimeColumn i_DeferUntil i_DeferUntil_update),
      (''close_reason'', TextColumn PlainText True i_CloseReason i_CloseReason_update),
      (''closed_by_session'', TextColumn PlainText True i_ClosedBySession i_ClosedBySession_update),
      (''source_repo'', TextColumn PlainText True i_SourceRepo i_SourceRepo_update),
      (''sender'', TextColumn PlainText True i_Sender i_Sender_update),
      (''wisp'', BoolColumn i_Ephemeral i_Ephemeral_update),
      (''wisp_type'', TextColumn WispTypeText True i_WispType i_WispType_update),
      (''no_history'', BoolColumn i_NoHistory i_NoHistory_update),
      (''pinned'', BoolColumn i_Pinned i_Pinned_update),
      (''mol_type'', TextColumn MolTypeText True i_MolType i_MolType_update),
      (''event_kind'', TextColumn PlainText True i_EventKind i_EventKind_update),
      (''actor'', TextColumn PlainText True i_Actor i_Actor_update),
      (''target'', TextColumn PlainText True i_Target i_Target_update),
      (''payload'', TextColumn PlainText True i_Payload i_Payload_update),
      (''waiters'', WaitersColumn), (''metadata'', MetadataColumn)]"

definition matchesString :: "string \<Rightarrow> uvalue \<Rightarrow> bool" where
  "matchesString current v \<longleftrightarrow> (case v of VNil \<Rightarrow> current = [] | VString s \<Rightarrow> current = s | _ \<Rightarrow> False)"

definition matchesInt :: "int \<Rightarrow> uvalue \<Rightarrow> bool" where
  "matchesInt current v \<longleftrightarrow> (case v of VInt n \<Rightarrow> current = n | _ \<Rightarrow> False)"

definition matchesBool :: "bool \<Rightarrow> uvalue \<Rightarrow> bool" where
  "matchesBool current v \<longleftrightarrow> (case v of VBool b \<Rightarrow> current = b | _ \<Rightarrow> False)"

definition matchesStatus :: "status \<Rightarrow> uvalue \<Rightarrow> bool" where
  "matchesStatus current v \<longleftrightarrow> (case v of VString s \<Rightarrow> current = s | VStatus s \<Rightarrow> current = s | _ \<Rightarrow> False)"

definition matchesIssueType :: "issue_type \<Rightarrow> uvalue \<Rightarrow> bool" where
  "matchesIssueType current v \<longleftrightarrow> (case v of VString s \<Rightarrow> current = s | VIssueType s \<Rightarrow> current = s | _ \<Rightarrow> False)"

definition matchesWispType :: "wisp_type \<Rightarrow> uvalue \<Rightarrow> bool" where
  "matchesWispType current v \<longleftrightarrow> (case v of VString s \<Rightarrow> current = s | VWispType s \<Rightarrow> current = s | _ \<Rightarrow> False)"

definition matchesMolType :: "mol_type \<Rightarrow> uvalue \<Rightarrow> bool" where
  "matchesMolType current v \<longleftrightarrow> (case v of VString s \<Rightarrow> current = s | VMolType s \<Rightarrow> current = s | _ \<Rightarrow> False)"

definition matchesIntPointer :: "int option \<Rightarrow> uvalue \<Rightarrow> bool" where
  "matchesIntPointer current v \<longleftrightarrow>
     (case v of VNil \<Rightarrow> current = None | VIntPtr p \<Rightarrow> current = p | VInt n \<Rightarrow> current = Some n | _ \<Rightarrow> False)"

definition matchesStringPointer :: "string option \<Rightarrow> uvalue \<Rightarrow> bool" where
  "matchesStringPointer current v \<longleftrightarrow>
     (case v of VNil \<Rightarrow> current = None | VStringPtr p \<Rightarrow> current = p | VString s \<Rightarrow> current = Some s | _ \<Rightarrow> False)"

definition matchesTimePointer :: "gotime option \<Rightarrow> uvalue \<Rightarrow> bool" where
  "matchesTimePointer current v \<longleftrightarrow>
     (case v of
        VNil \<Rightarrow> current = None
      | VTimePtr p \<Rightarrow> rel_option Equal current p
      | VTime t \<Rightarrow> (case current of None \<Rightarrow> False | Some c \<Rightarrow> Equal c t)
      | _ \<Rightarrow> False)"

definition normalizedMetadata :: "string \<Rightarrow> update_error + string" where
  "normalizedMetadata md = (if md = [] then Inr ''{}'' else NormalizeMetadataValue (VRaw md))"

text \<open>The field of the row a key is compared with; event fields have a second name here.\<close>

definition compared_column :: "string \<Rightarrow> column option" where
  "compared_column key =
     map_of columns
       (if key = ''event_category'' then ''event_kind'' else if key = ''event_actor'' then ''actor''
        else if key = ''event_target'' then ''target'' else if key = ''event_payload'' then ''payload'' else key)"

definition issueFieldMatches :: "Issue \<Rightarrow> string \<Rightarrow> uvalue \<Rightarrow> update_error + bool" where
  "issueFieldMatches r key v =
     (case compared_column key of
        None \<Rightarrow> Inr False
      | Some (TextColumn PlainText _ get _) \<Rightarrow> Inr (matchesString (get r) v)
      | Some (TextColumn StatusText _ get _) \<Rightarrow> Inr (matchesStatus (get r) v)
      | Some (TextColumn IssueTypeText _ get _) \<Rightarrow> Inr (matchesIssueType (get r) v)
      | Some (TextColumn WispTypeText _ get _) \<Rightarrow> Inr (matchesWispType (get r) v)
      | Some (TextColumn MolTypeText _ get _) \<Rightarrow> Inr (matchesMolType (get r) v)
      | Some (IntColumn get _) \<Rightarrow> Inr (matchesInt (get r) v)
      | Some (IntPtrColumn get _) \<Rightarrow> Inr (matchesIntPointer (get r) v)
      | Some (TextPtrColumn get _) \<Rightarrow> Inr (matchesStringPointer (get r) v)
      | Some (TimeColumn get _) \<Rightarrow> Inr (matchesTimePointer (get r) v)
      | Some (BoolColumn get _) \<Rightarrow> Inr (matchesBool (get r) v)
      | Some WaitersColumn \<Rightarrow> Inr (v = VStrings (i_Waiters r))
      | Some MetadataColumn \<Rightarrow>
          bindE (normalizedMetadata (i_Metadata r)) (\<lambda>current.
            bindE (NormalizeMetadataValue v) (\<lambda>candidate. Inr (current = candidate))))"

fun DiscardNoopIssueUpdates :: "Issue \<Rightarrow> updates \<Rightarrow> update_error + updates" where
  "DiscardNoopIssueUpdates r [] = Inr []"
| "DiscardNoopIssueUpdates r ((key, v) # u) =
     bindE (issueFieldMatches r key v) (\<lambda>same.
       bindE (DiscardNoopIssueUpdates r u) (\<lambda>rest. Inr (if same then rest else (key, v) # rest)))"

text \<open>
  Writing. A named string type or a pointer reaches the database as the string or the value behind it.
  NULL is read as the empty text or as false, where the column allows it. Waiters are stored as the JSON
  of the value, null for nil.
\<close>

definition text_value :: "uvalue \<Rightarrow> string option" where
  "text_value v =
     (case v of VString s \<Rightarrow> Some s | VStatus s \<Rightarrow> Some s | VIssueType s \<Rightarrow> Some s | VWispType s \<Rightarrow> Some s | VMolType s \<Rightarrow> Some s
      | VStringPtr p \<Rightarrow> p | VBytes s \<Rightarrow> Some s | VRaw s \<Rightarrow> Some s | _ \<Rightarrow> None)"

definition is_null :: "uvalue \<Rightarrow> bool" where
  "is_null v \<longleftrightarrow> v = VNil \<or> v = VStringPtr None \<or> v = VIntPtr None \<or> v = VTimePtr None"

definition typed_write :: "column \<Rightarrow> uvalue \<Rightarrow> (Issue \<Rightarrow> Issue) option" where
  "typed_write c v =
     (case c of
        TextColumn _ nullable _ upd \<Rightarrow> (case text_value v of Some s \<Rightarrow> Some (upd (\<lambda>_. s)) | None \<Rightarrow> if nullable \<and> is_null v then Some (upd (\<lambda>_. [])) else None)
      | IntColumn _ upd \<Rightarrow> (case v of VInt n \<Rightarrow> Some (upd (\<lambda>_. n)) | VIntPtr (Some n) \<Rightarrow> Some (upd (\<lambda>_. n)) | _ \<Rightarrow> None)
      | IntPtrColumn _ upd \<Rightarrow> (case v of VInt n \<Rightarrow> Some (upd (\<lambda>_. Some n)) | VIntPtr p \<Rightarrow> Some (upd (\<lambda>_. p)) | _ \<Rightarrow> if is_null v then Some (upd (\<lambda>_. None)) else None)
      | TextPtrColumn _ upd \<Rightarrow> (case text_value v of Some s \<Rightarrow> Some (upd (\<lambda>_. Some s)) | None \<Rightarrow> if is_null v then Some (upd (\<lambda>_. None)) else None)
      | TimeColumn _ upd \<Rightarrow> (case v of VTime t \<Rightarrow> Some (upd (\<lambda>_. Some t)) | VTimePtr p \<Rightarrow> Some (upd (\<lambda>_. p)) | _ \<Rightarrow> if is_null v then Some (upd (\<lambda>_. None)) else None)
      | BoolColumn _ upd \<Rightarrow> (case v of VBool b \<Rightarrow> Some (upd (\<lambda>_. b)) | _ \<Rightarrow> if is_null v then Some (upd (\<lambda>_. False)) else None)
      | WaitersColumn \<Rightarrow>
          (case v of VStrings ws \<Rightarrow> Some (i_Waiters_update (\<lambda>_. ws))
           | VList vs \<Rightarrow> map_option (\<lambda>ws. i_Waiters_update (\<lambda>_. ws)) (strings_of vs)
           | _ \<Rightarrow> if is_null v then Some (i_Waiters_update (\<lambda>_. [])) else None)
      | MetadataColumn \<Rightarrow> map_option (\<lambda>s. i_Metadata_update (\<lambda>_. s)) (text_value v))"

definition write_column :: "update_env \<Rightarrow> string \<Rightarrow> uvalue \<Rightarrow> Issue \<Rightarrow> update_error + Issue" where
  "write_column ue key v r =
     (case map_of columns key of
        None \<Rightarrow> Inl (UnknownColumn key)
      | Some c \<Rightarrow>
          (case typed_write c v of
             Some f \<Rightarrow> Inr (f r)
           | None \<Rightarrow>
               if is_null v then Inl (NullColumn key)
               else (case Option.bind (ue_Convert ue key v) (typed_write c) of Some f \<Rightarrow> Inr (f r) | None \<Rightarrow> Inl (Unconvertible key))))"

fun write_columns :: "update_env \<Rightarrow> updates \<Rightarrow> Issue \<Rightarrow> update_error + Issue" where
  "write_columns ue [] r = Inr r"
| "write_columns ue ((key, v) # u) r = bindE (write_column ue key v r) (write_columns ue u)"


section \<open>What follows a status\<close>

definition allowed_fields :: "string list" where
  "allowed_fields =
     [''status'', ''priority'', ''title'', ''assignee'', ''owner'', ''description'', ''design'', ''acceptance_criteria'', ''notes'',
      ''issue_type'', ''estimated_minutes'', ''external_ref'', ''spec_id'', ''started_at'', ''closed_at'', ''close_reason'',
      ''closed_by_session'', ''source_repo'', ''sender'', ''wisp'', ''wisp_type'', ''no_history'', ''pinned'', ''mol_type'',
      ''event_category'', ''event_actor'', ''event_target'', ''event_payload'', ''due_at'', ''defer_until'', ''await_id'', ''waiters'',
      ''metadata'']"

definition IsAllowedUpdateField :: "string \<Rightarrow> bool" where
  "IsAllowedUpdateField key \<longleftrightarrow> key \<in> set allowed_fields"

text \<open>A value that can be read as a status.\<close>

definition status_value :: "uvalue \<Rightarrow> status option" where
  "status_value v = (case v of VString s \<Rightarrow> Some s | VStatus s \<Rightarrow> Some s | _ \<Rightarrow> None)"

definition unnamed :: "updates \<Rightarrow> updates \<Rightarrow> updates" where
  "unnamed u defaults = filter (\<lambda>e. map_of u (fst e) = None) defaults"

definition ManageClosedAt :: "gotime \<Rightarrow> Issue \<Rightarrow> updates \<Rightarrow> updates" where
  "ManageClosedAt now old u =
     (case Option.bind (map_of u ''status'') status_value of
        None \<Rightarrow> []
      | Some s \<Rightarrow>
          unnamed u
            (if s = StatusClosed
             then [(''closed_at'', VTime now), (''close_reason'', VString []), (''closed_by_session'', VString [])]
             else if i_Status old = StatusClosed
             then [(''closed_at'', VNil), (''close_reason'', VString []), (''closed_by_session'', VString [])]
             else []))"

definition ManageStartedAt :: "gotime \<Rightarrow> Issue \<Rightarrow> updates \<Rightarrow> updates" where
  "ManageStartedAt now old u =
     (case Option.bind (map_of u ''status'') status_value of
        None \<Rightarrow> []
      | Some s \<Rightarrow> if s = StatusInProgress \<and> i_StartedAt old = None then unnamed u [(''started_at'', VTime now)] else [])"

definition unpin :: "Issue \<Rightarrow> updates \<Rightarrow> updates" where
  "unpin old u =
     (case map_of u ''status'' of
        None \<Rightarrow> []
      | Some v \<Rightarrow> if i_Pinned old \<and> status_value v \<noteq> Some StatusPinned then unnamed u [(''pinned'', VBool False)] else [])"

definition clearsClosedAt :: "uvalue \<Rightarrow> bool" where
  "clearsClosedAt v \<longleftrightarrow> v = VNil \<or> v = VTimePtr None"

definition ValidateClosedAtCoherence :: "Issue \<Rightarrow> updates \<Rightarrow> update_error option" where
  "ValidateClosedAtCoherence old u =
     (case map_of u ''closed_at'' of
        None \<Rightarrow> None
      | Some rawClosedAt \<Rightarrow>
          (case (case map_of u ''status'' of None \<Rightarrow> Some (i_Status old) | Some v \<Rightarrow> status_value v) of
             None \<Rightarrow> None
           | Some landed \<Rightarrow>
               if landed = StatusClosed \<and> clearsClosedAt rawClosedAt then Some (ClearsClosedAt (i_ID old) landed)
               else if landed \<noteq> StatusClosed \<and> \<not> clearsClosedAt rawClosedAt then Some (StampsClosedAt (i_ID old) landed)
               else None))"

definition ManageLeaseOnUpdate :: "update_env \<Rightarrow> Issue \<Rightarrow> updates \<Rightarrow> bool" where
  "ManageLeaseOnUpdate ue old u =
     (let rawStatus = map_of u ''status''; rawAssignee = map_of u ''assignee'' in
      if rawStatus = None \<and> rawAssignee = None then False
      else case (case rawStatus of None \<Rightarrow> Some (i_Status old) | Some v \<Rightarrow> status_value v) of
        None \<Rightarrow> False
      | Some newStatus \<Rightarrow>
          let newAssignee = (case rawAssignee of
                None \<Rightarrow> i_Assignee old | Some VNil \<Rightarrow> [] | Some (VString s) \<Rightarrow> s | Some v \<Rightarrow> ue_Print ue v);
              sameClaim = (newStatus = StatusInProgress \<and> newAssignee \<noteq> [] \<and> i_Status old = StatusInProgress \<and> newAssignee = i_Assignee old)
          in \<not> sameClaim)"

abbreviation EventUpdated :: string where "EventUpdated \<equiv> ''updated''"

definition DetermineEventType :: "Issue \<Rightarrow> updates \<Rightarrow> string" where
  "DetermineEventType old u =
     (case Option.bind (map_of u ''status'') status_value of
        None \<Rightarrow> EventUpdated
      | Some s \<Rightarrow> if s = StatusClosed then EventClosed else if i_Status old = StatusClosed then EventReopened else EventStatusChanged)"

definition CrossesIntoDoneCategoryInTx :: "env \<Rightarrow> store \<Rightarrow> status \<Rightarrow> updates \<Rightarrow> update_error + bool" where
  "CrossesIntoDoneCategoryInTx en st oldStatus u =
     (case map_of u ''status'' of
        None \<Rightarrow> Inr False
      | Some v \<Rightarrow>
          (case status_value v of
             None \<Rightarrow> Inl StatusType
           | Some s \<Rightarrow> Inr (ReopenCategoryInTx en st s = CategoryDone \<and> ReopenCategoryInTx en st oldStatus \<noteq> CategoryDone)))"

definition ValidateScalarUpdates :: "update_env \<Rightarrow> updates \<Rightarrow> update_error option" where
  "ValidateScalarUpdates ue u =
     (let len = (\<lambda>field. case map_of u field of
            Some (VString s) \<Rightarrow> map_option (\<lambda>e. StoreError (FieldError e)) (CheckFieldLen field s)
          | _ \<Rightarrow> None);
          kind = (case map_of u ''issue_type'' of
            None \<Rightarrow> None
          | Some v \<Rightarrow>
              (case (case v of VIssueType t \<Rightarrow> Some t | VString t \<Rightarrow> Some t | _ \<Rightarrow> None) of
                 None \<Rightarrow> Some BadIssueType
               | Some t \<Rightarrow> if IssueType_IsValidWithCustom t (ue_CustomTypes ue) then None else Some BadIssueType))
      in case kind of Some e \<Rightarrow> Some e | None \<Rightarrow> (case len ''assignee'' of Some e \<Rightarrow> Some e | None \<Rightarrow> len ''owner''))"

section \<open>The update\<close>

record UpdateResult =
  ur_OldIssue :: Issue
  ur_IsWisp :: bool
  ur_Changed :: bool
  ur_IssueRowsChanged :: bool
  ur_WispRowsChanged :: bool

text \<open>The clauses that set columns: the fields asked for must be allowed, metadata must be JSON.\<close>

fun check_fields :: "updates \<Rightarrow> update_error option" where
  "check_fields [] = None"
| "check_fields ((key, v) # u) =
     (if \<not> IsAllowedUpdateField key then Some (InvalidField key)
      else if key = ''metadata'' then (case NormalizeMetadataValue v of Inl e \<Rightarrow> Some e | Inr _ \<Rightarrow> check_fields u)
      else check_fields u)"

definition set_clauses :: "gotime \<Rightarrow> Issue \<Rightarrow> updates \<Rightarrow> updates" where
  "set_clauses now old u = u @ unpin old u @ ManageClosedAt now old u @ ManageStartedAt now old u"

definition readIssueAndResolveMergeOps :: "update_env \<Rightarrow> store \<Rightarrow> string \<Rightarrow> updates \<Rightarrow> update_error + Issue \<times> updates" where
  "readIssueAndResolveMergeOps ue st i u =
     bindE (storeE (GetIssueInTx st i)) (\<lambda>old. bindE (ResolveMergeOps ue old u) (\<lambda>resolved. Inr (old, resolved)))"

text \<open>Everything before the first write: the row read, and the updates that remain.\<close>

definition resolve_update :: "update_env \<Rightarrow> store \<Rightarrow> string \<Rightarrow> updates \<Rightarrow> update_error + Issue \<times> updates" where
  "resolve_update ue st i u =
     bindE (readIssueAndResolveMergeOps ue st i u) (\<lambda>(old, resolved).
       case ValidateClosedAtCoherence old resolved of
         Some e \<Rightarrow> Inl e
       | None \<Rightarrow> bindE (DiscardNoopIssueUpdates old resolved) (\<lambda>u'. Inr (old, u')))"

definition admit_update :: "env \<Rightarrow> update_env \<Rightarrow> store \<Rightarrow> string \<Rightarrow> bool \<Rightarrow> Issue \<Rightarrow> updates \<Rightarrow> update_error option" where
  "admit_update en ue st i force old u =
     (case CrossesIntoDoneCategoryInTx en st (i_Status old) u of
        Inl e \<Rightarrow> Some e
      | Inr crosses \<Rightarrow>
          (case (if crosses then EnforceClosePolicyInTx st i force else Inr 0) of
             Inl e \<Rightarrow> Some (StoreError e)
           | Inr _ \<Rightarrow> (case ValidateScalarUpdates ue u of Some e \<Rightarrow> Some e | None \<Rightarrow> check_fields u)))"

definition update_row :: "env \<Rightarrow> update_env \<Rightarrow> string \<Rightarrow> Issue \<Rightarrow> updates \<Rightarrow> Issue \<Rightarrow> update_error + Issue" where
  "update_row en ue i old u r =
     bindE (write_columns ue (set_clauses (en_Now en) old u) (r\<lparr>i_UpdatedAt := en_Now en\<rparr>)) (\<lambda>r'. Inr (r'\<lparr>i_RowVersion := en_Lock en i\<rparr>))"

definition liveness_changes :: "Issue \<Rightarrow> updates \<Rightarrow> bool" where
  "liveness_changes old u \<longleftrightarrow>
     (case map_of u ''status'' of
        None \<Rightarrow> False
      | Some v \<Rightarrow> live (i_Status old) \<noteq> live (case status_value v of Some s \<Rightarrow> s | None \<Rightarrow> []))"

text \<open>After the row is written: lease, event, flags, journal.\<close>

definition finish_update ::
    "update_env \<Rightarrow> json_text \<Rightarrow> store \<Rightarrow> string \<Rightarrow> Issue \<Rightarrow> updates \<Rightarrow> string \<Rightarrow> bool \<Rightarrow> bool \<Rightarrow> (update_error + UpdateResult \<times> store) option" where
  "finish_update ue jt st i old u actor recordEvent isWisp =
     (let pl = WispTableRouting isWisp;
          st1 = (if ManageLeaseOnUpdate ue old u then DeleteLeaseInTx st i else st);
          st2 = (if recordEvent
            then RecordFullEventInTable st1 pl i (DetermineEventType old u) actor (EventIssue old)
              (EventFields (map (\<lambda>(k, v). (k, ue_Encode ue v)) u))
            else st1);
          result = \<lparr>ur_OldIssue = old, ur_IsWisp = isWisp, ur_Changed = True, ur_IssueRowsChanged = \<not> isWisp, ur_WispRowsChanged = isWisp\<rparr>;
          journal = (\<lambda>(res, st3). storeE (bindE (RecordEventInTx st3 EventUpdate i) (\<lambda>st4. Inr (res, st4))))
      in if liveness_changes old u
         then (case AffectedByStatusChangeInTx st2 (pl, i) of
                 None \<Rightarrow> None
               | Some (issueIDs, wispIDs) \<Rightarrow>
                   map_option (\<lambda>r. bindE (storeE r) (\<lambda>(recompute, st3).
                       journal (result\<lparr>ur_IssueRowsChanged := \<not> isWisp \<or> rb_IssueRowsChanged recompute,
                         ur_WispRowsChanged := isWisp \<or> rb_WispRowsChanged recompute\<rparr>, st3)))
                     (RecomputeIsBlockedInTxWithResult jt st2 issueIDs wispIDs))
         else Some (journal (result, st2)))"

definition updateIssueInTx ::
    "env \<Rightarrow> update_env \<Rightarrow> json_text \<Rightarrow> store \<Rightarrow> string \<Rightarrow> updates \<Rightarrow> string \<Rightarrow> bool \<Rightarrow> (update_error + UpdateResult \<times> store) option" where
  "updateIssueInTx en ue jt st i updates actor recordEvent =
     (let (force, named) = PopForceClosePolicy updates; isWisp = IsActiveWispInTx st i; n = (WispTableRouting isWisp, i) in
      case resolve_update ue st i named of
        Inl e \<Rightarrow> Some (Inl e)
      | Inr (old, u) \<Rightarrow>
          if u = []
          then Some (Inr (\<lparr>ur_OldIssue = old, ur_IsWisp = isWisp, ur_Changed = False, ur_IssueRowsChanged = False, ur_WispRowsChanged = False\<rparr>, st))
          else (case admit_update en ue st i force old u of
              Some e \<Rightarrow> Some (Inl e)
            | None \<Rightarrow>
                (case (case row st n of
                    None \<Rightarrow> Inr st
                  | Some r \<Rightarrow> bindE (update_row en ue i old u r) (\<lambda>r'. Inr (set_row n (Some r') st))) of
                   Inl e \<Rightarrow> Some (Inl e)
                 | Inr st1 \<Rightarrow> finish_update ue jt st1 i old u actor recordEvent isWisp)))"

definition UpdateIssueInTx where
  "UpdateIssueInTx en ue jt st i updates actor = updateIssueInTx en ue jt st i updates actor True"

definition UpdateIssueWithoutEventInTx where
  "UpdateIssueWithoutEventInTx en ue jt st i updates actor = updateIssueInTx en ue jt st i updates actor False"


section \<open>What the columns do\<close>

text \<open>A write is one update of one field.\<close>

definition updates_column :: "column \<Rightarrow> (Issue \<Rightarrow> Issue) \<Rightarrow> bool" where
  "updates_column c f \<longleftrightarrow>
     (case c of
        TextColumn _ _ _ upd \<Rightarrow> \<exists>x. f = upd (\<lambda>_. x)
      | IntColumn _ upd \<Rightarrow> \<exists>x. f = upd (\<lambda>_. x)
      | IntPtrColumn _ upd \<Rightarrow> \<exists>x. f = upd (\<lambda>_. x)
      | TextPtrColumn _ upd \<Rightarrow> \<exists>x. f = upd (\<lambda>_. x)
      | TimeColumn _ upd \<Rightarrow> \<exists>x. f = upd (\<lambda>_. x)
      | BoolColumn _ upd \<Rightarrow> \<exists>x. f = upd (\<lambda>_. x)
      | WaitersColumn \<Rightarrow> \<exists>x. f = i_Waiters_update (\<lambda>_. x)
      | MetadataColumn \<Rightarrow> \<exists>x. f = i_Metadata_update (\<lambda>_. x))"

lemma typed_write_updates: "typed_write c v = Some f \<Longrightarrow> updates_column c f"
  by (auto simp: typed_write_def updates_column_def split: column.splits option.splits if_splits uvalue.splits)

lemma all_ex_eq: "(\<forall>f. (\<exists>x. f = g x) \<longrightarrow> P f) \<longleftrightarrow> (\<forall>x. P (g x))"
  by auto

lemma columns_keep:
  "list_all (\<lambda>(key, c). \<forall>f r. updates_column c f \<longrightarrow> i_IsBlocked (f r) = i_IsBlocked r \<and> (key \<noteq> ''status'' \<longrightarrow> i_Status (f r) = i_Status r) \<and>
     (key \<noteq> ''assignee'' \<longrightarrow> i_Assignee (f r) = i_Assignee r) \<and> (key \<noteq> ''closed_at'' \<longrightarrow> i_ClosedAt (f r) = i_ClosedAt r)) columns"
  by (simp add: columns_def updates_column_def all_ex_eq)

lemma column_keeps:
  assumes "(key, c) \<in> set columns" "updates_column c f"
  shows "i_IsBlocked (f r) = i_IsBlocked r" "key \<noteq> ''status'' \<Longrightarrow> i_Status (f r) = i_Status r"
    "key \<noteq> ''assignee'' \<Longrightarrow> i_Assignee (f r) = i_Assignee r" "key \<noteq> ''closed_at'' \<Longrightarrow> i_ClosedAt (f r) = i_ClosedAt r"
  using columns_keep assms by (fastforce simp: list_all_iff)+

lemma write_column_updates:
  assumes "write_column ue key v r = Inr r'"
  obtains c f where "(key, c) \<in> set columns" "updates_column c f" "r' = f r"
  using assms
  by (auto simp: write_column_def split: option.splits if_splits dest!: map_of_SomeD typed_write_updates)
    (metis bind_eq_Some_conv typed_write_updates)

lemma write_column_keeps:
  assumes "write_column ue key v r = Inr r'"
  shows "i_IsBlocked r' = i_IsBlocked r" "key \<noteq> ''status'' \<Longrightarrow> i_Status r' = i_Status r"
    "key \<noteq> ''assignee'' \<Longrightarrow> i_Assignee r' = i_Assignee r" "key \<noteq> ''closed_at'' \<Longrightarrow> i_ClosedAt r' = i_ClosedAt r"
  by (rule write_column_updates [OF assms], simp add: column_keeps)+

lemma write_column_at:
  "write_column ue ''status'' v r = Inr r' \<Longrightarrow> status_value v = Some s \<Longrightarrow> i_Status r' = s"
  "write_column ue ''assignee'' VNil r = Inr r' \<Longrightarrow> i_Assignee r' = []"
  "write_column ue ''assignee'' (VString a) r = Inr r' \<Longrightarrow> i_Assignee r' = a"
  "write_column ue ''closed_at'' (VTime t) r = Inr r' \<Longrightarrow> i_ClosedAt r' = Some t"
  "write_column ue ''closed_at'' (VTimePtr p) r = Inr r' \<Longrightarrow> i_ClosedAt r' = p"
  "write_column ue ''closed_at'' VNil r = Inr r' \<Longrightarrow> i_ClosedAt r' = None"
  by (auto simp: write_column_def columns_def typed_write_def text_value_def status_value_def is_null_def split: uvalue.splits)

text \<open>The last word on a field has the entry of its key.\<close>

lemma write_columns_field:
  assumes "write_columns ue u r = Inr r'" "distinct (map fst u)"
    and "\<And>key v r r'. key \<noteq> k \<Longrightarrow> write_column ue key v r = Inr r' \<Longrightarrow> g r' = g r"
  shows "(map_of u k = None \<longrightarrow> g r' = g r) \<and> (\<forall>v. map_of u k = Some v \<longrightarrow> (\<exists>r0 r1. write_column ue k v r0 = Inr r1 \<and> g r' = g r1))"
  using assms(1, 2)
proof (induction u arbitrary: r)
  case (Cons e u)
  obtain key v where e: "e = (key, v)" by fastforce
  obtain r1 where r1: "write_column ue key v r = Inr r1" "write_columns ue u r1 = Inr r'"
    using Cons.prems(1) by (auto simp: e bindE_eq_Inr_iff)
  note IH = Cons.IH [OF r1(2)]
  show ?case
  proof (cases "key = k")
    case True
    then have "map_of u k = None" using Cons.prems(2) by (auto simp: e map_of_eq_None_iff)
    then show ?thesis using IH Cons.prems(2) r1(1) True by (auto simp: e)
  next
    case False
    then show ?thesis using IH Cons.prems(2) assms(3) [OF False r1(1)] by (auto simp: e)
  qed
qed simp

lemma write_columns_flag: "write_columns ue u r = Inr r' \<Longrightarrow> i_IsBlocked r' = i_IsBlocked r"
proof (induction u arbitrary: r)
  case (Cons e u)
  then obtain x where "write_column ue (fst e) (snd e) r = Inr x" "write_columns ue u x = Inr r'" by (cases e) (auto simp: bindE_eq_Inr_iff)
  then show ?case using Cons.IH write_column_keeps(1) by metis
qed simp

section \<open>What remains of an update\<close>

lemma DiscardNoop_filter:
  assumes "DiscardNoopIssueUpdates r u = Inr u'"
  shows "u' = filter (\<lambda>e. issueFieldMatches r (fst e) (snd e) \<noteq> Inr True) u"
  using assms by (induction u arbitrary: u') (auto simp: bindE_eq_Inr_iff split: if_splits)

lemma map_of_filter_distinct:
  assumes "distinct (map fst u)"
  shows "map_of (filter P u) k = (case map_of u k of None \<Rightarrow> None | Some v \<Rightarrow> if P (k, v) then Some v else None)"
  using assms
proof (induction u)
  case (Cons e u)
  then show ?case by (cases e) (auto split: option.splits simp: map_of_eq_None_iff dest: map_of_SomeD)
qed simp

text \<open>Resolving an operation adds at most the entry of its column.\<close>

definition extends :: "string \<Rightarrow> updates \<Rightarrow> updates \<Rightarrow> bool" where
  "extends k u u' \<longleftrightarrow> u' = u \<or> (\<exists>v. u' = u @ [(k, v)]) \<and> map_of u k = None"

lemma map_of_append_single: "map_of (u @ [(c, v)]) k = (case map_of u k of None \<Rightarrow> if k = c then Some v else None | Some w \<Rightarrow> Some w)"
  by (simp add: map_add_def split: option.split)

lemma extends_keys:
  assumes "extends c u u'"
  shows "distinct (map fst u) \<Longrightarrow> distinct (map fst u')" "k \<noteq> c \<Longrightarrow> map_of u' k = map_of u k"
proof -
  show "distinct (map fst u) \<Longrightarrow> distinct (map fst u')"
    using assms by (auto simp: extends_def map_of_eq_None_iff)
  show "k \<noteq> c \<Longrightarrow> map_of u' k = map_of u k"
    using assms map_of_append_single [of u c _ k] by (auto simp: extends_def split: option.splits)
qed

lemma resolveMetadataMergeOps_extends: "resolveMetadataMergeOps ue old u resolved = Inr u' \<Longrightarrow> extends ''metadata'' resolved u'"
  by (auto simp: resolveMetadataMergeOps_def extends_def check_def Let_def bindE_eq_Inr_iff split: if_splits)

lemma resolveNotesAppendOp_extends: "resolveNotesAppendOp old u resolved = Inr u' \<Longrightarrow> extends ''notes'' resolved u'"
  by (auto simp: resolveNotesAppendOp_def extends_def check_def Let_def split: if_splits option.splits uvalue.splits)

lemma ResolveMergeOps_keys:
  assumes "ResolveMergeOps ue old u = Inr u'" "distinct (map fst u)"
  shows "distinct (map fst u')" "k \<noteq> ''metadata'' \<Longrightarrow> k \<noteq> ''notes'' \<Longrightarrow> \<not> isMergeOpKey k \<Longrightarrow> map_of u' k = map_of u k"
proof -
  let ?f = "filter (\<lambda>e. \<not> isMergeOpKey (fst e)) u"
  have d: "distinct (map fst ?f)" using assms(2) by (simp add: distinct_map_filter)
  have "u' = u \<or> (\<exists>u1. resolveMetadataMergeOps ue old u ?f = Inr u1 \<and> resolveNotesAppendOp old u u1 = Inr u')"
    using assms(1) by (auto simp: ResolveMergeOps_def bindE_eq_Inr_iff split: if_splits)
  then consider "u' = u" | u1 where "extends ''metadata'' ?f u1" "extends ''notes'' u1 u'"
    using resolveMetadataMergeOps_extends resolveNotesAppendOp_extends by blast
  then have "distinct (map fst u') \<and> (k \<noteq> ''metadata'' \<longrightarrow> k \<noteq> ''notes'' \<longrightarrow> \<not> isMergeOpKey k \<longrightarrow> map_of u' k = map_of u k)"
  proof cases
    case 2
    have "\<not> isMergeOpKey k \<longrightarrow> map_of ?f k = map_of u k"
      using assms(2) by (auto simp: map_of_filter_distinct split: option.splits)
    then show ?thesis using d extends_keys(1) [OF 2(1)] extends_keys(1) [OF 2(2)] extends_keys(2) [OF 2(1), of k] extends_keys(2) [OF 2(2), of k] by simp
  qed (use assms(2) in simp)
  then show "distinct (map fst u')" "k \<noteq> ''metadata'' \<Longrightarrow> k \<noteq> ''notes'' \<Longrightarrow> \<not> isMergeOpKey k \<Longrightarrow> map_of u' k = map_of u k" by blast+
qed

section \<open>The row after an update\<close>

definition landed :: "Issue \<Rightarrow> updates \<Rightarrow> status" where
  "landed old u = (case map_of u ''status'' of None \<Rightarrow> i_Status old | Some v \<Rightarrow> (case status_value v of Some s \<Rightarrow> s | None \<Rightarrow> []))"

definition landed_assignee :: "Issue \<Rightarrow> updates \<Rightarrow> string" where
  "landed_assignee old u = (case map_of u ''assignee'' of Some VNil \<Rightarrow> [] | Some (VString a) \<Rightarrow> a | _ \<Rightarrow> i_Assignee old)"

text \<open>Statuses that can be read, assignees that are nil or a string.\<close>

definition readable :: "updates \<Rightarrow> bool" where
  "readable u \<longleftrightarrow> (case map_of u ''status'' of None \<Rightarrow> True | Some v \<Rightarrow> status_value v \<noteq> None)"

definition plain_assignee :: "updates \<Rightarrow> bool" where
  "plain_assignee u \<longleftrightarrow> (case map_of u ''assignee'' of None \<Rightarrow> True | Some VNil \<Rightarrow> True | Some (VString _) \<Rightarrow> True | _ \<Rightarrow> False)"

lemma default_keys:
  "fst ` set (unpin old u) \<subseteq> {''pinned''}" "fst ` set (ManageStartedAt now old u) \<subseteq> {''started_at''}"
  "fst ` set (ManageClosedAt now old u) \<subseteq> {''closed_at'', ''close_reason'', ''closed_by_session''}"
  by (auto simp: unpin_def ManageStartedAt_def ManageClosedAt_def unnamed_def split: option.splits if_splits)

lemma unnamed_new: "e \<in> set (unnamed u d) \<Longrightarrow> fst e \<notin> fst ` set u"
  by (auto simp: unnamed_def map_of_eq_None_iff)

lemma set_clauses_distinct:
  assumes "distinct (map fst u)"
  shows "distinct (map fst (set_clauses now old u))"
proof -
  let ?keys = "\<lambda>d. fst ` set d"
  note K = default_keys(1) [of old u] default_keys(2, 3) [of now old u]
  have "e \<notin> ?keys u" if "e \<in> ?keys (unpin old u) \<or> e \<in> ?keys (ManageClosedAt now old u) \<or> e \<in> ?keys (ManageStartedAt now old u)" for e
    using that unnamed_new [of _ u] by (auto simp: unpin_def ManageStartedAt_def ManageClosedAt_def split: option.splits if_splits)
  then have u: "?keys u \<inter> ?keys (unpin old u) = {}" "?keys u \<inter> ?keys (ManageClosedAt now old u) = {}" "?keys u \<inter> ?keys (ManageStartedAt now old u) = {}"
    by blast+
  have "?keys (unpin old u) \<inter> ?keys (ManageClosedAt now old u) = {}" "?keys (unpin old u) \<inter> ?keys (ManageStartedAt now old u) = {}"
    "?keys (ManageClosedAt now old u) \<inter> ?keys (ManageStartedAt now old u) = {}"
    using K by (fastforce, fastforce, fastforce)
  moreover have "distinct (map fst (unpin old u))" "distinct (map fst (ManageClosedAt now old u))" "distinct (map fst (ManageStartedAt now old u))"
    by (auto simp: unpin_def ManageStartedAt_def ManageClosedAt_def unnamed_def split: option.splits)
  ultimately show ?thesis using assms u by (simp add: set_clauses_def Int_Un_distrib)
qed

lemma map_of_skip: "k \<notin> fst ` set v \<Longrightarrow> map_of (u @ v) k = map_of u k"
  by (simp add: map_add_def map_of_eq_None_iff [symmetric] split: option.split)

lemma set_clauses_other:
  "k \<notin> {''pinned'', ''started_at'', ''closed_at'', ''close_reason'', ''closed_by_session''} \<Longrightarrow> map_of (set_clauses now old u) k = map_of u k"
  unfolding set_clauses_def by (rule map_of_skip) (use default_keys(1) [of old u] default_keys(2, 3) [of now old u] in fastforce)

text \<open>The value of a field after the update of the row.\<close>

lemma update_row_field:
  assumes "update_row en ue i old u r = Inr r'" "distinct (map fst u)"
    and "\<forall>key v r r'. key \<noteq> k \<longrightarrow> write_column ue key v r = Inr r' \<longrightarrow> g r' = g r"
    and "\<And>r x. g (r\<lparr>i_UpdatedAt := x\<rparr>) = g r" "\<And>r x. g (r\<lparr>i_RowVersion := x\<rparr>) = g r"
  shows "map_of (set_clauses (en_Now en) old u) k = None \<Longrightarrow> g r' = g r"
    and "map_of (set_clauses (en_Now en) old u) k = Some v \<Longrightarrow> \<exists>r0 r1. write_column ue k v r0 = Inr r1 \<and> g r' = g r1"
proof -
  obtain r1 where w: "write_columns ue (set_clauses (en_Now en) old u) (r\<lparr>i_UpdatedAt := en_Now en\<rparr>) = Inr r1"
    "r' = r1\<lparr>i_RowVersion := en_Lock en i\<rparr>"
    using assms(1) by (auto simp: update_row_def bindE_eq_Inr_iff)
  note F = write_columns_field [OF w(1) set_clauses_distinct [OF assms(2)], of k g] assms(3)
  show "map_of (set_clauses (en_Now en) old u) k = None \<Longrightarrow> g r' = g r"
    "map_of (set_clauses (en_Now en) old u) k = Some v \<Longrightarrow> \<exists>r0 r1. write_column ue k v r0 = Inr r1 \<and> g r' = g r1"
    using F by (auto simp: w(2) assms(4, 5))
qed

lemma update_row_flag: "update_row en ue i old u r = Inr r' \<Longrightarrow> i_IsBlocked r' = i_IsBlocked r"
  using write_columns_flag by (fastforce simp: update_row_def bindE_eq_Inr_iff)

lemma update_row_status:
  assumes "update_row en ue i old u r = Inr r'" "distinct (map fst u)" "readable u" "i_Status old = i_Status r"
  shows "i_Status r' = landed old u"
proof -
  have "\<forall>key v r r'. key \<noteq> ''status'' \<longrightarrow> write_column ue key v r = Inr r' \<longrightarrow> i_Status r' = i_Status r"
    using write_column_keeps(2) by blast
  note F = update_row_field [OF assms(1, 2) this, simplified]
  show ?thesis
  proof (cases "map_of u ''status''")
    case None
    then show ?thesis using F(1) assms(4) by (simp add: landed_def set_clauses_other)
  next
    case (Some v)
    then obtain x where "status_value v = Some x" using assms(3) by (auto simp: readable_def)
    then show ?thesis using F(2) [where v = v] Some write_column_at(1) by (auto simp: landed_def set_clauses_other)
  qed
qed

lemma update_row_assignee:
  assumes "update_row en ue i old u r = Inr r'" "distinct (map fst u)" "plain_assignee u" "i_Assignee old = i_Assignee r"
  shows "i_Assignee r' = landed_assignee old u"
proof -
  have "\<forall>key v r r'. key \<noteq> ''assignee'' \<longrightarrow> write_column ue key v r = Inr r' \<longrightarrow> i_Assignee r' = i_Assignee r"
    using write_column_keeps(3) by blast
  note F = update_row_field [OF assms(1, 2) this, simplified]
  show ?thesis
  proof (cases "map_of u ''assignee''")
    case None
    then show ?thesis using F(1) assms(4) by (simp add: landed_assignee_def set_clauses_other)
  next
    case (Some v)
    then have "v = VNil \<or> (\<exists>a. v = VString a)" using assms(3) by (auto simp: plain_assignee_def split: uvalue.splits)
    then show ?thesis using F(2) [where v = v] Some write_column_at(2, 3) by (auto simp: landed_assignee_def set_clauses_other)
  qed
qed

lemma lease_kept:
  assumes "\<not> ManageLeaseOnUpdate ue old u" "readable u"
  shows "landed old u = i_Status old" "plain_assignee u \<Longrightarrow> landed_assignee old u = i_Assignee old"
  using assms
  by (auto simp: ManageLeaseOnUpdate_def landed_def landed_assignee_def readable_def plain_assignee_def Let_def split: option.splits if_splits uvalue.splits)

lemma liveness_changes_iff: "readable u \<Longrightarrow> liveness_changes old u \<longleftrightarrow> live (i_Status old) \<noteq> live (landed old u)"
  by (auto simp: liveness_changes_def landed_def readable_def split: option.splits)


section \<open>The tables after an update\<close>

text \<open>One row is rewritten; of the other rows only flags may differ, and at most the lease of the row is dropped.\<close>

definition rewritten :: "store \<Rightarrow> store \<Rightarrow> node \<Rightarrow> Issue \<Rightarrow> bool" where
  "rewritten st st' n r \<longleftrightarrow>
     (\<forall>m. map_option unflag (row st' m) = map_option unflag (((row st)(n \<mapsto> r)) m)) \<and> st_Deps st' = st_Deps st \<and>
     st_Config st' = st_Config st \<and> st_CustomStatuses st' = st_CustomStatuses st \<and>
     (st_Leases st' = st_Leases st \<or> st_Leases st' = (st_Leases st)(snd n := None))"

lemma restated_rewritten: "restated st st' n r \<Longrightarrow> rewritten st st' n r"
  by (simp add: restated_def rewritten_def)

lemma rewritten_None: "rewritten st st' n r \<Longrightarrow> row st n \<noteq> None \<Longrightarrow> row st' m = None \<longleftrightarrow> row st m = None"
  unfolding rewritten_def by (metis fun_upd_other fun_upd_same option.distinct(1) option.map_disc_iff)

text \<open>From closed to pinned or back: both are not live, but they differ for the gate of a waiter.\<close>

definition swaps :: "status \<Rightarrow> status \<Rightarrow> bool" where
  "swaps s t \<longleftrightarrow> s \<noteq> t \<and> \<not> live s \<and> \<not> live t"

lemma finish_update_result:
  fixes st :: store and r r' :: Issue and i :: string
  defines "st1 \<equiv> set_row (home st i) (Some r') st"
  assumes ok: "graph_ok jt st" "leases_ok st" and r: "row st (home st i) = Some r"
    and old: "i_Status old = i_Status r" "i_Assignee old = i_Assignee r"
    and r': "i_IsBlocked r' = i_IsBlocked r" "i_Status r' = landed old u" "plain_assignee u \<Longrightarrow> i_Assignee r' = landed_assignee old u"
    and u: "readable u"
  obtains res st' where "finish_update ue jt st1 i old u actor recordEvent (IsActiveWispInTx st i) = Some (Inr (res, st'))"
    "deps_wf st' \<and> acyclic (scheduling st') \<and> (if swaps (i_Status r) (landed old u) then flagged st' = flagged st else blocked_ok jt st')"
    "plain_assignee u \<longrightarrow> leases_ok st'" "rewritten st st' (home st i) r'" "ur_Changed res" "ur_OldIssue res = old"
proof -
  let ?n = "home st i" and ?w = "IsActiveWispInTx st i"
  define st2 where "st2 = (let st1' = (if ManageLeaseOnUpdate ue old u then DeleteLeaseInTx st1 i else st1) in
    if recordEvent then RecordFullEventInTable st1' (WispTableRouting ?w) i (DetermineEventType old u) actor (EventIssue old)
      (EventFields (map (\<lambda>(k, v). (k, ue_Encode ue v)) u)) else st1')"
  have f: "st_Deps st2 = st_Deps st" "row st2 = (row st)(?n \<mapsto> r')" "st_Config st2 = st_Config st" "st_CustomStatuses st2 = st_CustomStatuses st"
    "st_Leases st2 = (if ManageLeaseOnUpdate ue old u then (st_Leases st)(i := None) else st_Leases st)"
    by (simp_all add: st2_def st1_def Let_def DeleteLeaseInTx_def fun_eq_iff)
  show thesis
  proof (cases "liveness_changes old u")
    case True
    then have "landed old u \<noteq> i_Status old" and n: "\<not> swaps (i_Status r) (landed old u)"
      using liveness_changes_iff [OF u, of old] old(1) by (auto simp: swaps_def)
    then have drop: "st_Leases st2 = (st_Leases st)(snd ?n := None)" using lease_kept(1) [OF _ u, of ue old] f(5) by auto
    obtain a b where aff: "AffectedByStatusChangeInTx st2 ?n = Some (a, b)" by (rule AffectedByStatusChange_total)
    obtain res st3 st4 where R: "RecomputeIsBlockedInTxWithResult jt st2 a b = Some (Inr (res, st3))"
      "RecordEventInTx st3 EventUpdate (snd ?n) = Inr st4" "graph_ok jt st4" "restated st st4 ?n r'"
      by (rule restate_repaired [OF ok(1) r r'(1) f(1, 2) drop f(3, 4) aff f(1)])
    show thesis
      by (rule that [OF _ _ _ restated_rewritten [OF R(4)]])
        (use True aff R(1-3) n restated_leases [OF ok(2) R(4)] in \<open>auto simp: graph_ok_def finish_update_def Let_def st2_def plane_of_def storeE_def split: if_splits\<close>)
  next
    case False
    have L: "leases_ok st2" if "plain_assignee u"
      by (rule leases_ok_write [OF ok(2), of ?n])
        (use f lease_kept [OF _ u] leases_okD [OF ok(2), of i] r r' old that in \<open>auto simp: lease_of_def split: if_splits\<close>)
    have flags: "flagged st2 = flagged st" using r r'(1) by (auto simp: flagged_def f(2) fun_eq_iff)
    have G: "blocked_ok jt st2" if sw: "\<not> swaps (i_Status r) (landed old u)"
    proof -
      have "live (i_Status r') = live (i_Status r)" "(i_Status r' = StatusClosed) = (i_Status r = StatusClosed)"
        using False liveness_changes_iff [OF u, of old] sw r'(2) old(1) by (auto simp: swaps_def live_def)
      then have "graph_ok jt st2"
        by (intro graph_ok_unchanged [OF ok(1) f(1)])
          (use r flags in \<open>auto simp: live_row_def closed_row_def f(2) fun_eq_iff\<close>)
      then show ?thesis by (simp add: graph_ok_def)
    qed
    have wf: "deps_wf st2" "acyclic (scheduling st2)"
      using ok(1) by (simp_all add: graph_ok_def deps_wf_def scheduling_def edge_pairs_def f(1))
    obtain st4 where J: "RecordEventInTx st2 EventUpdate i = Inr st4" "journal_only st2 st4"
      using RecordEventInTx_after [of st2 ?n r' i] by (auto simp: f(2))
    show thesis
    proof (rule that)
      show "finish_update ue jt st1 i old u actor recordEvent ?w =
          Some (Inr (\<lparr>ur_OldIssue = old, ur_IsWisp = ?w, ur_Changed = True, ur_IssueRowsChanged = \<not> ?w, ur_WispRowsChanged = ?w\<rparr>, st4))"
        using False J(1) by (simp add: finish_update_def Let_def st2_def storeE_def)
      show "deps_wf st4 \<and> acyclic (scheduling st4) \<and> (if swaps (i_Status r) (landed old u) then flagged st4 = flagged st else blocked_ok jt st4)"
        using wf G flags by (simp add: journal_only_deps [OF J(2)] journal_only_graph [OF J(2)])
      show "plain_assignee u \<longrightarrow> leases_ok st4" using L by (simp add: leases_ok_def lease_of_def journal_onlyD [OF J(2)])
      show "rewritten st st4 ?n r'" using f by (auto simp: rewritten_def journal_onlyD [OF J(2)])
    qed simp_all
  qed
qed


lemma PopForceClosePolicy_keys:
  assumes "PopForceClosePolicy u = (force, u')" "distinct (map fst u)"
  shows "distinct (map fst u')" "k \<noteq> OpForceClosePolicy \<Longrightarrow> map_of u' k = map_of u k"
  using assms by (auto simp: PopForceClosePolicy_def distinct_map_filter map_of_filter_distinct split: option.splits uvalue.splits)

definition plain_key :: "string \<Rightarrow> bool" where
  "plain_key k \<longleftrightarrow> k \<noteq> ''metadata'' \<and> k \<noteq> ''notes'' \<and> \<not> isMergeOpKey k \<and> k \<noteq> OpForceClosePolicy"

lemma plain_keys [simp]: "plain_key ''status''" "plain_key ''assignee''" "plain_key ''closed_at''"
  by (simp_all add: plain_key_def isMergeOpKey_def)

abbreviation read_row :: "store \<Rightarrow> string \<Rightarrow> Issue \<Rightarrow> Issue" where
  "read_row st i r \<equiv> with_lease (st_Leases st i) (r\<lparr>i_IsBlocked := False\<rparr>)"

lemma resolve_update_facts:
  assumes "single st i" "row st (home st i) = Some r" "distinct (map fst u0)" "resolve_update ue st i u0 = Inr (old, u)"
  obtains resolved where "old = read_row st i r" "distinct (map fst u)" "ValidateClosedAtCoherence old resolved = None"
    "\<And>k. plain_key k \<Longrightarrow> map_of resolved k = map_of u0 k"
    "\<And>k. plain_key k \<Longrightarrow> map_of u k = (case map_of u0 k of None \<Rightarrow> None | Some v \<Rightarrow> if issueFieldMatches old k v = Inr True then None else Some v)"
proof -
  have get: "GetIssueInTx st i = Inr (read_row st i r)" using assms(2) by (simp add: GetIssueInTx_home [OF assms(1)])
  obtain resolved where s: "old = read_row st i r" "ResolveMergeOps ue old u0 = Inr resolved" "ValidateClosedAtCoherence old resolved = None"
    "DiscardNoopIssueUpdates old resolved = Inr u"
    using assms(4)
    by (auto simp: resolve_update_def readIssueAndResolveMergeOps_def get storeE_def bindE_eq_Inr_iff split: option.splits)
  note K = ResolveMergeOps_keys [OF s(2) assms(3)]
  have u: "u = filter (\<lambda>e. issueFieldMatches old (fst e) (snd e) \<noteq> Inr True) resolved" by (rule DiscardNoop_filter [OF s(4)])
  show thesis
  proof (rule that [OF s(1) _ s(3)])
    show "distinct (map fst u)" using K(1) by (simp add: u distinct_map_filter)
    show "map_of resolved k = map_of u0 k" if "plain_key k" for k using K(2) that by (simp add: plain_key_def)
    then show "map_of u k = (case map_of u0 k of None \<Rightarrow> None | Some v \<Rightarrow> if issueFieldMatches old k v = Inr True then None else Some v)" if "plain_key k" for k
      using that by (simp add: u map_of_filter_distinct [OF K(1)] split: option.splits)
  qed
qed

lemma matches_status [simp]: "issueFieldMatches r ''status'' v = Inr (matchesStatus (i_Status r) v)"
  by (simp add: issueFieldMatches_def compared_column_def columns_def)

lemma matches_assignee [simp]: "issueFieldMatches r ''assignee'' v = Inr (matchesString (i_Assignee r) v)"
  by (simp add: issueFieldMatches_def compared_column_def columns_def)

lemma matches_closed_at [simp]: "issueFieldMatches r ''closed_at'' v = Inr (matchesTimePointer (i_ClosedAt r) v)"
  by (simp add: issueFieldMatches_def compared_column_def columns_def)

lemma admit_readable: "admit_update en ue st i force old u = None \<Longrightarrow> readable u"
  by (auto simp: admit_update_def CrossesIntoDoneCategoryInTx_def readable_def split: option.splits sum.splits)

text \<open>The error of an update, found before any write.\<close>

definition refusal :: "env \<Rightarrow> update_env \<Rightarrow> store \<Rightarrow> string \<Rightarrow> updates \<Rightarrow> update_error option" where
  "refusal en ue st i updates =
     (let (force, named) = PopForceClosePolicy updates in
      case resolve_update ue st i named of
        Inl e \<Rightarrow> Some e
      | Inr (old, u) \<Rightarrow>
          if u = [] then None
          else (case admit_update en ue st i force old u of
              Some e \<Rightarrow> Some e
            | None \<Rightarrow> (case map_option (update_row en ue i old u) (row st (home st i)) of Some (Inl e) \<Rightarrow> Some e | _ \<Rightarrow> None)))"

text \<open>An update fails, or finds nothing to change, or rewrites the row and keeps the tables in order.\<close>

lemma updateIssueInTx_runs:
  fixes updates :: updates
  assumes ok: "graph_ok jt st" "leases_ok st" "single st i" and d: "distinct (map fst updates)"
    and pop: "PopForceClosePolicy updates = (force, named)"
  obtains (failed) e where "updateIssueInTx en ue jt st i updates actor recordEvent = Some (Inl e)" "refusal en ue st i updates = Some e"
  | (unchanged) r res where "row st (home st i) = Some r" "resolve_update ue st i named = Inr (read_row st i r, [])" "\<not> ur_Changed res"
      "updateIssueInTx en ue jt st i updates actor recordEvent = Some (Inr (res, st))" "refusal en ue st i updates = None"
  | (changed) r u r' res st' where "row st (home st i) = Some r" "resolve_update ue st i named = Inr (read_row st i r, u)"
      "admit_update en ue st i force (read_row st i r) u = None" "update_row en ue i (read_row st i r) u r = Inr r'" "i_Status r' = landed r updates"
      "updateIssueInTx en ue jt st i updates actor recordEvent = Some (Inr (res, st'))" "ur_Changed res"
      "deps_wf st' \<and> acyclic (scheduling st') \<and> (if swaps (i_Status r) (landed r updates) then flagged st' = flagged st else blocked_ok jt st')"
      "plain_assignee updates \<longrightarrow> leases_ok st'" "rewritten st st' (home st i) r'" "refusal en ue st i updates = None"
proof -
  note named = PopForceClosePolicy_keys [OF pop d]
  show thesis
  proof (cases "resolve_update ue st i named")
    case (Inl e)
    then show thesis by (intro failed) (simp_all add: updateIssueInTx_def refusal_def pop)
  next
    case (Inr p)
    obtain old u where R: "resolve_update ue st i named = Inr (old, u)" using Inr by (cases p) auto
    have "GetIssueInTx st i \<noteq> Inl (ErrNotFound i)"
      using R by (auto simp: resolve_update_def readIssueAndResolveMergeOps_def storeE_def)
    then obtain r where r: "row st (home st i) = Some r" by (auto simp: GetIssueInTx_home [OF ok(3)] split: option.splits)
    obtain resolved where F: "old = read_row st i r" "distinct (map fst u)"
      "\<And>k. plain_key k \<Longrightarrow> map_of u k = (case map_of named k of None \<Rightarrow> None | Some v \<Rightarrow> if issueFieldMatches old k v = Inr True then None else Some v)"
      by (rule resolve_update_facts [OF ok(3) r named(1) R]) blast
    have keys: "map_of named ''status'' = map_of updates ''status''" "map_of named ''assignee'' = map_of updates ''assignee''" by (simp_all add: named(2))
    have home: "(WispTableRouting (IsActiveWispInTx st i), i) = home st i" by (simp add: plane_of_def)
    show thesis
    proof (cases "u = [] \<or> admit_update en ue st i force old u \<noteq> None")
      case True
      then consider "u = []" | e where "u \<noteq> []" "admit_update en ue st i force old u = Some e" by blast
      then show thesis
      proof cases
        case 1
        then show thesis using R r F(1) by (intro unchanged [OF r]) (auto simp: updateIssueInTx_def refusal_def pop)
      next
        case 2
        then show thesis using R by (intro failed) (simp_all add: updateIssueInTx_def refusal_def pop)
      qed
    next
      case False
      then have A: "admit_update en ue st i force old u = None" "u \<noteq> []" by auto
      have rd: "readable u" by (rule admit_readable [OF A(1)])
      have pa: "plain_assignee updates \<Longrightarrow> plain_assignee u"
        using F(3) [of "''assignee''"] by (auto simp: plain_assignee_def keys split: option.splits if_splits)
      have ls: "landed old u = landed r updates"
        using rd F(3) [of "''status''"] by (auto simp: landed_def keys F(1) readable_def matchesStatus_def status_value_def split: option.splits if_splits uvalue.splits)
      show thesis
      proof (cases "update_row en ue i old u r")
        case (Inl e)
        then show thesis using A R r by (intro failed) (simp_all add: updateIssueInTx_def refusal_def pop home)
      next
        case (Inr r')
        have o: "i_Status old = i_Status r" "i_Assignee old = i_Assignee r" by (simp_all add: F(1))
        note U = update_row_flag [OF Inr] update_row_status [OF Inr F(2) rd o(1)] update_row_assignee [OF Inr F(2) _ o(2)]
        obtain res st' where Z: "finish_update ue jt (set_row (home st i) (Some r') st) i old u actor recordEvent (IsActiveWispInTx st i) = Some (Inr (res, st'))"
          "deps_wf st' \<and> acyclic (scheduling st') \<and> (if swaps (i_Status r) (landed old u) then flagged st' = flagged st else blocked_ok jt st')"
          "plain_assignee u \<longrightarrow> leases_ok st'" "rewritten st st' (home st i) r'" "ur_Changed res"
          by (rule finish_update_result [OF ok(1, 2) r o U rd])
        have "updateIssueInTx en ue jt st i updates actor recordEvent = Some (Inr (res, st'))"
          using A R r Inr Z(1) by (simp add: updateIssueInTx_def pop home)
        moreover have "refusal en ue st i updates = None" using A R r Inr by (simp add: refusal_def pop)
        ultimately show thesis
          using Z(2) ls pa Z(3) U(2) R A(1) Inr F(1) by (intro changed [OF r _ _ _ _ _ Z(5) _ _ Z(4)]) auto
      qed
    qed
  qed
qed


text \<open>
  C7: a generic update always returns. An error is one found before any write: an update no check refuses
  succeeds. Then at most one row has changed apart from flags, and it has the status asked for; the edges
  stay well-formed and without a scheduling cycle; every lease belongs to a claim if the assignee, when
  named, is nil or a string; and every \<open>is_blocked\<close> flag is right, unless the update moved the issue between
  closed and pinned: then no flag is changed at all.
\<close>

theorem updateIssueInTx_keeps:
  assumes "graph_ok jt st" "leases_ok st" "single st i" "distinct (map fst updates)"
  shows "\<exists>out. updateIssueInTx en ue jt st i updates actor recordEvent = Some out \<and>
    (\<forall>e. out = Inl e \<longleftrightarrow> refusal en ue st i updates = Some e) \<and>
    (\<forall>res st'. out = Inr (res, st') \<longrightarrow> deps_wf st' \<and> acyclic (scheduling st') \<and> (plain_assignee updates \<longrightarrow> leases_ok st') \<and>
      (if ur_Changed res
       then \<exists>r r'. row st (home st i) = Some r \<and> i_Status r' = landed r updates \<and> rewritten st st' (home st i) r' \<and>
         (if swaps (i_Status r) (landed r updates) then flagged st' = flagged st else blocked_ok jt st')
       else st' = st))"
proof -
  obtain force named where pop: "PopForceClosePolicy updates = (force, named)" by fastforce
  show ?thesis
    by (cases rule: updateIssueInTx_runs [OF assms pop, where en = en and ue = ue and actor = actor and recordEvent = recordEvent])
      (use assms(1, 2) in \<open>auto simp: graph_ok_def\<close>)
qed

section \<open>Closing times\<close>

definition closed_coherent :: "Issue \<Rightarrow> bool" where
  "closed_coherent r \<longleftrightarrow> (i_Status r = StatusClosed \<longleftrightarrow> i_ClosedAt r \<noteq> None)"

definition timed_closed_at :: "updates \<Rightarrow> bool" where
  "timed_closed_at u \<longleftrightarrow> (case map_of u ''closed_at'' of None \<Rightarrow> True | Some v \<Rightarrow> v = VNil \<or> (\<exists>t. v = VTime t) \<or> (\<exists>p. v = VTimePtr p))"

lemma closed_at_clause:
  assumes "readable u"
  shows "map_of (set_clauses now old u) ''closed_at'' =
    (case map_of u ''closed_at'' of
       Some v \<Rightarrow> Some v
     | None \<Rightarrow> (case map_of u ''status'' of
         None \<Rightarrow> None
       | Some _ \<Rightarrow> if landed old u = StatusClosed then Some (VTime now) else if i_Status old = StatusClosed then Some VNil else None))"
proof -
  have "''closed_at'' \<notin> fst ` set (unpin old u)" "''closed_at'' \<notin> fst ` set (ManageStartedAt now old u)"
    using default_keys(1) [of old u] default_keys(2) [of now old u] by auto
  then have n: "map_of (unpin old u) ''closed_at'' = None" "map_of (ManageStartedAt now old u) ''closed_at'' = None"
    by (simp_all add: map_of_eq_None_iff)
  show ?thesis
    using assms
    by (auto simp: set_clauses_def map_add_def n ManageClosedAt_def unnamed_def landed_def readable_def split: option.splits)
qed



lemma update_row_coherent:
  assumes up: "update_row en ue i old u r = Inr r'" "distinct (map fst u)" "readable u" "timed_closed_at u"
    and old: "i_Status old = i_Status r" "closed_coherent r"
    and named: "\<And>v. map_of u ''closed_at'' = Some v \<Longrightarrow> landed old u = StatusClosed \<longleftrightarrow> \<not> clearsClosedAt v"
  shows "closed_coherent r'"
proof -
  have "\<forall>key v r r'. key \<noteq> ''closed_at'' \<longrightarrow> write_column ue key v r = Inr r' \<longrightarrow> i_ClosedAt r' = i_ClosedAt r"
    using write_column_keeps(4) by blast
  note F = update_row_field [OF up(1, 2) this, simplified]
  have s: "i_Status r' = landed old u" by (rule update_row_status [OF up(1-3) old(1)])
  show ?thesis
  proof (cases "map_of u ''closed_at''")
    case (Some v)
    then have "map_of (set_clauses (en_Now en) old u) ''closed_at'' = Some v" by (simp add: closed_at_clause [OF up(3)])
    then obtain r0 r1 where w: "write_column ue ''closed_at'' v r0 = Inr r1" "i_ClosedAt r' = i_ClosedAt r1" using F(2) by fastforce
    have "v = VNil \<or> (\<exists>t. v = VTime t) \<or> (\<exists>p. v = VTimePtr p)" using up(4) Some by (simp add: timed_closed_at_def)
    then have "i_ClosedAt r' = None \<longleftrightarrow> clearsClosedAt v" using w write_column_at(4-6) by (auto simp: clearsClosedAt_def)
    then show ?thesis using named [OF Some] s by (simp add: closed_coherent_def)
  next
    case None
    show ?thesis
    proof (cases "map_of u ''status''")
      case N: None
      then have "i_ClosedAt r' = i_ClosedAt r" using F(1) None by (simp add: closed_at_clause [OF up(3)])
      then show ?thesis using old s N by (simp add: closed_coherent_def landed_def)
    next
      case (Some v)
      have c: "map_of (set_clauses (en_Now en) old u) ''closed_at'' =
          (if landed old u = StatusClosed then Some (VTime (en_Now en)) else if i_Status old = StatusClosed then Some VNil else None)"
        by (simp add: closed_at_clause [OF up(3)] None Some)
      consider "landed old u = StatusClosed" | "landed old u \<noteq> StatusClosed" "i_Status old = StatusClosed" | "landed old u \<noteq> StatusClosed" "i_Status old \<noteq> StatusClosed"
        by blast
      then have "i_ClosedAt r' \<noteq> None \<longleftrightarrow> landed old u = StatusClosed"
      proof cases
        case 1
        then show ?thesis using F(2) [where v = "VTime (en_Now en)"] c write_column_at(4) by auto
      next
        case 2
        then show ?thesis using F(2) [where v = VNil] c write_column_at(6) by auto
      next
        case 3
        then show ?thesis using F(1) c old by (simp add: closed_coherent_def)
      qed
      then show ?thesis using s by (simp add: closed_coherent_def)
    qed
  qed
qed


lemma rewritten_at:
  assumes "rewritten st st' n r'" "row st' n = Some s"
  shows "unflag s = unflag r'"
proof -
  have "map_option unflag (row st' n) = map_option unflag (((row st)(n \<mapsto> r')) n)" using assms(1) unfolding rewritten_def by blast
  then show ?thesis using assms(2) by simp
qed

lemma coherent_unflag: "unflag s = unflag r \<Longrightarrow> closed_coherent s \<longleftrightarrow> closed_coherent r"
  by (cases s; cases r) (simp add: unflag_def closed_coherent_def)

text \<open>
  C9: an update never mints a row whose closing time disagrees with its status: if before a successful
  update the row had a closing time exactly when it was closed, so it has afterwards, whatever status and
  other fields the update names, moves between closed and pinned included; a closing time in the update is a
  time, a pointer to one, or nil.
\<close>

theorem updateIssueInTx_coherent:
  assumes "graph_ok jt st" "leases_ok st" "single st i" "distinct (map fst updates)"
    and "timed_closed_at updates" "updateIssueInTx en ue jt st i updates actor recordEvent = Some (Inr (res, st'))"
    and "row st (home st i) = Some r" "closed_coherent r" "row st' (home st i) = Some s"
  shows "closed_coherent s"
proof -
  obtain force named where pop: "PopForceClosePolicy updates = (force, named)" by fastforce
  note N = PopForceClosePolicy_keys [OF pop assms(4)]
  show ?thesis
    using assms(1-4) pop
  proof (cases rule: updateIssueInTx_runs [where en = en and ue = ue and actor = actor and recordEvent = recordEvent])
    case (changed r0 u r' res' st2)
    let ?old = "read_row st i r"
    have eq: "r0 = r" "st2 = st'" using changed(1, 6) assms(6, 7) by auto
    obtain resolved where F: "distinct (map fst u)" "ValidateClosedAtCoherence ?old resolved = None"
      "\<And>k. plain_key k \<Longrightarrow> map_of resolved k = map_of named k"
      "\<And>k. plain_key k \<Longrightarrow> map_of u k = (case map_of named k of None \<Rightarrow> None | Some v \<Rightarrow> if issueFieldMatches ?old k v = Inr True then None else Some v)"
      by (rule resolve_update_facts [OF assms(3, 7) N(1) changed(2) [unfolded eq]]) blast
    have rd: "readable u" by (rule admit_readable [OF changed(3)])
    note k = F(4) [of "''closed_at''"] F(4) [of "''status''"] F(3) [of "''closed_at''"] F(3) [of "''status''"]
    have "closed_coherent r'"
    proof (rule update_row_coherent [OF changed(4) [unfolded eq] F(1) rd])
      show "timed_closed_at u" using assms(5) k(1) N(2) by (auto simp: timed_closed_at_def split: option.splits if_splits)
      show "landed ?old u = StatusClosed \<longleftrightarrow> \<not> clearsClosedAt v" if "map_of u ''closed_at'' = Some v" for v
        using that k F(2) rd
        by (auto simp: ValidateClosedAtCoherence_def landed_def readable_def matchesStatus_def status_value_def split: option.splits if_splits uvalue.splits)
    qed (use assms(8) in simp_all)
    then show ?thesis using rewritten_at [OF changed(10)] assms(9) coherent_unflag unfolding eq by blast
  qed (use assms(6-9) in auto)
qed

section \<open>Close policy\<close>

definition forced :: "updates \<Rightarrow> bool" where
  "forced u \<longleftrightarrow> map_of u OpForceClosePolicy = Some (VBool True)"

lemma PopForceClosePolicy_forced: "fst (PopForceClosePolicy u) = forced u"
  by (auto simp: PopForceClosePolicy_def forced_def split: option.splits uvalue.splits)

text \<open>
  C8: an update is no way around the close policy. If it succeeds in moving an issue from outside the done
  category into it, by the built-in or by a custom status, and does not carry the override, then the issue
  had no child that was not closed and was not held by a live blocker.
\<close>

theorem updateIssueInTx_policy:
  assumes "\<And>i. single st i" "sources_ok st" "deps_wf st" "distinct (map fst updates)"
    and "updateIssueInTx en ue jt st i updates actor recordEvent = Some (Inr (res, st'))" "\<not> forced updates"
    and "row st (home st i) = Some r" "ReopenCategoryInTx en st (i_Status r) \<noteq> CategoryDone"
    and "map_of updates ''status'' = Some v" "status_value v = Some s" "ReopenCategoryInTx en st s = CategoryDone"
  shows "(\<nexists>c. open_child st (home st i) c) \<and> \<not> (flagged st (home st i) \<and> (\<exists>d. live_blocker st (home st i) d))"
proof -
  obtain force named where pop: "PopForceClosePolicy updates = (force, named)" by fastforce
  have f: "\<not> force" using assms(6) PopForceClosePolicy_forced [of updates] by (simp add: pop)
  note N = PopForceClosePolicy_keys [OF pop assms(4)]
  obtain old u where R: "resolve_update ue st i named = Inr (old, u)" and A: "u = [] \<or> admit_update en ue st i force old u = None"
    using assms(5) by (auto simp: updateIssueInTx_def pop Let_def split: sum.splits prod.splits if_splits option.splits)
  obtain resolved where F: "old = read_row st i r"
    "\<And>k. plain_key k \<Longrightarrow> map_of u k = (case map_of named k of None \<Rightarrow> None | Some v \<Rightarrow> if issueFieldMatches old k v = Inr True then None else Some v)"
    by (rule resolve_update_facts [OF assms(1, 7) N(1) R]) blast
  have o: "i_Status old = i_Status r" by (simp add: F(1))
  have "i_Status r \<noteq> s" using assms(8, 11) by auto
  then have m: "\<not> matchesStatus (i_Status old) v"
    using assms(10) o by (auto simp: matchesStatus_def status_value_def split: uvalue.splits)
  have v: "map_of u ''status'' = Some v" using F(2) [of "''status''"] N(2) [of "''status''"] assms(9) m by simp
  then have "u \<noteq> []" by auto
  then have "CrossesIntoDoneCategoryInTx en st (i_Status old) u = Inr True" "admit_update en ue st i force old u = None"
    using A v o assms(8, 10, 11) by (auto simp: CrossesIntoDoneCategoryInTx_def)
  then have "\<exists>k. EnforceClosePolicyInTx st i force = Inr k" by (auto simp: admit_update_def split: sum.splits)
  moreover have "isClosedInTx st i = Some (i_Status r = StatusClosed, plane_of st i)" by (rule isClosedInTx_home [OF assms(1, 7)])
  ultimately have "\<exists>k. enforceClosePolicyForTargetInTx st (home st i) force (i_Status r = StatusClosed) = Inr k"
    by (simp add: EnforceClosePolicyInTx_def)
  moreover have "i_Status r \<noteq> StatusClosed" using assms(8) by (auto simp: ReopenCategoryInTx_def Status_IsValid_def AllStatuses_def BuiltInStatusCategory_def)
  ultimately show ?thesis using enforceClosePolicy_iff [OF assms(1-3, 7), of force] f by blast
qed

section \<open>Metadata edits\<close>

definition edit_ok :: "string \<Rightarrow> bool" where
  "edit_ok kv \<longleftrightarrow> (case cut_equals kv of None \<Rightarrow> False | Some (k, _) \<Rightarrow> k \<noteq> [] \<and> ValidateMetadataKey k)"

definition edit_of :: "string \<Rightarrow> string \<times> string" where
  "edit_of kv = (case cut_equals kv of None \<Rightarrow> ([], []) | Some e \<Rightarrow> e)"

lemma set_edits_Inr:
  "set_edits data kvs = Inr data' \<longleftrightarrow> list_all edit_ok kvs \<and> data' = data @ map (\<lambda>r. (fst r, MetadataEditValue (snd r))) (map edit_of kvs)"
  by (induction data kvs rule: set_edits.induct) (auto simp: edit_ok_def edit_of_def split: option.splits)

lemma unset_edits_Inr:
  "unset_edits data ks = Inr data' \<longleftrightarrow> list_all ValidateMetadataKey ks \<and> data' = filter (\<lambda>e. fst e \<notin> set ks) data"
proof (induction data ks rule: unset_edits.induct)
  case (2 data k ks)
  then show ?case by (auto intro: filter_cong)
qed auto

lemma json_lookup_filter: "json_lookup (filter (\<lambda>e. fst e \<notin> K) ms) k = (if k \<in> K then None else json_lookup ms k)"
proof -
  have "map_of (filter (\<lambda>e. fst e \<notin> K) xs) k = (if k \<in> K then None else map_of xs k)" for xs :: "(string \<times> string) list"
    by (induction xs) auto
  then show ?thesis by (simp add: json_lookup_def rev_filter)
qed

text \<open>
  The object asked for: a key named for removal is absent, a key that is set has the last value given, as
  a JSON string, and every other key has the value it had.
\<close>

definition edited :: "(string \<times> string) list \<Rightarrow> string list \<Rightarrow> string list \<Rightarrow> (string \<times> string) list \<Rightarrow> bool" where
  "edited base sets unsets ms \<longleftrightarrow>
     fst ` set ms = (fst ` set base \<union> fst ` edit_of ` set sets) - set unsets \<and>
     (\<forall>k. json_lookup ms k = (if k \<in> set unsets then None
        else case map_of (rev (map edit_of sets)) k of Some v \<Rightarrow> Some (MetadataEditValue v) | None \<Rightarrow> json_lookup base k))"

lemma edited_marshal: "edited base sets unsets ms \<Longrightarrow> edited base sets unsets ms' \<Longrightarrow> marshal_raw_map (Some ms) = marshal_raw_map (Some ms')"
  by (rule marshal_raw_map_cong) (simp_all add: edited_def fun_eq_iff)

lemma filter_keys: "fst ` set (filter (\<lambda>e. fst e \<notin> K) xs) = fst ` set xs - K"
  by auto

lemma edits_edited:
  "edited base sets unsets (filter (\<lambda>e. fst e \<notin> set unsets) (base @ map (\<lambda>r. (fst r, MetadataEditValue (snd r))) (map edit_of sets)))"
  unfolding edited_def filter_keys json_lookup_filter json_lookup_merge by (simp add: image_Un image_image split: option.split)

text \<open>
  C30: incremental metadata edits succeed exactly when the stored metadata is absent or an object, every
  set edit has the form key=value and every key is valid. The result is the object in which a key named
  for removal is absent, a key that is set has the last value given, as a JSON string, and every other
  key has the value it had: edits do not touch their neighbours.
\<close>

theorem ApplyMetadataEdits_spec:
  "ApplyMetadataEdits existing sets unsets = Inr out \<longleftrightarrow>
   (\<exists>base ms. existing_object existing = Inr base \<and> list_all edit_ok sets \<and> list_all ValidateMetadataKey unsets \<and>
      edited base sets unsets ms \<and> out = marshal_raw_map (Some ms))"
proof -
  have "ApplyMetadataEdits existing sets unsets = Inr out \<longleftrightarrow>
      (\<exists>base. existing_object existing = Inr base \<and> list_all edit_ok sets \<and> list_all ValidateMetadataKey unsets \<and>
         out = marshal_raw_map (Some (filter (\<lambda>e. fst e \<notin> set unsets) (base @ map (\<lambda>r. (fst r, MetadataEditValue (snd r))) (map edit_of sets)))))"
    unfolding ApplyMetadataEdits_def bindE_eq_Inr_iff set_edits_Inr unset_edits_Inr by auto
  then show ?thesis using edited_marshal edits_edited by (metis (no_types, lifting))
qed

section \<open>Examples\<close>

definition plain_conversions :: update_env where
  "plain_conversions = \<lparr>ue_CustomTypes = [], ue_Schema = (\<lambda>_. True), ue_Convert = (\<lambda>_ _. None), ue_Print = (\<lambda>_. []), ue_Encode = (\<lambda>_. [])\<rparr>"

lemma closing_update_accepted:
  "refusal clock plain_conversions one_blocked ''bd-2'' [(''status'', VStatus StatusClosed)] = None"
  by code_simp

theorem updateIssueInTx_keeps_witness:
  "\<exists>res st'. updateIssueInTx clock plain_conversions no_json one_blocked ''bd-2'' [(''status'', VStatus StatusClosed)] ''alice'' True = Some (Inr (res, st')) \<and>
     blocked_ok no_json st' \<and> leases_ok st'"
proof -
  have n: "\<not> swaps StatusOpen (landed r [(''status'', VStatus StatusClosed)])" for r by (simp add: swaps_def live_def)
  have b: "blocked_ok no_json one_blocked" using one_blocked_facts(1) by (simp add: graph_ok_def)
  have o: "i_Status (task (''bd-2'', StatusOpen, False)) = StatusOpen" by (simp add: task_def)
  obtain out where "updateIssueInTx clock plain_conversions no_json one_blocked ''bd-2'' [(''status'', VStatus StatusClosed)] ''alice'' True = Some out"
    "\<forall>e. out \<noteq> Inl e" "\<forall>res st'. out = Inr (res, st') \<longrightarrow> blocked_ok no_json st' \<and> leases_ok st'"
    using b updateIssueInTx_keeps [OF one_blocked_facts(1, 5) one_blocked_facts(3) [of "''bd-2''"], where updates = "[(''status'', VStatus StatusClosed)]"
        and en = clock and ue = plain_conversions and actor = "''alice''" and recordEvent = True]
      one_blocked_facts(4, 6) n by (fastforce simp: plain_assignee_def o closing_update_accepted split: if_splits)
  then show ?thesis by (cases out) auto
qed

text \<open>The update that closes the second of two tasks.\<close>

lemma closing_update_runs:
  obtains res st' s where
    "updateIssueInTx clock plain_conversions no_json one_blocked ''bd-2'' [(''status'', VStatus StatusClosed)] ''alice'' True = Some (Inr (res, st'))"
    "row st' (Durable, ''bd-2'') = Some s"
proof -
  let ?u = "[(''status'', VStatus StatusClosed)]"
  have u: "distinct (map fst ?u)" "PopForceClosePolicy ?u = (False, ?u)"
    by (simp_all add: PopForceClosePolicy_def)
  show thesis
    using one_blocked_facts(1, 5) one_blocked_facts(3) [of "''bd-2''"] u
  proof (cases rule: updateIssueInTx_runs [where en = clock and ue = plain_conversions and actor = "''alice''" and recordEvent = True])
    case (changed r u r' res st')
    then have "row st' (Durable, ''bd-2'') \<noteq> None" using rewritten_None [OF changed(10)] changed(1) by (simp add: one_blocked_facts(4))
    then show thesis using that changed(6) by blast
  next
    case (failed e)
    then show thesis by (simp add: closing_update_accepted)
  next
    case (unchanged r res)
    then show thesis using that by (auto simp: one_blocked_facts(4))
  qed
qed

theorem updateIssueInTx_coherent_witness:
  "\<exists>res st' s. updateIssueInTx clock plain_conversions no_json one_blocked ''bd-2'' [(''status'', VStatus StatusClosed)] ''alice'' True = Some (Inr (res, st')) \<and>
     row st' (Durable, ''bd-2'') = Some s \<and> closed_coherent s"
proof -
  obtain res st' s where c: "updateIssueInTx clock plain_conversions no_json one_blocked ''bd-2'' [(''status'', VStatus StatusClosed)] ''alice'' True = Some (Inr (res, st'))"
    "row st' (Durable, ''bd-2'') = Some s" by (rule closing_update_runs)
  have "closed_coherent s"
    by (rule updateIssueInTx_coherent [OF one_blocked_facts(1, 5, 3) _ _ c(1), of "task (''bd-2'', StatusOpen, False)"])
      (use c one_blocked_facts(4, 6) in \<open>simp_all add: timed_closed_at_def task_def closed_coherent_def zero_issue_def\<close>)
  then show ?thesis using c by blast
qed

theorem updateIssueInTx_policy_witness:
  "(\<nexists>c. open_child one_blocked (Durable, ''bd-2'') c) \<and>
   \<not> (flagged one_blocked (Durable, ''bd-2'') \<and> (\<exists>d. live_blocker one_blocked (Durable, ''bd-2'') d))"
proof -
  obtain res st' s where c: "updateIssueInTx clock plain_conversions no_json one_blocked ''bd-2'' [(''status'', VStatus StatusClosed)] ''alice'' True = Some (Inr (res, st'))"
    "row st' (Durable, ''bd-2'') = Some s" by (rule closing_update_runs)
  have "ReopenCategoryInTx clock one_blocked StatusOpen \<noteq> CategoryDone" "ReopenCategoryInTx clock one_blocked StatusClosed = CategoryDone"
    by code_simp+
  moreover have "deps_wf one_blocked" using one_blocked_facts(1) by (simp add: graph_ok_def)
  ultimately show ?thesis
    using updateIssueInTx_policy [OF one_blocked_facts(3, 2) _ _ c(1), of "task (''bd-2'', StatusOpen, False)" "VStatus StatusClosed" StatusClosed]
      one_blocked_facts(4, 6) by (auto simp: forced_def status_value_def task_def)
qed

section \<open>A gap: from closed to pinned\<close>





end
