(* ===== verification/Lifecycle.thy ===== *)
theory Lifecycle
  imports Deletion Updating
begin

text \<open>
  All modelled writes together, as the steps of a transition system on the tables. Each step is one
  transaction that committed. \<open>store_ok\<close> joins the invariants of the components: the graph of
  dependencies is in order with right \<open>is_blocked\<close> flags, leases belong to claims, edges start at rows of
  their table, no ID is in both tables, and no custom status is called closed or pinned. Every step
  keeps it.
\<close>

section \<open>Steps\<close>

text \<open>
  The writes that keep the invariant. Left out are those that the code accepts and that can break it, each of them
  analysed in its own theory: adding a waits-for edge for a pair that has one (\<open>waits_for_refresh_stale\<close>),
  an update that moves an issue between closed and pinned (\<open>update_pin_stale\<close>), an update whose assignee is neither
  nil nor a string, and adding an edge with the cycle check off, with a target checked by the caller, or
  into another table than that of its source. An edge has a named target, and an update is a Go map: it names
  a field once.
\<close>

definition usual_opts :: "AddDependencyOpts \<Rightarrow> bool" where
  "usual_opts opts \<longleftrightarrow> \<not> ao_SkipCycleCheck opts \<and> ao_DepTables opts = [] \<and> ao_PrecheckedTarget opts = None \<and>
     ao_WriteTable opts = ao_SourceTable opts"

inductive step :: "json_text \<Rightarrow> store \<Rightarrow> store \<Rightarrow> bool" for jt :: json_text where
  claim: "ClaimIssueInTx en st i actor = Inr (res, st') \<Longrightarrow> step jt st st'"
| claim_ready: "claim_first en st ids actor = Inr (res, st') \<Longrightarrow> step jt st st'"
| heartbeat: "HeartbeatIssueInTx en st i actor = Inr st' \<Longrightarrow> step jt st st'"
| unclaim: "UnclaimIssueInTx en st i actor force = Inr st' \<Longrightarrow> step jt st st'"
| unclaim_if: "UnclaimIssueIfAssigneeInTx en st i actor expected = Inr st' \<Longrightarrow> step jt st st'"
| reclaim: "ReclaimExpiredLeasesInTx en st cutoff f order actor = Inr (res, st') \<Longrightarrow> distinct order \<Longrightarrow> step jt st st'"
| restore: "RestoreLeaseOnImportInTx en st issue isNew = Inr st' \<Longrightarrow> step jt st st'"
| close: "closeIssueInTx en jt st i reason actor session recordEvent = Some (Inr (res, st')) \<Longrightarrow> step jt st st'"
| close_checked: "CloseIssueCheckedInTx en jt st i reason actor session force expected = Some (Inr (res, st')) \<Longrightarrow> step jt st st'"
| reopen: "ReopenIssueInTx en jt st i reason actor = Some (Inr (res, st')) \<Longrightarrow> step jt st st'"
| update: "updateIssueInTx en ue jt st i updates actor recordEvent = Some (Inr (ures, st')) \<Longrightarrow> distinct (map fst updates) \<Longrightarrow>
    plain_assignee updates \<Longrightarrow> \<forall>r. row st (home st i) = Some r \<longrightarrow> \<not> swaps (i_Status r) (landed r updates) \<Longrightarrow> step jt st st'"
| wake: "WakeExpiredDefersInTx en st orders = Inr (res, st') \<Longrightarrow> (\<And>pl. distinct (orders pl)) \<Longrightarrow> step jt st st'"
| add_dependency: "addDependencyInTx jt st dep actor opts = Some (Inr (b, st')) \<Longrightarrow> usual_opts opts \<Longrightarrow>
    d_DependsOnID dep \<noteq> [] \<Longrightarrow> \<not> refreshes_waits st dep opts \<Longrightarrow> step jt st st'"
| remove_dependency: "removeDependencyInTx jt st source target actor emit = Some (Inr (b, st')) \<Longrightarrow> target \<noteq> [] \<Longrightarrow> step jt st st'"
| delete: "DeleteIssueInTx jt st i = Some (Inr st') \<Longrightarrow> step jt st st'"
| delete_many: "DeleteIssuesInTx jt st ids cascade force dryRun = Some (Inr (res, st')) \<Longrightarrow> step jt st st'"

definition statuses_ok :: "store \<Rightarrow> bool" where
  "statuses_ok st \<longleftrightarrow> list_all (\<lambda>c. live (cs_Name c)) (st_CustomStatuses st)"

definition store_ok :: "json_text \<Rightarrow> store \<Rightarrow> bool" where
  "store_ok jt st \<longleftrightarrow> graph_ok jt st \<and> leases_ok st \<and> sources_ok st \<and> statuses_ok st \<and> (\<forall>i. single st i)"

section \<open>Transition systems with an invariant\<close>

locale invariant =
  fixes step :: "'s \<Rightarrow> 's \<Rightarrow> bool" and inv :: "'s \<Rightarrow> bool"
  assumes step_inv: "step s s' \<Longrightarrow> inv s \<Longrightarrow> inv s'"
begin

lemma reachable_inv: "step\<^sup>*\<^sup>* s s' \<Longrightarrow> inv s \<Longrightarrow> inv s'"
  by (induction rule: rtranclp_induct) (auto intro: step_inv)

end

section \<open>What the steps change\<close>

text \<open>The tables that matter for the invariant and are the same after most steps.\<close>

lemma store_okI:
  assumes "store_ok jt st" "graph_ok jt st'" "leases_ok st'" "\<And>n. row st' n = None \<longleftrightarrow> row st n = None"
    and "st_CustomStatuses st' = st_CustomStatuses st"
    and "\<And>pl d. d \<in> set (st_Deps st' pl) \<Longrightarrow> (\<exists>d'\<in>set (st_Deps st pl). dr_IssueID d' = dr_IssueID d) \<or> row st (pl, dr_IssueID d) \<noteq> None"
  shows "store_ok jt st'"
proof -
  have "row st' (pl, dr_IssueID d) \<noteq> None" if "d \<in> set (st_Deps st' pl)" for pl d
    using assms(6) [OF that] sources_okD [of st _ pl] assms(1) unfolding assms(4) store_ok_def by metis
  then have "sources_ok st'" by (simp add: sources_ok_def list_all_iff)
  moreover have "single st' i" for i using assms(1) by (simp add: store_ok_def single_def assms(4))
  ultimately show ?thesis using assms(1-3, 5) by (simp add: store_ok_def statuses_ok_def)
qed

text \<open>Rows that look alike to the graph.\<close>

fun alike :: "Issue option \<Rightarrow> Issue option \<Rightarrow> bool" where
  "alike None None = True"
| "alike (Some r) (Some s) = (i_IsBlocked s = i_IsBlocked r \<and> (i_Status s = i_Status r \<or> live (i_Status r) \<and> live (i_Status s)))"
| "alike _ _ = False"

lemma alike_refl [simp]: "alike x x"
  by (cases x) simp_all

lemma alike_flags: "alike (row st n) (row st' n) \<Longrightarrow> live_row st' n = live_row st n \<and> closed_row st' n = closed_row st n \<and> flagged st' n = flagged st n"
  by (cases "row st n"; cases "row st' n") (auto simp: live_row_def closed_row_def flagged_def live_def)

lemma alike_None: "alike x y \<Longrightarrow> y = None \<longleftrightarrow> x = None"
  by (cases x; cases y) simp_all

lemma graph_ok_alike:
  assumes "graph_ok jt st" "st_Deps st' = st_Deps st" "\<And>n. alike (row st n) (row st' n)"
  shows "graph_ok jt st'"
  by (rule graph_ok_unchanged [OF assms(1, 2)]) (use alike_flags assms(3) in blast)+

lemma store_ok_alike:
  assumes "store_ok jt st" "\<And>n. alike (row st n) (row st' n)" "st_Deps st' = st_Deps st"
    "st_CustomStatuses st' = st_CustomStatuses st" "leases_ok st'"
  shows "store_ok jt st'"
proof (rule store_okI [OF assms(1)])
  show "graph_ok jt st'" using graph_ok_alike [of jt st st'] assms by (simp add: store_ok_def)
  show "row st' n = None \<longleftrightarrow> row st n = None" for n by (rule alike_None [OF assms(2)])
qed (use assms in auto)

lemma store_ok_writes:
  assumes "store_ok jt st" "writes st st' n r' leases" "row st n = Some r" "leases_ok st'"
    and "live (i_Status r)" "live (i_Status r')" "i_IsBlocked r' = i_IsBlocked r"
  shows "store_ok jt st'"
  by (rule store_ok_alike [OF assms(1)]) (use assms in \<open>auto simp: writes_def\<close>)

lemma store_ok_restated:
  assumes "store_ok jt st" "graph_ok jt st'" "restated st st' n r'" "row st n \<noteq> None"
  shows "store_ok jt st'"
  by (rule store_okI [OF assms(1, 2)])
    (use assms restated_leases [OF _ assms(3)] restated_rows(1) [OF assms(3, 4)] in \<open>auto simp: store_ok_def restated_def\<close>)

lemma rows_kept_leases:
  assumes "leases_ok st" "rows_kept st st'"
  shows "leases_ok st'"
proof -
  have "lease_of st' i l" if L: "lease_of st i l" for i l
  proof -
    have "map_option unflag (row st' (Durable, i)) = map_option unflag (row st (Durable, i))" using assms(2) unfolding rows_kept_def by blast
    note u = unflag_status(1, 2) [OF this]
    obtain r where r: "row st (Durable, i) = Some r" "i_Status r = StatusInProgress" "actorMatches (i_Assignee r) (l_Holder l)"
      using L by (auto simp: lease_of_def)
    then obtain r' where "row st' (Durable, i) = Some r'" "i_Status r' = i_Status r" "i_Assignee r' = i_Assignee r"
      using u by auto
    then show ?thesis using r by (simp add: lease_of_def)
  qed
  then show ?thesis using assms by (simp add: leases_ok_def rows_kept_def rest_same_def)
qed

lemma store_ok_edges:
  assumes "store_ok jt st" "graph_ok jt st'" "rows_kept st st'"
    and "\<And>pl d. d \<in> set (st_Deps st' pl) \<Longrightarrow> (\<exists>d'\<in>set (st_Deps st pl). dr_IssueID d' = dr_IssueID d) \<or> row st (pl, dr_IssueID d) \<noteq> None"
  shows "store_ok jt st'"
proof (rule store_okI [OF assms(1, 2)])
  show "leases_ok st'" using rows_kept_leases [OF _ assms(3)] assms(1) by (simp add: store_ok_def)
  show "row st' n = None \<longleftrightarrow> row st n = None" for n
    using assms(3) unfolding rows_kept_def by (metis unflag_status(3))
qed (use assms in \<open>auto simp: rows_kept_def rest_same_def\<close>)

section \<open>Every step keeps the invariant\<close>

text \<open>The statuses a claim starts from are live.\<close>

lemma parsed_statuses_live:
  assumes "ParseCustomStatusConfig v = Inr css" "c \<in> set css"
  shows "live (cs_Name c)"
proof -
  have "list_all custom_status_ok css"
    using assms(1) parse_status_parts_ok [of "[]" "split_byte (CHR '','') (trim_space v)" css]
    by (auto simp: ParseCustomStatusConfig_def Let_def bindE_eq_Inr_iff split: if_splits)
  then show ?thesis using assms(2) by (auto simp: list_all_iff custom_status_ok_def builtInStatusNames_def live_def)
qed

lemma claimable_live:
  assumes "statuses_ok st" "s \<in> set (ClaimableSourceStatusesInTx en st)"
  shows "live s"
proof -
  have "live (cs_Name c)" if c: "c \<in> set (ResolveCustomStatusesDetailedInTx en st)" "cs_Category c = CategoryActive" for c
  proof (cases "st_CustomStatuses st = []")
    case False
    then show ?thesis using assms(1) c(1) by (simp add: ResolveCustomStatusesDetailedInTx_def statuses_ok_def list_all_iff)
  next
    case True
    then have "(\<exists>v css. ParseCustomStatusConfig v = Inr css \<and> c \<in> set css) \<or> cs_Category c = CategoryUnspecified"
      using c(1) by (auto simp: ResolveCustomStatusesDetailedInTx_def ParseStatusFallback_def Let_def split: if_splits sum.splits) metis+
    then show ?thesis using c(2) parsed_statuses_live by auto
  qed
  then show ?thesis using assms(2) by (auto simp: ClaimableSourceStatusesInTx_def live_def)
qed

lemma claim_keeps:
  assumes "store_ok jt st" "ClaimIssueInTx en st i actor = Inr (res, st')"
  shows "store_ok jt st'"
proof -
  have s: "single st i" "leases_ok st" "statuses_ok st" using assms(1) by (simp_all add: store_ok_def)
  show ?thesis
    using s(1) assms(2)
  proof (cases rule: ClaimIssueInTx_cases)
    case (won r leases)
    have "live (i_Status r)" using won(2) claimable_live [OF s(3)] by (auto simp: claim_hit_def)
    then show ?thesis
      using store_ok_writes [OF assms(1) won(4, 1) ClaimIssueInTx_leases [OF s(2, 1) assms(2)]] by (simp add: live_def)
  qed (use assms(1) in simp)
qed

lemma claim_first_keeps: "claim_first en st is actor = Inr (res, st') \<Longrightarrow> store_ok jt st \<Longrightarrow> store_ok jt st'"
proof (induction "is")
  case (Cons i "is")
  show ?case
  proof (cases "ClaimIssueInTx en st i actor")
    case (Inl e)
    then show ?thesis using Cons by (cases e) simp_all
  next
    case (Inr p)
    then have "ClaimIssueInTx en st i actor = Inr (fst p, st')"
      using Cons.prems(1) by (cases p) (auto simp: bindE_eq_Inr_iff)
    then show ?thesis using claim_keeps Cons.prems(2) by blast
  qed
qed simp

lemma release_keeps:
  assumes "store_ok jt st" "release_cas en st i actor old mismatch = Inr st'"
  shows "store_ok jt st'"
proof -
  have L: "leases_ok st" using assms(1) by (simp add: store_ok_def)
  obtain r where r: "row st (home st i) = Some r" "i_Status r \<in> {StatusOpen, StatusInProgress}"
    "writes st st' (home st i) (released_row en i r) ((st_Leases st)(i := None))" by (rule release_cas_Inr [OF assms(2)])
  show ?thesis
    by (rule store_ok_writes [OF assms(1) r(3, 1) release_cas_leases [OF L assms(2)]])
      (use r(2) in \<open>auto simp: released_row_def live_def\<close>)
qed

lemma lease_keeps:
  assumes "store_ok jt st" "leases_ok st'" "row st' = row st" "st_Deps st' = st_Deps st" "st_CustomStatuses st' = st_CustomStatuses st"
  shows "store_ok jt st'"
  by (rule store_ok_alike [OF assms(1)]) (use assms in simp_all)

lemma heartbeat_keeps:
  assumes "store_ok jt st" "HeartbeatIssueInTx en st i actor = Inr st'"
  shows "store_ok jt st'"
proof -
  obtain l where "st' = set_lease i (Some l) st" by (rule HeartbeatIssueInTx_cases [OF assms(2)])
  moreover have "leases_ok st'" using HeartbeatIssueInTx_leases [OF _ assms(2)] assms(1) by (simp add: store_ok_def)
  ultimately show ?thesis by (intro lease_keeps [OF assms(1)]) simp_all
qed

lemma restore_keeps:
  assumes "store_ok jt st" "RestoreLeaseOnImportInTx en st issue isNew = Inr st'"
  shows "store_ok jt st'"
proof (rule lease_keeps [OF assms(1)])
  show "leases_ok st'" using RestoreLeaseOnImportInTx_leases [OF _ assms(2)] assms(1) by (simp add: store_ok_def)
  have "\<exists>st1. (st1 = st \<or> (\<exists>l. st1 = set_lease (i_ID issue) l st)) \<and> (st' = st1 \<or> st' = reconcile_lease st1 (i_ID issue))"
    using assms(2)
    by (auto simp: RestoreLeaseOnImportInTx_def restore_lease_def Let_def split: option.splits if_splits)
  moreover have "reconcile_lease st1 i = st1 \<or> reconcile_lease st1 i = set_lease i None st1" for st1 i
    by (simp add: reconcile_lease_def DeleteLeaseInTx_def split: option.split)
  ultimately obtain st1 where "st1 = st \<or> (\<exists>l. st1 = set_lease (i_ID issue) l st)" "st' = st1 \<or> st' = set_lease (i_ID issue) None st1"
    by metis
  then show "row st' = row st" "st_Deps st' = st_Deps st" "st_CustomStatuses st' = st_CustomStatuses st" by auto
qed

lemma reclaim_keeps:
  assumes "store_ok jt st" "ReclaimExpiredLeasesInTx en st cutoff f order actor = Inr (res, st')" "distinct order"
  shows "store_ok jt st'"
proof -
  let ?S = "{i \<in> set order. stale_claim en st cutoff f i}"
  obtain res' st'' where "ReclaimExpiredLeasesInTx en st cutoff f order actor = Inr (res', st'')" "swept en st st'' ?S"
    by (rule reclaim_sweeps [OF assms(3)])
  then have w: "swept en st st' ?S" using assms(2) by simp
  have st: "\<exists>r. row st (Durable, i) = Some r \<and> i_Status r = StatusInProgress" if "i \<in> ?S" for i
    using that by (auto simp: stale_claim_def)
  have L: "leases_ok st" using assms(1) by (simp add: store_ok_def)
  have "leases_ok st'"
    unfolding leases_ok_def
  proof (intro allI impI)
    fix i l
    assume l: "st_Leases st' i = Some l"
    then have "i \<notin> ?S" "st_Leases st i = Some l" using w by (auto simp: swept_def split: if_splits)
    moreover from this(1) have "row st' (Durable, i) = row st (Durable, i)" using w by (auto simp: swept_def)
    ultimately show "lease_of st' i l" using leases_okD [OF L] by (simp add: lease_of_def)
  qed
  moreover have "alike (row st n) (row st' n)" for n
  proof (cases "fst n = Durable \<and> snd n \<in> ?S")
    case True
    then obtain r where "row st n = Some r" "i_Status r = StatusInProgress" using st [of "snd n"] by (cases n) auto
    moreover have "row st' n = map_option (released_row en (snd n)) (row st n)" using w True unfolding swept_def by meson
    ultimately show ?thesis by (simp add: released_row_def live_def)
  next
    case False
    then have "row st' n = row st n" using w unfolding swept_def by meson
    then show ?thesis by simp
  qed
  ultimately show ?thesis using w by (intro store_ok_alike [OF assms(1)]) (simp_all add: swept_def)
qed

lemma close_keeps:
  assumes "store_ok jt st" "closeIssueInTx en jt st i reason actor session recordEvent = Some (Inr (res, st'))"
  shows "store_ok jt st'"
proof (cases "row st (home st i)")
  case None
  then show ?thesis using assms(2) closeIssueInTx_other(1) [OF None] by simp
next
  case (Some r)
  have G: "graph_ok jt st" using assms(1) by (simp add: store_ok_def)
  show ?thesis
  proof (cases "i_Status r = StatusClosed")
    case True
    have "st' = st"
      using closeIssueInTx_other(2) [OF Some True, of en jt reason actor session recordEvent] assms(2) by auto
    then show ?thesis using assms(1) by simp
  next
    case False
    obtain res2 st2 where "closeIssueInTx en jt st i reason actor session recordEvent = Some (Inr (res2, st2))"
      "graph_ok jt st2" "restated st st2 (home st i) (close_row en i reason session r)"
      by (rule closeIssueInTx_closes [OF G Some False])
    then show ?thesis using store_ok_restated [OF assms(1)] assms(2) Some by simp
  qed
qed

lemma close_checked_keeps:
  assumes "store_ok jt st" "CloseIssueCheckedInTx en jt st i reason actor session force expected = Some (Inr (res, st'))"
  shows "store_ok jt st'"
proof -
  obtain res' where "CloseIssueInTx en jt st i reason actor session = Some (Inr (res', st'))"
    using assms(2)
    by (auto simp: CloseIssueCheckedInTx_def closeIssueCheckedAfterSavepoint_def bindE_eq_Inr_iff split: option.splits sum.splits)
  then show ?thesis using close_keeps [OF assms(1)] by (simp add: CloseIssueInTx_def)
qed

lemma reopen_keeps:
  assumes "store_ok jt st" "ReopenIssueInTx en jt st i reason actor = Some (Inr (res, st'))"
  shows "store_ok jt st'"
proof (cases "row st (home st i)")
  case None
  then show ?thesis using assms(2) reopenIssueInTx_other(1) [OF None] by (simp add: ReopenIssueInTx_def)
next
  case (Some r)
  have G: "graph_ok jt st" using assms(1) by (simp add: store_ok_def)
  note R = assms(2) [unfolded ReopenIssueInTx_def]
  show ?thesis
  proof (cases "ReopenCategoryInTx en st (i_Status r) = CategoryDone")
    case False
    have "st' = st" using reopenIssueInTx_other(2) [OF Some False, of jt reason actor True] R by auto
    then show ?thesis using assms(1) by simp
  next
    case True
    obtain res2 st2 where "reopenIssueInTx en jt st i reason actor True = Some (Inr (res2, st2))"
      "graph_ok jt st2" "restated st st2 (home st i) (reopen_row en i r)"
      by (rule reopenIssueInTx_reopens [OF G Some True])
    then show ?thesis using store_ok_restated [OF assms(1)] R Some by simp
  qed
qed

lemma update_keeps:
  assumes "store_ok jt st" "updateIssueInTx en ue jt st i updates actor recordEvent = Some (Inr (res, st'))"
    and "distinct (map fst updates)" "plain_assignee updates"
    and "\<forall>r. row st (home st i) = Some r \<longrightarrow> \<not> swaps (i_Status r) (landed r updates)"
  shows "store_ok jt st'"
proof -
  have s: "graph_ok jt st" "leases_ok st" "single st i" using assms(1) by (simp_all add: store_ok_def)
  obtain force named where pop: "PopForceClosePolicy updates = (force, named)" by fastforce
  show ?thesis
    using s assms(3) pop
  proof (cases rule: updateIssueInTx_runs [where en = en and ue = ue and actor = actor and recordEvent = recordEvent])
    case (changed r u r' res2 st2)
    then have w: "graph_ok jt st'" "leases_ok st'" "rewritten st st' (home st i) r'" "row st (home st i) \<noteq> None"
      using assms(2, 4, 5) by (auto simp: graph_ok_def)
    show ?thesis
      by (rule store_okI [OF assms(1) w(1, 2) rewritten_None [OF w(3, 4)]]) (use w(3) in \<open>auto simp: rewritten_def\<close>)
  qed (use assms(1, 2) in auto)
qed

lemma awoken_keeps:
  assumes "store_ok jt st" "awoken en st st' S" "\<And>n. n \<in> S \<Longrightarrow> due en st n"
  shows "store_ok jt st'"
proof (rule store_ok_alike [OF assms(1)])
  show "alike (row st n) (row st' n)" for n
  proof -
    have "row st' n = (if n \<in> S then map_option (awake_row en (snd n)) (row st n) else row st n)"
      using assms(2) unfolding awoken_def by blast
    then show ?thesis using assms(3) [of n] by (auto simp: due_def awake_row_def live_def)
  qed
  have L: "leases_ok st" using assms(1) by (simp add: store_ok_def)
  show "leases_ok st'"
    unfolding leases_ok_def
  proof (intro allI impI)
    fix i l
    assume "st_Leases st' i = Some l"
    then have "lease_of st i l" using assms(2) leases_okD [OF L] by (simp add: awoken_def)
    then obtain r where r: "row st (Durable, i) = Some r" "i_Status r = StatusInProgress" "actorMatches (i_Assignee r) (l_Holder l)"
      by (auto simp: lease_of_def)
    then have "(Durable, i) \<notin> S" using assms(3) by (force simp: due_def)
    then show "lease_of st' i l" using r assms(2) by (simp add: awoken_def lease_of_def)
  qed
qed (use assms(2) in \<open>simp_all add: awoken_def\<close>)

lemma wake_table_keeps:
  assumes "store_ok jt st" "wakeExpiredDefersInTable en pl st order = Inr (ids, st')" "distinct order"
  shows "store_ok jt st'"
proof -
  let ?ids = "filter (\<lambda>i. case row st (pl, i) of None \<Rightarrow> False | Some r \<Rightarrow> expired_defer en r) order"
  have D: "due en st (pl, i)" if "i \<in> set ?ids" for i using that by (auto simp: due_iff)
  then obtain st2 where w: "wake_all en pl st ?ids = Inr (?ids, st2)" "awoken en st st2 (Pair pl ` set ?ids)"
    using wake_all_hits [of ?ids en st pl] assms(3) by auto
  then have "st2 = st'" using assms(2) by (simp add: wakeExpiredDefersInTable_def)
  then show ?thesis using awoken_keeps [OF assms(1) w(2)] D by auto
qed

lemma wake_keeps:
  assumes "store_ok jt st" "WakeExpiredDefersInTx en st orders = Inr (res, st')" "\<And>pl. distinct (orders pl)"
  shows "store_ok jt st'"
proof -
  obtain issues wisps st1 where "wakeExpiredDefersInTable en Durable st (orders Durable) = Inr (issues, st1)"
    "wakeExpiredDefersInTable en Ephemeral st1 (orders Ephemeral) = Inr (wisps, st')"
    using assms(2) by (auto simp: WakeExpiredDefersInTx_def bindE_eq_Inr_iff)
  then show ?thesis using wake_table_keeps assms(1, 3) by blast
qed

lemma add_keeps:
  assumes "store_ok jt st" "addDependencyInTx jt st dep actor opts = Some (Inr (b, st'))" "usual_opts opts" "d_DependsOnID dep \<noteq> []"
    and "\<not> refreshes_waits st dep opts"
  shows "store_ok jt st'"
proof -
  have G: "graph_ok jt st" using assms(1) by (simp add: store_ok_def)
  have o: "\<not> ao_SkipCycleCheck opts" "ao_DepTables opts = []" "ao_PrecheckedTarget opts = None" "ao_WriteTable opts = ao_SourceTable opts"
    using assms(3) by (simp_all add: usual_opts_def)
  obtain r where r: "addDependencyInTx jt st dep actor opts = Some r"
    "\<And>b st'. r = Inr (b, st') \<Longrightarrow> graph_ok jt st' \<and> rows_kept st st' \<and> add_checks st dep opts = None \<and>
       (\<forall>pl. \<forall>d\<in>set (st_Deps st' pl). (\<exists>d'\<in>set (st_Deps st pl). dr_IssueID d' = dr_IssueID d) \<or>
          pl = write_plane st dep opts \<and> dr_IssueID d = d_IssueID dep)"
    by (rule addDependency_ok [OF G o(1-3) assms(4), of actor]) (use assms(5) in \<open>auto simp: graph_ok_def\<close>)
  have K: "graph_ok jt st'" "rows_kept st st'" "add_checks st dep opts = None"
    "\<And>pl d. d \<in> set (st_Deps st' pl) \<Longrightarrow> (\<exists>d'\<in>set (st_Deps st pl). dr_IssueID d' = dr_IssueID d) \<or>
       pl = write_plane st dep opts \<and> dr_IssueID d = d_IssueID dep"
    using r(1) r(2) [of b st'] assms(2) by auto
  have "row st (write_plane st dep opts, d_IssueID dep) \<noteq> None"
    using K(3) o(4) by (auto simp: add_checks_def check_endpoints_def write_plane_def Let_def split: option.splits)
  then show ?thesis using K(4) by (intro store_ok_edges [OF assms(1) K(1, 2)]) metis
qed

lemma remove_keeps:
  assumes "store_ok jt st" "removeDependencyInTx jt st source target actor emit = Some (Inr (b, st'))" "target \<noteq> []"
  shows "store_ok jt st'"
proof -
  have G: "graph_ok jt st" using assms(1) by (simp add: store_ok_def)
  obtain b2 st2 where "removeDependencyInTx jt st source target actor emit = Some (Inr (b2, st2))" "graph_ok jt st2"
    "rows_kept st st2" "\<And>pl. set (st_Deps st2 pl) \<subseteq> set (st_Deps st pl)" by (rule removeDependency_ok [OF G assms(3), of source actor emit]) blast
  then show ?thesis using assms(2) by (intro store_ok_edges [OF assms(1)]) auto
qed

lemma removed_keeps:
  assumes "store_ok jt st" "graph_ok jt st'" "removed D st st'"
  shows "store_ok jt st'"
  using assms(1, 2) removed_leases [OF assms(3)] removed_sources [OF assms(3)] removed_single [OF assms(3)]
  by (simp add: store_ok_def statuses_ok_def removedD(5) [OF assms(3)])

lemma delete_keeps:
  assumes "store_ok jt st" "DeleteIssueInTx jt st i = Some (Inr st')"
  shows "store_ok jt st'"
proof -
  have G: "graph_ok jt st" using assms(1) by (simp add: store_ok_def)
  then have "row st (home st i) \<noteq> None" using DeleteIssueInTx_absent assms(2) by fastforce
  with G obtain st2 where "DeleteIssueInTx jt st i = Some (Inr st2)" "graph_ok jt st2" "removed {home st i} st st2"
    by (rule DeleteIssueInTx_present)
  then show ?thesis using removed_keeps [OF assms(1)] assms(2) by simp
qed

lemma delete_many_keeps:
  assumes "store_ok jt st" "DeleteIssuesInTx jt st ids cascade force dryRun = Some (Inr (res, st'))"
  shows "store_ok jt st'"
proof -
  have "graph_ok jt st" "leases_ok st" using assms(1) by (simp_all add: store_ok_def)
  then show ?thesis using DeleteIssuesInTx_Inr assms removed_keeps [OF assms(1)] by blast
qed

lemma step_keeps: "step jt st st' \<Longrightarrow> store_ok jt st \<Longrightarrow> store_ok jt st'"
proof (induction rule: step.induct)
  case (unclaim en st i actor force st')
  then show ?case using release_keeps by (metis UnclaimIssueInTx_cas)
next
  case (unclaim_if en st i actor expected st')
  then show ?case using release_keeps by (metis UnclaimIssueIfAssigneeInTx_cas)
qed (blast intro: claim_keeps claim_first_keeps heartbeat_keeps reclaim_keeps restore_keeps close_keeps close_checked_keeps
    reopen_keeps update_keeps wake_keeps add_keeps remove_keeps delete_keeps delete_many_keeps)+

interpretation lifecycle: invariant "step jt" "store_ok jt" for jt
  by unfold_locales (rule step_keeps)

text \<open>
  C2: whatever sequence of claims, heartbeats, releases, reclaims, imports of leases, closes, reopenings,
  generic updates, wake-ups, changes of dependencies and deletions runs on tables in order, the tables are in order
  afterwards: every \<open>is_blocked\<close> flag agrees with the edges and the statuses, scheduling edges have no
  cycle, and every lease belongs to an issue in progress whose assignee is its holder. The sequences are those
  of \<open>step\<close>: no second waits-for edge for a pair, no update between closed and pinned or to an assignee
  that is neither nil nor a string, and edges added with the cycle check on, the target unchecked and
  the table that of the source.
\<close>

theorem store_ok_reachable:
  assumes "store_ok jt st" "(step jt)\<^sup>*\<^sup>* st st'"
  shows "blocked_ok jt st' \<and> acyclic (scheduling st') \<and> deps_wf st' \<and> leases_ok st' \<and> sources_ok st' \<and> (\<forall>i. single st' i)"
  using lifecycle.reachable_inv [OF assms(2, 1)] by (simp add: store_ok_def graph_ok_def)

text \<open>The second of two tasks is closed and reopened.\<close>

lemma one_blocked_store_ok: "store_ok no_json one_blocked"
  using one_blocked_facts by (simp add: store_ok_def statuses_ok_def one_blocked_def small_store_def empty_store_def)

theorem store_ok_reachable_witness:
  "\<exists>st'. (step no_json)\<^sup>*\<^sup>* one_blocked st' \<and> closed_row st' (Durable, ''bd-2'') \<and> blocked_ok no_json st'"
proof -
  obtain res st' where c: "closeIssueInTx clock no_json one_blocked ''bd-2'' ''done'' ''alice'' ''s1'' True = Some (Inr (res, st'))"
    "restated one_blocked st' (home one_blocked ''bd-2'') (close_row clock ''bd-2'' ''done'' ''s1'' (task (''bd-2'', StatusOpen, False)))"
    by (rule closeIssueInTx_closes [OF one_blocked_facts(1), of "''bd-2''" "task (''bd-2'', StatusOpen, False)"])
      (use one_blocked_facts(4, 6) in \<open>simp_all add: task_def\<close>)
  have s: "(step no_json)\<^sup>*\<^sup>* one_blocked st'" using step.close [OF c(1)] by blast
  obtain r' where "row st' (Durable, ''bd-2'') = Some r'"
    "unflag r' = unflag (close_row clock ''bd-2'' ''done'' ''s1'' (task (''bd-2'', StatusOpen, False)))"
    using restated_at [OF c(2)] one_blocked_facts(4) by metis
  then have "closed_row st' (Durable, ''bd-2'')" using unflag_eqD(1) by (force simp: closed_row_def)
  then show ?thesis using s store_ok_reachable [OF one_blocked_store_ok s] by blast
qed

section \<open>A claim can change hands\<close>

lemma release_cas_succeeds:
  assumes "row st (home st i) = Some r" "i_Status r \<in> {StatusOpen, StatusInProgress}" "i_RowVersion r = i_RowVersion old"
  shows "\<exists>st'. release_cas en st i actor old mismatch = Inr st'"
proof -
  define st1 where "st1 = RecordFullEventInTable (DeleteLeaseInTx (set_row (home st i) (Some (released_row en i r)) st) i) (plane_of st i) i
    ''unclaimed'' actor (EventIssue old) (EventFields [(''assignee'', []), (''status'', StatusOpen)])"
  have "row st1 (home st i) = Some (released_row en i r)" by (simp add: st1_def DeleteLeaseInTx_def)
  then have "\<exists>st'. RecordEventInTx st1 EventUpdate i = Inr st'" using RecordEventInTx_after by fastforce
  then show ?thesis using assms by (simp add: release_cas_def Let_def finishUnclaimInTx_def st1_def)
qed

text \<open>
  C14: work in progress can be handed over. The holder, in any spelling of its name, can release the
  claim, and then any other actor can claim the issue: it is in progress again, assigned to the new actor,
  and leased to it when it is durable.
\<close>

theorem handover:
  assumes "single st i" "row st (home st i) = Some r" "i_Status r = StatusInProgress" "i_Assignee r \<noteq> []"
    and "actorMatches (i_Assignee r) a" "rune_count b \<le> MaxFieldLen"
  shows "\<exists>st1 res st2 r2. UnclaimIssueInTx en st i a False = Inr st1 \<and> st_Leases st1 i = None \<and>
    ClaimIssueInTx en' st1 i b = Inr (res, st2) \<and> row st2 (home st i) = Some r2 \<and> i_Assignee r2 = b \<and> i_Status r2 = StatusInProgress \<and>
    (plane_of st i = Durable \<longrightarrow> (\<exists>l. st_Leases st2 i = Some l \<and> l_Holder l = b))"
proof -
  let ?n = "home st i" and ?old = "with_lease (st_Leases st i) (r\<lparr>i_IsBlocked := False\<rparr>)"
  have get: "GetIssueInTx st i = Inr ?old" using assms(2) by (simp add: GetIssueInTx_home [OF assms(1)])
  have "UnclaimIssueInTx en st i a False = release_cas en st i a ?old (\<lambda>x. if \<not> actorMatches x a then Some (ErrNotOwner i x) else None)"
    using assms(3-5) by (simp add: UnclaimIssueInTx_def get)
  moreover obtain st1 where u: "release_cas en st i a ?old (\<lambda>x. if \<not> actorMatches x a then Some (ErrNotOwner i x) else None) = Inr st1"
    using release_cas_succeeds [OF assms(2), of ?old en a] assms(3) by fastforce
  moreover have w: "writes st st1 ?n (released_row en i r) ((st_Leases st)(i := None))"
    by (rule release_cas_Inr [OF u]) (use assms(2) in simp)
  have h: "home st1 i = ?n" "single st1 i"
    using writes_same_home [OF w] writes_single [OF w assms(1)] assms(2) by simp_all
  have r1: "row st1 (home st1 i) = Some (released_row en i r)" unfolding h using w by (simp add: writes_def)
  have hit: "claim_hit en' st1 b (released_row en i r)"
    by (simp add: claim_hit_def assignee_ok_def released_row_def ClaimableSourceStatusesInTx_def)
  have len: "CheckFieldLen ''actor'' b = None" using assms(6) by (simp add: CheckFieldLen_def Let_def)
  obtain res st2 where c: "ClaimIssueInTx en' st1 i b = Inr (res, st2)"
    "writes st1 st2 (home st1 i) (claimed_row en' i b (with_lease (st_Leases st1 i) ((released_row en i r)\<lparr>i_IsBlocked := False\<rparr>)) (released_row en i r))
      (if IsActiveWispInTx st1 i then st_Leases st1 else (st_Leases st1)(i \<mapsto> \<lparr>l_Holder = b, l_GrantedAt = en_Now en',
          l_ExpiresAt = time_Add (en_Now en') (leaseTTL en'), l_HeartbeatAt = en_Now en', l_GrantedNode = en_Node en'\<rparr>))"
    by (rule ClaimIssueInTx_won [OF h(2) r1 len hit])
  have "plane_of st i = Durable \<longrightarrow> \<not> IsActiveWispInTx st1 i"
    using h(1) by (auto simp: plane_of_def WispTableRouting_def split: if_splits)
  moreover have "st_Leases st1 i = None" using w by (simp add: writes_def)
  ultimately show ?thesis using c unfolding h by (auto simp: writes_def)
qed

theorem handover_witness:
  "\<exists>st1 res st2 r2. UnclaimIssueInTx clock stale_task ''bd-1'' ''alice'' False = Inr st1 \<and>
     ClaimIssueInTx clock st1 ''bd-1'' ''bob'' = Inr (res, st2) \<and> row st2 (Durable, ''bd-1'') = Some r2 \<and> i_Assignee r2 = ''bob''"
proof -
  have r: "row stale_task (pl, i) = (if pl = Durable \<and> i = ''bd-1''
      then Some (zero_issue\<lparr>i_ID := ''bd-1'', i_Status := StatusInProgress, i_Assignee := ''alice''\<rparr>) else None)" for pl i
    by (simp add: stale_task_def) (simp add: row_def empty_store_def)
  have h: "home stale_task ''bd-1'' = (Durable, ''bd-1'')" "single stale_task ''bd-1''"
    by (simp_all add: plane_of_def WispTableRouting_def IsActiveWispInTx_def single_def r)
  have "rune_count ''bob'' \<le> MaxFieldLen" by code_simp
  then show ?thesis
    using handover [OF h(2), of _ "''alice''" "''bob''" clock clock] unfolding h(1) r
    by (fastforce simp: actorMatches_equiv(1))
qed

end
