(* ===== verification/Spec2Isabelle.thy ===== *)
theory Spec2Isabelle
  imports Issue_Ids Query_Semantics Search_Page Sql_Semantics Lifecycle
begin

text \<open>
  A verification development of the core of the issue tracker \<open>bd\<close> (package tree \<open>internal/\<close>).

  \<^bold>\<open>The program.\<close> \<open>bd\<close> keeps issues, their labels and their dependencies in a SQL database. The
  packages modelled here are the data model with its validation (\<open>internal/types\<close>), issue identifiers
  (\<open>internal/types/id_generator.go\<close>, \<open>internal/idgen\<close>, \<open>internal/utils/issue_id.go\<close>), relative times
  (\<open>internal/timeparsing\<close>), the query language (\<open>internal/query\<close>), the search of the storage layer
  (\<open>internal/storage/sqlbuild\<close>, \<open>internal/storage/issueops/search.go\<close>), and the writes of the storage
  layer that keep invariants across tables (\<open>internal/storage/issueops\<close>: \<open>dependencies.go\<close>,
  \<open>blocked_state.go\<close>, \<open>journal.go\<close>, \<open>claim.go\<close>, \<open>lease.go\<close>, \<open>unclaim.go\<close>, \<open>close.go\<close>, \<open>reopen.go\<close>,
  \<open>wake_defers.go\<close>). A query is lexed, parsed, and
  compiled either to an \<open>IssueFilter\<close> or to a filter and a Go predicate that is applied to every row
  the filter returns. The storage layer turns the filter into SQL, asks the table of durable issues
  and the table of wisps, merges the two answers in Go, and cuts the result to the limit. A write runs
  in one transaction: it changes rows, repairs the derived \<open>is_blocked\<close> column of every row the change
  can reach, and appends to the event journal.

  \<^bold>\<open>Theories.\<close>
  \<^item> \<open>GoPrelude\<close>: errors as sums (\<open>bindE\<close>), the functions of \<open>strings\<close> and \<open>strconv\<close> the code calls,
    64-bit wrap-around.
  \<^item> \<open>GoTime\<close>: \<open>time.Time\<close> as nanoseconds and a zone offset, civil dates, \<open>Add\<close> and \<open>AddDate\<close>.
    \<open>Time_Format\<close>: \<open>Format\<close> and \<open>Parse\<close> for RFC 3339 and SQL date-times, with their round trip.
  \<^item> \<open>GoJSON\<close>: the part of \<open>encoding/json\<close> the code relies on: validity, decoding of objects into raw
    members, and encoding with its round trip.
  \<^item> \<open>Status_Types\<close>: the string enumerations of \<open>types.go\<close> and the custom status configuration.
  \<^item> \<open>Issue_Model\<close>: the \<open>Issue\<close> struct, validation on create and on import, defaults, persistence
    planes, and the input of the content hash. SHA-256 is an argument.
  \<^item> \<open>Dependency_Types\<close>: edge types, edge constructors and their metadata, \<open>MergeMetadataRefs\<close>, the
    explanation of ready work.
  \<^item> \<open>Issue_Ids\<close>: hash IDs, hierarchical IDs, prefixes, natural order.
  \<^item> \<open>Time_Parsing\<close>: \<open>ParseCompactDuration\<close> and the layers of \<open>ParseRelativeTime\<close>. The
    natural-language parser is a third-party package and an argument.
  \<^item> \<open>Issue_Filter\<close>: the \<open>IssueFilter\<close> struct and \<open>filter_matches\<close>, the meaning of a filter.
  \<^item> \<open>Query_Lexer\<close>, \<open>Query_Parser\<close>, \<open>Query_Eval\<close>: \<open>lexer.go\<close>, \<open>parser.go\<close>, \<open>evaluator.go\<close>, function
    by function. \<open>Query_Semantics\<close> relates the two routes of the evaluator through the locales
    \<open>condition_compiler\<close> and \<open>exact_compiler\<close>, interpreted on the code's own compiler of literals.
  \<^item> \<open>Sql_Values\<close>: values of a SQL database in the order it sorts them, the stable sort of Go, and the
    locale \<open>ranking\<close>: what merging, cutting and sorting again rely on. \<open>Sql_Sort\<close> is \<open>sort.go\<close> and
    interprets \<open>ranking\<close> on \<open>Less\<close>.
  \<^item> \<open>Sql_Filter\<close>: \<open>filter.go\<close>, \<open>labels.go\<close>, \<open>reclaim.go\<close> and \<open>sqlbuild.go\<close>: the SQL text and the
    arguments, clause by clause. \<open>Sql_Semantics\<close> gives each clause a condition whose rendering is the
    text, and a meaning on rows (three-valued comparisons collapsed to "is true", LIKE with its escape
    character), and proves that the conjunction means the filter. What the database's JSON functions answer for
    a metadata path is a component of \<open>engine\<close>, and the reference meaning refers to it.
  \<^item> \<open>Search_Page\<close>: \<open>search.go\<close>. A transaction is a record of functions from SQL text and arguments to
    rows. A statement is also given by its parts (\<open>select_stmt\<close>): conditions, label joins, order keys and
    limit, from which its text is rendered and by which its answer is determined (\<open>yields\<close>); \<open>serves\<close> says that the
    transaction executes the three statements of a search so. It is proved that the code sends the
    rendered texts and that the answers are the rows the filter describes, in the order of \<open>Less\<close>.
  \<^item> \<open>Store_State\<close>: the tables as the record \<open>store\<close> with two planes, the durable tables and the wisp
    tables; routing of an ID to its plane, reading an issue, event rows, and the journal of
    \<open>journal.go\<close>. Recording in the journal is total and its numbers increase while they fit 64 bits.
  \<^item> \<open>Blocking_Graph\<close>: the locale \<open>blocking\<close>, the abstract account of the flags: a flag is right when it
    says that a node is blocked directly or below a blocked parent. \<open>Blocked_State\<close> is \<open>blocked_state.go\<close>:
    the mark and unmark statements, their loop to a fixpoint, and the closures of affected rows. Its
    invariant is \<open>blocked_ok\<close>; the loops end when the hierarchy has no cycle, and what they leave
    untouched was right before.
  \<^item> \<open>Dependency_Edges\<close>: adding and removing an edge (\<open>dependencies.go\<close>). The invariant \<open>graph_ok\<close> joins
    \<open>blocked_ok\<close>, unique edges and the absence of scheduling cycles. Two gaps of the code are characterised:
    a second waits-for edge for a pair replaces the gate and recomputes nothing, and the guard against
    blocking edges along the hierarchy depends on the order of the additions.
  \<^item> \<open>Claims\<close>: \<open>claim.go\<close>, \<open>lease.go\<close>, \<open>unclaim.go\<close>, \<open>identity.go\<close>. The invariant \<open>leases_ok\<close>: a lease belongs
    to an issue in progress and its holder is a spelling of the assignee.
  \<^item> \<open>Closing\<close>: \<open>close.go\<close>, \<open>reopen.go\<close>, \<open>version.go\<close> and \<open>wake_defers.go\<close>: the policy of a checked close, what
    closing and reopening do to the flags of other rows, and the sweep of expired defers.
  \<^item> \<open>Deletion\<close>: \<open>delete.go\<close>, \<open>journal_dependencies.go\<close> and the guard of \<open>delete_role.go\<close>: one issue, a list of
    issues, a cascade. The cascade is the closure under dependents, found by a worklist that ends; after a
    deletion the rows, their edges in both directions and their leases are gone and the flags right.
  \<^item> \<open>Updating\<close>: \<open>update.go\<close>, with the metadata edits of \<open>metadata.go\<close> and the scalar checks of
    \<open>aggregate.go\<close>: the generic update of any set of fields. An error is found before any write; an
    accepted update keeps flags and leases right and closing times in agreement with the status, answers
    to the close policy, and a metadata edit leaves the keys it does not name alone. How the database
    converts values of other types, the metadata schema and the custom issue types are \<open>update_env\<close>.
    An update between closed and pinned recomputes no flag; which flags are then stale is characterised.
  \<^item> \<open>Lifecycle\<close>: all writes as the steps of a transition system, with the locale \<open>invariant\<close> interpreted on
    them. \<open>store_ok\<close> joins the invariants of the components and holds in every reachable state. The writes that
    can break it (the two gaps in the flags, unusual assignee values, edges added with checks off) are no steps.

  \<^bold>\<open>Errors, state, loops.\<close> A Go error is the left side of a sum over an error datatype of the
  component; a function that mutates through a pointer returns the new record; a panic is an error
  value. The loops of the lexer and of the encoders are functions with a termination proof. The
  recursive-descent parser has fuel \<open>6 * length input + 12\<close> and the JSON scanner \<open>2 * length + 2\<close>; in
  both cases it is proved that the fuel never runs out. The loops over the database (the fixpoint of the
  flags, the closure of affected rows, reachability) are while loops with the value \<open>None\<close> if they do not
  end; that they end is part of the theorems.

  \<^bold>\<open>The database.\<close> The engine is third-party code: what the development assumes of it is in
  \<open>holds\<close> (what a condition means on a row), \<open>yields\<close> and \<open>serves\<close> (a statement returns the rows of its
  conditions and joins, in an order its keys allow, within its limit); nothing is assumed of its JSON functions and
  of \<open>REGEXP\<close>. Columns compare bytewise, NULL comes first. An assignee column without a name is NULL or the
  empty text, both of which the code writes. A time bound is formatted by the code to whole seconds with the offset
  it carries; the theorems are about bounds in UTC. The numbers of the journal are integers, which agree
  with the BIGINT columns below the largest 64-bit integer. For the writes the statements are modelled by what they do to \<open>store\<close>,
  each of them succeeds, and the number of affected rows is the number of matched rows. The wisp tables,
  which the code treats as optional, exist. \<open>JSON_EXTRACT\<close> on edge metadata is the argument \<open>jt\<close>. The
  clock, the random row locks, the lease time, the node name and the configuration file are the record
  \<open>env\<close>. Cells that only force conflicts between concurrent transactions are left out, as a transaction
  runs alone; with them the error for an empty ID in \<open>touchDependencyCoordinationInTx\<close>.

  \<^bold>\<open>Not modelled.\<close> Connections, migrations and version control of the SQL stores, the command line, the
  HTTP API and the integrations: they are input and output around the packages above. Case mapping is
  that of ASCII, as the identifiers, fields and keywords compared are ASCII. The JSON validator has no
  limit on nesting (Go stops at 10000 levels), and the encoder of strings neither escapes U+2028 and
  U+2029 nor replaces invalid UTF-8.
\<close>

end
